(* ===== verification/Prelude.thy ===== *)
theory Prelude
  imports Main "HOL-Library.Word" "HOL-Library.Multiset"
begin

unbundle bit_operations_syntax

text \<open>
  Shared types and lemmas of the development.  Go's byte slices are lists of 8-bit words;
  a Go function that returns a value and an error is a function into a sum, with the error
  on the left.  The functions of the Go standard library the sources call
  (\<open>math/bits\<close>, \<open>encoding/binary\<close>, \<open>encoding/hex\<close>) are defined here.  The collection
  \<open>go_defs\<close> gathers the straight-line definitions that the component proofs unfold.
\<close>

named_theorems go_defs "definitions of straight-line code, unfolded by the component proofs"

type_synonym byte = "8 word"
type_synonym bytes = "byte list"

subsection \<open>Results\<close>

text \<open>Sequencing of fallible calls: \<open>if err != nil { return err }\<close>.\<close>

definition bindE :: "'e + 'a \<Rightarrow> ('a \<Rightarrow> 'e + 'b) \<Rightarrow> 'e + 'b" where
  "bindE m f = (case m of Inl e \<Rightarrow> Inl e | Inr x \<Rightarrow> f x)"

lemma bindE_Inl [simp]: "bindE (Inl e) f = Inl e"
  by (simp add: bindE_def)

lemma bindE_Inr [simp]: "bindE (Inr x) f = f x"
  by (simp add: bindE_def)

lemma bindE_eq_Inr_iff [simp]: "bindE m f = Inr y \<longleftrightarrow> (\<exists>x. m = Inr x \<and> f x = Inr y)"
  by (cases m) auto

lemma bindE_eq_Inl_iff: "bindE m f = Inl e \<longleftrightarrow> m = Inl e \<or> (\<exists>x. m = Inr x \<and> f x = Inl e)"
  by (cases m) auto

lemma bindE_cong [fundef_cong]:
  "m = m' \<Longrightarrow> (\<And>x. m' = Inr x \<Longrightarrow> f x = g x) \<Longrightarrow> bindE m f = bindE m' g"
  by (cases m') auto

text \<open>\<open>if cond { return err }\<close> with nothing to return otherwise.\<close>

definition guardE :: "bool \<Rightarrow> 'e \<Rightarrow> 'e + unit" where
  "guardE ok e = (if ok then Inr () else Inl e)"

lemma guardE_simps [simp]: "guardE True e = Inr ()" "guardE False e = Inl e"
  by (simp_all add: guardE_def)

lemma guardE_eq_Inr_iff [simp]: "guardE ok e = Inr u \<longleftrightarrow> ok"
  by (cases ok) auto

lemma guardE_eq_Inl_iff [simp]: "guardE ok e = Inl e' \<longleftrightarrow> \<not> ok \<and> e' = e"
  by (cases ok) auto

definition is_ok :: "'e + 'a \<Rightarrow> bool" where
  "is_ok r = (case r of Inl _ \<Rightarrow> False | Inr _ \<Rightarrow> True)"

lemma is_ok_simps [simp]: "is_ok (Inr x)" "\<not> is_ok (Inl e)"
  by (simp_all add: is_ok_def)

lemma is_ok_iff: "is_ok r \<longleftrightarrow> (\<exists>x. r = Inr x)"
  by (cases r) auto

text \<open>A loop that calls a fallible function on each element and collects the results.\<close>

fun mapE :: "('a \<Rightarrow> 'e + 'b) \<Rightarrow> 'a list \<Rightarrow> 'e + 'b list" where
  "mapE f [] = Inr []"
| "mapE f (x # xs) = bindE (f x) (\<lambda>y. bindE (mapE f xs) (\<lambda>ys. Inr (y # ys)))"

lemma mapE_Inr_iff: "mapE f xs = Inr ys \<longleftrightarrow> list_all2 (\<lambda>x y. f x = Inr y) xs ys"
  by (induction xs arbitrary: ys) (auto simp: list_all2_Cons1)

lemma mapE_total: "(\<And>x. x \<in> set xs \<Longrightarrow> f x = Inr (g x)) \<Longrightarrow> mapE f xs = Inr (map g xs)"
  by (induction xs) auto

lemma mapE_range:
  assumes "\<And>i. i < n \<Longrightarrow> \<exists>y. f i = Inr y \<and> P i y"
  shows "\<exists>ys. mapE f [0..<n] = Inr ys \<and> length ys = n \<and> (\<forall>i<n. P i (ys ! i))"
proof -
  from assms obtain g where "\<And>i. i < n \<Longrightarrow> f i = Inr (g i) \<and> P i (g i)" by metis
  then show ?thesis by (intro exI [of _ "map g [0..<n]"]) (auto intro!: mapE_total)
qed

lemma mapE_cong [fundef_cong]:
  "xs = ys \<Longrightarrow> (\<And>x. x \<in> set ys \<Longrightarrow> f x = g x) \<Longrightarrow> mapE f xs = mapE g ys"
  by (induction ys arbitrary: xs) (auto intro: bindE_cong)

text \<open>A loop that only checks each element and stops at the first error.\<close>

fun checkE :: "('a \<Rightarrow> 'e + unit) \<Rightarrow> 'a list \<Rightarrow> 'e + unit" where
  "checkE f [] = Inr ()"
| "checkE f (x # xs) = bindE (f x) (\<lambda>_. checkE f xs)"

lemma checkE_Inr_iff [simp]: "checkE f xs = Inr u \<longleftrightarrow> (\<forall>x \<in> set xs. f x = Inr ())"
  by (induction xs) auto


subsection \<open>Big-endian bytes and length prefixes (\<open>encoding/binary\<close>)\<close>

definition be_bytes :: "nat \<Rightarrow> 'a::len word \<Rightarrow> bytes" where
  "be_bytes n w = map (\<lambda>i. ucast (drop_bit (8 * i) w)) (rev [0..<n])"

lemma length_be_bytes [simp]: "length (be_bytes n w) = n"
  by (simp add: be_bytes_def)

lemma be_bytes_inject:
  fixes w v :: "'a::len word"
  assumes "LENGTH('a) \<le> 8 * n"
  shows "be_bytes n w = be_bytes n v \<longleftrightarrow> w = v"
proof
  assume eq: "be_bytes n w = be_bytes n v"
  have byte_eq: "(ucast (drop_bit (8 * i) w) :: byte) = ucast (drop_bit (8 * i) v)" if "i < n" for i
    using eq that by (auto simp: be_bytes_def)
  show "w = v"
  proof (rule bit_eqI)
    fix k
    assume "possible_bit TYPE('a word) k"
    then have "k < LENGTH('a)" by simp
    with assms have "k div 8 < n" by simp
    from byte_eq [OF this]
    have "bit (ucast (drop_bit (8 * (k div 8)) w) :: byte) (k mod 8)
        = bit (ucast (drop_bit (8 * (k div 8)) v) :: byte) (k mod 8)" by simp
    then show "bit w k \<longleftrightarrow> bit v k"
      by (simp add: bit_ucast_iff bit_drop_bit_eq)
  qed
qed simp

text \<open>\<open>binary.BigEndian.AppendUint32(nil, uint32(n))\<close>: the conversion keeps the low 32 bits.\<close>

definition u32be :: "nat \<Rightarrow> bytes" where
  "u32be n = be_bytes 4 (of_nat n :: 32 word)"

lemma length_u32be [simp]: "length (u32be n) = 4"
  by (simp add: u32be_def)

lemma u32be_inject: "m < 2 ^ 32 \<Longrightarrow> n < 2 ^ 32 \<Longrightarrow> u32be m = u32be n \<longleftrightarrow> m = n"
  by (simp add: u32be_def be_bytes_inject word_unat_eq_iff unat_of_nat take_bit_nat_eq_self)

text \<open>A field with its length in front, the framing of every transcript and leaf.\<close>

definition lp :: "bytes \<Rightarrow> bytes" where
  "lp x = u32be (length x) @ x"

lemma lp_append_inject:
  assumes "length x < 2 ^ 32" "length y < 2 ^ 32"
  shows "lp x @ r = lp y @ s \<longleftrightarrow> x = y \<and> r = s"
proof
  assume eq: "lp x @ r = lp y @ s"
  then have "u32be (length x) = u32be (length y)"
    by (simp add: lp_def append_eq_append_conv)
  with assms have len: "length x = length y" by (simp add: u32be_inject)
  with eq show "x = y \<and> r = s" by (simp add: lp_def)
qed auto

lemma lp_inject: "length x < 2 ^ 32 \<Longrightarrow> length y < 2 ^ 32 \<Longrightarrow> lp x = lp y \<longleftrightarrow> x = y"
  using lp_append_inject [of x y "[]" "[]"] by simp

lemma lp_nonempty [simp]: "lp x \<noteq> []"
  by (auto simp: lp_def dest!: arg_cong [where f = length])

text \<open>A sequence of framed fields determines the fields.\<close>

lemma concat_lp_inject:
  assumes "\<forall>x \<in> set xs. length x < 2 ^ 32" "\<forall>y \<in> set ys. length y < 2 ^ 32"
  shows "concat (map lp xs) = concat (map lp ys) \<longleftrightarrow> xs = ys"
  using assms
proof (induction xs arbitrary: ys)
  case Nil
  then show ?case by (cases ys) auto
next
  case (Cons x xs)
  then show ?case by (cases ys) (auto simp: lp_append_inject)
qed

subsection \<open>Strings (\<open>[]byte(s)\<close>) and hexadecimal text (\<open>encoding/hex\<close>)\<close>

definition bytes_of :: "string \<Rightarrow> bytes" where
  "bytes_of s = map of_char s"

lemma length_bytes_of [simp]: "length (bytes_of s) = length s"
  by (simp add: bytes_of_def)

lemma of_char_byte_inject: "(of_char c :: byte) = of_char d \<longleftrightarrow> c = d"
proof
  assume "(of_char c :: byte) = of_char d"
  then have "unat (of_nat (of_char c) :: byte) = unat (of_nat (of_char d) :: byte)"
    by (simp add: of_nat_of_char)
  moreover have "(of_char x :: nat) < 256" for x :: char
    using of_char_mod_256 [of x, where ?'a = nat] by (metis mod_less_divisor zero_less_numeral)
  ultimately have "(of_char c :: nat) = of_char d"
    by (simp add: unat_of_nat take_bit_nat_eq_self)
  then show "c = d" by simp
qed simp

lemma bytes_of_inject: "bytes_of s = bytes_of t \<longleftrightarrow> s = t"
  by (auto simp: bytes_of_def inj_map_eq_map inj_def of_char_byte_inject)

definition hex_digit :: "nat \<Rightarrow> char" where
  "hex_digit n = ''0123456789abcdef'' ! n"

definition hex_encode :: "bytes \<Rightarrow> string" where
  "hex_encode bs = concat (map (\<lambda>b. [hex_digit (unat b div 16), hex_digit (unat b mod 16)]) bs)"

definition hex_value :: "char \<Rightarrow> nat option" where
  "hex_value c =
     (let n = of_char c :: nat in
      if 48 \<le> n \<and> n \<le> 57 then Some (n - 48)
      else if 97 \<le> n \<and> n \<le> 102 then Some (n - 87)
      else if 65 \<le> n \<and> n \<le> 70 then Some (n - 55)
      else None)"

text \<open>\<open>hex.DecodeString\<close>: \<open>None\<close> for a digit outside the alphabet or an odd length.\<close>

fun hex_decode :: "string \<Rightarrow> bytes option" where
  "hex_decode [] = Some []"
| "hex_decode [c] = None"
| "hex_decode (c # d # cs) =
     (case (hex_value c, hex_value d, hex_decode cs) of
        (Some a, Some b, Some bs) \<Rightarrow> Some (of_nat (16 * a + b) # bs)
      | _ \<Rightarrow> None)"

lemma hex_value_digit: "n < 16 \<Longrightarrow> hex_value (hex_digit n) = Some n"
proof -
  have "\<forall>n \<in> set [0..<16]. hex_value (hex_digit n) = Some n"
    by code_simp
  then show "n < 16 \<Longrightarrow> hex_value (hex_digit n) = Some n" by simp
qed

lemma hex_decode_encode [simp]: "hex_decode (hex_encode bs) = Some bs"
proof (induction bs)
  case Nil
  then show ?case by (simp add: hex_encode_def)
next
  case (Cons b bs)
  have "unat b < 256" by (rule less_le_trans [OF unsigned_less]) simp
  then have "unat b div 16 < 16" by auto
  with Cons show ?case by (simp add: hex_encode_def hex_value_digit)
qed

lemma length_hex_encode: "length (hex_encode bs) = 2 * length bs"
  by (induction bs) (auto simp: hex_encode_def)

lemma hex_encode_inject: "hex_encode a = hex_encode b \<longleftrightarrow> a = b"
  by (metis hex_decode_encode option.inject)

subsection \<open>Decimal numerals\<close>

text \<open>What \<open>%d\<close> prints for an \<open>int\<close>.\<close>

fun utoa :: "nat \<Rightarrow> string" where
  "utoa n = (if n < 10 then [char_of (48 + n)] else utoa (n div 10) @ [char_of (48 + n mod 10)])"

declare utoa.simps [simp del]

definition itoa :: "int \<Rightarrow> string" where
  "itoa i = (if i < 0 then CHR ''-'' # utoa (nat (- i)) else utoa (nat i))"

definition numeral_value :: "string \<Rightarrow> nat" where
  "numeral_value s = foldl (\<lambda>a c. 10 * a + (of_char c - 48)) 0 s"

lemma numeral_value_utoa: "numeral_value (utoa n) = n"
proof (induction n rule: utoa.induct)
  case (1 n)
  then show ?case
    by (subst utoa.simps) (auto simp: numeral_value_def)
qed

lemma utoa_inject: "utoa m = utoa n \<longleftrightarrow> m = n"
  by (metis numeral_value_utoa)

lemma utoa_chars: "c \<in> set (utoa n) \<Longrightarrow> 48 \<le> (of_char c :: nat) \<and> (of_char c :: nat) \<le> 57"
proof (induction n rule: utoa.induct)
  case (1 n)
  then show ?case
    by (subst (asm) (2) utoa.simps) (auto split: if_splits)
qed

lemma utoa_nonempty [simp]: "utoa n \<noteq> []"
  by (subst utoa.simps) simp

lemma itoa_inject: "itoa i = itoa j \<longleftrightarrow> i = j"
proof -
  have "hd (utoa n) \<noteq> CHR ''-''" for n
    using utoa_chars [of "hd (utoa n)" n] by auto
  then show ?thesis
    by (auto simp: itoa_def utoa_inject) (metis list.sel(1))+
qed

lemma itoa_no_nul: "CHR 0x00 \<notin> set (itoa i)"
  using utoa_chars [of "CHR 0x00"] by (auto simp: itoa_def)

lemma hex_encode_no_nul: "CHR 0x00 \<notin> set (hex_encode bs)"
proof -
  have "hex_digit n \<noteq> CHR 0x00" if "n < 16" for n
    using hex_value_digit [OF that] by (auto simp: hex_value_def)
  moreover have "unat b div 16 < 16" "unat b mod 16 < 16" for b :: byte
  proof -
    have "unat b < 256" by (rule less_le_trans [OF unsigned_less]) simp
    then show "unat b div 16 < 16" "unat b mod 16 < 16" by auto
  qed
  ultimately have "hex_digit (unat b div 16) \<noteq> CHR 0x00" "hex_digit (unat b mod 16) \<noteq> CHR 0x00" for b :: byte
    by blast+
  then show ?thesis by (auto simp: hex_encode_def) metis+
qed

text \<open>PostgreSQL's \<open>TEXT\<close> does not take a NUL byte.\<close>

definition text_ok :: "string \<Rightarrow> bool" where
  "text_ok s \<longleftrightarrow> CHR 0x00 \<notin> set s"

subsection \<open>Ranging over a Go map\<close>

text \<open>
  Go leaves the order of a \<open>range\<close> over a map open, as SQL does for a query without
  \<open>ORDER BY\<close>.  The order is a parameter; whatever it is, the elements are a permutation.
\<close>

definition reorder :: "('a list \<Rightarrow> 'a list) \<Rightarrow> 'a list \<Rightarrow> 'a list" where
  "reorder order xs = (if mset (order xs) = mset xs then order xs else xs)"

lemma mset_reorder [simp]: "mset (reorder order xs) = mset xs"
  by (simp add: reorder_def)

lemma set_reorder [simp]: "set (reorder order xs) = set xs"
  by (metis mset_reorder set_mset_mset)

lemma length_reorder [simp]: "length (reorder order xs) = length xs"
  by (metis mset_reorder size_mset)

lemma distinct_map_reorder [simp]: "distinct (map f (reorder order xs)) = distinct (map f xs)"
  by (metis mset_eq_imp_distinct_iff mset_map mset_reorder)

subsection \<open>Loops with a fallible body\<close>

fun foldE :: "('a \<Rightarrow> 'b \<Rightarrow> 'e + 'b) \<Rightarrow> 'a list \<Rightarrow> 'b \<Rightarrow> 'e + 'b" where
  "foldE f [] b = Inr b"
| "foldE f (x # xs) b = bindE (f x b) (foldE f xs)"

lemma foldE_append: "foldE f (xs @ ys) b = bindE (foldE f xs b) (foldE f ys)"
proof (induction xs arbitrary: b)
  case (Cons x xs)
  then show ?case by (cases "f x b") auto
qed simp

lemma foldE_collect:
  assumes "\<And>x acc. x \<in> set xs \<Longrightarrow> f x acc = bindE (g x) (\<lambda>y. Inr (acc @ [y]))"
  shows "foldE f xs acc = bindE (mapE g xs) (\<lambda>ys. Inr (acc @ ys))"
  using assms
proof (induction xs arbitrary: acc)
  case (Cons x xs)
  then show ?case by (cases "g x"; cases "mapE g xs") auto
qed simp

subsection \<open>\<open>math/bits\<close>\<close>

text \<open>
  The sources shift and mask \<open>uint64\<close> values that stay below \<open>2^64\<close>; the model uses \<open>nat\<close>,
  where \<open>x >> 1\<close> is \<open>x div 2\<close>, \<open>x & 1 == 1\<close> is \<open>odd x\<close>, and no step of the code wraps.
\<close>

fun Len64 :: "nat \<Rightarrow> nat" where
  "Len64 n = (if n = 0 then 0 else Suc (Len64 (n div 2)))"

fun TrailingZeros64 :: "nat \<Rightarrow> nat" where
  "TrailingZeros64 n = (if n = 0 then 64 else if odd n then 0 else Suc (TrailingZeros64 (n div 2)))"

declare Len64.simps [simp del] TrailingZeros64.simps [simp del]

lemma Len64_0 [simp]: "Len64 0 = 0"
  by (simp add: Len64.simps)

lemma Len64_pos: "0 < n \<Longrightarrow> Len64 n = Suc (Len64 (n div 2))"
  by (subst Len64.simps) simp

lemma Len64_bounds: "0 < n \<Longrightarrow> 2 ^ (Len64 n - 1) \<le> n \<and> n < 2 ^ Len64 n"
proof (induction n rule: Len64.induct)
  case (1 n)
  show ?case
  proof (cases "n div 2 = 0")
    case True
    with 1 have "n = 1" by auto
    then show ?thesis by (simp add: Len64_pos)
  next
    case False
    with 1 have IH: "2 ^ (Len64 (n div 2) - 1) \<le> n div 2" "n div 2 < 2 ^ Len64 (n div 2)" by auto
    from False have "Len64 (n div 2) \<noteq> 0" by (simp add: Len64_pos)
    then obtain l where l: "Len64 (n div 2) = Suc l" by (cases "Len64 (n div 2)") auto
    have "Len64 n = Suc (Suc l)" using "1.prems" l by (simp add: Len64_pos)
    with IH l show ?thesis by (simp) linarith
  qed
qed

lemma Len64_eqI: "2 ^ l \<le> n \<Longrightarrow> n < 2 ^ Suc l \<Longrightarrow> Len64 n = Suc l"
proof (induction l arbitrary: n)
  case 0
  then have "n = 1" by simp
  then show ?case by (simp add: Len64_pos)
next
  case (Suc l)
  then have "2 ^ l \<le> n div 2" "n div 2 < 2 ^ Suc l" by auto
  from Suc.IH [OF this] have "Len64 (n div 2) = Suc l" .
  moreover have "0 < n" using Suc.prems(1) by (rule less_le_trans [rotated]) simp
  ultimately show ?case by (simp add: Len64_pos)
qed

lemma Len64_le: "n < 2 ^ k \<Longrightarrow> Len64 n \<le> k"
proof (cases "n = 0")
  case False
  assume "n < 2 ^ k"
  with False Len64_bounds [of n] have "2 ^ (Len64 n - 1) < (2 ^ k :: nat)" by (meson gr0I le_less_trans)
  then have "Len64 n - 1 < k" by (simp add: power_strict_increasing_iff)
  then show ?thesis by simp
qed simp

lemma TrailingZeros64_power [simp]: "TrailingZeros64 (2 ^ k) = k"
  by (induction k) (auto simp: TrailingZeros64.simps [of "2 ^ _"] TrailingZeros64.simps [of "Suc 0"]
      TrailingZeros64.simps [of "2 * 2 ^ _"])

text \<open>The test \<open>n & (n - 1) == 0\<close> recognises the powers of two.\<close>

lemma and_minus_one_even: "even n \<Longrightarrow> 0 < n \<Longrightarrow> n AND (n - 1) = 2 * ((n div 2) AND (n div 2 - 1))" for n :: nat
proof -
  assume "even n" "0 < n"
  then obtain m where n: "n = 2 * m" and m: "0 < m" by auto
  then have "2 * m - 1 = Suc (2 * (m - 1))" by simp
  then have "n AND (n - 1) = (2 * m) AND Suc (2 * (m - 1))" using n by simp
  also have "\<dots> = 2 * (m AND (m - 1))"
    by (subst and_rec) simp
  finally show ?thesis using n by simp
qed

lemma and_minus_one_odd: "odd n \<Longrightarrow> n AND (n - 1) = n - 1" for n :: nat
proof -
  assume "odd n"
  then obtain m where n: "n = Suc (2 * m)" by (metis oddE Suc_eq_plus1)
  have "Suc (2 * m) AND (2 * m) = 2 * (m AND m)"
    by (subst and_rec) simp
  with n show ?thesis by simp
qed

lemma power_of_two_iff: "0 < n \<Longrightarrow> n AND (n - 1) = 0 \<longleftrightarrow> (\<exists>k. n = 2 ^ k)" for n :: nat
proof (induction n rule: less_induct)
  case (less n)
  show ?case
  proof (cases "even n")
    case True
    with less.prems have pos: "0 < n div 2" by auto
    have "n AND (n - 1) = 0 \<longleftrightarrow> (\<exists>k. n div 2 = 2 ^ k)"
      using less.IH [of "n div 2"] less.prems pos by (simp only: and_minus_one_even [OF True]) simp
    also have "\<dots> \<longleftrightarrow> (\<exists>k. n = 2 ^ k)"
    proof
      assume "\<exists>k. n div 2 = 2 ^ k"
      then obtain k where "n div 2 = 2 ^ k" ..
      with True have "n = 2 ^ Suc k" by auto
      then show "\<exists>k. n = 2 ^ k" ..
    next
      assume "\<exists>k. n = 2 ^ k"
      then obtain k where k: "n = 2 ^ k" ..
      with True obtain j where "k = Suc j" by (cases k) auto
      with k show "\<exists>k. n div 2 = 2 ^ k" by auto
    qed
    finally show ?thesis .
  next
    case False
    have "n AND (n - 1) = 0 \<longleftrightarrow> n = 1"
      unfolding and_minus_one_odd [OF False] using less.prems by auto
    also have "\<dots> \<longleftrightarrow> (\<exists>k. n = 2 ^ k)"
    proof
      assume "\<exists>k. n = 2 ^ k"
      then obtain k where "n = 2 ^ k" ..
      with False show "n = 1" by (cases k) auto
    next
      assume "n = 1"
      then have "n = 2 ^ 0" by simp
      then show "\<exists>k. n = 2 ^ k" ..
    qed
    finally show ?thesis .
  qed
qed

lemma and_mask_dvd_iff: "x AND (2 ^ k - 1) = 0 \<longleftrightarrow> 2 ^ k dvd x" for x :: nat
proof -
  have "x AND (2 ^ k - 1) = take_bit k x"
    unfolding take_bit_eq_mask mask_eq_exp_minus_1 ..
  then show ?thesis unfolding take_bit_eq_mod dvd_eq_mod_eq_0 by metis
qed

end
