(* ===== verification/Merkle_Hash.thy ===== *)
theory Merkle_Hash
  imports Prelude
begin

text \<open>
  The hashes of the bulletin board's Merkle tree (\<open>crypto/merkle/hash.go\<close>) and the
  specification of the tree itself: the head, the audit path and the consistency proof of
  RFC 9162 section 2.1, defined on lists.  SHA-256 is a parameter: a function from byte lists
  to 256-bit digests.  The second half relates the top-down definitions of the RFC to one level
  of the tree, \<open>pair_up\<close>, which is how the verifiers walk it.
\<close>

section \<open>Hashes\<close>

text \<open>\<open>type Hash [HashSize]byte\<close>: 32 bytes, kept as one 256-bit word.\<close>

type_synonym hash = "256 word"
type_synonym sha = "bytes \<Rightarrow> hash"

definition hash_bytes :: "hash \<Rightarrow> bytes" where
  "hash_bytes h = be_bytes 32 h"

lemma length_hash_bytes [simp]: "length (hash_bytes h) = 32"
  by (simp add: hash_bytes_def)

lemma hash_bytes_inject [simp]: "hash_bytes a = hash_bytes b \<longleftrightarrow> a = b"
  by (simp add: hash_bytes_def be_bytes_inject)

datatype merkle_error = ErrIndexOutOfRange | ErrSizeOutOfRange | ErrInvalidProof | Panicked

definition leafPrefix :: byte where "leafPrefix = 0"
definition nodePrefix :: byte where "nodePrefix = 1"

definition leaf_input :: "bytes \<Rightarrow> bytes" where
  "leaf_input d = leafPrefix # d"

definition node_input :: "hash \<Rightarrow> hash \<Rightarrow> bytes" where
  "node_input l r = nodePrefix # hash_bytes l @ hash_bytes r"

definition LeafHash :: "sha \<Rightarrow> bytes \<Rightarrow> hash" where
  "LeafHash sha d = sha (leaf_input d)"

definition NodeHash :: "sha \<Rightarrow> hash \<Rightarrow> hash \<Rightarrow> hash" where
  "NodeHash sha l r = sha (node_input l r)"

definition EmptyRoot :: "sha \<Rightarrow> hash" where
  "EmptyRoot sha = sha []"

lemma node_input_inject [simp]: "node_input a b = node_input c d \<longleftrightarrow> a = c \<and> b = d"
  by (auto simp: node_input_def)

lemma leaf_input_inject [simp]: "leaf_input a = leaf_input b \<longleftrightarrow> a = b"
  by (simp add: leaf_input_def)

lemma leaf_node_distinct: "leaf_input d \<noteq> node_input l r"
  by (simp add: leaf_input_def node_input_def leafPrefix_def nodePrefix_def)

text \<open>
  Two lists of hash inputs collide when an input of one and a different input of the other
  have the same digest.  The security statements name the two lists the code hashes, so the
  colliding pair is one that can be read off the run.
\<close>

definition collides :: "sha \<Rightarrow> bytes list \<Rightarrow> bytes list \<Rightarrow> bool" where
  "collides sha xs ys = list_ex (\<lambda>x. list_ex (\<lambda>y. x \<noteq> y \<and> sha x = sha y) ys) xs"

lemma collides_iff: "collides sha xs ys \<longleftrightarrow> (\<exists>x \<in> set xs. \<exists>y \<in> set ys. x \<noteq> y \<and> sha x = sha y)"
  by (auto simp: collides_def list_ex_iff)

lemma collides_mono: "collides sha xs ys \<Longrightarrow> set xs \<subseteq> set xs' \<Longrightarrow> set ys \<subseteq> set ys' \<Longrightarrow> collides sha xs' ys'"
  by (auto simp: collides_iff)

lemma NodeHash_eq_cases:
  assumes "NodeHash sha a b = NodeHash sha c d"
  shows "(a = c \<and> b = d) \<or> collides sha [node_input a b] [node_input c d]"
  using assms by (auto simp: NodeHash_def collides_iff)

section \<open>The tree of RFC 9162\<close>

text \<open>\<open>splitPoint\<close>: the largest power of two below \<open>n\<close>, for \<open>2 \<le> n\<close>.\<close>

definition splitPoint :: "nat \<Rightarrow> nat" where
  "splitPoint n = 2 ^ (Len64 (n - 1) - 1)"

lemma splitPoint_bounds: "2 \<le> n \<Longrightarrow> splitPoint n < n \<and> n \<le> 2 * splitPoint n"
proof -
  assume "2 \<le> n"
  then have pos: "0 < n - 1" by simp
  from Len64_bounds [OF this] have b: "2 ^ (Len64 (n - 1) - 1) \<le> n - 1" "n - 1 < 2 ^ Len64 (n - 1)"
    by auto
  obtain l where "Len64 (n - 1) = Suc l" using pos by (simp add: Len64_pos)
  with b show ?thesis by (auto simp: splitPoint_def)
qed

lemma splitPoint_pos [simp]: "0 < splitPoint n"
  by (simp add: splitPoint_def)

lemma splitPoint_eqI: "2 ^ j < n \<Longrightarrow> n \<le> 2 ^ Suc j \<Longrightarrow> splitPoint n = 2 ^ j"
  using Len64_eqI [of j "n - 1"] by (auto simp: splitPoint_def)

lemma diff_splitPoint [simp]: "n - splitPoint n < n \<longleftrightarrow> 0 < n"
  by (auto intro: diff_less)

lemma splitPoint_power: "\<exists>j. splitPoint n = 2 ^ j"
  by (auto simp: splitPoint_def)

lemma splitPoint_2 [simp]: "splitPoint 2 = 1" "splitPoint (Suc (Suc 0)) = 1"
  by (simp_all add: splitPoint_def Len64_pos)

lemma splitPoint_even: "2 < n \<Longrightarrow> even (splitPoint n)"
proof -
  assume "2 < n"
  then have "1 < splitPoint n" using splitPoint_bounds [of n] by simp
  with splitPoint_power [of n] show ?thesis
    by (metis dvd_refl even_power less_irrefl not_gr_zero power_0)
qed

lemma splitPoint_half: "2 < n \<Longrightarrow> splitPoint ((n + 1) div 2) = splitPoint n div 2"
proof -
  assume n: "2 < n"
  obtain j where j: "splitPoint n = 2 ^ j" using splitPoint_power by blast
  from splitPoint_even [OF n] j obtain i where i: "j = Suc i" by (cases j) auto
  have "2 ^ i < (n + 1) div 2" "(n + 1) div 2 \<le> 2 ^ Suc i"
    using splitPoint_bounds [of n] n j i by auto
  then have "splitPoint ((n + 1) div 2) = 2 ^ i" by (rule splitPoint_eqI)
  with j i show ?thesis by simp
qed

text \<open>
  The head of a non-empty list of leaf hashes (\<open>MTH\<close>), its audit path (\<open>PATH\<close>) and
  \<open>SUBPROOF\<close>, as RFC 9162 sections 2.1.1, 2.1.3.1 and 2.1.4.1 define them.
\<close>

function (sequential) root_of :: "sha \<Rightarrow> hash list \<Rightarrow> hash" where
  "root_of sha [] = EmptyRoot sha"
| "root_of sha [h] = h"
| "root_of sha hs =
     (let k = splitPoint (length hs)
      in NodeHash sha (root_of sha (take k hs)) (root_of sha (drop k hs)))"
  by pat_completeness auto
termination
proof (relation "measure (\<lambda>(sha, hs). length hs)", goal_cases)
  case 1
  then show ?case by simp
next
  case (2 sha h h' hs k)
  then show ?case using splitPoint_bounds [of "length (h # h' # hs)"] by simp
next
  case (3 sha h h' hs k)
  then show ?case by simp
qed

definition MTH :: "sha \<Rightarrow> bytes list \<Rightarrow> hash" where
  "MTH sha ds = root_of sha (map (LeafHash sha) ds)"

function PATH :: "sha \<Rightarrow> nat \<Rightarrow> hash list \<Rightarrow> hash list" where
  "PATH sha m hs =
     (let n = length hs; k = splitPoint n in
      if n \<le> 1 then []
      else if m < k then PATH sha m (take k hs) @ [root_of sha (drop k hs)]
      else PATH sha (m - k) (drop k hs) @ [root_of sha (take k hs)])"
  by pat_completeness auto
termination
proof (relation "measure (\<lambda>(sha, m, hs). length hs)", goal_cases)
  case (2 sha m hs n k)
  then show ?case using splitPoint_bounds [of n] by simp
qed auto

function SUBPROOF :: "sha \<Rightarrow> nat \<Rightarrow> hash list \<Rightarrow> bool \<Rightarrow> hash list" where
  "SUBPROOF sha m hs b =
     (let n = length hs; k = splitPoint n in
      if m = n then (if b then [] else [root_of sha hs])
      else if n \<le> 1 then []
      else if m \<le> k then SUBPROOF sha m (take k hs) b @ [root_of sha (drop k hs)]
      else SUBPROOF sha (m - k) (drop k hs) False @ [root_of sha (take k hs)])"
  by pat_completeness auto
termination
proof (relation "measure (\<lambda>(sha, m, hs, b). length hs)", goal_cases)
  case (2 sha m hs b n k)
  then show ?case using splitPoint_bounds [of n] by simp
qed auto

declare root_of.simps(3) [simp del] PATH.simps [simp del] SUBPROOF.simps [simp del]

lemma root_of_split: "2 \<le> length hs \<Longrightarrow> root_of sha hs =
    NodeHash sha (root_of sha (take (splitPoint (length hs)) hs)) (root_of sha (drop (splitPoint (length hs)) hs))"
  by (cases "(sha, hs)" rule: root_of.cases) (auto simp: root_of.simps(3) Let_def)

section \<open>One level of the tree\<close>

text \<open>
  Hashing neighbours together and promoting a last node without a neighbour gives the next
  level up.  The RFC's tree has the same head (\<open>root_of_pair_up\<close>), and its paths and
  consistency proofs begin with what is needed to climb one level.
\<close>

fun pair_up :: "sha \<Rightarrow> hash list \<Rightarrow> hash list" where
  "pair_up sha (a # b # hs) = NodeHash sha a b # pair_up sha hs"
| "pair_up sha hs = hs"

lemma length_pair_up [simp]: "length (pair_up sha hs) = (length hs + 1) div 2"
  by (induction sha hs rule: pair_up.induct) auto

lemma pair_up_append: "even (length xs) \<Longrightarrow> pair_up sha (xs @ ys) = pair_up sha xs @ pair_up sha ys"
  by (induction sha xs rule: pair_up.induct) auto

lemma pair_up_take: "even k \<Longrightarrow> k \<le> length hs \<Longrightarrow> take (k div 2) (pair_up sha hs) = pair_up sha (take k hs)"
  and pair_up_drop: "even k \<Longrightarrow> k \<le> length hs \<Longrightarrow> drop (k div 2) (pair_up sha hs) = pair_up sha (drop k hs)"
proof -
  assume k: "even k" "k \<le> length hs"
  then have "pair_up sha hs = pair_up sha (take k hs) @ pair_up sha (drop k hs)"
    using pair_up_append [of "take k hs" sha "drop k hs"] by (simp add: min_def)
  moreover have "length (pair_up sha (take k hs)) = k div 2" using k by (simp add: min_def)
  ultimately show "take (k div 2) (pair_up sha hs) = pair_up sha (take k hs)"
    and "drop (k div 2) (pair_up sha hs) = pair_up sha (drop k hs)" by simp_all
qed

lemma pair_up_nth: "2 * i + 1 < length hs \<Longrightarrow> pair_up sha hs ! i = NodeHash sha (hs ! (2 * i)) (hs ! (2 * i + 1))"
proof (induction sha hs arbitrary: i rule: pair_up.induct)
  case (1 sha a b hs)
  then show ?case by (cases i) auto
qed auto

lemma pair_up_nth_last: "2 * i + 1 = length hs \<Longrightarrow> pair_up sha hs ! i = hs ! (2 * i)"
proof (induction sha hs arbitrary: i rule: pair_up.induct)
  case (1 sha a b hs)
  then obtain j where i: "i = Suc j" by (cases i) auto
  with "1.prems" have len: "length hs = Suc (2 * j)" by simp
  with "1.IH" [of j] i show ?case by simp
qed auto

lemma pair_up_small: "length hs \<le> 1 \<Longrightarrow> pair_up sha hs = hs"
  by (cases "(sha, hs)" rule: pair_up.cases) auto

lemma root_of_two: "length hs = 2 \<Longrightarrow> root_of sha (pair_up sha hs) = root_of sha hs"
  by (cases "(sha, hs)" rule: pair_up.cases) (auto simp: root_of.simps(3) Let_def)

lemma root_of_pair_up: "root_of sha (pair_up sha hs) = root_of sha hs"
proof (induction "length hs" arbitrary: hs rule: less_induct)
  case less
  let ?n = "length hs" and ?k = "splitPoint (length hs)"
  consider "?n \<le> 1" | "?n = 2" | "2 < ?n" by linarith
  then show ?case
  proof cases
    case 3
    then have k: "?k < ?n" "even ?k" using splitPoint_bounds [of ?n] splitPoint_even by auto
    from 3 have nonempty: "hs \<noteq> []" by auto
    have half: "splitPoint (length (pair_up sha hs)) = ?k div 2"
      using splitPoint_half [OF 3] by simp
    have "root_of sha (pair_up sha hs) =
        NodeHash sha (root_of sha (take (?k div 2) (pair_up sha hs))) (root_of sha (drop (?k div 2) (pair_up sha hs)))"
      using 3 half by (subst root_of_split) auto
    also have "\<dots> = NodeHash sha (root_of sha (pair_up sha (take ?k hs))) (root_of sha (pair_up sha (drop ?k hs)))"
      using k by (simp add: pair_up_take pair_up_drop)
    also have "\<dots> = NodeHash sha (root_of sha (take ?k hs)) (root_of sha (drop ?k hs))"
      using less.hyps [of "take ?k hs"] less.hyps [of "drop ?k hs"] k nonempty by simp
    also have "\<dots> = root_of sha hs" using 3 by (simp add: root_of_split [of hs])
    finally show ?thesis .
  qed (simp_all add: pair_up_small root_of_two)
qed


lemma PATH_small [simp]: "length hs \<le> 1 \<Longrightarrow> PATH sha m hs = []"
  by (simp add: PATH.simps Let_def)

lemma PATH_split: "2 \<le> length hs \<Longrightarrow> PATH sha m hs =
    (let k = splitPoint (length hs) in
     if m < k then PATH sha m (take k hs) @ [root_of sha (drop k hs)]
     else PATH sha (m - k) (drop k hs) @ [root_of sha (take k hs)])"
  by (simp add: PATH.simps [of sha m hs] Let_def)

text \<open>The neighbour of node \<open>m\<close> on its level, if it has one.\<close>

definition sibling :: "hash list \<Rightarrow> nat \<Rightarrow> hash list" where
  "sibling hs m = (if odd m then [hs ! (m - 1)] else if m + 1 < length hs then [hs ! (m + 1)] else [])"

lemma sibling_take: "even k \<Longrightarrow> m < k \<Longrightarrow> k \<le> length hs \<Longrightarrow> sibling (take k hs) m = sibling hs m"
proof -
  assume "even k" "m < k" "k \<le> length hs"
  moreover from this have "even m \<Longrightarrow> m + 1 < k" by (metis Suc_eq_plus1 Suc_lessI even_Suc)
  ultimately show ?thesis by (auto simp: sibling_def min_def)
qed

lemma sibling_drop: "even k \<Longrightarrow> k \<le> m \<Longrightarrow> m < length hs \<Longrightarrow> sibling (drop k hs) (m - k) = sibling hs m"
proof -
  assume a: "even k" "k \<le> m" "m < length hs"
  then have par: "odd (m - k) \<longleftrightarrow> odd m" by simp
  have "odd m \<Longrightarrow> k < m" using a by (metis le_neq_implies_less)
  then have "odd m \<Longrightarrow> k + (m - Suc k) = m - Suc 0" by simp
  then show ?thesis using a par by (auto simp: sibling_def)
qed

lemma PATH_step:
  "2 \<le> length hs \<Longrightarrow> m < length hs \<Longrightarrow>
     PATH sha m hs = sibling hs m @ PATH sha (m div 2) (pair_up sha hs)"
proof (induction "length hs" arbitrary: hs m rule: less_induct)
  case less
  let ?n = "length hs" and ?k = "splitPoint (length hs)" and ?up = "pair_up sha hs"
  from less.prems consider "?n = 2" | "2 < ?n" by linarith
  then show ?case
  proof cases
    case 1
    then obtain a b where "hs = [a, b]" by (cases "(sha, hs)" rule: pair_up.cases) auto
    moreover from this less.prems have "m = 0 \<or> m = 1" by auto
    ultimately show ?thesis by (auto simp: PATH_split Let_def sibling_def)
  next
    case 2
    then have k: "?k < ?n" "even ?k" "2 \<le> ?k"
      using splitPoint_bounds [of ?n] splitPoint_even by auto
    have half: "splitPoint (Suc ?n div 2) = ?k div 2" using splitPoint_half [OF 2] by simp
    have up: "PATH sha (m div 2) ?up =
        (if m div 2 < ?k div 2 then PATH sha (m div 2) (pair_up sha (take ?k hs)) @ [root_of sha (drop ?k hs)]
         else PATH sha (m div 2 - ?k div 2) (pair_up sha (drop ?k hs)) @ [root_of sha (take ?k hs)])"
      using 2 k by (simp add: PATH_split [of ?up] half pair_up_take pair_up_drop root_of_pair_up Let_def)
    have lt: "m div 2 < ?k div 2 \<longleftrightarrow> m < ?k" using k(2) by auto
    show ?thesis
    proof (cases "m < ?k")
      case True
      have "PATH sha m (take ?k hs) = sibling (take ?k hs) m @ PATH sha (m div 2) (pair_up sha (take ?k hs))"
        using less.hyps [of "take ?k hs" m] k True by simp
      with True k lt show ?thesis by (simp add: PATH_split [of hs] less.prems up sibling_take Let_def)
    next
      case False
      have sub: "m div 2 - ?k div 2 = (m - ?k) div 2" using k(2) False by (auto elim!: evenE)
      have "PATH sha (m - ?k) (drop ?k hs) = sibling (drop ?k hs) (m - ?k) @ PATH sha ((m - ?k) div 2) (pair_up sha (drop ?k hs))"
      proof (cases "?n - ?k = 1")
        case True
        with False less.prems have "m = ?k" by simp
        with True k show ?thesis by (simp add: sibling_def pair_up_small)
      next
        case more: False
        have "hs \<noteq> []" using 2 by auto
        then show ?thesis using less.hyps [of "drop ?k hs" "m - ?k"] k False less.prems more by simp
      qed
      with False k lt sub less.prems show ?thesis by (simp add: PATH_split [of hs] up sibling_drop Let_def)
    qed
  qed
qed

text \<open>
  Climbing while the smaller tree ends on a right child changes nothing in the consistency
  proof; once it ends on a left child, the proof is that child (unless it is the smaller
  tree's head) and its audit path in the larger tree.
\<close>

lemma SUBPROOF_eq [simp]: "m = length hs \<Longrightarrow> SUBPROOF sha m hs b = (if b then [] else [root_of sha hs])"
  by (simp add: SUBPROOF.simps Let_def)

lemma SUBPROOF_split: "2 \<le> length hs \<Longrightarrow> m \<noteq> length hs \<Longrightarrow> SUBPROOF sha m hs b =
    (let k = splitPoint (length hs) in
     if m \<le> k then SUBPROOF sha m (take k hs) b @ [root_of sha (drop k hs)]
     else SUBPROOF sha (m - k) (drop k hs) False @ [root_of sha (take k hs)])"
  by (simp add: SUBPROOF.simps [of sha m hs] Let_def)

lemma SUBPROOF_even:
  "2 \<le> length hs \<Longrightarrow> even m \<Longrightarrow> 0 < m \<Longrightarrow> m < length hs \<or> m = length hs \<and> (\<exists>j. m = 2 ^ j) \<Longrightarrow>
     SUBPROOF sha m hs b = SUBPROOF sha (m div 2) (pair_up sha hs) b"
proof (induction "length hs" arbitrary: hs m b rule: less_induct)
  case less
  let ?n = "length hs" and ?k = "splitPoint (length hs)" and ?up = "pair_up sha hs"
  show ?case
  proof (cases "m = ?n")
    case True
    with less.prems have "m div 2 = length ?up" by simp
    with True show ?thesis by (simp add: root_of_pair_up)
  next
    case False
    with less.prems have m: "m < ?n" "2 \<le> m" by auto
    then have n: "2 < ?n" by simp
    then have k: "?k < ?n" "even ?k" "2 \<le> ?k" "?n \<le> 2 * ?k"
      using splitPoint_bounds [of ?n] splitPoint_even by auto
    have half: "splitPoint (Suc ?n div 2) = ?k div 2" using splitPoint_half [OF n] by simp
    have ne: "m div 2 \<noteq> length ?up" using m \<open>even m\<close> by auto
    have up: "SUBPROOF sha (m div 2) ?up b =
        (if m div 2 \<le> ?k div 2 then SUBPROOF sha (m div 2) (pair_up sha (take ?k hs)) b @ [root_of sha (drop ?k hs)]
         else SUBPROOF sha (m div 2 - ?k div 2) (pair_up sha (drop ?k hs)) False @ [root_of sha (take ?k hs)])"
      using n k ne by (simp add: SUBPROOF_split [of ?up] half pair_up_take pair_up_drop root_of_pair_up Let_def)
    have le: "m div 2 \<le> ?k div 2 \<longleftrightarrow> m \<le> ?k" using k(2) \<open>even m\<close> by auto
    show ?thesis
    proof (cases "m \<le> ?k")
      case True
      have "SUBPROOF sha m (take ?k hs) b = SUBPROOF sha (m div 2) (pair_up sha (take ?k hs)) b"
      proof -
        have "m < ?k \<or> m = ?k \<and> (\<exists>j. m = 2 ^ j)" using True splitPoint_power [of ?n] by auto
        then show ?thesis using less.hyps [of "take ?k hs" m b] less.prems(2,3) k by simp
      qed
      with True le less.prems False show ?thesis by (simp add: SUBPROOF_split [of hs] up Let_def)
    next
      case gt: False
      have sub: "m div 2 - ?k div 2 = (m - ?k) div 2" using k(2) \<open>even m\<close> by (auto elim!: evenE)
      have "2 \<le> m - ?k" using gt k(2) \<open>even m\<close> by presburger
      then have "SUBPROOF sha (m - ?k) (drop ?k hs) False = SUBPROOF sha ((m - ?k) div 2) (pair_up sha (drop ?k hs)) False"
      proof -
        have "hs \<noteq> []" "m - ?k < ?n - ?k" using m gt k by auto
        then show ?thesis
          using less.hyps [of "drop ?k hs" "m - ?k" False] \<open>2 \<le> m - ?k\<close> \<open>even m\<close> k(2) by simp
      qed
      with gt le sub less.prems False show ?thesis by (simp add: SUBPROOF_split [of hs] up Let_def)
    qed
  qed
qed

lemma SUBPROOF_odd:
  "odd m \<Longrightarrow> m < length hs \<or> m = 1 \<and> length hs = 1 \<Longrightarrow>
     SUBPROOF sha m hs b = (if b \<and> m = 1 then [] else [hs ! (m - 1)]) @ PATH sha (m - 1) hs"
proof (induction "length hs" arbitrary: hs m b rule: less_induct)
  case less
  let ?n = "length hs" and ?k = "splitPoint (length hs)"
  have pos: "0 < m" using less.prems by (metis odd_pos)
  show ?case
  proof (cases "?n = 1")
    case True
    then obtain h where "hs = [h]" by (auto simp: length_Suc_conv)
    with less.prems True pos show ?thesis by auto
  next
    case False
    with less.prems pos have m: "m < ?n" "2 \<le> ?n" by auto
    then have k: "?k < ?n" "?n \<le> 2 * ?k" using splitPoint_bounds [of ?n] by auto
    have lt: "m - 1 < ?k \<longleftrightarrow> m \<le> ?k" using pos by auto
    show ?thesis
    proof (cases "m \<le> ?k")
      case True
      have "m = ?k \<Longrightarrow> ?k = 1"
        using less.prems(1) splitPoint_power [of ?n] by (metis even_power odd_one power_0 gr0I dvd_refl)
      with True have side: "m < ?k \<or> m = 1 \<and> ?k = 1" by auto
      have "SUBPROOF sha m (take ?k hs) b = (if b \<and> m = 1 then [] else [take ?k hs ! (m - 1)]) @ PATH sha (m - 1) (take ?k hs)"
        using less.hyps [of "take ?k hs" m b] less.prems(1) k side by simp
      moreover have "take ?k hs ! (m - 1) = hs ! (m - 1)" using lt True by simp
      ultimately have "SUBPROOF sha m (take ?k hs) b = (if b \<and> m = 1 then [] else [hs ! (m - 1)]) @ PATH sha (m - 1) (take ?k hs)"
        by simp
      with True lt m show ?thesis by (auto simp: SUBPROOF_split [of hs] PATH_split [of hs] Let_def)
    next
      case gt: False
      with m have "2 < ?n" using splitPoint_pos [of ?n] pos by linarith
      then have "even ?k" by (rule splitPoint_even)
      with gt less.prems(1) have odd: "odd (m - ?k)" by simp
      have "m - ?k < ?n - ?k" using m k by simp
      with odd have "SUBPROOF sha (m - ?k) (drop ?k hs) False = [drop ?k hs ! (m - ?k - 1)] @ PATH sha (m - ?k - 1) (drop ?k hs)"
      proof -
        have "hs \<noteq> []" using m by auto
        then show ?thesis
          using less.hyps [OF _ odd, of "drop ?k hs" False] \<open>m - ?k < ?n - ?k\<close> by simp
      qed
      moreover have "drop ?k hs ! (m - ?k - 1) = hs ! (m - 1)" using gt k m by (simp add: Suc_leI)
      moreover have "m \<noteq> 1" using gt splitPoint_pos [of ?n] by linarith
      moreover have "m - 1 - ?k = m - ?k - 1" by simp
      ultimately show ?thesis using gt lt m by (auto simp: SUBPROOF_split [of hs] PATH_split [of hs] Let_def)
    qed
  qed
qed

end
