(* ===== verification/Merkle_Tree.thy ===== *)
theory Merkle_Tree
  imports Merkle_Hash
begin

text \<open>
  The append-only tree of \<open>crypto/merkle/tree.go\<close>.  The state keeps the hashes of the complete
  aligned subtrees; every index expression of the code that Go checks at run time is a branch
  to \<open>Panicked\<close>.  The abstract state is the list of leaf hashes, \<open>tree_for\<close> is the concrete
  state that represents it, and the lemmas show that each operation on \<open>tree_for\<close> computes the
  RFC's function of the list and never panics.
\<close>

section \<open>State and operations\<close>

record tree =
  levels :: "hash list list"

definition New :: tree where
  "New = \<lparr>levels = []\<rparr>"

definition Size :: "tree \<Rightarrow> nat" where
  "Size t = (if length (levels t) = 0 then 0 else length (levels t ! 0))"

function append_loop :: "sha \<Rightarrow> tree \<Rightarrow> nat \<Rightarrow> hash \<Rightarrow> nat \<Rightarrow> merkle_error + tree" where
  "append_loop sha t level h i =
     (let ls = (if level = length (levels t) then levels t @ [[]] else levels t) in
      if length ls \<le> level then Inl Panicked
      else
        let row = ls ! level @ [h]; t' = t\<lparr>levels := ls[level := row]\<rparr> in
        if even i then Inr t'
        else if length row \<le> i - 1 then Inl Panicked
        else append_loop sha t' (level + 1) (NodeHash sha (row ! (i - 1)) h) (i div 2))"
  by pat_completeness auto
termination
  by (relation "measure (\<lambda>(sha, t, level, h, i). i)") (auto elim!: oddE)

definition Append :: "sha \<Rightarrow> tree \<Rightarrow> bytes \<Rightarrow> merkle_error + nat \<times> tree" where
  "Append sha t data =
     (let index = Size t in
      bindE (append_loop sha t 0 (LeafHash sha data) index) (\<lambda>t'. Inr (index, t')))"

text \<open>\<open>t.levels[level][i]\<close>, both index checks included.\<close>

definition level_at :: "tree \<Rightarrow> nat \<Rightarrow> nat \<Rightarrow> merkle_error + hash" where
  "level_at t level i =
     (if level < length (levels t) \<and> i < length (levels t ! level)
      then Inr (levels t ! level ! i) else Inl Panicked)"

function hashRange :: "sha \<Rightarrow> tree \<Rightarrow> nat \<Rightarrow> nat \<Rightarrow> merkle_error + hash" where
  "hashRange sha t lo hi =
     (let n = hi - lo in
      if n = 0 then Inr (EmptyRoot sha)
      else if n AND (n - 1) = 0 then
        if lo AND (n - 1) \<noteq> 0 then Inl Panicked
        else let level = TrailingZeros64 n in level_at t level (lo div 2 ^ level)
      else
        let k = splitPoint n in
        bindE (hashRange sha t lo (lo + k)) (\<lambda>l.
        bindE (hashRange sha t (lo + k) hi) (\<lambda>r. Inr (NodeHash sha l r))))"
  by pat_completeness auto

lemma not_power_ge_3: "n \<noteq> 0 \<Longrightarrow> n AND (n - 1) \<noteq> 0 \<Longrightarrow> 2 < n" for n :: nat
  using power_of_two_iff [of n] by (metis One_nat_def Suc_1 gr0I less_2_cases linorder_neqE_nat power_0 power_one_right)

lemma right_part_shorter: "0 < hi - lo \<Longrightarrow> hi - (lo + splitPoint n) < hi - lo"
  using splitPoint_pos [of n] by linarith

termination hashRange
proof (relation "measure (\<lambda>(sha, t, lo, hi). hi - lo)", goal_cases)
  case (2 sha t lo hi n k)
  then have "k < n" using not_power_ge_3 [of n] splitPoint_bounds [of n] by simp
  with 2 show ?case by simp
next
  case (3 sha t lo hi n k l)
  then show ?case by (simp add: right_part_shorter)
qed simp

definition Root :: "sha \<Rightarrow> tree \<Rightarrow> merkle_error + hash" where
  "Root sha t = hashRange sha t 0 (Size t)"

definition RootAt :: "sha \<Rightarrow> tree \<Rightarrow> nat \<Rightarrow> merkle_error + hash" where
  "RootAt sha t n = (if Size t < n then Inl ErrSizeOutOfRange else hashRange sha t 0 n)"

text \<open>
  \<open>path\<close> is called with a non-empty range; on an empty one the code would split for ever, which
  is the first branch.
\<close>

function path :: "sha \<Rightarrow> tree \<Rightarrow> nat \<Rightarrow> nat \<Rightarrow> nat \<Rightarrow> hash list \<Rightarrow> merkle_error + hash list" where
  "path sha t m lo hi ps =
     (let n = hi - lo in
      if n = 0 then Inl Panicked
      else if n = 1 then Inr ps
      else
        let k = splitPoint n in
        if m < k then
          bindE (path sha t m lo (lo + k) ps) (\<lambda>ps'.
          bindE (hashRange sha t (lo + k) hi) (\<lambda>h. Inr (ps' @ [h])))
        else
          bindE (path sha t (m - k) (lo + k) hi ps) (\<lambda>ps'.
          bindE (hashRange sha t lo (lo + k)) (\<lambda>h. Inr (ps' @ [h]))))"
  by pat_completeness auto
termination
proof (relation "measure (\<lambda>(sha, t, m, lo, hi, ps). hi - lo)", goal_cases)
  case (2 sha t m lo hi ps n k)
  then have "k < n" using splitPoint_bounds [of n] by simp
  with 2 show ?case by simp
next
  case (3 sha t m lo hi ps n k)
  then show ?case by (simp add: right_part_shorter)
qed simp

definition InclusionProof :: "sha \<Rightarrow> tree \<Rightarrow> nat \<Rightarrow> nat \<Rightarrow> merkle_error + hash list" where
  "InclusionProof sha t index n =
     (if Size t < n then Inl ErrSizeOutOfRange
      else if n \<le> index then Inl ErrIndexOutOfRange
      else path sha t index 0 n [])"

function subproof :: "sha \<Rightarrow> tree \<Rightarrow> nat \<Rightarrow> nat \<Rightarrow> nat \<Rightarrow> bool \<Rightarrow> hash list \<Rightarrow> merkle_error + hash list" where
  "subproof sha t m lo hi b ps =
     (let n = hi - lo in
      if m = n then
        if b then Inr ps else bindE (hashRange sha t lo hi) (\<lambda>h. Inr (ps @ [h]))
      else if n \<le> 1 then Inl Panicked
      else
        let k = splitPoint n in
        if m \<le> k then
          bindE (subproof sha t m lo (lo + k) b ps) (\<lambda>ps'.
          bindE (hashRange sha t (lo + k) hi) (\<lambda>h. Inr (ps' @ [h])))
        else
          bindE (subproof sha t (m - k) (lo + k) hi False ps) (\<lambda>ps'.
          bindE (hashRange sha t lo (lo + k)) (\<lambda>h. Inr (ps' @ [h]))))"
  by pat_completeness auto
termination
proof (relation "measure (\<lambda>(sha, t, m, lo, hi, b, ps). hi - lo)", goal_cases)
  case (2 sha t m lo hi b ps n k)
  then have "k < n" using splitPoint_bounds [of n] by simp
  with 2 show ?case by simp
next
  case (3 sha t m lo hi b ps n k)
  then show ?case by (simp add: right_part_shorter)
qed simp

definition ConsistencyProof :: "sha \<Rightarrow> tree \<Rightarrow> nat \<Rightarrow> nat \<Rightarrow> merkle_error + hash list" where
  "ConsistencyProof sha t size1 size2 =
     (if Size t < size2 \<or> size2 < size1 then Inl ErrSizeOutOfRange
      else if size1 = 0 \<or> size1 = size2 then Inr []
      else subproof sha t size1 0 size2 True [])"

declare append_loop.simps [simp del] hashRange.simps [simp del] path.simps [simp del] subproof.simps [simp del]

section \<open>The representation\<close>

definition blocks :: "sha \<Rightarrow> hash list \<Rightarrow> nat \<Rightarrow> hash list" where
  "blocks sha hs L = map (\<lambda>i. root_of sha (take (2 ^ L) (drop (i * 2 ^ L) hs))) [0..<length hs div 2 ^ L]"

definition tree_for :: "sha \<Rightarrow> hash list \<Rightarrow> tree" where
  "tree_for sha hs = \<lparr>levels = map (blocks sha hs) [0..<Len64 (length hs)]\<rparr>"

lemma length_blocks [simp]: "length (blocks sha hs L) = length hs div 2 ^ L"
  by (simp add: blocks_def)

lemma blocks_0 [simp]: "blocks sha hs 0 = hs"
  by (rule nth_equalityI) (simp_all add: blocks_def take_Suc_conv_app_nth hd_drop_conv_nth take_Suc)

lemma New_tree_for: "New = tree_for sha []"
  by (simp add: New_def tree_for_def)

lemma Size_tree_for [simp]: "Size (tree_for sha hs) = length hs"
proof (cases "hs = []")
  case False
  then have "0 < Len64 (length hs)" by (simp add: Len64_pos)
  then show ?thesis by (simp add: Size_def tree_for_def del: upt_Suc)
qed (simp add: Size_def tree_for_def)

lemma less_Len64_iff: "l < Len64 n \<longleftrightarrow> 2 ^ l \<le> n"
proof (cases "n = 0")
  case False
  then have b: "2 ^ (Len64 n - 1) \<le> n" "n < 2 ^ Len64 n" using Len64_bounds [of n] by auto
  show ?thesis
  proof
    assume "l < Len64 n"
    then have "(2::nat) ^ l \<le> 2 ^ (Len64 n - 1)" by (intro power_increasing) auto
    then show "2 ^ l \<le> n" using b(1) by (rule le_trans)
  next
    assume "2 ^ l \<le> n"
    then have "(2::nat) ^ l < 2 ^ Len64 n" using b(2) by (rule le_less_trans)
    then show "l < Len64 n" by (simp only: power_strict_increasing_iff one_less_numeral_iff semiring_norm)
  qed
qed simp

section \<open>Append\<close>

lemma blocks_snoc_same: "\<not> 2 ^ L dvd Suc (length hs) \<Longrightarrow> blocks sha (hs @ [x]) L = blocks sha hs L"
proof -
  assume "\<not> 2 ^ L dvd Suc (length hs)"
  then have len: "Suc (length hs) div 2 ^ L = length hs div 2 ^ L"
    by (simp add: div_Suc dvd_eq_mod_eq_0)
  show ?thesis
  proof (rule nth_equalityI)
    fix i
    assume "i < length (blocks sha (hs @ [x]) L)"
    with len have i: "i < length hs div 2 ^ L" by simp
    then have "Suc i * 2 ^ L \<le> length hs"
      by (metis Suc_leI less_eq_div_iff_mult_less_eq zero_less_numeral zero_less_power)
    with i len show "blocks sha (hs @ [x]) L ! i = blocks sha hs L ! i" by (simp add: blocks_def take_drop)
  qed (simp add: len)
qed

lemma Suc_mult_power_div: "Suc n = Suc i * 2 ^ L \<Longrightarrow> n div 2 ^ L = i"
proof -
  assume eq: "Suc n = Suc i * 2 ^ L"
  obtain p :: nat where p: "2 ^ L = Suc p" by (metis not0_implies_Suc power_not_zero zero_neq_numeral)
  from eq p have n: "n = p + i * Suc p" by simp
  show ?thesis unfolding p n by (simp only: div_mult_self1) simp
qed

lemma blocks_snoc_new:
  assumes i: "Suc (length hs) = Suc i * 2 ^ L"
  shows "blocks sha (hs @ [x]) L = blocks sha hs L @ [root_of sha (drop (i * 2 ^ L) (hs @ [x]))]"
proof -
  from i have len: "length hs div 2 ^ L = i" by (rule Suc_mult_power_div)
  have le: "Suc j * 2 ^ L \<le> length hs" if "j < i" for j
  proof -
    from that have "Suc j * 2 ^ L \<le> i * 2 ^ L" by (intro mult_le_mono1) simp
    also have "\<dots> < Suc (length hs)" using i by simp
    finally have "Suc j * 2 ^ L < Suc (length hs)" .
    then show ?thesis by simp
  qed
  have "root_of sha (take (2 ^ L) (drop (i * 2 ^ L) (hs @ [x]))) = root_of sha (drop (i * 2 ^ L) (hs @ [x]))"
    using i by simp
  moreover have "take (2 ^ L) (drop (j * 2 ^ L) (hs @ [x])) = take (2 ^ L) (drop (j * 2 ^ L) hs)" if "j < i" for j
    using le [OF that] by simp
  moreover have "Suc (length hs) div 2 ^ L = Suc i" unfolding i by simp
  ultimately show ?thesis using len by (simp add: blocks_def del: take_append drop_append)
qed

lemma append_loop_step:
  assumes "ls = (if level = length (levels t) then levels t @ [[]] else levels t)" "level < length ls"
    and "ls ! level @ [h] = row" "ls[level := row] = ls'"
  shows "append_loop sha t level h i =
      (if even i then Inr (t\<lparr>levels := ls'\<rparr>)
       else if length row \<le> i - 1 then Inl Panicked
       else append_loop sha (t\<lparr>levels := ls'\<rparr>) (level + 1) (NodeHash sha (row ! (i - 1)) h) (i div 2))"
  using assms(2) by (simp only: append_loop.simps [of sha t level h i] Let_def assms(1) [symmetric] assms(3,4) not_le [symmetric] if_False)

lemma append_loop_tree:
  assumes "Suc (length hs) = Suc i * 2 ^ L"
    and "levels t = map (\<lambda>l. if l < L then blocks sha (hs @ [x]) l else blocks sha hs l) [0..<Len64 (length hs)]"
    and "L \<le> Len64 (length hs)" and "h = root_of sha (drop (i * 2 ^ L) (hs @ [x]))"
  shows "append_loop sha t L h i = Inr (tree_for sha (hs @ [x]))"
  using assms
proof (induction i arbitrary: t L h rule: less_induct)
  case (less i)
  let ?n = "length hs" and ?hs' = "hs @ [x]"
  let ?row = "blocks sha ?hs' L"
  let ?ls = "map (\<lambda>l. if l < Suc L then blocks sha ?hs' l else blocks sha hs l) [0..<max (Suc L) (Len64 ?n)]"
  let ?start = "if L = length (levels t) then levels t @ [[]] else levels t"
  have i: "?n div 2 ^ L = i" using less.prems(1) by (rule Suc_mult_power_div)
  have row: "?row = blocks sha hs L @ [h]"
    using blocks_snoc_new [OF less.prems(1), of sha x] less.prems(4) by simp
  have old_row: "?start ! L = blocks sha hs L"
  proof (cases "L = Len64 ?n")
    case True
    then have "\<not> 2 ^ L \<le> ?n" using less_Len64_iff [of L ?n] by simp
    then have "blocks sha hs L = []" by (simp add: blocks_def)
    with True show ?thesis by (simp add: less.prems(2) nth_append del: upt_Suc)
  qed (use less.prems(2,3) in simp)
  have len0: "length ?start = max (Suc L) (Len64 ?n)" using less.prems(2,3) by auto
  have new_levels: "?start[L := ?row] = ?ls"
  proof (rule nth_equalityI)
    fix l
    assume "l < length (?start[L := ?row])"
    with len0 have l: "l < max (Suc L) (Len64 ?n)" by simp
    show "?start[L := ?row] ! l = ?ls ! l"
    proof (cases "l = L")
      case True
      have "L < length ?start" by (simp only: len0)
      then have upd: "?start[L := ?row] ! L = ?row" by (rule nth_list_update_eq)
      have map_nth: "?ls ! L = ?row" by (simp del: upt_Suc)
      show ?thesis by (simp only: True upd map_nth)
    next
      case False
      with l len0 less.prems(2,3) show ?thesis by (auto simp: nth_append simp del: upt_Suc)
    qed
  qed (simp add: len0)
  have ls_nth: "?ls ! L = ?row" "L < length ?start" by (simp_all add: len0 del: upt_Suc)
  have step: "append_loop sha t L h i =
      (if even i then Inr (t\<lparr>levels := ?ls\<rparr>)
       else if length ?row \<le> i - 1 then Inl Panicked
       else append_loop sha (t\<lparr>levels := ?ls\<rparr>) (L + 1) (NodeHash sha (?row ! (i - 1)) h) (i div 2))"
    by (rule append_loop_step [OF refl ls_nth(2) _ new_levels]) (simp only: old_row row)
  show ?case
  proof (cases "even i")
    case True
    have odd: "\<not> 2 ^ l dvd Suc ?n" if "L < l" for l
    proof
      assume "2 ^ l dvd Suc ?n"
      moreover have "(2::nat) ^ Suc L dvd 2 ^ l" using that by (intro le_imp_power_dvd) simp
      ultimately have "2 * 2 ^ L dvd Suc i * 2 ^ L" using less.prems(1) by (metis dvd_trans power_Suc)
      then have "2 dvd Suc i" by (metis dvd_times_right_cancel_iff power_not_zero zero_neq_numeral)
      with True show False by simp
    qed
    have "max (Suc L) (Len64 ?n) = Len64 (Suc ?n)"
    proof (rule linorder_cases [of "max (Suc L) (Len64 ?n)" "Len64 (Suc ?n)"])
      assume lt: "max (Suc L) (Len64 ?n) < Len64 (Suc ?n)"
      then have "2 ^ max (Suc L) (Len64 ?n) \<le> Suc ?n" by (simp add: less_Len64_iff)
      moreover have "\<not> 2 ^ max (Suc L) (Len64 ?n) \<le> ?n" using less_Len64_iff [of "max (Suc L) (Len64 ?n)" ?n] by simp
      ultimately have "Suc ?n = 2 ^ max (Suc L) (Len64 ?n)" by simp
      moreover have "\<not> 2 ^ max (Suc L) (Len64 ?n) dvd Suc ?n" by (rule odd) simp
      ultimately show ?thesis by simp
    next
      assume gt: "Len64 (Suc ?n) < max (Suc L) (Len64 ?n)"
      have "2 ^ L \<le> Suc ?n" using less.prems(1) by simp
      then have "L < Len64 (Suc ?n)" by (simp add: less_Len64_iff)
      with gt have "Len64 (Suc ?n) < Len64 ?n" by simp
      then have "2 ^ Len64 (Suc ?n) \<le> ?n" by (simp add: less_Len64_iff)
      then have "2 ^ Len64 (Suc ?n) \<le> Suc ?n" by simp
      then have "Len64 (Suc ?n) < Len64 (Suc ?n)" by (simp only: less_Len64_iff)
      then show ?thesis by simp
    qed
    then have "?ls = map (blocks sha ?hs') [0..<Len64 (length ?hs')]"
      using odd by (auto simp: blocks_snoc_same simp del: upt_Suc)
    with True show ?thesis unfolding step by (simp add: tree_for_def)
  next
    case False
    then obtain j where j: "i = Suc (2 * j)" by (auto elim!: oddE)
    have lt: "i - 1 < length (blocks sha hs L)" by (simp add: i j)
    have jlen: "Suc ?n = Suc j * 2 ^ Suc L" using less.prems(1) j by (simp add: algebra_simps)
    have "0 < i" using j by simp
    then have "2 ^ L \<le> ?n" using i by (metis div_less leI less_nat_zero_code)
    then have L: "Suc L \<le> Len64 ?n" by (simp add: less_Len64_iff Suc_le_eq)
    let ?blk = "drop (j * 2 ^ Suc L) ?hs'"
    have blk: "length ?blk = 2 ^ Suc L" using jlen by simp
    then have sp: "splitPoint (length ?blk) = 2 ^ L" and two: "2 \<le> length ?blk"
      by (intro splitPoint_eqI) (simp_all only: blk, simp_all)
    have "root_of sha ?blk = NodeHash sha (root_of sha (take (2 ^ L) ?blk)) (root_of sha (drop (2 ^ L) ?blk))"
      using root_of_split [OF two, of sha] by (simp only: sp)
    moreover have "2 ^ L + j * 2 ^ Suc L = i * 2 ^ L" by (simp add: j)
    then have "drop (2 ^ L) ?blk = drop (i * 2 ^ L) ?hs'" by (simp only: drop_drop)
    moreover have "root_of sha (take (2 ^ L) ?blk) = ?row ! (i - 1)"
    proof -
      have "i - 1 < length ?row" using lt row by simp
      then have "?row ! (i - 1) = root_of sha (take (2 ^ L) (drop ((i - 1) * 2 ^ L) ?hs'))"
        by (simp add: blocks_def del: take_append drop_append)
      moreover have "(i - 1) * 2 ^ L = j * 2 ^ Suc L" by (simp add: j)
      ultimately show ?thesis by (simp only:)
    qed
    ultimately have "append_loop sha (t\<lparr>levels := ?ls\<rparr>) (Suc L) (NodeHash sha (?row ! (i - 1)) h) j
        = Inr (tree_for sha ?hs')"
      using L by (intro less.IH) (simp_all add: j jlen less.prems(4) max_absorb2 del: upt_Suc)
    moreover have "\<not> length ?row \<le> i - 1" using lt row by simp
    ultimately show ?thesis unfolding step using False j by simp
  qed
qed

lemma Append_tree_for:
  "Append sha (tree_for sha hs) d = Inr (length hs, tree_for sha (hs @ [LeafHash sha d]))"
proof -
  have "append_loop sha (tree_for sha hs) 0 (LeafHash sha d) (length hs) = Inr (tree_for sha (hs @ [LeafHash sha d]))"
    by (rule append_loop_tree) (simp_all add: tree_for_def)
  then show ?thesis by (simp add: Append_def)
qed

section \<open>Heads and proofs\<close>

text \<open>The ranges the RFC's recursion visits start at a multiple of a power of two not below their length.\<close>

definition aligned :: "nat \<Rightarrow> nat \<Rightarrow> bool" where
  "aligned lo n \<longleftrightarrow> (\<exists>j. n \<le> 2 ^ j \<and> 2 ^ j dvd lo)"

lemma aligned_0 [simp]: "aligned 0 n"
proof -
  have "n \<le> 2 ^ n" by (rule less_imp_le, rule less_exp)
  then show ?thesis unfolding aligned_def by (intro exI [of _ n]) simp
qed

lemma aligned_split:
  assumes "aligned lo n" "2 \<le> n"
  shows "aligned lo (splitPoint n)" "aligned (lo + splitPoint n) (n - splitPoint n)"
proof -
  from assms obtain j where j: "n \<le> 2 ^ j" "2 ^ j dvd lo" by (auto simp: aligned_def)
  obtain i where i: "splitPoint n = 2 ^ i" using splitPoint_power by blast
  have b: "2 ^ i < n" "n \<le> 2 * 2 ^ i" using splitPoint_bounds [of n] assms(2) i by auto
  then have "(2::nat) ^ i < 2 ^ j" using j(1) by linarith
  then have "i < j" by (rule power_less_imp_less_exp [rotated]) simp
  then have "(2::nat) ^ i dvd 2 ^ j" by (intro le_imp_power_dvd) simp
  with j(2) have "2 ^ i dvd lo" by (rule dvd_trans [rotated])
  moreover from b have "n - 2 ^ i \<le> 2 ^ i" by simp
  ultimately show "aligned lo (splitPoint n)" "aligned (lo + splitPoint n) (n - splitPoint n)"
    unfolding aligned_def i by (metis order_refl, metis dvd_add dvd_refl)
qed

text \<open>\<open>D[lo:hi]\<close> as a list.\<close>

definition slice :: "nat \<Rightarrow> nat \<Rightarrow> 'a list \<Rightarrow> 'a list" where
  "slice lo hi xs = take (hi - lo) (drop lo xs)"

lemma length_slice [simp]: "hi \<le> length xs \<Longrightarrow> length (slice lo hi xs) = hi - lo"
  by (simp add: slice_def)

lemma slice_0 [simp]: "slice 0 hi xs = take hi xs"
  by (simp add: slice_def)

lemma take_slice: "lo + k \<le> hi \<Longrightarrow> take k (slice lo hi xs) = slice lo (lo + k) xs"
  by (simp add: slice_def min_def)

lemma drop_slice: "drop k (slice lo hi xs) = slice (lo + k) hi xs"
  by (simp add: slice_def drop_take add.commute)

lemma level_at_tree:
  assumes "hi \<le> length hs" "hi = lo + 2 ^ k" "2 ^ k dvd lo"
  shows "level_at (tree_for sha hs) k (lo div 2 ^ k) = Inr (root_of sha (slice lo hi hs))"
proof -
  from assms(3) obtain i where lo: "lo = i * 2 ^ k" by (auto simp: ac_simps)
  with assms have hi: "Suc i * 2 ^ k \<le> length hs" by simp
  then have "Suc i \<le> length hs div 2 ^ k" by (subst less_eq_div_iff_mult_less_eq) auto
  moreover have "k < Len64 (length hs)" using assms by (simp add: less_Len64_iff)
  ultimately show ?thesis
    using assms(2) lo by (simp add: level_at_def tree_for_def blocks_def slice_def)
qed

lemma hashRange_tree:
  "hi \<le> length hs \<Longrightarrow> aligned lo (hi - lo) \<Longrightarrow>
     hashRange sha (tree_for sha hs) lo hi = Inr (root_of sha (slice lo hi hs))"
proof (induction "hi - lo" arbitrary: lo hi rule: less_induct)
  case less
  let ?n = "hi - lo" and ?t = "tree_for sha hs"
  consider "?n = 0" | "0 < ?n" "?n AND (?n - 1) = 0" | "0 < ?n" "?n AND (?n - 1) \<noteq> 0" by linarith
  then show ?case
  proof cases
    case 1
    then show ?thesis by (simp add: hashRange.simps slice_def)
  next
    case 2
    then obtain k where k: "?n = 2 ^ k" using power_of_two_iff by blast
    from less.prems(2) obtain j where j: "?n \<le> 2 ^ j" "2 ^ j dvd lo" by (auto simp: aligned_def)
    with k have "k \<le> j" by simp
    then have dvd: "2 ^ k dvd lo" using j(2) by (rule power_le_dvd [rotated])
    then have "lo AND (?n - 1) = 0" unfolding k by (simp add: and_mask_dvd_iff [symmetric])
    moreover have "hi = lo + 2 ^ k" using 2(1) k by linarith
    ultimately show ?thesis
      using 2 level_at_tree [OF less.prems(1) _ dvd, of sha] k
      by (subst hashRange.simps) (simp add: Let_def)
  next
    case 3
    then have n: "2 < ?n" using not_power_ge_3 by blast
    let ?k = "splitPoint ?n"
    have k: "?k < ?n" using n splitPoint_bounds [of ?n] by simp
    have "hashRange sha ?t lo (lo + ?k) = Inr (root_of sha (slice lo (lo + ?k) hs))"
      using less.prems aligned_split(1) [OF less.prems(2)] n k by (intro less.hyps) auto
    moreover have "hashRange sha ?t (lo + ?k) hi = Inr (root_of sha (slice (lo + ?k) hi hs))"
      using less.prems aligned_split(2) [OF less.prems(2)] n k
      by (intro less.hyps) (auto simp: right_part_shorter)
    ultimately have "hashRange sha ?t lo hi =
        Inr (NodeHash sha (root_of sha (slice lo (lo + ?k) hs)) (root_of sha (slice (lo + ?k) hi hs)))"
      using 3 by (subst hashRange.simps) (simp add: Let_def)
    then show ?thesis
      using root_of_split [of "slice lo hi hs" sha] less.prems(1) n k by (simp add: take_slice drop_slice)
  qed
qed

lemma path_tree:
  "hi \<le> length hs \<Longrightarrow> aligned lo (hi - lo) \<Longrightarrow> m < hi - lo \<Longrightarrow>
     path sha (tree_for sha hs) m lo hi ps = Inr (ps @ PATH sha m (slice lo hi hs))"
proof (induction "hi - lo" arbitrary: m lo hi rule: less_induct)
  case less
  let ?n = "hi - lo" and ?t = "tree_for sha hs" and ?k = "splitPoint (hi - lo)"
  show ?case
  proof (cases "?n = 1")
    case True
    with less.prems show ?thesis by (subst path.simps) (simp add: Let_def)
  next
    case False
    with less.prems(3) have n: "2 \<le> ?n" by simp
    then have k: "?k < ?n" using splitPoint_bounds [of ?n] by simp
    note al = aligned_split [OF less.prems(2) n]
    have hr: "hashRange sha ?t lo (lo + ?k) = Inr (root_of sha (slice lo (lo + ?k) hs))"
        "hashRange sha ?t (lo + ?k) hi = Inr (root_of sha (slice (lo + ?k) hi hs))"
      using less.prems(1) al k by (auto intro!: hashRange_tree)
    have "m < ?k \<Longrightarrow> path sha ?t m lo (lo + ?k) ps = Inr (ps @ PATH sha m (slice lo (lo + ?k) hs))"
      using less.prems(1) al k by (intro less.hyps) auto
    moreover have "\<not> m < ?k \<Longrightarrow> path sha ?t (m - ?k) (lo + ?k) hi ps = Inr (ps @ PATH sha (m - ?k) (slice (lo + ?k) hi hs))"
      using less.prems(1,3) al k by (intro less.hyps) (auto simp: right_part_shorter)
    ultimately show ?thesis
      using n k less.prems(1) hr
      by (subst path.simps) (simp add: Let_def PATH_split take_slice drop_slice)
  qed
qed

lemma subproof_tree:
  "hi \<le> length hs \<Longrightarrow> aligned lo (hi - lo) \<Longrightarrow> 0 < m \<Longrightarrow> m \<le> hi - lo \<Longrightarrow>
     subproof sha (tree_for sha hs) m lo hi b ps = Inr (ps @ SUBPROOF sha m (slice lo hi hs) b)"
proof (induction "hi - lo" arbitrary: m lo hi b rule: less_induct)
  case less
  let ?n = "hi - lo" and ?t = "tree_for sha hs" and ?k = "splitPoint (hi - lo)"
  show ?case
  proof (cases "m = ?n")
    case True
    then show ?thesis
      using less.prems(1) hashRange_tree [OF less.prems(1,2), of sha]
      by (subst subproof.simps) (simp add: Let_def)
  next
    case False
    with less.prems(3,4) have n: "2 \<le> ?n" by simp
    then have k: "?k < ?n" using splitPoint_bounds [of ?n] by simp
    note al = aligned_split [OF less.prems(2) n]
    have hr: "hashRange sha ?t lo (lo + ?k) = Inr (root_of sha (slice lo (lo + ?k) hs))"
        "hashRange sha ?t (lo + ?k) hi = Inr (root_of sha (slice (lo + ?k) hi hs))"
      using less.prems(1) al k by (auto intro!: hashRange_tree)
    have "m \<le> ?k \<Longrightarrow> subproof sha ?t m lo (lo + ?k) b ps = Inr (ps @ SUBPROOF sha m (slice lo (lo + ?k) hs) b)"
      using less.prems(1,3) al k by (intro less.hyps) auto
    moreover have "\<not> m \<le> ?k \<Longrightarrow> subproof sha ?t (m - ?k) (lo + ?k) hi False ps
        = Inr (ps @ SUBPROOF sha (m - ?k) (slice (lo + ?k) hi hs) False)"
      using less.prems(1,4) al k by (intro less.hyps) (auto simp: right_part_shorter)
    ultimately show ?thesis
      using n k less.prems(1) hr False
      by (subst subproof.simps) (simp add: Let_def SUBPROOF_split take_slice drop_slice)
  qed
qed

lemma Root_tree_for: "Root sha (tree_for sha hs) = Inr (root_of sha hs)"
  by (simp add: Root_def hashRange_tree)

lemma RootAt_tree_for:
  "RootAt sha (tree_for sha hs) n =
     (if length hs < n then Inl ErrSizeOutOfRange else Inr (root_of sha (take n hs)))"
  by (simp add: RootAt_def hashRange_tree)

lemma InclusionProof_tree_for:
  "InclusionProof sha (tree_for sha hs) index n =
     (if length hs < n then Inl ErrSizeOutOfRange
      else if n \<le> index then Inl ErrIndexOutOfRange
      else Inr (PATH sha index (take n hs)))"
  by (simp add: InclusionProof_def path_tree)

lemma ConsistencyProof_tree_for:
  "ConsistencyProof sha (tree_for sha hs) n1 n2 =
     (if length hs < n2 \<or> n2 < n1 then Inl ErrSizeOutOfRange
      else if n1 = 0 \<or> n1 = n2 then Inr []
      else Inr (SUBPROOF sha n1 (take n2 hs) True))"
  by (simp add: ConsistencyProof_def subproof_tree)

end
