(* ===== verification/Merkle_Verify.thy ===== *)
theory Merkle_Verify
  imports Merkle_Tree
begin

text \<open>
  The verifiers of \<open>crypto/merkle/verify.go\<close>, loop by loop.  Completeness: the proofs of the
  tree are accepted.  Soundness: an accepted proof names a leaf of the committed list (a prefix,
  for consistency), or a colliding pair stands among the inputs the verifier and the tree hash.
\<close>

section \<open>The verifiers\<close>

text \<open>The inner loop, which climbs past the levels where the node has no right sibling.\<close>

function climb :: "nat \<Rightarrow> nat \<Rightarrow> nat \<times> nat" where
  "climb fn sn = (if even fn \<and> fn \<noteq> 0 then climb (fn div 2) (sn div 2) else (fn, sn))"
  by pat_completeness auto
termination
  by (relation "measure fst") auto

declare climb.simps [simp del]

fun walk_inclusion :: "sha \<Rightarrow> nat \<Rightarrow> nat \<Rightarrow> hash \<Rightarrow> hash list \<Rightarrow> merkle_error + nat \<times> hash" where
  "walk_inclusion sha fn sn r [] = Inr (sn, r)"
| "walk_inclusion sha fn sn r (p # ps) =
     (if sn = 0 then Inl ErrInvalidProof
      else if odd fn \<or> fn = sn then
        let r' = NodeHash sha p r; (fn', sn') = climb fn sn
        in walk_inclusion sha (fn' div 2) (sn' div 2) r' ps
      else walk_inclusion sha (fn div 2) (sn div 2) (NodeHash sha r p) ps)"

definition VerifyInclusion :: "sha \<Rightarrow> hash \<Rightarrow> nat \<Rightarrow> nat \<Rightarrow> hash list \<Rightarrow> hash \<Rightarrow> merkle_error + unit" where
  "VerifyInclusion sha leafHash index n ps root =
     (if n \<le> index then Inl ErrIndexOutOfRange
      else bindE (walk_inclusion sha index (n - 1) leafHash ps) (\<lambda>(sn, r).
        if sn \<noteq> 0 \<or> r \<noteq> root then Inl ErrInvalidProof else Inr ()))"

text \<open>Step 4: climb past the levels where the smaller tree ends on a right child.\<close>

function strip :: "nat \<Rightarrow> nat \<Rightarrow> nat \<times> nat" where
  "strip fn sn = (if odd fn then strip (fn div 2) (sn div 2) else (fn, sn))"
  by pat_completeness auto
termination
  by (relation "measure fst") (auto elim!: oddE)

declare strip.simps [simp del]

fun walk_consistency :: "sha \<Rightarrow> nat \<Rightarrow> nat \<Rightarrow> hash \<Rightarrow> hash \<Rightarrow> hash list \<Rightarrow> merkle_error + nat \<times> hash \<times> hash" where
  "walk_consistency sha fn sn fr sr [] = Inr (sn, fr, sr)"
| "walk_consistency sha fn sn fr sr (c # cs) =
     (if sn = 0 then Inl ErrInvalidProof
      else if odd fn \<or> fn = sn then
        let fr' = NodeHash sha c fr; sr' = NodeHash sha c sr; (fn', sn') = climb fn sn
        in walk_consistency sha (fn' div 2) (sn' div 2) fr' sr' cs
      else walk_consistency sha (fn div 2) (sn div 2) fr (NodeHash sha sr c) cs)"

definition VerifyConsistency :: "sha \<Rightarrow> nat \<Rightarrow> nat \<Rightarrow> hash \<Rightarrow> hash \<Rightarrow> hash list \<Rightarrow> merkle_error + unit" where
  "VerifyConsistency sha n1 n2 root1 root2 ps =
     (if n2 < n1 then Inl ErrSizeOutOfRange
      else if n1 = 0 \<or> n1 = n2 then
        if length ps \<noteq> 0 then Inl ErrInvalidProof
        else if n1 = 0 \<and> root1 \<noteq> EmptyRoot sha then Inl ErrInvalidProof
        else if n1 = n2 \<and> root1 \<noteq> root2 then Inl ErrInvalidProof
        else Inr ()
      else
        case ps of
          [] \<Rightarrow> Inl ErrInvalidProof
        | p # ps' \<Rightarrow>
            let (start, rest) = (if n1 AND (n1 - 1) = 0 then (root1, ps) else (p, ps'));
                (fn, sn) = strip (n1 - 1) (n2 - 1)
            in bindE (walk_consistency sha fn sn start start rest) (\<lambda>(sn', fr, sr).
                 if fr \<noteq> root1 \<or> sr \<noteq> root2 \<or> sn' \<noteq> 0 then Inl ErrInvalidProof else Inr ()))"

section \<open>The inputs hashed\<close>

text \<open>The node inputs of the tree over \<open>hs\<close>, and those of one level.\<close>

function root_inputs :: "sha \<Rightarrow> hash list \<Rightarrow> bytes list" where
  "root_inputs sha hs =
     (let k = splitPoint (length hs) in
      if length hs \<le> 1 then []
      else node_input (root_of sha (take k hs)) (root_of sha (drop k hs))
             # root_inputs sha (take k hs) @ root_inputs sha (drop k hs))"
  by pat_completeness auto
termination
proof (relation "measure (\<lambda>(sha, hs). length hs)", goal_cases)
  case (2 sha hs k)
  then show ?case using splitPoint_bounds [of "length hs"] by simp
qed auto

fun pair_inputs :: "hash list \<Rightarrow> bytes list" where
  "pair_inputs (a # b # hs) = node_input a b # pair_inputs hs"
| "pair_inputs hs = []"

declare root_inputs.simps [simp del]

lemma root_inputs_small [simp]: "length hs \<le> 1 \<Longrightarrow> root_inputs sha hs = []"
  by (simp add: root_inputs.simps Let_def)

lemma root_inputs_split: "2 \<le> length hs \<Longrightarrow> root_inputs sha hs =
    (let k = splitPoint (length hs)
     in node_input (root_of sha (take k hs)) (root_of sha (drop k hs))
          # root_inputs sha (take k hs) @ root_inputs sha (drop k hs))"
  by (simp add: root_inputs.simps [of sha hs] Let_def)

lemma pair_inputs_append: "even (length xs) \<Longrightarrow> pair_inputs (xs @ ys) = pair_inputs xs @ pair_inputs ys"
  by (induction xs rule: pair_inputs.induct) auto

lemma root_inputs_pair_up:
  "set (root_inputs sha hs) = set (pair_inputs hs) \<union> set (root_inputs sha (pair_up sha hs))"
proof (induction "length hs" arbitrary: hs rule: less_induct)
  case less
  let ?n = "length hs" and ?k = "splitPoint (length hs)"
  consider "?n \<le> 1" | "?n = 2" | "2 < ?n" by linarith
  then show ?case
  proof cases
    case 1
    then show ?thesis by (cases hs rule: pair_inputs.cases) (auto simp: root_inputs_split)
  next
    case 2
    then obtain a b where "hs = [a, b]" by (cases hs rule: pair_inputs.cases) auto
    then show ?thesis by (simp add: root_inputs_split Let_def)
  next
    case 3
    then have k: "?k < ?n" "even ?k" using splitPoint_bounds [of ?n] splitPoint_even by auto
    have half: "splitPoint (Suc ?n div 2) = ?k div 2" using splitPoint_half [OF 3] by simp
    have "pair_inputs hs = pair_inputs (take ?k hs) @ pair_inputs (drop ?k hs)"
      using k pair_inputs_append [of "take ?k hs" "drop ?k hs"] by simp
    moreover have "root_inputs sha (pair_up sha hs) =
        node_input (root_of sha (take ?k hs)) (root_of sha (drop ?k hs))
          # root_inputs sha (pair_up sha (take ?k hs)) @ root_inputs sha (pair_up sha (drop ?k hs))"
      using 3 k by (simp add: root_inputs_split half Let_def pair_up_take pair_up_drop root_of_pair_up)
    moreover have "hs \<noteq> []" using 3 by auto
    then have "set (root_inputs sha (drop ?k hs)) = set (pair_inputs (drop ?k hs)) \<union> set (root_inputs sha (pair_up sha (drop ?k hs)))"
      using less.hyps [of "drop ?k hs"] by simp
    moreover have "set (root_inputs sha (take ?k hs)) = set (pair_inputs (take ?k hs)) \<union> set (root_inputs sha (pair_up sha (take ?k hs)))"
      using less.hyps [of "take ?k hs"] k by simp
    ultimately show ?thesis using 3 by (auto simp: root_inputs_split [of hs] Let_def)
  qed
qed

lemma pair_inputs_nth: "2 * i + 1 < length hs \<Longrightarrow> node_input (hs ! (2 * i)) (hs ! (2 * i + 1)) \<in> set (pair_inputs hs)"
proof (induction hs arbitrary: i rule: pair_inputs.induct)
  case (1 a b hs)
  then show ?case by (cases i) auto
qed auto

text \<open>The inputs of the verifiers' walks.\<close>

fun inclusion_inputs :: "sha \<Rightarrow> nat \<Rightarrow> nat \<Rightarrow> hash \<Rightarrow> hash list \<Rightarrow> bytes list" where
  "inclusion_inputs sha fn sn r [] = []"
| "inclusion_inputs sha fn sn r (p # ps) =
     (if sn = 0 then []
      else if odd fn \<or> fn = sn then
        let (fn', sn') = climb fn sn
        in node_input p r # inclusion_inputs sha (fn' div 2) (sn' div 2) (NodeHash sha p r) ps
      else node_input r p # inclusion_inputs sha (fn div 2) (sn div 2) (NodeHash sha r p) ps)"

fun consistency_inputs :: "sha \<Rightarrow> nat \<Rightarrow> nat \<Rightarrow> hash \<Rightarrow> hash \<Rightarrow> hash list \<Rightarrow> bytes list" where
  "consistency_inputs sha fn sn fr sr [] = []"
| "consistency_inputs sha fn sn fr sr (c # cs) =
     (if sn = 0 then []
      else if odd fn \<or> fn = sn then
        let (fn', sn') = climb fn sn
        in node_input c fr # node_input c sr
             # consistency_inputs sha (fn' div 2) (sn' div 2) (NodeHash sha c fr) (NodeHash sha c sr) cs
      else node_input sr c # consistency_inputs sha (fn div 2) (sn div 2) fr (NodeHash sha sr c) cs)"

section \<open>Promotion\<close>

text \<open>
  A last node on an even position has no sibling: the walk from it is the walk from its
  position one level up.
\<close>

lemma climb_even: "even fn \<Longrightarrow> fn \<noteq> 0 \<Longrightarrow> climb fn sn = climb (fn div 2) (sn div 2)"
  by (subst climb.simps) simp

lemma climb_odd: "odd fn \<Longrightarrow> climb fn sn = (fn, sn)"
  by (subst climb.simps) simp

lemma half_nonzero: "even fn \<Longrightarrow> fn \<noteq> 0 \<Longrightarrow> fn div 2 \<noteq> 0" for fn :: nat
  by (auto elim!: evenE)

lemma walk_inclusion_promote: "even fn \<Longrightarrow> fn \<noteq> 0 \<Longrightarrow> ps \<noteq> [] \<Longrightarrow>
    walk_inclusion sha fn fn r ps = walk_inclusion sha (fn div 2) (fn div 2) r ps"
  using climb_even [of fn fn] by (cases ps) (simp_all add: half_nonzero)

lemma inclusion_inputs_promote: "even fn \<Longrightarrow> fn \<noteq> 0 \<Longrightarrow>
    inclusion_inputs sha fn fn r ps = inclusion_inputs sha (fn div 2) (fn div 2) r ps"
  using climb_even [of fn fn] by (cases ps) (simp_all add: half_nonzero)

lemma walk_consistency_promote: "even fn \<Longrightarrow> fn \<noteq> 0 \<Longrightarrow> cs \<noteq> [] \<Longrightarrow>
    walk_consistency sha fn fn fr sr cs = walk_consistency sha (fn div 2) (fn div 2) fr sr cs"
  using climb_even [of fn fn] by (cases cs) (simp_all add: half_nonzero)

lemma consistency_inputs_promote: "even fn \<Longrightarrow> fn \<noteq> 0 \<Longrightarrow>
    consistency_inputs sha fn fn fr sr cs = consistency_inputs sha (fn div 2) (fn div 2) fr sr cs"
  using climb_even [of fn fn] by (cases cs) (simp_all add: half_nonzero)

lemma PATH_nonempty: "2 \<le> length hs \<Longrightarrow> PATH sha m hs \<noteq> []"
  by (simp add: PATH_split Let_def)

text \<open>The positions of a walk: a last node that is even, one that is odd, one with a right sibling.\<close>

lemma position_cases [consumes 1, case_names single odd left promote]:
  assumes "fn < length hs"
  obtains "length hs = 1" "fn = 0" | "odd fn" "2 \<le> length hs" | "even fn" "fn + 1 < length hs" "2 \<le> length hs"
    | "even fn" "fn + 1 = length hs" "fn \<noteq> 0" "2 \<le> length hs"
proof -
  have "odd fn \<Longrightarrow> 2 \<le> length hs" using assms by (cases fn) auto
  moreover have "length hs = 1 \<or> 2 \<le> length hs" using assms by linarith
  ultimately show thesis using that assms by (metis One_nat_def Suc_eq_plus1 Suc_lessI less_Suc0 less_one)
qed

section \<open>Completeness\<close>

lemma walk_inclusion_PATH:
  "fn < length hs \<Longrightarrow> walk_inclusion sha fn (length hs - 1) (hs ! fn) (PATH sha fn hs) = Inr (0, root_of sha hs)"
proof (induction "length hs" arbitrary: hs fn rule: less_induct)
  case less
  let ?up = "pair_up sha hs"
  have len: "length ?up - 1 = (length hs - 1) div 2" using less.prems by simp
  have up: "2 \<le> length hs \<Longrightarrow> walk_inclusion sha (fn div 2) ((length hs - 1) div 2) (?up ! (fn div 2)) (PATH sha (fn div 2) ?up)
      = Inr (0, root_of sha hs)"
    using less.hyps [of ?up "fn div 2"] less.prems by (simp add: len [simplified] root_of_pair_up less_mult_imp_div_less)
  from less.prems show ?case
  proof (cases rule: position_cases)
    case single
    then obtain h where "hs = [h]" by (auto simp: length_Suc_conv)
    with single show ?thesis by simp
  next
    case odd
    then obtain i where i: "fn = 2 * i + 1" by (auto elim: oddE)
    with odd up less.prems show ?thesis
      by (simp add: PATH_step [of hs] sibling_def climb_odd pair_up_nth)
  next
    case left
    then obtain i where i: "fn = 2 * i" by (auto elim: evenE)
    have "fn \<noteq> length hs - 1" using left by simp
    with left up i less.prems show ?thesis
      by (simp add: PATH_step [of hs] sibling_def pair_up_nth)
  next
    case promote
    then obtain i where i: "fn = 2 * i" by (auto elim: evenE)
    have PATH: "PATH sha fn hs = PATH sha (fn div 2) ?up"
      using promote by (simp add: PATH_step [of hs] sibling_def)
    have last: "length hs - 1 = fn" "?up ! (fn div 2) = hs ! fn" using promote i by (simp_all add: pair_up_nth_last)
    show ?thesis
      using up [OF promote(4)] walk_inclusion_promote [OF promote(1,3) PATH_nonempty [OF promote(4), of sha fn]]
      by (simp only: last PATH)
  qed
qed

text \<open>
  The consistency walk carries the node at position \<open>fn\<close> in both trees, which agree on the
  nodes before it.
\<close>

lemma take_pair_up_agree: "take fn hs1 = take fn hs2 \<Longrightarrow> fn < length hs1 \<Longrightarrow> fn < length hs2 \<Longrightarrow>
    take (fn div 2) (pair_up sha hs1) = take (fn div 2) (pair_up sha hs2)"
proof -
  assume a: "take fn hs1 = take fn hs2" "fn < length hs1" "fn < length hs2"
  let ?k = "2 * (fn div 2)"
  have k: "?k \<le> fn" "even ?k" by simp_all
  then have "take ?k hs1 = take ?k hs2" using a(1) by (metis min.absorb1 take_take)
  moreover have "?k \<le> length hs1" "?k \<le> length hs2" using a(2,3) by simp_all
  note pair_up_take [OF k(2) this(1), of sha] pair_up_take [OF k(2) this(2), of sha]
  ultimately show ?thesis by simp
qed

lemma walk_consistency_PATH:
  "fn < length hs2 \<Longrightarrow> length hs1 = Suc fn \<Longrightarrow> take fn hs1 = take fn hs2 \<Longrightarrow>
     walk_consistency sha fn (length hs2 - 1) (hs1 ! fn) (hs2 ! fn) (PATH sha fn hs2)
       = Inr (0, root_of sha hs1, root_of sha hs2)"
proof (induction "length hs2" arbitrary: hs1 hs2 fn rule: less_induct)
  case less
  let ?up1 = "pair_up sha hs1" and ?up2 = "pair_up sha hs2"
  have len: "(Suc (length hs2) div 2) - 1 = (length hs2 - 1) div 2" using less.prems(1) by simp
  have up: "walk_consistency sha (fn div 2) ((length hs2 - 1) div 2) (?up1 ! (fn div 2)) (?up2 ! (fn div 2))
      (PATH sha (fn div 2) ?up2) = Inr (0, root_of sha hs1, root_of sha hs2)" if "2 \<le> length hs2"
    using less.hyps [of ?up2 "fn div 2" ?up1] less.prems that take_pair_up_agree [OF less.prems(3)]
    by (simp add: len [simplified] root_of_pair_up less_mult_imp_div_less)
  from less.prems(1) show ?case
  proof (cases rule: position_cases)
    case single
    then obtain h where "hs2 = [h]" by (auto simp: length_Suc_conv)
    moreover from single less.prems obtain h' where "hs1 = [h']" by (auto simp: length_Suc_conv)
    ultimately show ?thesis using single by simp
  next
    case odd
    then obtain i where i: "fn = 2 * i + 1" by (auto elim: oddE)
    have "hs1 ! (2 * i) = hs2 ! (2 * i)"
      using less.prems(3) i by (metis Suc_eq_plus1 lessI nth_take)
    with i odd up less.prems(1,2) show ?thesis
      by (simp add: PATH_step [of hs2] sibling_def climb_odd pair_up_nth)
  next
    case left
    then obtain i where i: "fn = 2 * i" by (auto elim: evenE)
    have "fn \<noteq> length hs2 - 1" using left by simp
    with left up i less.prems(1,2) show ?thesis
      by (simp add: PATH_step [of hs2] sibling_def pair_up_nth pair_up_nth_last)
  next
    case promote
    then obtain i where i: "fn = 2 * i" by (auto elim: evenE)
    have PATH: "PATH sha fn hs2 = PATH sha (fn div 2) ?up2"
      using promote by (simp add: PATH_step [of hs2] sibling_def)
    have last: "length hs2 - 1 = fn" "?up2 ! (fn div 2) = hs2 ! fn" "?up1 ! (fn div 2) = hs1 ! fn"
      using promote i less.prems(2) by (simp_all add: pair_up_nth_last)
    show ?thesis
      using up [OF promote(4)] walk_consistency_promote [OF promote(1,3) PATH_nonempty [OF promote(4), of sha fn]]
      by (simp only: last PATH)
  qed
qed

text \<open>Step 4 climbs to the level where the smaller tree ends on a left child.\<close>

lemma strip_even: "even fn \<Longrightarrow> strip fn sn = (fn, sn)"
  by (subst strip.simps) simp

lemma strip_odd: "odd fn \<Longrightarrow> strip fn sn = strip (fn div 2) (sn div 2)"
  by (subst strip.simps) simp

lemma power_half: "even m \<Longrightarrow> 0 < m \<Longrightarrow> (\<exists>j. m = 2 ^ j) \<longleftrightarrow> (\<exists>j. m div 2 = 2 ^ j)" for m :: nat
proof
  assume "even m" "0 < m" "\<exists>j. m = 2 ^ j"
  then obtain j where "m = 2 ^ j" "j \<noteq> 0" by (metis dvd_refl even_power odd_one power_0)
  then show "\<exists>j. m div 2 = 2 ^ j" by (cases j) auto
next
  assume "even m" "\<exists>j. m div 2 = 2 ^ j"
  then obtain j where "m = 2 ^ Suc j" by auto
  then show "\<exists>j. m = 2 ^ j" by blast
qed

lemma power_odd: "odd m \<Longrightarrow> (\<exists>j. m = 2 ^ j) \<longleftrightarrow> m = 1" for m :: nat
  by (metis even_numeral even_power not_gr_zero power_0)


lemma strip_walk:
  assumes "0 < m" "m < length hs"
    and "strip (m - 1) (length hs - 1) = (fn, sn)"
  shows "\<exists>hs1 hs2. fn < length hs2 \<and> length hs1 = Suc fn \<and> sn = length hs2 - 1
      \<and> take fn hs1 = take fn hs2 \<and> hs1 ! fn = hs2 ! fn
      \<and> root_of sha hs1 = root_of sha (take m hs) \<and> root_of sha hs2 = root_of sha hs
      \<and> SUBPROOF sha m hs True = (if \<exists>j. m = 2 ^ j then [] else [hs2 ! fn]) @ PATH sha fn hs2
      \<and> ((\<exists>j. m = 2 ^ j) \<longrightarrow> fn = 0)"
  using assms
proof (induction m arbitrary: hs rule: less_induct)
  case (less m)
  show ?case
  proof (cases "odd m")
    case True
    then have fn: "fn = m - 1" "sn = length hs - 1" using less.prems(1,3) by (auto simp: strip_even)
    have "SUBPROOF sha m hs True = (if m = 1 then [] else [hs ! (m - 1)]) @ PATH sha (m - 1) hs"
      using SUBPROOF_odd [OF True, of hs sha True] less.prems(2) by simp
    with fn less.prems(1,2) show ?thesis
      by (intro exI [of _ "take m hs"] exI [of _ hs]) (auto simp: power_odd [OF True])
  next
    case False
    let ?up = "pair_up sha hs"
    from False have m2: "0 < m div 2" using less.prems(1) by auto
    have pred: "(m - 1) div 2 = m div 2 - 1" "odd (m - 1)" using False less.prems(1) by (auto elim!: evenE)
    have len: "length ?up - 1 = (length hs - 1) div 2" by simp
    have lt: "m div 2 < length ?up" using False less.prems(2) by (auto elim!: evenE)
    have "strip (m div 2 - 1) (length ?up - 1) = (fn, sn)"
      using less.prems(3) unfolding strip_odd [OF pred(2)] pred(1) len .
    from less.IH [OF _ m2 lt this] less.prems(1) obtain hs1 hs2 where IH:
      "fn < length hs2" "length hs1 = Suc fn" "sn = length hs2 - 1" "take fn hs1 = take fn hs2" "hs1 ! fn = hs2 ! fn"
      "root_of sha hs1 = root_of sha (take (m div 2) ?up)" "root_of sha hs2 = root_of sha ?up"
      "SUBPROOF sha (m div 2) ?up True = (if \<exists>j. m div 2 = 2 ^ j then [] else [hs2 ! fn]) @ PATH sha fn hs2"
      "(\<exists>j. m div 2 = 2 ^ j) \<longrightarrow> fn = 0"
      by auto
    have "take (m div 2) ?up = pair_up sha (take m hs)"
      using pair_up_take [of m hs sha] False less.prems(2) by simp
    moreover have "SUBPROOF sha m hs True = SUBPROOF sha (m div 2) ?up True"
      using SUBPROOF_even [of hs m sha True] False less.prems by simp
    ultimately show ?thesis
      using IH power_half [of m] False less.prems(1) by (intro exI [of _ hs1] exI [of _ hs2]) (simp add: root_of_pair_up)
  qed
qed

lemma VerifyConsistency_SUBPROOF:
  assumes "0 < m" "m < length hs"
  shows "VerifyConsistency sha m (length hs) (root_of sha (take m hs)) (root_of sha hs) (SUBPROOF sha m hs True) = Inr ()"
proof -
  obtain fn sn where st: "strip (m - 1) (length hs - 1) = (fn, sn)" by (cases "strip (m - 1) (length hs - 1)")
  from strip_walk [OF assms st, of sha] obtain hs1 hs2 where w:
    "fn < length hs2" "length hs1 = Suc fn" "sn = length hs2 - 1" "take fn hs1 = take fn hs2" "hs1 ! fn = hs2 ! fn"
    "root_of sha hs1 = root_of sha (take m hs)" "root_of sha hs2 = root_of sha hs"
    "SUBPROOF sha m hs True = (if \<exists>j. m = 2 ^ j then [] else [hs2 ! fn]) @ PATH sha fn hs2"
    "(\<exists>j. m = 2 ^ j) \<longrightarrow> fn = 0"
    by auto
  have walk: "walk_consistency sha fn sn (hs2 ! fn) (hs2 ! fn) (PATH sha fn hs2)
      = Inr (0, root_of sha (take m hs), root_of sha hs)"
    using walk_consistency_PATH [OF w(1,2,4), of sha] w by simp
  have ne: "SUBPROOF sha m hs True \<noteq> []"
    using assms by (simp add: SUBPROOF_split Let_def)
  have pow: "m AND (m - 1) = 0 \<longleftrightarrow> (\<exists>j. m = 2 ^ j)" using assms(1) by (rule power_of_two_iff)
  obtain p ps where ps: "SUBPROOF sha m hs True = p # ps" using ne by (meson neq_Nil_conv)
  show ?thesis
  proof (cases "m AND (m - 1) = 0")
    case True
    then have "hs2 ! fn = root_of sha (take m hs)"
      using pow w(2,5,6,9) by (auto simp: length_Suc_conv)
    moreover from True pow w(8) ps have "PATH sha fn hs2 = p # ps" by simp
    ultimately show ?thesis
      using True walk ps assms st by (simp add: VerifyConsistency_def)
  next
    case False
    with pow w(8) ps have "p = hs2 ! fn" "ps = PATH sha fn hs2" by simp_all
    with False walk assms st ps show ?thesis by (simp add: VerifyConsistency_def)
  qed
qed


section \<open>Soundness\<close>

lemma collides_sub: "collides sha xs ys \<Longrightarrow> set xs \<subseteq> set zs \<Longrightarrow> set ys \<subseteq> set zs \<Longrightarrow> collides sha zs zs"
  by (rule collides_mono)

lemma NodeHash_cases:
  assumes "NodeHash sha a b = NodeHash sha c d" "node_input a b \<in> set zs" "node_input c d \<in> set zs"
  shows "(a = c \<and> b = d) \<or> collides sha zs zs"
  using assms unfolding NodeHash_def collides_iff by (metis node_input_inject)

lemma pair_inputs_odd: "odd fn \<Longrightarrow> fn < length hs \<Longrightarrow> node_input (hs ! (fn - 1)) (hs ! fn) \<in> set (root_inputs sha hs)"
  using pair_inputs_nth [of "fn div 2" hs] root_inputs_pair_up [of sha hs] by (auto elim!: oddE)

lemma pair_inputs_even: "even fn \<Longrightarrow> fn + 1 < length hs \<Longrightarrow> node_input (hs ! fn) (hs ! (fn + 1)) \<in> set (root_inputs sha hs)"
  using pair_inputs_nth [of "fn div 2" hs] root_inputs_pair_up [of sha hs] by (auto elim!: evenE)

lemma pair_up_odd: "odd fn \<Longrightarrow> fn < length hs \<Longrightarrow> pair_up sha hs ! (fn div 2) = NodeHash sha (hs ! (fn - 1)) (hs ! fn)"
  using pair_up_nth [of "fn div 2" hs sha] by (auto elim!: oddE)

lemma pair_up_even: "even fn \<Longrightarrow> fn + 1 < length hs \<Longrightarrow> pair_up sha hs ! (fn div 2) = NodeHash sha (hs ! fn) (hs ! (fn + 1))"
  using pair_up_nth [of "fn div 2" hs sha] by (auto elim!: evenE)

lemma pair_up_last: "even fn \<Longrightarrow> fn + 1 = length hs \<Longrightarrow> pair_up sha hs ! (fn div 2) = hs ! fn"
  using pair_up_nth_last [of "fn div 2" hs sha] by (auto elim!: evenE)

lemma walk_inclusion_sound:
  "fn < length hs \<Longrightarrow> walk_inclusion sha fn (length hs - 1) r ps = Inr (0, root_of sha hs) \<Longrightarrow>
   set (inclusion_inputs sha fn (length hs - 1) r ps) \<subseteq> set zs \<Longrightarrow> set (root_inputs sha hs) \<subseteq> set zs \<Longrightarrow>
     (r = hs ! fn \<and> ps = PATH sha fn hs) \<or> collides sha zs zs"
proof (induction "length hs" arbitrary: hs fn r ps rule: less_induct)
  case less
  let ?up = "pair_up sha hs" and ?sn = "length hs - 1"
  have len: "length ?up - 1 = ?sn div 2" using less.prems(1) by simp
  have sub: "set (root_inputs sha ?up) \<subseteq> set zs" using less.prems(4) root_inputs_pair_up [of sha hs] by auto
  have IH: "(r' = ?up ! (fn div 2) \<and> ps' = PATH sha (fn div 2) ?up) \<or> collides sha zs zs"
    if "2 \<le> length hs" "walk_inclusion sha (fn div 2) (?sn div 2) r' ps' = Inr (0, root_of sha hs)"
      "set (inclusion_inputs sha (fn div 2) (?sn div 2) r' ps') \<subseteq> set zs" for r' ps'
    using less.hyps [of ?up "fn div 2" r' ps'] that sub less.prems(1)
    unfolding len root_of_pair_up by (simp add: less_mult_imp_div_less)
  from less.prems(1) show ?case
  proof (cases rule: position_cases)
    case single
    then obtain h where "hs = [h]" by (auto simp: length_Suc_conv)
    with single less.prems(2) show ?thesis by (cases ps) auto
  next
    case odd
    then obtain p ps' where ps: "ps = p # ps'" using less.prems(2) by (cases ps) auto
    have "walk_inclusion sha (fn div 2) (?sn div 2) (NodeHash sha p r) ps' = Inr (0, root_of sha hs)"
      "node_input p r \<in> set zs" "set (inclusion_inputs sha (fn div 2) (?sn div 2) (NodeHash sha p r) ps') \<subseteq> set zs"
      using less.prems(2,3) odd ps by (auto simp: climb_odd)
    from IH [OF odd(2) this(1,3)] NodeHash_cases [OF _ this(2), of sha "hs ! (fn - 1)" "hs ! fn"]
      pair_inputs_odd [OF odd(1) less.prems(1), of sha] less.prems(4)
    show ?thesis using odd less.prems(1) by (auto simp: ps PATH_step [of hs] sibling_def pair_up_odd)
  next
    case left
    then have ne: "fn \<noteq> ?sn" "?sn \<noteq> 0" by auto
    then obtain p ps' where ps: "ps = p # ps'" using less.prems(2) by (cases ps) auto
    have "walk_inclusion sha (fn div 2) (?sn div 2) (NodeHash sha r p) ps' = Inr (0, root_of sha hs)"
      "node_input r p \<in> set zs" "set (inclusion_inputs sha (fn div 2) (?sn div 2) (NodeHash sha r p) ps') \<subseteq> set zs"
      using less.prems(2,3) left ne ps by auto
    from IH [OF left(3) this(1,3)] NodeHash_cases [OF _ this(2), of sha "hs ! fn" "hs ! (fn + 1)"]
      pair_inputs_even [OF left(1,2), of sha] less.prems(4)
    show ?thesis using left less.prems(1) by (auto simp: ps PATH_step [of hs] sibling_def pair_up_even)
  next
    case promote
    then have sn: "?sn = fn" by simp
    then have "ps \<noteq> []" using less.prems(2) promote(3) by auto
    note pr = walk_inclusion_promote [OF promote(1,3) this, of sha r] inclusion_inputs_promote [OF promote(1,3), of sha r ps]
    have "(r = ?up ! (fn div 2) \<and> ps = PATH sha (fn div 2) ?up) \<or> collides sha zs zs"
      using less.prems(2,3) by (intro IH promote(4)) (simp_all only: sn pr)
    then show ?thesis using promote by (auto simp: PATH_step [of hs] sibling_def pair_up_last)
  qed
qed

lemma pair_up_inject:
  "length as = length bs \<Longrightarrow> pair_up sha as = pair_up sha bs \<Longrightarrow>
   set (pair_inputs as) \<subseteq> set zs \<Longrightarrow> set (pair_inputs bs) \<subseteq> set zs \<Longrightarrow> as = bs \<or> collides sha zs zs"
proof (induction sha as arbitrary: bs rule: pair_up.induct)
  case (1 sha a b as)
  then obtain c d bs' where bs: "bs = c # d # bs'" by (cases bs rule: pair_inputs.cases) auto
  with 1 have "as = bs' \<or> collides sha zs zs" by simp
  moreover from 1 bs have "(a = c \<and> b = d) \<or> collides sha zs zs"
    by (intro NodeHash_cases) auto
  ultimately show ?case using bs by auto
qed (auto simp: pair_up_small dest: sym)

lemma root_of_inject:
  "length as = length bs \<Longrightarrow> root_of sha as = root_of sha bs \<Longrightarrow>
   set (root_inputs sha as) \<subseteq> set zs \<Longrightarrow> set (root_inputs sha bs) \<subseteq> set zs \<Longrightarrow> as = bs \<or> collides sha zs zs"
proof (induction "length as" arbitrary: as bs rule: less_induct)
  case less
  consider "length as = 0" | "length as = 1" | "2 \<le> length as" by linarith
  then show ?case
  proof cases
    case 2
    then obtain a b where "as = [a]" "bs = [b]" using less.prems(1) by (auto simp: length_Suc_conv)
    with less.prems(2) show ?thesis by simp
  next
    case 3
    then have "pair_up sha as = pair_up sha bs \<or> collides sha zs zs"
      using less.prems root_inputs_pair_up [of sha as] root_inputs_pair_up [of sha bs]
      by (intro less.hyps) (auto simp: root_of_pair_up)
    moreover have "set (pair_inputs as) \<subseteq> set zs" "set (pair_inputs bs) \<subseteq> set zs"
      using less.prems(3,4) root_inputs_pair_up [of sha as] root_inputs_pair_up [of sha bs] by auto
    ultimately show ?thesis using pair_up_inject less.prems(1) by blast
  qed (use less.prems(1) in simp)
qed

lemma take_pair_up_inject:
  assumes "take (fn div 2) (pair_up sha hs1) = take (fn div 2) (pair_up sha hs2)"
    and "fn < length hs1" "fn < length hs2"
    and "set (root_inputs sha hs1) \<subseteq> set zs" "set (root_inputs sha hs2) \<subseteq> set zs"
  shows "take (2 * (fn div 2)) hs1 = take (2 * (fn div 2)) hs2 \<or> collides sha zs zs"
proof -
  let ?k = "2 * (fn div 2)"
  have k: "even ?k" "?k \<le> length hs1" "?k \<le> length hs2" using assms(2,3) by simp_all
  have "set (pair_inputs (take ?k hs)) \<subseteq> set (root_inputs sha hs)" if "?k \<le> length hs" for hs
    using that pair_inputs_append [of "take ?k hs" "drop ?k hs"] root_inputs_pair_up [of sha hs]
    by (auto simp: min_def split: if_splits)
  then have "set (pair_inputs (take ?k hs1)) \<subseteq> set zs" "set (pair_inputs (take ?k hs2)) \<subseteq> set zs"
    using k assms(4,5) by blast+
  moreover have "pair_up sha (take ?k hs1) = pair_up sha (take ?k hs2)"
    using pair_up_take [OF k(1,2), of sha] pair_up_take [OF k(1,3), of sha] assms(1) by simp
  ultimately show ?thesis using k(2,3) by (intro pair_up_inject) auto
qed

lemma take_last_agree: "take n xs = take n ys \<Longrightarrow> n < length xs \<Longrightarrow> n < length ys \<Longrightarrow> xs ! n = ys ! n \<Longrightarrow>
    take (Suc n) xs = take (Suc n) ys"
  by (simp add: take_Suc_conv_app_nth)

lemma walk_consistency_sound:
  "fn < length hs2 \<Longrightarrow> length hs1 = Suc fn \<Longrightarrow>
   walk_consistency sha fn (length hs2 - 1) fr sr ps = Inr (0, root_of sha hs1, root_of sha hs2) \<Longrightarrow>
   set (consistency_inputs sha fn (length hs2 - 1) fr sr ps) \<subseteq> set zs \<Longrightarrow>
   set (root_inputs sha hs1) \<subseteq> set zs \<Longrightarrow> set (root_inputs sha hs2) \<subseteq> set zs \<Longrightarrow>
     (fr = hs1 ! fn \<and> sr = hs2 ! fn \<and> take fn hs1 = take fn hs2) \<or> collides sha zs zs"
proof (induction "length hs2" arbitrary: hs1 hs2 fn fr sr ps rule: less_induct)
  case less
  let ?up1 = "pair_up sha hs1" and ?up2 = "pair_up sha hs2" and ?sn = "length hs2 - 1"
  have len: "length ?up2 - 1 = ?sn div 2" using less.prems(1) by simp
  have sub: "set (root_inputs sha ?up1) \<subseteq> set zs" "set (root_inputs sha ?up2) \<subseteq> set zs"
    using less.prems(5,6) root_inputs_pair_up [of sha hs1] root_inputs_pair_up [of sha hs2] by auto
  have IH: "(fr' = ?up1 ! (fn div 2) \<and> sr' = ?up2 ! (fn div 2)
      \<and> take (2 * (fn div 2)) hs1 = take (2 * (fn div 2)) hs2) \<or> collides sha zs zs"
    if "2 \<le> length hs2" "walk_consistency sha (fn div 2) (?sn div 2) fr' sr' ps' = Inr (0, root_of sha hs1, root_of sha hs2)"
      "set (consistency_inputs sha (fn div 2) (?sn div 2) fr' sr' ps') \<subseteq> set zs" for fr' sr' ps'
  proof -
    have "(fr' = ?up1 ! (fn div 2) \<and> sr' = ?up2 ! (fn div 2) \<and> take (fn div 2) ?up1 = take (fn div 2) ?up2)
        \<or> collides sha zs zs"
      using less.hyps [of ?up2 "fn div 2" ?up1 fr' sr' ps'] that sub less.prems(1,2)
      unfolding len root_of_pair_up by (simp add: less_mult_imp_div_less)
    then show ?thesis
      using take_pair_up_inject [OF _ _ less.prems(1) less.prems(5,6)] less.prems(2) by auto
  qed
  from less.prems(1) show ?case
  proof (cases rule: position_cases)
    case single
    then obtain h2 where "hs2 = [h2]" by (auto simp: length_Suc_conv)
    moreover from single less.prems(2) obtain h1 where "hs1 = [h1]" by (auto simp: length_Suc_conv)
    ultimately show ?thesis using single less.prems(3) by (cases ps) auto
  next
    case odd
    then obtain c ps' where ps: "ps = c # ps'" using less.prems(3) by (cases ps) auto
    have w: "walk_consistency sha (fn div 2) (?sn div 2) (NodeHash sha c fr) (NodeHash sha c sr) ps'
        = Inr (0, root_of sha hs1, root_of sha hs2)"
      "node_input c fr \<in> set zs" "node_input c sr \<in> set zs"
      "set (consistency_inputs sha (fn div 2) (?sn div 2) (NodeHash sha c fr) (NodeHash sha c sr) ps') \<subseteq> set zs"
      using less.prems(3,4) odd ps by (auto simp: climb_odd)
    have k: "2 * (fn div 2) = fn - 1" "Suc (fn - 1) = fn" using odd by (auto elim!: oddE)
    have in_zs: "node_input (hs1 ! (fn - 1)) (hs1 ! fn) \<in> set zs" "node_input (hs2 ! (fn - 1)) (hs2 ! fn) \<in> set zs"
      using pair_inputs_odd [OF odd(1), of hs1 sha] pair_inputs_odd [OF odd(1), of hs2 sha] less.prems by auto
    have up: "?up1 ! (fn div 2) = NodeHash sha (hs1 ! (fn - 1)) (hs1 ! fn)"
      "?up2 ! (fn div 2) = NodeHash sha (hs2 ! (fn - 1)) (hs2 ! fn)"
      using pair_up_odd [OF odd(1)] less.prems(1,2) by auto
    note IH [OF odd(2) w(1,4), unfolded up k]
      NodeHash_cases [OF _ w(2) in_zs(1)] NodeHash_cases [OF _ w(3) in_zs(2)]
    then have "collides sha zs zs \<or> (c = hs1 ! (fn - 1) \<and> fr = hs1 ! fn \<and> c = hs2 ! (fn - 1) \<and> sr = hs2 ! fn
        \<and> take (fn - 1) hs1 = take (fn - 1) hs2)"
      by blast
    then show ?thesis
      using take_last_agree [of "fn - 1" hs1 hs2] less.prems(1,2) unfolding k by auto
  next
    case left
    then have ne: "fn \<noteq> ?sn" "?sn \<noteq> 0" by auto
    then obtain c ps' where ps: "ps = c # ps'" using less.prems(3) by (cases ps) auto
    have w: "walk_consistency sha (fn div 2) (?sn div 2) fr (NodeHash sha sr c) ps' = Inr (0, root_of sha hs1, root_of sha hs2)"
      "node_input sr c \<in> set zs" "set (consistency_inputs sha (fn div 2) (?sn div 2) fr (NodeHash sha sr c) ps') \<subseteq> set zs"
      using less.prems(3,4) left ne ps by auto
    have k: "2 * (fn div 2) = fn" using left by simp
    have in_zs: "node_input (hs2 ! fn) (hs2 ! (fn + 1)) \<in> set zs"
      using pair_inputs_even [OF left(1,2), of sha] less.prems(6) by auto
    have up: "?up1 ! (fn div 2) = hs1 ! fn" "?up2 ! (fn div 2) = NodeHash sha (hs2 ! fn) (hs2 ! (fn + 1))"
      using pair_up_last [OF left(1), of hs1] pair_up_even [OF left(1,2)] less.prems(2) by auto
    from IH [OF left(3) w(1,3), unfolded up k] NodeHash_cases [OF _ w(2) in_zs]
    show ?thesis by blast
  next
    case promote
    then have sn: "?sn = fn" by simp
    then have "ps \<noteq> []" using less.prems(3) promote(3) by auto
    note pr = walk_consistency_promote [OF promote(1,3) this, of sha fr sr]
      consistency_inputs_promote [OF promote(1,3), of sha fr sr ps]
    have up: "?up1 ! (fn div 2) = hs1 ! fn" "?up2 ! (fn div 2) = hs2 ! fn" "2 * (fn div 2) = fn"
      using pair_up_last [OF promote(1)] promote less.prems(2) by auto
    have "(fr = ?up1 ! (fn div 2) \<and> sr = ?up2 ! (fn div 2) \<and> take (2 * (fn div 2)) hs1 = take (2 * (fn div 2)) hs2)
        \<or> collides sha zs zs"
      using less.prems(3,4) by (intro IH promote(4)) (simp_all only: sn pr)
    then show ?thesis unfolding up .
  qed
qed

lemma strip_sound:
  assumes "hs1 \<noteq> []" "length hs1 < length hs2" "strip (length hs1 - 1) (length hs2 - 1) = (fn, sn)"
    and "set (root_inputs sha hs1) \<subseteq> set zs" "set (root_inputs sha hs2) \<subseteq> set zs"
  shows "\<exists>us vs. length us = Suc fn \<and> fn < length vs \<and> sn = length vs - 1
      \<and> root_of sha us = root_of sha hs1 \<and> root_of sha vs = root_of sha hs2
      \<and> set (root_inputs sha us) \<subseteq> set zs \<and> set (root_inputs sha vs) \<subseteq> set zs
      \<and> (us = take (Suc fn) vs \<longrightarrow> hs1 = take (length hs1) hs2 \<or> collides sha zs zs)"
  using assms
proof (induction "length hs1" arbitrary: hs1 hs2 rule: less_induct)
  case less
  show ?case
  proof (cases "odd (length hs1)")
    case True
    then have "even (length hs1 - 1)" by simp
    from less.prems(3) [unfolded strip_even [OF this]] have "fn = length hs1 - 1" "sn = length hs2 - 1" by simp_all
    with less.prems show ?thesis by (intro exI [of _ hs1] exI [of _ hs2]) auto
  next
    case False
    let ?up1 = "pair_up sha hs1" and ?up2 = "pair_up sha hs2" and ?m = "length hs1"
    have pos: "0 < ?m" using less.prems(1) by simp
    have odd: "odd (?m - 1)" and half: "(?m - 1) div 2 = length ?up1 - 1"
      using False pos by (auto elim!: evenE)
    have len: "length ?up2 - 1 = (length hs2 - 1) div 2" by simp
    have shorter: "length ?up1 < ?m" using False pos by (auto elim!: evenE)
    have strip: "strip (length ?up1 - 1) (length ?up2 - 1) = (fn, sn)"
      using less.prems(3) unfolding strip_odd [OF odd] half len .
    have sub: "set (root_inputs sha ?up1) \<subseteq> set zs" "set (root_inputs sha ?up2) \<subseteq> set zs"
      using less.prems(4,5) root_inputs_pair_up [of sha hs1] root_inputs_pair_up [of sha hs2] by auto
    have "length ?up1 \<noteq> 0" using less.prems(1) by (cases hs1) simp_all
    then have "?up1 \<noteq> []" by (metis list.size(3))
    moreover have "length ?up1 < length ?up2" using less.prems(2) False by (auto elim!: evenE)
    ultimately obtain us vs where IH: "length us = Suc fn" "fn < length vs" "sn = length vs - 1"
      "root_of sha us = root_of sha hs1" "root_of sha vs = root_of sha hs2"
      "set (root_inputs sha us) \<subseteq> set zs" "set (root_inputs sha vs) \<subseteq> set zs"
      "us = take (Suc fn) vs \<longrightarrow> ?up1 = take (length ?up1) ?up2 \<or> collides sha zs zs"
      using less.hyps [OF shorter _ _ strip sub] by (auto simp: root_of_pair_up)
    have "?up1 = take (length ?up1) ?up2 \<Longrightarrow> hs1 = take ?m hs2 \<or> collides sha zs zs"
    proof -
      assume eq: "?up1 = take (length ?up1) ?up2"
      have lens: "length ?up1 = ?m div 2" "2 * (?m div 2) = ?m" using False by simp_all
      have "take (?m div 2) ?up1 = take (?m div 2) ?up2" using eq lens by simp
      then show ?thesis
        using pair_up_inject [of hs1 "take ?m hs2" sha zs] pair_up_take [of ?m hs2 sha] False eq lens less.prems(2,4,5)
          root_inputs_pair_up [of sha hs1] root_inputs_pair_up [of sha hs2] pair_inputs_append [of "take ?m hs2" "drop ?m hs2"]
        by (simp add: min_def)
    qed
    with IH show ?thesis by blast
  qed
qed

text \<open>The inputs of a whole run of \<open>VerifyConsistency\<close>.\<close>

definition VerifyConsistency_inputs :: "sha \<Rightarrow> nat \<Rightarrow> nat \<Rightarrow> hash \<Rightarrow> hash list \<Rightarrow> bytes list" where
  "VerifyConsistency_inputs sha n1 n2 root1 ps =
     (case ps of
        [] \<Rightarrow> []
      | p # ps' \<Rightarrow>
          let (start, rest) = (if n1 AND (n1 - 1) = 0 then (root1, ps) else (p, ps'));
              (fn, sn) = strip (n1 - 1) (n2 - 1)
          in consistency_inputs sha fn sn start start rest)"

lemma VerifyConsistency_prefix:
  assumes "VerifyConsistency sha (length hs1) (length hs2) (root_of sha hs1) (root_of sha hs2) ps = Inr ()"
    and "set (VerifyConsistency_inputs sha (length hs1) (length hs2) (root_of sha hs1) ps) \<subseteq> set zs"
    and "set (root_inputs sha hs1) \<subseteq> set zs" "set (root_inputs sha hs2) \<subseteq> set zs"
  shows "(length hs1 \<le> length hs2 \<and> hs1 = take (length hs1) hs2) \<or> collides sha zs zs"
proof -
  have le: "length hs1 \<le> length hs2"
    using assms(1) by (auto simp: VerifyConsistency_def split: if_splits)
  consider "hs1 = []" | "length hs1 = length hs2" | "hs1 \<noteq> []" "length hs1 < length hs2" using le by linarith
  then show ?thesis
  proof cases
    case 2
    then have "root_of sha hs1 = root_of sha hs2"
      using assms(1) by (auto simp: VerifyConsistency_def split: if_splits)
    then show ?thesis using root_of_inject [OF 2 _ assms(3,4)] 2 by auto
  next
    case 3
    obtain fn sn where st: "strip (length hs1 - 1) (length hs2 - 1) = (fn, sn)"
      by (cases "strip (length hs1 - 1) (length hs2 - 1)")
    from 3 assms(1) obtain p ps' where ps: "ps = p # ps'"
      by (cases ps) (auto simp: VerifyConsistency_def)
    define start where "start = (if length hs1 AND (length hs1 - 1) = 0 then root_of sha hs1 else p)"
    define rest where "rest = (if length hs1 AND (length hs1 - 1) = 0 then ps else ps')"
    have walk: "walk_consistency sha fn sn start start rest = Inr (0, root_of sha hs1, root_of sha hs2)"
      using assms(1) 3 st ps by (auto simp: VerifyConsistency_def start_def rest_def split: if_splits)
    have inputs: "set (consistency_inputs sha fn sn start start rest) \<subseteq> set zs"
      using assms(2) st ps by (auto simp: VerifyConsistency_inputs_def start_def rest_def split: if_splits)
    from strip_sound [OF 3 st assms(3,4)] obtain us vs where w: "length us = Suc fn" "fn < length vs" "sn = length vs - 1"
      "root_of sha us = root_of sha hs1" "root_of sha vs = root_of sha hs2"
      "set (root_inputs sha us) \<subseteq> set zs" "set (root_inputs sha vs) \<subseteq> set zs"
      "us = take (Suc fn) vs \<longrightarrow> hs1 = take (length hs1) hs2 \<or> collides sha zs zs"
      by blast
    have "(start = us ! fn \<and> start = vs ! fn \<and> take fn us = take fn vs) \<or> collides sha zs zs"
      using walk inputs w(3) by (intro walk_consistency_sound [OF w(2,1) _ _ w(6,7)]) (simp_all add: w(4,5))
    moreover have "us ! fn = vs ! fn \<Longrightarrow> take fn us = take fn vs \<Longrightarrow> us = take (Suc fn) vs"
      using take_last_agree [of fn us vs] w(1,2) by simp
    ultimately show ?thesis using w(8) le by auto
  qed simp
qed

section \<open>Bounded work\<close>

lemma climb_bound: "climb fn sn = (fn', sn') \<Longrightarrow> Len64 sn' \<le> Len64 sn"
proof (induction fn sn arbitrary: fn' sn' rule: climb.induct)
  case (1 fn sn)
  have half: "Len64 (sn div 2) \<le> Len64 sn" by (cases "sn = 0") (simp_all add: Len64_pos)
  show ?case
  proof (cases "even fn \<and> fn \<noteq> 0")
    case True
    with 1 have "Len64 sn' \<le> Len64 (sn div 2)" by (auto simp: climb_even)
    with half show ?thesis by simp
  next
    case False
    with "1.prems" show ?thesis by (subst (asm) climb.simps) (auto split: if_splits)
  qed
qed

lemma Len64_half: "sn \<noteq> 0 \<Longrightarrow> Len64 (sn div 2) < Len64 sn"
  by (simp add: Len64_pos)

lemma climb_half: "climb fn sn = (fn', sn') \<Longrightarrow> sn \<noteq> 0 \<Longrightarrow> Len64 (sn' div 2) < Len64 sn"
proof -
  assume c: "climb fn sn = (fn', sn')" and "sn \<noteq> 0"
  show ?thesis
  proof (cases "sn' = 0")
    case False
    then show ?thesis using Len64_half [OF False] climb_bound [OF c] by simp
  qed (use \<open>sn \<noteq> 0\<close> in \<open>simp add: Len64_pos\<close>)
qed

lemma walk_inclusion_take:
  "Len64 sn < k \<Longrightarrow> walk_inclusion sha fn sn r (take k ps) = walk_inclusion sha fn sn r ps"
proof (induction sha fn sn r ps arbitrary: k rule: walk_inclusion.induct)
  case (2 sha fn sn r p ps)
  obtain j where k: "k = Suc j" using "2.prems" by (cases k) auto
  obtain fn' sn' where c: "climb fn sn = (fn', sn')" by (cases "climb fn sn")
  show ?case
  proof (cases "sn = 0")
    case False
    with Len64_half [OF False] climb_half [OF c False] "2.prems" k c "2.IH" show ?thesis by simp
  qed (simp add: k)
qed simp

lemma walk_consistency_take:
  "Len64 sn < k \<Longrightarrow> walk_consistency sha fn sn fr sr (take k cs) = walk_consistency sha fn sn fr sr cs"
proof (induction sha fn sn fr sr cs arbitrary: k rule: walk_consistency.induct)
  case (2 sha fn sn fr sr c cs)
  obtain j where k: "k = Suc j" using "2.prems" by (cases k) auto
  obtain fn' sn' where c: "climb fn sn = (fn', sn')" by (cases "climb fn sn")
  show ?case
  proof (cases "sn = 0")
    case False
    with Len64_half [OF False] climb_half [OF c False] "2.prems" k c "2.IH" show ?thesis by simp
  qed (simp add: k)
qed simp

section \<open>Properties\<close>

text \<open>Building a tree by appending leaves, as the board does when it starts.\<close>

fun append_all :: "sha \<Rightarrow> tree \<Rightarrow> bytes list \<Rightarrow> merkle_error + tree" where
  "append_all sha t [] = Inr t"
| "append_all sha t (d # ds) = bindE (Append sha t d) (\<lambda>(_, t'). append_all sha t' ds)"

lemma append_all_tree_for: "append_all sha (tree_for sha hs) ds = Inr (tree_for sha (hs @ map (LeafHash sha) ds))"
  by (induction ds arbitrary: hs) (simp_all add: Append_tree_for)

lemma append_all_New: "append_all sha New ds = Inr (tree_for sha (map (LeafHash sha) ds))"
  using append_all_tree_for [of sha "[]" ds] unfolding New_tree_for [of sha] by simp

lemma inclusion_accepts:
  assumes "i < n" "n \<le> length ds"
  shows "InclusionProof sha (tree_for sha (map (LeafHash sha) ds)) i n = Inr (PATH sha i (take n (map (LeafHash sha) ds)))
    \<and> VerifyInclusion sha (LeafHash sha (ds ! i)) i n (PATH sha i (take n (map (LeafHash sha) ds))) (MTH sha (take n ds)) = Inr ()"
proof -
  let ?hs = "take n (map (LeafHash sha) ds)"
  have "walk_inclusion sha i (length ?hs - 1) (?hs ! i) (PATH sha i ?hs) = Inr (0, root_of sha ?hs)"
    using assms by (intro walk_inclusion_PATH) simp
  then show ?thesis
    using assms by (simp add: InclusionProof_tree_for VerifyInclusion_def MTH_def take_map)
qed

lemma inclusion_binds:
  assumes "VerifyInclusion sha (LeafHash sha d) i (length ds) ps (MTH sha ds) = Inr ()"
    and "zs = leaf_input d # map leaf_input ds @ root_inputs sha (map (LeafHash sha) ds)
           @ inclusion_inputs sha i (length ds - 1) (LeafHash sha d) ps"
  shows "(i < length ds \<and> ds ! i = d \<and> ps = PATH sha i (map (LeafHash sha) ds)) \<or> collides sha zs zs"
proof -
  let ?hs = "map (LeafHash sha) ds"
  from assms(1) have i: "i < length ?hs"
    and walk: "walk_inclusion sha i (length ?hs - 1) (LeafHash sha d) ps = Inr (0, root_of sha ?hs)"
    by (auto simp: VerifyInclusion_def MTH_def split: if_splits)
  from walk_inclusion_sound [OF this, of zs] assms(2)
  have "(LeafHash sha d = ?hs ! i \<and> ps = PATH sha i ?hs) \<or> collides sha zs zs" by auto
  moreover have "LeafHash sha d = LeafHash sha (ds ! i) \<Longrightarrow> d = ds ! i \<or> collides sha zs zs"
  proof -
    assume "LeafHash sha d = LeafHash sha (ds ! i)"
    moreover have "leaf_input d \<in> set zs" "leaf_input (ds ! i) \<in> set zs" using assms(2) i by auto
    ultimately show ?thesis unfolding LeafHash_def collides_iff by (metis leaf_input_inject)
  qed
  ultimately show ?thesis using i by auto
qed

lemma consistency_accepts:
  assumes "m \<le> n" "n \<le> length ds"
  shows "\<exists>ps. ConsistencyProof sha (tree_for sha (map (LeafHash sha) ds)) m n = Inr ps
    \<and> VerifyConsistency sha m n (MTH sha (take m ds)) (MTH sha (take n ds)) ps = Inr ()"
proof -
  let ?hs = "take n (map (LeafHash sha) ds)"
  have "0 < m \<Longrightarrow> m < n \<Longrightarrow>
      VerifyConsistency sha m n (root_of sha (take m ?hs)) (root_of sha ?hs) (SUBPROOF sha m ?hs True) = Inr ()"
    using assms VerifyConsistency_SUBPROOF [of m ?hs sha] by simp
  moreover have "take m ?hs = take m (map (LeafHash sha) ds)" using assms(1) by (simp add: min_def)
  moreover have "VerifyConsistency sha m n (root_of sha (take m ?hs)) (root_of sha ?hs) [] = Inr ()"
    if "m = 0 \<or> m = n" using that assms by (cases "n = 0") (auto simp: VerifyConsistency_def)
  ultimately show ?thesis
    using assms by (auto simp: ConsistencyProof_tree_for MTH_def take_map)
qed

lemma consistency_binds:
  assumes "VerifyConsistency sha (length ds1) (length ds2) (MTH sha ds1) (MTH sha ds2) ps = Inr ()"
    and "zs = map leaf_input (ds1 @ ds2) @ root_inputs sha (map (LeafHash sha) ds1)
           @ root_inputs sha (map (LeafHash sha) ds2)
           @ VerifyConsistency_inputs sha (length ds1) (length ds2) (MTH sha ds1) ps"
  shows "(\<exists>ds. ds2 = ds1 @ ds) \<or> collides sha zs zs"
proof -
  let ?h1 = "map (LeafHash sha) ds1" and ?h2 = "map (LeafHash sha) ds2"
  have "(length ?h1 \<le> length ?h2 \<and> ?h1 = take (length ?h1) ?h2) \<or> collides sha zs zs"
    using assms by (intro VerifyConsistency_prefix) (auto simp: MTH_def)
  moreover have "map (LeafHash sha) ds1 = map (LeafHash sha) (take (length ds1) ds2) \<Longrightarrow>
      length ds1 \<le> length ds2 \<Longrightarrow> ds1 = take (length ds1) ds2 \<or> collides sha zs zs"
  proof -
    assume eq: "map (LeafHash sha) ds1 = map (LeafHash sha) (take (length ds1) ds2)" and le: "length ds1 \<le> length ds2"
    have "ds1 ! j = ds2 ! j \<or> collides sha zs zs" if j: "j < length ds1" for j
    proof -
      have "LeafHash sha (ds1 ! j) = LeafHash sha (ds2 ! j)"
        using arg_cong [OF eq, of "\<lambda>xs. xs ! j"] j le by simp
      moreover have "leaf_input (ds1 ! j) \<in> set zs" "leaf_input (ds2 ! j) \<in> set zs" using assms(2) j le by auto
      ultimately show ?thesis unfolding LeafHash_def collides_iff by (metis leaf_input_inject)
    qed
    then show ?thesis using le by (metis (no_types, lifting) length_take min.absorb2 nth_equalityI nth_take)
  qed
  ultimately show ?thesis by (metis append_take_drop_id length_map take_map)
qed

text \<open>Equal heads of lists of the same length are heads of the same list.\<close>

lemma MTH_binds:
  assumes "MTH sha ds1 = MTH sha ds2" "length ds1 = length ds2"
    and "zs = map leaf_input (ds1 @ ds2) @ root_inputs sha (map (LeafHash sha) ds1) @ root_inputs sha (map (LeafHash sha) ds2)"
  shows "ds1 = ds2 \<or> collides sha zs zs"
proof (cases "ds1 = []")
  case False
  then have "VerifyConsistency sha (length ds1) (length ds2) (MTH sha ds1) (MTH sha ds2) [] = Inr ()"
    "VerifyConsistency_inputs sha (length ds1) (length ds2) (MTH sha ds1) [] = []"
    using assms(1,2) by (auto simp: VerifyConsistency_def VerifyConsistency_inputs_def MTH_def)
  from consistency_binds [OF this(1) refl] this(2) have "(\<exists>ds. ds2 = ds1 @ ds) \<or> collides sha zs zs"
    by (simp add: assms(3))
  with assms(2) show ?thesis by auto
qed (use assms(2) in simp)

text \<open>
  C9.  A tree built with \<open>Append\<close> never panics, gives consecutive indices, and its head at every
  past size is the RFC's Merkle tree hash of that prefix of the leaves: the incremental tree
  with its stored subtrees computes the recursive definition.
\<close>

theorem tree_refines_MTH:
  "\<exists>t. append_all sha New ds = Inr t \<and> Size t = length ds \<and> Root sha t = Inr (MTH sha ds)
    \<and> (\<exists>t'. Append sha t d = Inr (length ds, t') \<and> Root sha t' = Inr (MTH sha (ds @ [d])))
    \<and> (\<forall>n. RootAt sha t n = (if length ds < n then Inl ErrSizeOutOfRange else Inr (MTH sha (take n ds))))"
  by (simp add: append_all_New Append_tree_for Root_tree_for RootAt_tree_for MTH_def take_map)

text \<open>
  C10.  Completeness of inclusion: for every leaf of every past size of the tree, the tree gives
  an audit path and \<open>VerifyInclusion\<close> accepts it against that size's head.
\<close>

theorem inclusion_complete:
  assumes "i < n" "n \<le> length ds"
  shows "\<exists>t ps. append_all sha New ds = Inr t \<and> InclusionProof sha t i n = Inr ps
    \<and> VerifyInclusion sha (LeafHash sha (ds ! i)) i n ps (MTH sha (take n ds)) = Inr ()"
  using inclusion_accepts [OF assms] by (simp add: append_all_New)

theorem inclusion_complete_witness:
  "\<exists>t ps. append_all (\<lambda>_. 0) New [[1], [2], [3]] = Inr t \<and> InclusionProof (\<lambda>_. 0) t 2 3 = Inr ps
    \<and> VerifyInclusion (\<lambda>_. 0) (LeafHash (\<lambda>_. 0) [3]) 2 3 ps (MTH (\<lambda>_. 0) [[1], [2], [3]]) = Inr ()"
  using inclusion_complete [of 2 3 "[[1], [2], [3]]" "\<lambda>_. 0"] by simp

text \<open>
  C4.  Soundness of inclusion: if \<open>VerifyInclusion\<close> accepts \<open>d\<close> at index \<open>i\<close> against the head of
  the leaves \<open>ds\<close>, then \<open>i\<close> is in range and \<open>d\<close> is leaf \<open>i\<close>, and the proof is the audit path
  itself; otherwise two of the inputs hashed by the verifier and by the tree collide.
\<close>

theorem inclusion_sound:
  assumes "VerifyInclusion sha (LeafHash sha d) i (length ds) ps (MTH sha ds) = Inr ()"
    and "zs = leaf_input d # map leaf_input ds @ root_inputs sha (map (LeafHash sha) ds)
           @ inclusion_inputs sha i (length ds - 1) (LeafHash sha d) ps"
  shows "(i < length ds \<and> ds ! i = d \<and> ps = PATH sha i (map (LeafHash sha) ds)) \<or> collides sha zs zs"
  using assms by (rule inclusion_binds)

theorem inclusion_sound_witness:
  "(0 < length [[7::byte]] \<and> [[7]] ! 0 = [7] \<and> [] = PATH (\<lambda>_. 0) 0 (map (LeafHash (\<lambda>_. 0)) [[7]]))
    \<or> collides (\<lambda>_. 0) [leaf_input [7], leaf_input [7]] [leaf_input [7], leaf_input [7]]"
  using inclusion_sound [of "\<lambda>_. 0" "[7]" 0 "[[7]]" "[]" "[leaf_input [7], leaf_input [7]]"]
  by (simp add: VerifyInclusion_def MTH_def)

text \<open>
  C11.  Completeness of consistency: for all sizes \<open>m \<le> n\<close> of the tree's history the tree gives a
  proof, and \<open>VerifyConsistency\<close> accepts it between the two heads.
\<close>

theorem consistency_complete:
  assumes "m \<le> n" "n \<le> length ds"
  shows "\<exists>t ps. append_all sha New ds = Inr t \<and> ConsistencyProof sha t m n = Inr ps
    \<and> VerifyConsistency sha m n (MTH sha (take m ds)) (MTH sha (take n ds)) ps = Inr ()"
  using consistency_accepts [OF assms] by (simp add: append_all_New)

theorem consistency_complete_witness:
  "\<exists>t ps. append_all (\<lambda>_. 0) New [[1], [2], [3]] = Inr t \<and> ConsistencyProof (\<lambda>_. 0) t 1 3 = Inr ps
    \<and> VerifyConsistency (\<lambda>_. 0) 1 3 (MTH (\<lambda>_. 0) [[1]]) (MTH (\<lambda>_. 0) [[1], [2], [3]]) ps = Inr ()"
  using consistency_complete [of 1 3 "[[1], [2], [3]]" "\<lambda>_. 0"] by simp

text \<open>
  C8.  Soundness of consistency, the append-only guarantee: if \<open>VerifyConsistency\<close> accepts a proof
  between the heads of two lists of leaves, the first list is a prefix of the second; otherwise
  two of the inputs hashed by the verifier and by the two trees collide.
\<close>

theorem consistency_sound:
  assumes "VerifyConsistency sha (length ds1) (length ds2) (MTH sha ds1) (MTH sha ds2) ps = Inr ()"
    and "zs = map leaf_input (ds1 @ ds2) @ root_inputs sha (map (LeafHash sha) ds1)
           @ root_inputs sha (map (LeafHash sha) ds2)
           @ VerifyConsistency_inputs sha (length ds1) (length ds2) (MTH sha ds1) ps"
  shows "(\<exists>ds. ds2 = ds1 @ ds) \<or> collides sha zs zs"
  using assms by (rule consistency_binds)

theorem consistency_sound_witness:
  "(\<exists>ds. [[7::byte]] = [[7]] @ ds) \<or> collides (\<lambda>_. 0) [leaf_input [7], leaf_input [7]] [leaf_input [7], leaf_input [7]]"
  using consistency_sound [of "\<lambda>_. 0" "[[7]]" "[[7]]" "[]" "[leaf_input [7], leaf_input [7]]"]
  by (simp add: VerifyConsistency_def VerifyConsistency_inputs_def MTH_def)

text \<open>
  The verifiers' work is bounded by the bits of the size and not by the proof: beyond the
  first \<open>Len64 (n - 1) + 1\<close> hashes (65 for a 64-bit size) the rest of a proof is never looked at,
  except by the test that a proof for equal or empty trees is empty.
\<close>

theorem verifiers_bounded:
  "VerifyInclusion sha h i n (take (Len64 (n - 1) + 1) ps) root = VerifyInclusion sha h i n ps root
   \<and> walk_consistency sha fn sn fr sr (take (Len64 sn + 1) ps) = walk_consistency sha fn sn fr sr ps
   \<and> Len64 (2 ^ 64 - 1) = 64"
proof (intro conjI)
  show "Len64 (2 ^ 64 - 1) = 64" using Len64_eqI [of 63 "2 ^ 64 - 1"] by simp
qed (simp_all add: VerifyInclusion_def walk_inclusion_take walk_consistency_take)

end
