(* ===== verification/Group.thy ===== *)
theory Group
  imports Prelude
begin

text \<open>
  The group layer: \<open>crypto/group\<close> and \<open>crypto/internal\<close>.  The library \<open>gtank/ristretto255\<close>
  and SHA-512 are not part of the repository, so they are the record \<open>prims\<close>, a parameter of
  every definition that uses them; the arithmetic of scalars and elements is that of the type
  classes \<open>field\<close> and \<open>ab_group_add\<close>.  The predicate \<open>ristretto\<close> states what the library
  documents: a group of prime order with canonical 32-byte encodings.  Pointers that the code
  compares with \<open>nil\<close> are options.
\<close>

section \<open>The library as a parameter\<close>

record ('s, 'e) prims =
  smul :: "'s \<Rightarrow> 'e \<Rightarrow> 'e"           \<comment> \<open>\<open>ScalarMult\<close>\<close>
  gen :: 'e                        \<comment> \<open>\<open>NewGeneratorElement\<close>\<close>
  order :: nat                     \<comment> \<open>the group order \<open>l\<close>\<close>
  e_bytes :: "'e \<Rightarrow> bytes"          \<comment> \<open>\<open>Element.Bytes\<close>\<close>
  e_decode :: "bytes \<Rightarrow> 'e option"  \<comment> \<open>\<open>Element.SetCanonicalBytes\<close>\<close>
  s_decode :: "bytes \<Rightarrow> 's option"  \<comment> \<open>\<open>Scalar.SetCanonicalBytes\<close>\<close>
  s_uniform :: "bytes \<Rightarrow> 's"        \<comment> \<open>\<open>Scalar.SetUniformBytes\<close> on 64 bytes\<close>
  sha512 :: "bytes \<Rightarrow> bytes"

type_synonym 'a ptr = "'a option"

text \<open>Little-endian integers, the encoding of scalars.\<close>

definition le_bytes :: "nat \<Rightarrow> 'a::len word \<Rightarrow> bytes" where
  "le_bytes n w = map (\<lambda>i. ucast (drop_bit (8 * i) w)) [0..<n]"

fun le_value :: "bytes \<Rightarrow> nat" where
  "le_value [] = 0"
| "le_value (b # bs) = unat b + 256 * le_value bs"

lemma length_le_bytes [simp]: "length (le_bytes n w) = n"
  by (simp add: le_bytes_def)

lemma le_bytes_Suc: "le_bytes (Suc n) w = ucast w # le_bytes n (drop_bit 8 w)"
  by (simp add: le_bytes_def upt_conv_Cons map_Suc_upt [symmetric] comp_def add.commute del: upt_Suc map_Suc_upt)

lemma le_value_le_bytes: "le_value (le_bytes n w) = unat w mod 2 ^ (8 * n)"
proof (induction n arbitrary: w)
  case (Suc n)
  have "unat w mod 2 ^ (8 * Suc n) = unat w mod 256 + 256 * (unat w div 256 mod 2 ^ (8 * n))"
    using mod_mult2_eq [of "unat w" 256 "2 ^ (8 * n)"] by (simp add: power_add)
  moreover have "unat (ucast w :: byte) = unat w mod 256"
    by (simp add: unsigned_ucast_eq take_bit_eq_mod)
  moreover have "unat (drop_bit 8 w) = unat w div 256"
    unfolding unsigned_drop_bit_eq by (simp add: drop_bit_eq_div take_bit_nat_eq_self)
  ultimately show ?case by (simp add: le_bytes_Suc Suc.IH)
qed (simp add: le_bytes_def)

lemma le_value_append_zeros [simp]: "le_value (bs @ replicate k 0) = le_value bs"
proof -
  have "le_value (replicate k 0) = 0" by (induction k) auto
  then show ?thesis by (induction bs) auto
qed

definition ristretto :: "('s::field, 'e::ab_group_add) prims \<Rightarrow> bool" where
  "ristretto R \<longleftrightarrow>
     (\<forall>a b x. smul R (a + b) x = smul R a x + smul R b x) \<and>
     (\<forall>a x y. smul R a (x + y) = smul R a x + smul R a y) \<and>
     (\<forall>a b x. smul R (a * b) x = smul R a (smul R b x)) \<and>
     (\<forall>x. smul R 1 x = x) \<and>
     (\<forall>a. smul R a (gen R) = 0 \<longrightarrow> a = 0) \<and>
     (\<forall>x. \<exists>a. x = smul R a (gen R)) \<and>
     (\<forall>x. length (e_bytes R x) = 32 \<and> e_decode R (e_bytes R x) = Some x) \<and>
     (\<forall>b x. e_decode R b = Some x \<longrightarrow> e_bytes R x = b) \<and>
     (\<forall>b. s_decode R b =
        (if length b = 32 \<and> le_value b < order R then Some (of_nat (le_value b)) else None)) \<and>
     (\<forall>m n. (of_nat m :: 's) = of_nat n \<longleftrightarrow> m mod order R = n mod order R) \<and>
     2 ^ 64 < order R"

lemma smul_add_left: "ristretto R \<Longrightarrow> smul R (a + b) x = smul R a x + smul R b x"
  unfolding ristretto_def by blast

lemma smul_add_right: "ristretto R \<Longrightarrow> smul R a (x + y) = smul R a x + smul R a y"
  unfolding ristretto_def by blast

lemma smul_mult: "ristretto R \<Longrightarrow> smul R (a * b) x = smul R a (smul R b x)"
  unfolding ristretto_def by blast

lemma smul_one: "ristretto R \<Longrightarrow> smul R 1 x = x"
  unfolding ristretto_def by blast

lemma smul_gen_0: "ristretto R \<Longrightarrow> smul R a (gen R) = 0 \<Longrightarrow> a = 0"
  unfolding ristretto_def by blast

lemma smul_gen_surj: "ristretto R \<Longrightarrow> \<exists>a. x = smul R a (gen R)"
  unfolding ristretto_def by blast

lemma e_bytes_length: "ristretto R \<Longrightarrow> length (e_bytes R x) = 32"
  unfolding ristretto_def by blast

lemma e_decode_bytes: "ristretto R \<Longrightarrow> e_decode R (e_bytes R x) = Some x"
  unfolding ristretto_def by blast

lemma e_decode_canonical: "ristretto R \<Longrightarrow> e_decode R bs = Some x \<Longrightarrow> e_bytes R x = bs"
  unfolding ristretto_def by blast

lemma s_decode_eq: "ristretto R \<Longrightarrow> s_decode R bs =
    (if length bs = 32 \<and> le_value bs < order R then Some (of_nat (le_value bs)) else None)"
  unfolding ristretto_def by blast

lemma of_nat_scalar_iff:
  fixes R :: "('s::field, 'e::ab_group_add) prims"
  assumes "ristretto R"
  shows "(of_nat m :: 's) = of_nat n \<longleftrightarrow> m mod order R = n mod order R"
  using assms unfolding ristretto_def by blast

lemma order_large: "ristretto R \<Longrightarrow> 2 ^ 64 < order R"
  unfolding ristretto_def by blast

text \<open>Consequences: the algebra of a module over the scalars.\<close>

lemma smul_zero_left: "ristretto R \<Longrightarrow> smul R 0 x = 0"
  using smul_add_left [of R 0 0 x] by simp

lemma smul_zero_right: "ristretto R \<Longrightarrow> smul R a 0 = 0"
  using smul_add_right [of R a 0 0] by simp

lemma smul_minus_left: "ristretto R \<Longrightarrow> smul R (- a) x = - smul R a x"
  using smul_add_left [of R "- a" a x] by (simp add: smul_zero_left eq_neg_iff_add_eq_0)

lemma smul_minus_right: "ristretto R \<Longrightarrow> smul R a (- x) = - smul R a x"
  using smul_add_right [of R a "- x" x] by (simp add: smul_zero_right eq_neg_iff_add_eq_0)

lemma smul_diff_left: "ristretto R \<Longrightarrow> smul R (a - b) x = smul R a x - smul R b x"
  using smul_add_left [of R a "- b" x] by (simp add: smul_minus_left)

lemma smul_diff_right: "ristretto R \<Longrightarrow> smul R a (x - y) = smul R a x - smul R a y"
  using smul_add_right [of R a x "- y"] by (simp add: smul_minus_right)

lemma smul_sum_list: "ristretto R \<Longrightarrow> smul R a (sum_list xs) = sum_list (map (smul R a) xs)"
  by (induction xs) (simp_all add: smul_zero_right smul_add_right)

lemma smul_sum_list_left: "ristretto R \<Longrightarrow> smul R (sum_list as) x = sum_list (map (\<lambda>a. smul R a x) as)"
  by (induction as) (simp_all add: smul_zero_left smul_add_left)

lemma smul_commute: "ristretto R \<Longrightarrow> smul R a (smul R b x) = smul R b (smul R a x)"
  by (metis mult.commute smul_mult)

lemma smul_gen_inject: "ristretto R \<Longrightarrow> smul R a (gen R) = smul R b (gen R) \<longleftrightarrow> a = b"
  using smul_gen_0 [of R "a - b"] by (auto simp: smul_diff_left)

lemma smul_eq_0: "ristretto R \<Longrightarrow> smul R a x = 0 \<longleftrightarrow> a = 0 \<or> x = 0"
proof
  assume R: "ristretto R" and z: "smul R a x = 0"
  obtain b where b: "x = smul R b (gen R)" using smul_gen_surj [OF R] by blast
  with z have "a * b = 0" using smul_gen_0 [OF R, of "a * b"] by (simp add: smul_mult [OF R])
  with b show "a = 0 \<or> x = 0" by (auto simp: smul_zero_left [OF R])
qed (auto simp: smul_zero_left smul_zero_right)

lemma smul_inject: "ristretto R \<Longrightarrow> x \<noteq> 0 \<Longrightarrow> smul R a x = smul R b x \<longleftrightarrow> a = b"
  using smul_eq_0 [of R "a - b" x] by (auto simp: smul_diff_left)

lemma e_bytes_inject: "ristretto R \<Longrightarrow> e_bytes R x = e_bytes R y \<longleftrightarrow> x = y"
  by (metis e_decode_bytes option.inject)

lemmas smul_simps = smul_add_left smul_add_right smul_diff_left smul_diff_right smul_minus_left
  smul_minus_right smul_zero_left smul_zero_right smul_one

lemma of_nat_small_iff:
  fixes R :: "('s::field, 'e::ab_group_add) prims"
  assumes "ristretto R" "m < 2 ^ 64" "n < 2 ^ 64"
  shows "(of_nat m :: 's) = of_nat n \<longleftrightarrow> m = n"
  using of_nat_scalar_iff [OF assms(1), of m n] order_large [OF assms(1)] assms(2,3) by simp

section \<open>Errors\<close>

text \<open>The sentinel errors of the packages under \<open>crypto\<close>; \<open>OtherError\<close> stands for the errors
  made on the spot without a sentinel, and \<open>RuntimePanic\<close> for the run-time panic.\<close>

datatype crypto_error =
    ErrLength | ErrNonCanonical | ErrIdentity | ErrNegative
  | ErrInvalidPublicKey | ErrInvalidRandomness | ErrShapeMismatch | ErrNoBallots
  | ErrInvalidProof | ErrMalformed
  | ErrDuplicateIndex | ErrBadIndex | ErrPartialCount | ErrUnknownTrustee | ErrPlaintextOutOfRange
  | OtherError | RuntimePanic

text \<open>Dereferencing a pointer.\<close>

definition deref :: "'a ptr \<Rightarrow> crypto_error + 'a" where
  "deref p = (case p of None \<Rightarrow> Inl RuntimePanic | Some x \<Rightarrow> Inr x)"

lemma deref_simps [simp]: "deref (Some x) = Inr x" "deref None = Inl RuntimePanic"
  by (simp_all add: deref_def)

section \<open>\<open>crypto/group\<close>\<close>

definition DecodeElement :: "('s, 'e::zero) prims \<Rightarrow> bytes \<Rightarrow> crypto_error + 'e" where
  "DecodeElement R b =
     (if length b \<noteq> 32 then Inl ErrLength
      else case e_decode R b of
        None \<Rightarrow> Inl ErrNonCanonical
      | Some e \<Rightarrow> if e = 0 then Inl ErrIdentity else Inr e)"

definition DecodeScalar :: "('s, 'e) prims \<Rightarrow> bytes \<Rightarrow> crypto_error + 's" where
  "DecodeScalar R b =
     (if length b \<noteq> 32 then Inl ErrLength
      else case s_decode R b of None \<Rightarrow> Inl ErrNonCanonical | Some s \<Rightarrow> Inr s)"

lemma DecodeElement_iff: "ristretto R \<Longrightarrow> DecodeElement R b = Inr e \<longleftrightarrow> e \<noteq> 0 \<and> b = e_bytes R e"
  by (auto simp: DecodeElement_def e_bytes_length e_decode_bytes dest: e_decode_canonical split: option.splits if_splits)

lemma DecodeScalar_iff: "ristretto R \<Longrightarrow> DecodeScalar R b = Inr s \<longleftrightarrow>
    length b = 32 \<and> le_value b < order R \<and> s = of_nat (le_value b)"
  by (auto simp: DecodeScalar_def s_decode_eq split: if_splits)

section \<open>\<open>crypto/internal\<close>: scalars and challenges\<close>

text \<open>Randomness is a tape of the scalars that \<open>RandomScalar\<close> returns, in the order of the calls.\<close>

type_synonym 's tape = "nat \<Rightarrow> 's"

definition RandomScalar :: "'s tape \<Rightarrow> 's \<times> 's tape" where
  "RandomScalar tape = (tape 0, \<lambda>i. tape (Suc i))"

text \<open>What \<open>FiatShamir\<close> writes to the hash.\<close>

definition transcript :: "string \<Rightarrow> bytes list \<Rightarrow> bytes" where
  "transcript domain data = lp (bytes_of domain) @ concat (map lp data)"

definition FiatShamir :: "('s, 'e) prims \<Rightarrow> string \<Rightarrow> bytes list \<Rightarrow> 's" where
  "FiatShamir R domain data = s_uniform R (sha512 R (transcript domain data))"

definition SumScalars :: "'s::comm_monoid_add list \<Rightarrow> 's" where
  "SumScalars scalars = foldl (+) 0 scalars"

lemma SumScalars_eq: "SumScalars scalars = sum_list scalars"
proof -
  have "foldl (+) a xs = a + sum_list xs" for a :: 'a and xs
    by (induction xs arbitrary: a) (simp_all add: add.assoc)
  then show ?thesis by (simp add: SumScalars_def)
qed

definition ScalarFromInt :: "('s, 'e) prims \<Rightarrow> int \<Rightarrow> crypto_error + 's" where
  "ScalarFromInt R n =
     (if n < 0 then Inl ErrNegative
      else let buf = le_bytes 8 (of_int n :: 64 word) @ replicate 24 0
           in case s_decode R buf of None \<Rightarrow> Inl OtherError | Some s \<Rightarrow> Inr s)"

definition ScalarBaseMultInt :: "('s, 'e) prims \<Rightarrow> int \<Rightarrow> crypto_error + 'e" where
  "ScalarBaseMultInt R m = bindE (ScalarFromInt R m) (\<lambda>s. Inr (smul R s (gen R)))"

lemma ScalarFromInt_of_nat:
  assumes "ristretto R" "n < 2 ^ 64"
  shows "ScalarFromInt R (int n) = Inr (of_nat n)"
proof -
  have "unat (of_int (int n) :: 64 word) = n" using assms(2) by (simp add: unat_of_nat take_bit_nat_eq_self)
  moreover have "n < order R" using order_large [OF assms(1)] assms(2) by simp
  ultimately show ?thesis
    using assms(2) by (simp add: ScalarFromInt_def s_decode_eq [OF assms(1)] le_value_le_bytes)
qed

lemma ScalarFromInt_neg: "n < 0 \<Longrightarrow> ScalarFromInt R n = Inl ErrNegative"
  by (simp add: ScalarFromInt_def)

text \<open>
  A transcript determines its domain and its fields, so equal challenges of different
  transcripts are collisions of the hash.
\<close>

lemma transcript_inject:
  assumes "\<forall>x \<in> set (bytes_of d # xs). length x < 2 ^ 32" "\<forall>y \<in> set (bytes_of d' # ys). length y < 2 ^ 32"
  shows "transcript d xs = transcript d' ys \<longleftrightarrow> d = d' \<and> xs = ys"
proof -
  have "transcript d xs = concat (map lp (bytes_of d # xs))" "transcript d' ys = concat (map lp (bytes_of d' # ys))"
    by (simp_all add: transcript_def)
  with concat_lp_inject [OF assms] show ?thesis by (simp add: bytes_of_inject)
qed

section \<open>\<open>crypto/internal\<close>: discrete logarithms of small exponents\<close>

text \<open>\<open>step := 1; for step*step < max { step++ }\<close>; \<open>int\<close> stands for Go's 64-bit \<open>int\<close>, faithful
  while \<open>step*step\<close> does not wrap, which is the case for \<open>max < 2^62\<close>.\<close>

function step_loop :: "int \<Rightarrow> int \<Rightarrow> int" where
  "step_loop mx step = (if 0 < step \<and> step * step < mx then step_loop mx (step + 1) else step)"
  by pat_completeness auto
termination
proof (relation "measure (\<lambda>(mx, step). nat (mx - step))", goal_cases)
  case (2 mx step)
  then have step: "0 < step" "step * step < mx" by auto
  then have "step * 1 \<le> step * step" by (intro mult_left_mono) auto
  with step have "step < mx" by linarith
  then show ?case by simp
qed simp

declare step_loop.simps [simp del]

text \<open>The table of baby steps, keyed by encodings; the loop leaves \<open>current\<close> at the \<open>j\<close>-th power.\<close>

fun baby_steps :: "('s, 'e::plus) prims \<Rightarrow> nat \<Rightarrow> nat \<Rightarrow> 'e \<Rightarrow> (bytes \<rightharpoonup> nat) \<Rightarrow> (bytes \<rightharpoonup> nat)" where
  "baby_steps R 0 j current table = table"
| "baby_steps R (Suc n) j current table =
     baby_steps R n (Suc j) (current + gen R) (table(e_bytes R current \<mapsto> j))"

text \<open>The search: \<open>n\<close> is the number of iterations left.\<close>

fun giant_steps :: "('s, 'e::plus) prims \<Rightarrow> (bytes \<rightharpoonup> nat) \<Rightarrow> int \<Rightarrow> int \<Rightarrow> 'e \<Rightarrow> nat \<Rightarrow> int \<Rightarrow> 'e \<Rightarrow> int" where
  "giant_steps R table mx step giantStep 0 i gamma = -1"
| "giant_steps R table mx step giantStep (Suc n) i gamma =
     (case table (e_bytes R gamma) of
        Some j \<Rightarrow> let m = i * step + int j in if m \<le> mx then m else -1
      | None \<Rightarrow> giant_steps R table mx step giantStep n (i + 1) (gamma + giantStep))"

text \<open>The code panics when \<open>ScalarFromInt\<close> fails, which a positive step excludes; that branch is -1 here.\<close>

definition BabyStepGiantStep :: "('s, 'e::ab_group_add) prims \<Rightarrow> 'e \<Rightarrow> int \<Rightarrow> int" where
  "BabyStepGiantStep R target mx =
     (let step = step_loop mx 1;
          table = baby_steps R (nat step) 0 0 Map.empty
      in case ScalarFromInt R step of
           Inl _ \<Rightarrow> -1
         | Inr stepScalar \<Rightarrow>
             let giantStep = - smul R stepScalar (gen R)
             in giant_steps R table mx step giantStep (nat (mx div step + 2)) 0 target)"

lemma step_loop_bound:
  "0 < s \<Longrightarrow> s = 1 \<or> (s - 1) * (s - 1) < mx \<Longrightarrow>
     0 < step_loop mx s \<and> mx \<le> step_loop mx s * step_loop mx s
     \<and> (step_loop mx s = 1 \<or> (step_loop mx s - 1) * (step_loop mx s - 1) < mx)"
proof (induction mx s rule: step_loop.induct)
  case (1 mx s)
  show ?case
  proof (cases "s * s < mx")
    case True
    then have "step_loop mx s = step_loop mx (s + 1)" using "1.prems" by (subst step_loop.simps) simp
    with 1 True show ?thesis by simp
  next
    case False
    then have "step_loop mx s = s" by (subst step_loop.simps) simp
    with 1 False show ?thesis by simp
  qed
qed

lemma baby_steps_other:
  "ristretto R \<Longrightarrow> current = smul R (of_nat j) (gen R) \<Longrightarrow>
   (\<And>i. j \<le> i \<Longrightarrow> i < j + n \<Longrightarrow> k \<noteq> e_bytes R (smul R (of_nat i) (gen R))) \<Longrightarrow>
     baby_steps R n j current table k = table k"
proof (induction n arbitrary: j current table)
  case (Suc n)
  have next_current: "current + gen R = smul R (of_nat (Suc j)) (gen R)"
    using Suc.prems(1,2) by (simp add: smul_add_left smul_one add.commute)
  have "k \<noteq> e_bytes R current" using Suc.prems(2) Suc.prems(3) [of j] by simp
  moreover have "\<And>i. Suc j \<le> i \<Longrightarrow> i < Suc j + n \<Longrightarrow> k \<noteq> e_bytes R (smul R (of_nat i) (gen R))"
    using Suc.prems(3) by simp
  ultimately show ?case using Suc.IH [OF Suc.prems(1) next_current, of "table(e_bytes R current \<mapsto> j)"]
    by (simp del: fun_upd_apply) simp
qed simp

lemma baby_steps_entry:
  "ristretto R \<Longrightarrow> current = smul R (of_nat j) (gen R) \<Longrightarrow> j + n \<le> 2 ^ 64 \<Longrightarrow> j \<le> i \<Longrightarrow> i < j + n \<Longrightarrow>
     baby_steps R n j current table (e_bytes R (smul R (of_nat i) (gen R))) = Some i"
proof (induction n arbitrary: j current table)
  case (Suc n)
  have next_current: "current + gen R = smul R (of_nat (Suc j)) (gen R)"
    using Suc.prems(1,2) by (simp add: smul_add_left smul_one add.commute)
  show ?case
  proof (cases "i = j")
    case True
    have "e_bytes R (smul R (of_nat i) (gen R)) \<noteq> e_bytes R (smul R (of_nat i') (gen R))"
      if "Suc j \<le> i'" "i' < Suc j + n" for i'
      using that Suc.prems(1,3) True of_nat_small_iff [OF Suc.prems(1), of i i']
      by (simp add: e_bytes_inject smul_gen_inject)
    then show ?thesis
      using baby_steps_other [OF Suc.prems(1) next_current] True Suc.prems(2) by simp
  next
    case False
    with Suc.prems(3,4,5) show ?thesis
      using Suc.IH [OF Suc.prems(1) next_current, of "table(e_bytes R current \<mapsto> j)"]
      by (simp del: fun_upd_apply)
  qed
qed simp

lemma baby_steps_lookup:
  assumes "ristretto R" "n \<le> 2 ^ 64"
  shows "baby_steps R n 0 0 Map.empty (e_bytes R x) = Some j \<longleftrightarrow> j < n \<and> x = smul R (of_nat j) (gen R)"
proof (cases "\<exists>i<n. x = smul R (of_nat i) (gen R)")
  case True
  then obtain i where i: "i < n" "x = smul R (of_nat i) (gen R)" by blast
  have "baby_steps R n 0 0 Map.empty (e_bytes R x) = Some i"
    unfolding i(2) using assms i(1) by (intro baby_steps_entry) (simp_all add: smul_zero_left)
  moreover have "j < n \<Longrightarrow> smul R (of_nat i) (gen R) = smul R (of_nat j) (gen R) \<longleftrightarrow> i = j"
    using i(1) assms(2) of_nat_small_iff [OF assms(1), of i j] by (simp add: smul_gen_inject [OF assms(1)])
  ultimately show ?thesis using i by auto
next
  case False
  then have "baby_steps R n 0 0 Map.empty (e_bytes R x) = None"
    using assms(1) by (subst baby_steps_other [of R _ 0]) (auto simp: smul_zero_left e_bytes_inject)
  with False show ?thesis by auto
qed

lemma giant_steps_complete:
  assumes R: "ristretto R" and step: "0 < step" and m: "m < 2 ^ 64" "int m \<le> mx"
    and table: "\<And>x j. table (e_bytes R x) = Some j \<longleftrightarrow> j < step \<and> x = smul R (of_nat j) (gen R)"
  shows "i * step \<le> m \<Longrightarrow> (m - i * step) div step < n \<Longrightarrow>
    giant_steps R table mx (int step) (- smul R (of_nat step) (gen R)) n (int i)
      (smul R (of_nat m) (gen R) - smul R (of_nat (i * step)) (gen R)) = int m"
proof (induction n arbitrary: i)
  case (Suc n)
  let ?gamma = "smul R (of_nat m) (gen R) - smul R (of_nat (i * step)) (gen R)"
  have gamma: "?gamma = smul R (of_nat (m - i * step)) (gen R)"
    using Suc.prems(1) by (simp add: smul_diff_left [OF R, symmetric] of_nat_diff [symmetric])
  show ?case
  proof (cases "m - i * step < step")
    case True
    then have "table (e_bytes R ?gamma) = Some (m - i * step)" unfolding gamma by (simp add: table)
    moreover have "int i * int step + int (m - i * step) = int m" using Suc.prems(1) by simp
    ultimately show ?thesis using m(2) by (simp add: Let_def)
  next
    case False
    have small: "m - i * step < 2 ^ 64" using m(1) by linarith
    have "table (e_bytes R ?gamma) \<noteq> Some j" for j
    proof
      assume "table (e_bytes R ?gamma) = Some j"
      then have j: "j < step" "smul R (of_nat (m - i * step)) (gen R) = smul R (of_nat j) (gen R)"
        unfolding gamma table by auto
      moreover have "j < 2 ^ 64" using j(1) False small by linarith
      ultimately have "m - i * step = j" using of_nat_small_iff [OF R small, of j] by (simp only: smul_gen_inject [OF R])
      with False j(1) show False by simp
    qed
    then have none: "table (e_bytes R ?gamma) = None" by (cases "table (e_bytes R ?gamma)") auto
    have eq: "?gamma + - smul R (of_nat step) (gen R) = smul R (of_nat m) (gen R) - smul R (of_nat (Suc i * step)) (gen R)"
      by (simp add: smul_add_left [OF R] algebra_simps)
    have le: "Suc i * step \<le> m" using False Suc.prems(1) by simp
    have "m - i * step = (m - Suc i * step) + step" using False Suc.prems(1) by simp
    moreover have "((m - Suc i * step) + step) div step = Suc ((m - Suc i * step) div step)"
      using step by (simp only: div_add_self2)
    ultimately have "(m - Suc i * step) div step < n" using Suc.prems(2) by (metis Suc_less_eq)
    note Suc.IH [OF le this]
    moreover have "int (Suc i) = int i + 1" by simp
    ultimately have IH: "giant_steps R table mx (int step) (- smul R (of_nat step) (gen R)) n (int i + 1)
        (smul R (of_nat m) (gen R) - smul R (of_nat (Suc i * step)) (gen R)) = int m"
      by (simp only:)
    show ?thesis unfolding giant_steps.simps none option.case eq by (rule IH)
  qed
qed simp

lemma giant_steps_sound:
  assumes R: "ristretto R" and step: "0 < step"
    and table: "\<And>x j. table (e_bytes R x) = Some j \<longleftrightarrow> j < step \<and> x = smul R (of_nat j) (gen R)"
  shows "giant_steps R table mx (int step) (- smul R (of_nat step) (gen R)) n (int i)
      (target - smul R (of_nat (i * step)) (gen R)) = r \<Longrightarrow> r \<noteq> -1 \<Longrightarrow>
    0 \<le> r \<and> r \<le> mx \<and> target = smul R (of_nat (nat r)) (gen R)"
proof (induction n arbitrary: i)
  case (Suc n)
  let ?gamma = "target - smul R (of_nat (i * step)) (gen R)"
  show ?case
  proof (cases "table (e_bytes R ?gamma)")
    case None
    have eq: "?gamma + - smul R (of_nat step) (gen R) = target - smul R (of_nat (Suc i * step)) (gen R)"
      by (simp add: smul_add_left [OF R] algebra_simps)
    have "int i + 1 = int (Suc i)" by simp
    then show ?thesis
      using Suc.IH [of "Suc i"] Suc.prems unfolding giant_steps.simps None option.case eq by metis
  next
    case (Some j)
    then have "?gamma = smul R (of_nat j) (gen R)" by (simp add: table)
    then have "target = smul R (of_nat (i * step + j)) (gen R)"
      by (simp add: smul_add_left [OF R] algebra_simps)
    moreover have "r = int (i * step + j)" "r \<le> mx"
      using Suc.prems Some by (auto simp: Let_def split: if_splits)
    ultimately show ?thesis by (simp add: nat_int_add)
  qed
qed simp

lemma step_loop_small:
  assumes "mx < 2 ^ 62"
  shows "0 < step_loop mx 1" "step_loop mx 1 < 2 ^ 32"
proof -
  from step_loop_bound [of 1 mx]
  have b: "0 < step_loop mx 1" "step_loop mx 1 = 1 \<or> (step_loop mx 1 - 1) * (step_loop mx 1 - 1) < mx" by auto
  show "step_loop mx 1 < 2 ^ 32"
  proof (rule ccontr)
    assume "\<not> step_loop mx 1 < 2 ^ 32"
    then have "2 ^ 31 \<le> step_loop mx 1 - 1" by simp
    then have "(2 ^ 31) * 2 ^ 31 \<le> (step_loop mx 1 - 1) * (step_loop mx 1 - 1)" by (intro mult_mono) auto
    with b assms \<open>\<not> step_loop mx 1 < 2 ^ 32\<close> show False by auto
  qed
qed (use step_loop_bound [of 1 mx] in auto)

lemma BabyStepGiantStep_eq:
  assumes "ristretto R" "mx < 2 ^ 62" "s = nat (step_loop mx 1)"
  shows "0 < s" "s \<le> 2 ^ 64"
    and "BabyStepGiantStep R target mx =
      giant_steps R (baby_steps R s 0 0 Map.empty) mx (int s) (- smul R (of_nat s) (gen R)) (nat (mx div int s + 2)) 0 target"
proof -
  note b = step_loop_small [OF assms(2)]
  then have s: "step_loop mx 1 = int s" "s < 2 ^ 64" using assms(3) by auto
  from b assms(3) show "0 < s" "s \<le> 2 ^ 64" by auto
  show "BabyStepGiantStep R target mx =
      giant_steps R (baby_steps R s 0 0 Map.empty) mx (int s) (- smul R (of_nat s) (gen R)) (nat (mx div int s + 2)) 0 target"
    unfolding BabyStepGiantStep_def Let_def s(1) ScalarFromInt_of_nat [OF assms(1) s(2)] by simp
qed

lemma BabyStepGiantStep_complete:
  assumes "ristretto R" "mx < 2 ^ 62" "int m \<le> mx"
  shows "BabyStepGiantStep R (smul R (of_nat m) (gen R)) mx = int m"
proof -
  define s where "s = nat (step_loop mx 1)"
  note bs = BabyStepGiantStep_eq [OF assms(1,2) s_def]
  have "int (m div s) \<le> mx div int s" using assms(3) bs(1) by (simp add: zdiv_int zdiv_mono1)
  then have "m div s < nat (mx div int s + 2)" by linarith
  then show ?thesis
    using giant_steps_complete [OF assms(1) bs(1) _ assms(3) baby_steps_lookup [OF assms(1) bs(2)],
        of 0 "nat (mx div int s + 2)"]
      assms(2,3) unfolding bs(3) by (simp add: smul_zero_left [OF assms(1)])
qed

lemma BabyStepGiantStep_sound:
  assumes "ristretto R" "mx < 2 ^ 62" "BabyStepGiantStep R target mx = r" "r \<noteq> -1"
  shows "0 \<le> r \<and> r \<le> mx \<and> target = smul R (of_nat (nat r)) (gen R)"
proof -
  define s where "s = nat (step_loop mx 1)"
  note bs = BabyStepGiantStep_eq [OF assms(1,2) s_def]
  show ?thesis
    using giant_steps_sound [OF assms(1) bs(1) baby_steps_lookup [OF assms(1) bs(2)],
        of mx "nat (mx div int s + 2)" 0 target r]
      assms(3,4) unfolding bs(3) by (simp add: smul_zero_left [OF assms(1)])
qed

end
