(* ===== verification/Elgamal.thy ===== *)
theory Elgamal
  imports Group
begin

text \<open>
  Exponential ElGamal and encrypted ballots (\<open>crypto/elgamal\<close>).  The group is written
  additively: the code's \<open>g^r\<close> is \<open>smul R r (gen R)\<close>.  \<open>make\<close> with a negative length, an index
  out of range and a nil dereference are the result \<open>RuntimePanic\<close>.
\<close>

section \<open>Keys and ciphertexts (\<open>elgamal.go\<close>)\<close>

record ('s, 'e) KeyPair =
  PrivateKey :: 's
  PublicKey :: 'e

definition KeyPairFromSecret :: "('s, 'e) prims \<Rightarrow> 's \<Rightarrow> ('s, 'e) KeyPair" where
  "KeyPairFromSecret R x = \<lparr>PrivateKey = x, PublicKey = smul R x (gen R)\<rparr>"

definition GenerateKeyPair :: "('s, 'e) prims \<Rightarrow> 's tape \<Rightarrow> ('s, 'e) KeyPair \<times> 's tape" where
  "GenerateKeyPair R tape =
     (let (x, tape') = RandomScalar tape; h = smul R x (gen R)
      in (\<lparr>PrivateKey = x, PublicKey = h\<rparr>, tape'))"

record 'e Ciphertext =
  C1 :: "'e ptr"
  C2 :: "'e ptr"

definition MaxDecrypt :: int where "MaxDecrypt = 5000000"

definition EncryptWithRandomness ::
  "('s::field, 'e::ab_group_add) prims \<Rightarrow> 'e ptr \<Rightarrow> int \<Rightarrow> 's ptr \<Rightarrow> crypto_error + 'e Ciphertext" where
  "EncryptWithRandomness R publicKey m r =
     (case publicKey of
        None \<Rightarrow> Inl ErrInvalidPublicKey
      | Some h \<Rightarrow>
          if h = 0 then Inl ErrInvalidPublicKey
          else case r of
            None \<Rightarrow> Inl ErrInvalidRandomness
          | Some r \<Rightarrow>
              if r = 0 then Inl ErrInvalidRandomness
              else bindE (ScalarBaseMultInt R m) (\<lambda>gm.
                let c1 = smul R r (gen R); hr = smul R r h; c2 = hr + gm
                in Inr \<lparr>C1 = Some c1, C2 = Some c2\<rparr>))"

definition Encrypt ::
  "('s::field, 'e::ab_group_add) prims \<Rightarrow> 'e ptr \<Rightarrow> int \<Rightarrow> 's tape \<Rightarrow> crypto_error + 'e Ciphertext \<times> 's \<times> 's tape" where
  "Encrypt R publicKey m tape =
     (let (r, tape') = RandomScalar tape
      in bindE (EncryptWithRandomness R publicKey m (Some r)) (\<lambda>ct. Inr (ct, r, tape')))"

text \<open>The loop of \<open>HomomorphicAdd\<close> over the ciphertexts after the first.\<close>

fun add_loop :: "'e::ab_group_add \<Rightarrow> 'e \<Rightarrow> 'e Ciphertext ptr list \<Rightarrow> crypto_error + 'e \<times> 'e" where
  "add_loop sumC1 sumC2 [] = Inr (sumC1, sumC2)"
| "add_loop sumC1 sumC2 (p # cts) =
     bindE (deref p) (\<lambda>ct. bindE (deref (C1 ct)) (\<lambda>c1. bindE (deref (C2 ct)) (\<lambda>c2.
       add_loop (sumC1 + c1) (sumC2 + c2) cts)))"

definition HomomorphicAdd :: "'e::ab_group_add Ciphertext ptr list \<Rightarrow> crypto_error + 'e Ciphertext ptr" where
  "HomomorphicAdd cts =
     (case cts of
        [] \<Rightarrow> Inr None
      | p # rest \<Rightarrow>
          bindE (deref p) (\<lambda>ct. bindE (deref (C1 ct)) (\<lambda>c1. bindE (deref (C2 ct)) (\<lambda>c2.
          bindE (add_loop c1 c2 rest) (\<lambda>(s1, s2).
            Inr (Some \<lparr>C1 = Some s1, C2 = Some s2\<rparr>))))))"

definition Decrypt :: "('s::field, 'e::ab_group_add) prims \<Rightarrow> 's \<Rightarrow> 'e Ciphertext ptr \<Rightarrow> crypto_error + int" where
  "Decrypt R privateKey p =
     bindE (deref p) (\<lambda>ct. bindE (deref (C1 ct)) (\<lambda>c1. bindE (deref (C2 ct)) (\<lambda>c2.
       let s = - smul R privateKey c1; gm = c2 + s
       in Inr (BabyStepGiantStep R gm MaxDecrypt))))"

text \<open>\<open>copy(out[:32], b)\<close> into a zeroed array.\<close>

definition copy32 :: "bytes \<Rightarrow> bytes" where
  "copy32 b = take 32 (b @ replicate 32 0)"

definition Ciphertext_Bytes :: "('s, 'e) prims \<Rightarrow> 'e Ciphertext \<Rightarrow> crypto_error + bytes" where
  "Ciphertext_Bytes R ct =
     bindE (deref (C1 ct)) (\<lambda>c1. bindE (deref (C2 ct)) (\<lambda>c2.
       Inr (copy32 (e_bytes R c1) @ copy32 (e_bytes R c2))))"

definition CiphertextFromBytes :: "('s, 'e::zero) prims \<Rightarrow> bytes \<Rightarrow> crypto_error + 'e Ciphertext" where
  "CiphertextFromBytes R data =
     (if length data \<noteq> 64 then Inl ErrLength
      else bindE (DecodeElement R (take 32 data)) (\<lambda>c1.
           bindE (DecodeElement R (drop 32 data)) (\<lambda>c2.
             Inr \<lparr>C1 = Some c1, C2 = Some c2\<rparr>)))"

section \<open>Ballots (\<open>ballot.go\<close>)\<close>

text \<open>A nil slice of candidate vectors is distinguished from an empty one.\<close>

record ('s, 'e) Ballot =
  PartyVector :: "'e Ciphertext ptr list"
  PartyRandomness :: "'s ptr list"
  CandidateVectors :: "'e Ciphertext ptr list list ptr"
  CandRandomness :: "'s ptr list list ptr"
  NumParties :: int
  NumCandidates :: int

text \<open>
  The loops of \<open>EncodeBallot\<close> and of one party's candidates: the \<open>i\<close>-th ciphertext encrypts
  \<open>msg i\<close> under the next random scalar.
\<close>

fun encrypt_loop ::
  "('s::field, 'e::ab_group_add) prims \<Rightarrow> 'e ptr \<Rightarrow> (nat \<Rightarrow> int) \<Rightarrow> nat \<Rightarrow> nat \<Rightarrow> 's tape
     \<Rightarrow> crypto_error + 'e Ciphertext ptr list \<times> 's ptr list \<times> 's tape" where
  "encrypt_loop R publicKey msg i 0 tape = Inr ([], [], tape)"
| "encrypt_loop R publicKey msg i (Suc n) tape =
     (let (r, tape') = RandomScalar tape
      in bindE (EncryptWithRandomness R publicKey (msg i) (Some r)) (\<lambda>ct.
         bindE (encrypt_loop R publicKey msg (Suc i) n tape') (\<lambda>(cts, rs, tape'').
           Inr (Some ct # cts, Some r # rs, tape''))))"

definition EncodeBallot ::
  "('s::field, 'e::ab_group_add) prims \<Rightarrow> 'e ptr \<Rightarrow> int \<Rightarrow> int \<Rightarrow> 's tape \<Rightarrow> crypto_error + ('s, 'e) Ballot \<times> 's tape" where
  "EncodeBallot R publicKey numParties partyChoice tape =
     (if numParties < 0 then Inl RuntimePanic
      else bindE (encrypt_loop R publicKey (\<lambda>i. if int i = partyChoice then 1 else 0) 0 (nat numParties) tape)
        (\<lambda>(cts, rs, tape').
          Inr (\<lparr>PartyVector = cts, PartyRandomness = rs, CandidateVectors = None, CandRandomness = None,
                NumParties = numParties, NumCandidates = 0\<rparr>, tape')))"

fun candidates_loop ::
  "('s::field, 'e::ab_group_add) prims \<Rightarrow> 'e ptr \<Rightarrow> int \<Rightarrow> int \<Rightarrow> int \<Rightarrow> nat \<Rightarrow> nat \<Rightarrow> 's tape
     \<Rightarrow> crypto_error + 'e Ciphertext ptr list list \<times> 's ptr list list \<times> 's tape" where
  "candidates_loop R publicKey numCandidates partyChoice candidateChoice p 0 tape = Inr ([], [], tape)"
| "candidates_loop R publicKey numCandidates partyChoice candidateChoice p (Suc n) tape =
     (if numCandidates < 0 then Inl RuntimePanic
      else bindE (encrypt_loop R publicKey
                    (\<lambda>c. if int p = partyChoice \<and> int c = candidateChoice then 1 else 0) 0 (nat numCandidates) tape)
        (\<lambda>(cts, rs, tape').
          bindE (candidates_loop R publicKey numCandidates partyChoice candidateChoice (Suc p) n tape')
            (\<lambda>(ctss, rss, tape''). Inr (cts # ctss, rs # rss, tape''))))"

definition EncodeBallotWithCandidates ::
  "('s::field, 'e::ab_group_add) prims \<Rightarrow> 'e ptr \<Rightarrow> int \<Rightarrow> int \<Rightarrow> int \<Rightarrow> int \<Rightarrow> 's tape
     \<Rightarrow> crypto_error + ('s, 'e) Ballot \<times> 's tape" where
  "EncodeBallotWithCandidates R publicKey numParties numCandidates partyChoice candidateChoice tape =
     bindE (EncodeBallot R publicKey numParties partyChoice tape) (\<lambda>(b, tape').
     bindE (candidates_loop R publicKey numCandidates partyChoice candidateChoice 0 (nat numParties) tape')
       (\<lambda>(ctss, rss, tape'').
         Inr (b\<lparr>NumCandidates := numCandidates, CandidateVectors := Some ctss, CandRandomness := Some rss\<rparr>, tape'')))"

definition checkShape :: "('s, 'e) Ballot \<Rightarrow> ('s, 'e) Ballot ptr \<Rightarrow> crypto_error + unit" where
  "checkShape ref p =
     (case p of
        None \<Rightarrow> Inl ErrShapeMismatch
      | Some b \<Rightarrow>
          if NumParties b \<noteq> NumParties ref \<or> int (length (PartyVector b)) \<noteq> NumParties ref then Inl ErrShapeMismatch
          else if (CandidateVectors b = None) \<noteq> (CandidateVectors ref = None) then Inl ErrShapeMismatch
          else case (CandidateVectors ref, CandidateVectors b) of
            (None, _) \<Rightarrow> Inr ()
          | (Some _, None) \<Rightarrow> Inr ()
          | (Some _, Some vs) \<Rightarrow>
              if NumCandidates b \<noteq> NumCandidates ref \<or> int (length vs) \<noteq> NumParties ref then Inl ErrShapeMismatch
              else if list_ex (\<lambda>v. int (length v) \<noteq> NumCandidates ref) vs then Inl ErrShapeMismatch
              else Inr ())"

text \<open>The checks of \<open>TallyBallots\<close> on the first ballot.\<close>

definition checkFirst :: "('s, 'e) Ballot \<Rightarrow> crypto_error + unit" where
  "checkFirst first =
     (if int (length (PartyVector first)) \<noteq> NumParties first then Inl ErrShapeMismatch
      else case CandidateVectors first of
        None \<Rightarrow> Inr ()
      | Some vs \<Rightarrow>
          if int (length vs) \<noteq> NumParties first then Inl ErrShapeMismatch
          else if list_ex (\<lambda>v. int (length v) \<noteq> NumCandidates first) vs then Inl ErrShapeMismatch
          else Inr ())"

definition TallyBallots :: "('s, 'e::ab_group_add) Ballot ptr list \<Rightarrow> crypto_error + ('s, 'e) Ballot" where
  "TallyBallots ballots =
     (case ballots of
        [] \<Rightarrow> Inl ErrNoBallots
      | None # _ \<Rightarrow> Inl ErrShapeMismatch
      | Some first # _ \<Rightarrow>
          bindE (checkFirst first) (\<lambda>_.
          bindE (checkE (checkShape first) ballots) (\<lambda>_.
          let bs = map the ballots; numParties = nat (NumParties first) in
          bindE (mapE (\<lambda>i. HomomorphicAdd (map (\<lambda>b. PartyVector b ! i) bs)) [0..<numParties]) (\<lambda>parties.
          let result = \<lparr>PartyVector = parties, PartyRandomness = [], CandidateVectors = None,
                        CandRandomness = None, NumParties = NumParties first, NumCandidates = 0\<rparr> in
          if CandidateVectors first = None then Inr result
          else
            bindE (mapE (\<lambda>p. mapE (\<lambda>c. HomomorphicAdd (map (\<lambda>b. the (CandidateVectors b) ! p ! c) bs))
                        [0..<nat (NumCandidates first)]) [0..<numParties]) (\<lambda>candidates.
            Inr (result\<lparr>NumCandidates := NumCandidates first, CandidateVectors := Some candidates\<rparr>))))))"

section \<open>Encryption and decryption\<close>

text \<open>The ciphertext of \<open>m\<close> under \<open>h\<close> with randomness \<open>r\<close>.\<close>

definition enc :: "('s::field, 'e::ab_group_add) prims \<Rightarrow> 'e \<Rightarrow> 's \<Rightarrow> 's \<Rightarrow> 'e Ciphertext" where
  "enc R h r m = \<lparr>C1 = Some (smul R r (gen R)), C2 = Some (smul R r h + smul R m (gen R))\<rparr>"

lemma EncryptWithRandomness_eq:
  assumes "ristretto R" "m < 2 ^ 64"
  shows "EncryptWithRandomness R (Some h) (int m) (Some r) =
    (if h = 0 then Inl ErrInvalidPublicKey else if r = 0 then Inl ErrInvalidRandomness
     else Inr (enc R h r (of_nat m)))"
  using assms by (simp add: EncryptWithRandomness_def ScalarBaseMultInt_def ScalarFromInt_of_nat enc_def)

lemma add_loop_enc:
  assumes "ristretto R"
  shows "list_all2 (\<lambda>p m. \<exists>r. p = Some (enc R h r (of_nat m))) ps ms \<Longrightarrow>
    \<exists>r. add_loop a b ps = Inr (a + smul R r (gen R), b + smul R r h + smul R (of_nat (sum_list ms)) (gen R))"
proof (induction arbitrary: a b rule: list_all2_induct)
  case Nil
  then show ?case using assms by (intro exI [of _ 0]) (simp add: smul_zero_left)
next
  case (Cons p ps m ms)
  then obtain r where p: "p = Some (enc R h r (of_nat m))" by blast
  obtain r' where "add_loop (a + smul R r (gen R)) (b + (smul R r h + smul R (of_nat m) (gen R))) ps =
      Inr (a + smul R r (gen R) + smul R r' (gen R),
           b + (smul R r h + smul R (of_nat m) (gen R)) + smul R r' h + smul R (of_nat (sum_list ms)) (gen R))"
    using Cons.IH by blast
  then show ?case
    by (intro exI [of _ "r + r'"]) (simp add: p enc_def smul_add_left [OF assms] add_ac)
qed

lemma HomomorphicAdd_enc:
  assumes R: "ristretto R" and ps: "list_all2 (\<lambda>p m. \<exists>r. p = Some (enc R h r (of_nat m))) ps ms" "ps \<noteq> []"
  shows "\<exists>r. HomomorphicAdd ps = Inr (Some (enc R h r (of_nat (sum_list ms))))"
proof -
  from ps obtain r ps' m ms' where c: "ps = Some (enc R h r (of_nat m)) # ps'" "ms = m # ms'"
    "list_all2 (\<lambda>p m. \<exists>r. p = Some (enc R h r (of_nat m))) ps' ms'"
    by (cases ps; cases ms) auto
  from add_loop_enc [OF R c(3)] obtain r' where
    "add_loop (smul R r (gen R)) (smul R r h + smul R (of_nat m) (gen R)) ps' =
      Inr (smul R r (gen R) + smul R r' (gen R), smul R r h + smul R (of_nat m) (gen R) + smul R r' h
        + smul R (of_nat (sum_list ms')) (gen R))" by blast
  then show ?thesis
    by (intro exI [of _ "r + r'"]) (simp add: c HomomorphicAdd_def enc_def smul_add_left [OF R] add_ac)
qed

lemma Decrypt_enc:
  assumes "ristretto R" "int m \<le> MaxDecrypt"
  shows "Decrypt R x (Some (enc R (smul R x (gen R)) r (of_nat m))) = Inr (int m)"
proof -
  have "smul R r (smul R x (gen R)) = smul R x (smul R r (gen R))" by (rule smul_commute [OF assms(1)])
  moreover have "BabyStepGiantStep R (smul R (of_nat m) (gen R)) MaxDecrypt = int m"
    using assms by (intro BabyStepGiantStep_complete) (simp_all add: MaxDecrypt_def)
  ultimately show ?thesis by (simp add: Decrypt_def enc_def)
qed

lemma Ciphertext_roundtrip:
  assumes "ristretto R" "C1 ct = Some a" "C2 ct = Some b" "a \<noteq> 0" "b \<noteq> 0"
  shows "bindE (Ciphertext_Bytes R ct) (CiphertextFromBytes R) = Inr ct"
proof -
  have "DecodeElement R (e_bytes R a) = Inr a" "DecodeElement R (e_bytes R b) = Inr b"
    using assms by (simp_all add: DecodeElement_iff)
  moreover have "ct = \<lparr>C1 = Some a, C2 = Some b\<rparr>" using assms(2,3) by (cases ct) simp
  ultimately show ?thesis
    using e_bytes_length [OF assms(1)]
    by (simp add: Ciphertext_Bytes_def CiphertextFromBytes_def copy32_def)
qed

section \<open>Encoding and tallying ballots\<close>

lemma encrypt_loop_eq:
  assumes "ristretto R" "h \<noteq> 0" "\<And>i. msg i = int (ms i) \<and> ms i < 2 ^ 64"
  shows "encrypt_loop R (Some h) msg i n tape =
    (if \<exists>j<n. tape j = 0 then Inl ErrInvalidRandomness
     else Inr (map (\<lambda>j. Some (enc R h (tape j) (of_nat (ms (i + j))))) [0..<n],
               map (\<lambda>j. Some (tape j)) [0..<n], \<lambda>k. tape (n + k)))"
proof -
  have msg: "msg = (\<lambda>i. int (ms i))" using assms(3) by blast
  have small: "ms i < 2 ^ 64" for i using assms(3) by blast
  show ?thesis
    unfolding msg
proof (induction n arbitrary: i tape)
  case (Suc n)
  have all: "(\<exists>j<Suc n. tape j = 0) \<longleftrightarrow> tape 0 = 0 \<or> (\<exists>j<n. tape (Suc j) = 0)"
    by (metis less_Suc_eq_0_disj)
  have range: "[0..<Suc n] = 0 # map Suc [0..<n]" by (simp add: map_Suc_upt upt_conv_Cons del: upt_Suc)
  show ?case
    unfolding all range using assms(2)
    by (simp add: RandomScalar_def EncryptWithRandomness_eq [OF assms(1) small] Suc.IH comp_def del: upt_Suc)
qed simp
qed

text \<open>What a ballot's party vector and candidate vectors encrypt.\<close>

definition encrypts :: "('s::field, 'e::ab_group_add) prims \<Rightarrow> 'e \<Rightarrow> nat \<Rightarrow> (nat \<Rightarrow> nat) \<Rightarrow> 'e Ciphertext ptr list \<Rightarrow> bool" where
  "encrypts R h n ms cts \<longleftrightarrow> length cts = n \<and> (\<forall>i<n. \<exists>r. cts ! i = Some (enc R h r (of_nat (ms i))))"

definition is_ballot ::
  "('s::field, 'e::ab_group_add) prims \<Rightarrow> 'e \<Rightarrow> nat \<Rightarrow> nat \<Rightarrow> (nat \<Rightarrow> nat) \<Rightarrow> (nat \<Rightarrow> nat \<Rightarrow> nat) \<Rightarrow> ('s, 'e) Ballot \<Rightarrow> bool" where
  "is_ballot R h n k pm cm b \<longleftrightarrow> NumParties b = int n \<and> NumCandidates b = int k \<and> encrypts R h n pm (PartyVector b)
     \<and> (\<exists>vs. CandidateVectors b = Some vs \<and> length vs = n \<and> (\<forall>p<n. encrypts R h k (cm p) (vs ! p)))"

definition party_bit :: "int \<Rightarrow> nat \<Rightarrow> nat" where
  "party_bit choice i = (if int i = choice then 1 else 0)"

definition candidate_bit :: "int \<Rightarrow> int \<Rightarrow> nat \<Rightarrow> nat \<Rightarrow> nat" where
  "candidate_bit choice candidate p c = (if int p = choice \<and> int c = candidate then 1 else 0)"

lemma candidates_loop_encrypts:
  assumes "ristretto R" "h \<noteq> 0" "0 \<le> k"
  shows "candidates_loop R (Some h) k choice candidate p n tape = Inr (ctss, rss, tape') \<Longrightarrow>
    length ctss = n \<and> (\<forall>i<n. encrypts R h (nat k) (candidate_bit choice candidate (p + i)) (ctss ! i))"
proof (induction n arbitrary: p tape ctss rss)
  case (Suc n)
  have loop: "encrypt_loop R (Some h) (\<lambda>c. if int p = choice \<and> int c = candidate then 1 else 0) 0 (nat k) tape =
      (if \<exists>j<nat k. tape j = 0 then Inl ErrInvalidRandomness
       else Inr (map (\<lambda>j. Some (enc R h (tape j) (of_nat (candidate_bit choice candidate p (0 + j))))) [0..<nat k],
               map (\<lambda>j. Some (tape j)) [0..<nat k], \<lambda>k'. tape (nat k + k')))"
    by (rule encrypt_loop_eq [OF assms(1,2)]) (simp add: candidate_bit_def)
  from Suc.prems assms(3) obtain cts ctss' rss' tape'' where
    c: "ctss = cts # ctss'" "candidates_loop R (Some h) k choice candidate (Suc p) n tape'' = Inr (ctss', rss', tape')"
    "cts = map (\<lambda>j. Some (enc R h (tape j) (of_nat (candidate_bit choice candidate p j)))) [0..<nat k]"
    unfolding candidates_loop.simps loop by (auto split: if_splits)
  have "encrypts R h (nat k) (candidate_bit choice candidate p) cts" by (auto simp: c(3) encrypts_def)
  with Suc.IH [OF c(2)] show ?case by (auto simp: c(1) nth_Cons split: nat.splits)
qed simp

lemma EncodeBallotWithCandidates_is_ballot:
  assumes "ristretto R" "h \<noteq> 0" "0 \<le> n" "0 \<le> k"
    and "EncodeBallotWithCandidates R (Some h) n k choice candidate tape = Inr (b, tape')"
  shows "is_ballot R h (nat n) (nat k) (party_bit choice) (candidate_bit choice candidate) b"
proof -
  have loop: "encrypt_loop R (Some h) (\<lambda>i. if int i = choice then 1 else 0) 0 (nat n) tape =
      (if \<exists>j<nat n. tape j = 0 then Inl ErrInvalidRandomness
       else Inr (map (\<lambda>j. Some (enc R h (tape j) (of_nat (party_bit choice (0 + j))))) [0..<nat n],
               map (\<lambda>j. Some (tape j)) [0..<nat n], \<lambda>k'. tape (nat n + k')))"
    by (rule encrypt_loop_eq [OF assms(1,2)]) (simp add: party_bit_def)
  from assms(5) obtain ctss rss tape'' where
    c: "candidates_loop R (Some h) k choice candidate 0 (nat n) tape'' = Inr (ctss, rss, tape')"
    "PartyVector b = map (\<lambda>j. Some (enc R h (tape j) (of_nat (party_bit choice j)))) [0..<nat n]"
    "NumParties b = n" "NumCandidates b = k" "CandidateVectors b = Some ctss"
    unfolding EncodeBallotWithCandidates_def EncodeBallot_def loop by (auto split: if_splits)
  from candidates_loop_encrypts [OF assms(1,2,4) c(1)] c assms(3,4)
  show ?thesis by (auto simp: is_ballot_def encrypts_def)
qed

lemma candidates_loop_total:
  assumes "ristretto R" "h \<noteq> 0" "0 \<le> k"
  shows "(\<And>j. tape j \<noteq> 0) \<Longrightarrow> \<exists>ctss rss tape'. candidates_loop R (Some h) k choice candidate p n tape = Inr (ctss, rss, tape')"
proof (induction n arbitrary: p tape)
  case (Suc n)
  have "encrypt_loop R (Some h) (\<lambda>c. if int p = choice \<and> int c = candidate then 1 else 0) 0 (nat k) tape =
      (if \<exists>j<nat k. tape j = 0 then Inl ErrInvalidRandomness
       else Inr (map (\<lambda>j. Some (enc R h (tape j) (of_nat (candidate_bit choice candidate p (0 + j))))) [0..<nat k],
               map (\<lambda>j. Some (tape j)) [0..<nat k], \<lambda>k'. tape (nat k + k')))"
    by (rule encrypt_loop_eq [OF assms(1,2)]) (simp add: candidate_bit_def)
  moreover obtain ctss rss tape' where "candidates_loop R (Some h) k choice candidate (Suc p) n (\<lambda>k'. tape (nat k + k')) = Inr (ctss, rss, tape')"
    using Suc.IH [of "\<lambda>k'. tape (nat k + k')" "Suc p"] Suc.prems by blast
  ultimately show ?case using assms(3) Suc.prems by simp
qed simp

lemma EncodeBallotWithCandidates_total:
  assumes "ristretto R" "h \<noteq> 0" "0 \<le> n" "0 \<le> k" "\<And>j. tape j \<noteq> 0"
  shows "\<exists>b tape'. EncodeBallotWithCandidates R (Some h) n k choice candidate tape = Inr (b, tape')"
proof -
  have "encrypt_loop R (Some h) (\<lambda>i. if int i = choice then 1 else 0) 0 (nat n) tape =
      (if \<exists>j<nat n. tape j = 0 then Inl ErrInvalidRandomness
       else Inr (map (\<lambda>j. Some (enc R h (tape j) (of_nat (party_bit choice (0 + j))))) [0..<nat n],
               map (\<lambda>j. Some (tape j)) [0..<nat n], \<lambda>k'. tape (nat n + k')))"
    by (rule encrypt_loop_eq [OF assms(1,2)]) (simp add: party_bit_def)
  moreover obtain ctss rss tape' where "candidates_loop R (Some h) k choice candidate 0 (nat n) (\<lambda>k'. tape (nat n + k')) = Inr (ctss, rss, tape')"
    using candidates_loop_total [OF assms(1,2,4), of "\<lambda>k'. tape (nat n + k')"] assms(5) by blast
  ultimately show ?thesis
    using assms(3,5) by (simp add: EncodeBallotWithCandidates_def EncodeBallot_def)
qed

lemma checkShape_is_ballot:
  "is_ballot R h n k pm cm a \<Longrightarrow> is_ballot R h n k pm' cm' b \<Longrightarrow> checkShape a (Some b) = Inr () \<and> checkFirst a = Inr ()"
  by (auto simp: is_ballot_def encrypts_def checkShape_def checkFirst_def list_ex_iff in_set_conv_nth)

lemma sum_entries:
  assumes "ristretto R" "bs \<noteq> []" "list_all2 (\<lambda>b m. \<exists>r. f b = Some (enc R h r (of_nat m))) bs ms"
  shows "\<exists>r. HomomorphicAdd (map f bs) = Inr (Some (enc R h r (of_nat (sum_list ms))))"
  using assms by (intro HomomorphicAdd_enc) (simp_all add: list_all2_map1)

lemma TallyBallots_is_ballot:
  assumes R: "ristretto R" and ne: "bs \<noteq> []"
    and all: "list_all2 (\<lambda>b (pm, cm). is_ballot R h n k pm cm b) bs ms"
  shows "\<exists>t. TallyBallots (map Some bs) = Inr t
    \<and> is_ballot R h n k (\<lambda>i. sum_list (map (\<lambda>(pm, cm). pm i) ms)) (\<lambda>p c. sum_list (map (\<lambda>(pm, cm). cm p c) ms)) t"
proof -
  from ne obtain first rest where bs: "bs = first # rest" by (cases bs) auto
  from all obtain pm0 cm0 where first: "is_ballot R h n k pm0 cm0 first"
    unfolding bs by (auto simp: list_all2_Cons1)
  have "checkShape first (Some b) = Inr ()" if "b \<in> set bs" for b
  proof -
    from that all obtain pm cm where "is_ballot R h n k pm cm b"
      by (auto simp: list_all2_conv_all_nth in_set_conv_nth case_prod_unfold)
    then show ?thesis using checkShape_is_ballot [OF first] by blast
  qed
  then have shape: "checkE (checkShape first) (map Some bs) = Inr ()" "checkFirst first = Inr ()"
    using checkShape_is_ballot [OF first first] by auto
  have party: "\<exists>p. HomomorphicAdd (map (\<lambda>b. PartyVector b ! i) bs) = Inr p
      \<and> (\<exists>r. p = Some (enc R h r (of_nat (sum_list (map (\<lambda>(pm, cm). pm i) ms)))))" if i: "i < n" for i
  proof -
    have "list_all2 (\<lambda>b m. \<exists>r. PartyVector b ! i = Some (enc R h r (of_nat m))) bs (map (\<lambda>(pm, cm). pm i) ms)"
      using all i by (auto simp: list_all2_conv_all_nth is_ballot_def encrypts_def case_prod_unfold)
    from sum_entries [OF R ne this] show ?thesis by blast
  qed
  have cand: "\<exists>q. HomomorphicAdd (map (\<lambda>b. the (CandidateVectors b) ! p ! c) bs) = Inr q
      \<and> (\<exists>r. q = Some (enc R h r (of_nat (sum_list (map (\<lambda>(pm, cm). cm p c) ms)))))" if i: "p < n" "c < k" for p c
  proof -
    have "list_all2 (\<lambda>b m. \<exists>r. the (CandidateVectors b) ! p ! c = Some (enc R h r (of_nat m))) bs (map (\<lambda>(pm, cm). cm p c) ms)"
      using all i by (fastforce simp: list_all2_conv_all_nth is_ballot_def encrypts_def case_prod_unfold)
    from sum_entries [OF R ne this] show ?thesis by blast
  qed
  obtain ps where ps: "mapE (\<lambda>i. HomomorphicAdd (map (\<lambda>b. PartyVector b ! i) bs)) [0..<n] = Inr ps"
    "encrypts R h n (\<lambda>i. sum_list (map (\<lambda>(pm, cm). pm i) ms)) ps"
    using mapE_range [of n "\<lambda>i. HomomorphicAdd (map (\<lambda>b. PartyVector b ! i) bs)", OF party] unfolding encrypts_def by blast
  have row: "\<exists>v. mapE (\<lambda>c. HomomorphicAdd (map (\<lambda>b. the (CandidateVectors b) ! p ! c) bs)) [0..<k] = Inr v
      \<and> encrypts R h k (\<lambda>c. sum_list (map (\<lambda>(pm, cm). cm p c) ms)) v" if "p < n" for p
    using mapE_range [of k "\<lambda>c. HomomorphicAdd (map (\<lambda>b. the (CandidateVectors b) ! p ! c) bs)", OF cand [OF that]]
    unfolding encrypts_def by blast
  have "\<exists>vs. mapE (\<lambda>p. mapE (\<lambda>c. HomomorphicAdd (map (\<lambda>b. the (CandidateVectors b) ! p ! c) bs)) [0..<k]) [0..<n] = Inr vs
      \<and> length vs = n \<and> (\<forall>p<n. encrypts R h k (\<lambda>c. sum_list (map (\<lambda>(pm, cm). cm p c) ms)) (vs ! p))"
    by (rule mapE_range) (rule row)
  then obtain vs where vs:
    "mapE (\<lambda>p. mapE (\<lambda>c. HomomorphicAdd (map (\<lambda>b. the (CandidateVectors b) ! p ! c) bs)) [0..<k]) [0..<n] = Inr vs"
    "length vs = n" "\<forall>p<n. encrypts R h k (\<lambda>c. sum_list (map (\<lambda>(pm, cm). cm p c) ms)) (vs ! p)" by blast
  show ?thesis
    using shape ps vs first unfolding bs
    by (auto simp: TallyBallots_def is_ballot_def comp_def)
qed

end
