(* ===== verification/Proofs.thy ===== *)
theory Proofs
  imports Elgamal
begin

text \<open>
  The zero-knowledge proofs of a ballot and of a partial decryption (\<open>crypto/proof\<close>): provers
  and verifiers with all their checks, in the order of the code.  Completeness holds for every
  randomness tape; soundness is special soundness, stated on two accepting runs with the same
  commitments under two hash functions that answer differently (what rewinding a prover in the
  random oracle model gives).
\<close>

section \<open>Context and checks (\<open>context.go\<close>)\<close>

record Context =
  ElectionID :: string
  BallotID :: string
  Index :: "32 word"

definition Context_validate :: "Context \<Rightarrow> crypto_error + unit" where
  "Context_validate c =
     (if ElectionID c = [] then Inl ErrMalformed
      else if BallotID c = [] then Inl ErrMalformed
      else Inr ())"

definition ballot_fields :: "Context \<Rightarrow> bytes list \<Rightarrow> bytes list" where
  "ballot_fields ctx statement =
     [bytes_of (ElectionID ctx), bytes_of (BallotID ctx), be_bytes 4 (Index ctx)] @ statement"

definition ballotChallenge :: "('s, 'e) prims \<Rightarrow> string \<Rightarrow> Context \<Rightarrow> bytes list \<Rightarrow> 's" where
  "ballotChallenge R domain ctx statement = FiatShamir R domain (ballot_fields ctx statement)"

definition checkPublicKey :: "'e::zero ptr \<Rightarrow> crypto_error + unit" where
  "checkPublicKey pk =
     (case pk of None \<Rightarrow> Inl ErrMalformed | Some h \<Rightarrow> if h = 0 then Inl ErrMalformed else Inr ())"

definition checkCiphertext :: "'e Ciphertext ptr \<Rightarrow> crypto_error + unit" where
  "checkCiphertext ct =
     (case ct of
        None \<Rightarrow> Inl ErrMalformed
      | Some ct \<Rightarrow> if C1 ct = None \<or> C2 ct = None then Inl ErrMalformed else Inr ())"

definition checkBitWitness :: "int \<Rightarrow> 's ptr \<Rightarrow> crypto_error + unit" where
  "checkBitWitness m r =
     (if m \<noteq> 0 \<and> m \<noteq> 1 then Inl ErrMalformed else if r = None then Inl ErrMalformed else Inr ())"

section \<open>Zero-or-one proofs (\<open>binary.go\<close>)\<close>

definition binaryDomain :: string where "binaryDomain = ''otvoren-vot.ballot-binary-proof''"

record ('s, 'e) BinaryProof =
  A0 :: "'e ptr"
  A1 :: "'e ptr"
  B0 :: "'e ptr"
  B1 :: "'e ptr"
  E0 :: "'s ptr"
  E1 :: "'s ptr"
  Z0 :: "'s ptr"
  Z1 :: "'s ptr"

definition checkBinaryStatement :: "Context \<Rightarrow> 'e::zero ptr \<Rightarrow> 'e Ciphertext ptr \<Rightarrow> crypto_error + unit" where
  "checkBinaryStatement ctx publicKey ct =
     bindE (Context_validate ctx) (\<lambda>_. bindE (checkPublicKey publicKey) (\<lambda>_. checkCiphertext ct))"

definition BinaryProof_check :: "('s, 'e) BinaryProof ptr \<Rightarrow> crypto_error + unit" where
  "BinaryProof_check p =
     (case p of
        None \<Rightarrow> Inl ErrMalformed
      | Some p \<Rightarrow>
          if A0 p = None \<or> A1 p = None \<or> B0 p = None \<or> B1 p = None \<or>
             E0 p = None \<or> E1 p = None \<or> Z0 p = None \<or> Z1 p = None
          then Inl ErrMalformed else Inr ())"

definition binary_fields :: "('s, 'e) prims \<Rightarrow> Context \<Rightarrow> 'e \<Rightarrow> 'e Ciphertext \<Rightarrow> 'e \<Rightarrow> 'e \<Rightarrow> 'e \<Rightarrow> 'e \<Rightarrow> bytes list" where
  "binary_fields R ctx publicKey ct a0 b0 a1 b1 =
     ballot_fields ctx
       [e_bytes R publicKey, e_bytes R (the (C1 ct)), e_bytes R (the (C2 ct)),
        e_bytes R a0, e_bytes R b0, e_bytes R a1, e_bytes R b1]"

definition binaryChallenge ::
  "('s, 'e) prims \<Rightarrow> string \<Rightarrow> Context \<Rightarrow> 'e \<Rightarrow> 'e Ciphertext \<Rightarrow> 'e \<Rightarrow> 'e \<Rightarrow> 'e \<Rightarrow> 'e \<Rightarrow> 's" where
  "binaryChallenge R domain ctx publicKey ct a0 b0 a1 b1 =
     FiatShamir R domain (binary_fields R ctx publicKey ct a0 b0 a1 b1)"

text \<open>\<open>m = 0\<close> is real, \<open>m = 1\<close> is simulated.\<close>

definition proveBinaryReal0 ::
  "('s::field, 'e::ab_group_add) prims \<Rightarrow> string \<Rightarrow> Context \<Rightarrow> 'e \<Rightarrow> 'e Ciphertext \<Rightarrow> 's \<Rightarrow> 's tape
     \<Rightarrow> ('s, 'e) BinaryProof \<times> 's tape" where
  "proveBinaryReal0 R domain ctx h ct r tape =
     (let g = gen R; c1 = the (C1 ct); c2 = the (C2 ct);
          (k, tape) = RandomScalar tape;
          a0 = smul R k g;
          b0 = smul R k h;
          (e1, tape) = RandomScalar tape;
          (z1, tape) = RandomScalar tape;
          a1 = smul R z1 g - smul R e1 c1;
          b1 = smul R z1 h - smul R e1 (c2 - g);
          e = binaryChallenge R domain ctx h ct a0 b0 a1 b1;
          e0 = e - e1;
          z0 = e0 * r + k
      in (\<lparr>A0 = Some a0, A1 = Some a1, B0 = Some b0, B1 = Some b1,
           E0 = Some e0, E1 = Some e1, Z0 = Some z0, Z1 = Some z1\<rparr>, tape))"

text \<open>\<open>m = 1\<close> is real, \<open>m = 0\<close> is simulated.\<close>

definition proveBinaryReal1 ::
  "('s::field, 'e::ab_group_add) prims \<Rightarrow> string \<Rightarrow> Context \<Rightarrow> 'e \<Rightarrow> 'e Ciphertext \<Rightarrow> 's \<Rightarrow> 's tape
     \<Rightarrow> ('s, 'e) BinaryProof \<times> 's tape" where
  "proveBinaryReal1 R domain ctx h ct r tape =
     (let c1 = the (C1 ct); c2 = the (C2 ct);
          (e0, tape) = RandomScalar tape;
          (z0, tape) = RandomScalar tape;
          a0 = smul R z0 (gen R) - smul R e0 c1;
          b0 = smul R z0 h - smul R e0 c2;
          (k, tape) = RandomScalar tape;
          a1 = smul R k (gen R);
          b1 = smul R k h;
          e = binaryChallenge R domain ctx h ct a0 b0 a1 b1;
          e1 = e - e0;
          z1 = e1 * r + k
      in (\<lparr>A0 = Some a0, A1 = Some a1, B0 = Some b0, B1 = Some b1,
           E0 = Some e0, E1 = Some e1, Z0 = Some z0, Z1 = Some z1\<rparr>, tape))"

definition proveBinaryWithDomain ::
  "('s::field, 'e::ab_group_add) prims \<Rightarrow> string \<Rightarrow> Context \<Rightarrow> 'e ptr \<Rightarrow> 'e Ciphertext ptr \<Rightarrow> int \<Rightarrow> 's ptr \<Rightarrow> 's tape
     \<Rightarrow> crypto_error + ('s, 'e) BinaryProof \<times> 's tape" where
  "proveBinaryWithDomain R domain ctx publicKey ct m r tape =
     bindE (checkBinaryStatement ctx publicKey ct) (\<lambda>_.
     bindE (checkBitWitness m r) (\<lambda>_.
       if m = 0 then Inr (proveBinaryReal0 R domain ctx (the publicKey) (the ct) (the r) tape)
       else Inr (proveBinaryReal1 R domain ctx (the publicKey) (the ct) (the r) tape)))"

definition verifyBinaryWithDomain ::
  "('s::field, 'e::ab_group_add) prims \<Rightarrow> string \<Rightarrow> Context \<Rightarrow> 'e ptr \<Rightarrow> 'e Ciphertext ptr \<Rightarrow> ('s, 'e) BinaryProof ptr
     \<Rightarrow> crypto_error + unit" where
  "verifyBinaryWithDomain R domain ctx publicKey ct p =
     bindE (checkBinaryStatement ctx publicKey ct) (\<lambda>_.
     bindE (BinaryProof_check p) (\<lambda>_.
       let g = gen R; h = the publicKey; c1 = the (C1 (the ct)); c2 = the (C2 (the ct));
           a0 = the (A0 (the p)); b0 = the (B0 (the p)); a1 = the (A1 (the p)); b1 = the (B1 (the p));
           e0 = the (E0 (the p)); e1 = the (E1 (the p)); z0 = the (Z0 (the p)); z1 = the (Z1 (the p));
           e = binaryChallenge R domain ctx h (the ct) a0 b0 a1 b1
       in if e0 + e1 \<noteq> e then Inl ErrInvalidProof
          else if smul R z0 g \<noteq> a0 + smul R e0 c1 then Inl ErrInvalidProof
          else if smul R z0 h \<noteq> b0 + smul R e0 c2 then Inl ErrInvalidProof
          else if smul R z1 g \<noteq> a1 + smul R e1 c1 then Inl ErrInvalidProof
          else if smul R z1 h \<noteq> b1 + smul R e1 (c2 - g) then Inl ErrInvalidProof
          else Inr ()))"

definition ProveBinary ::
  "('s::field, 'e::ab_group_add) prims \<Rightarrow> Context \<Rightarrow> 'e ptr \<Rightarrow> 'e Ciphertext ptr \<Rightarrow> int \<Rightarrow> 's ptr \<Rightarrow> 's tape
     \<Rightarrow> crypto_error + ('s, 'e) BinaryProof \<times> 's tape" where
  "ProveBinary R ctx publicKey ct m r tape = proveBinaryWithDomain R binaryDomain ctx publicKey ct m r tape"

definition VerifyBinary ::
  "('s::field, 'e::ab_group_add) prims \<Rightarrow> Context \<Rightarrow> 'e ptr \<Rightarrow> 'e Ciphertext ptr \<Rightarrow> ('s, 'e) BinaryProof ptr
     \<Rightarrow> crypto_error + unit" where
  "VerifyBinary R ctx publicKey ct p = verifyBinaryWithDomain R binaryDomain ctx publicKey ct p"

section \<open>Sum-equals-one proofs (\<open>sum.go\<close>)\<close>

definition sumDomain :: string where "sumDomain = ''otvoren-vot.ballot-sum-proof''"

record ('s, 'e) SumOneProof =
  sumA :: "'e ptr"
  sumB :: "'e ptr"
  sumZ :: "'s ptr"

definition checkSumStatement :: "Context \<Rightarrow> 'e::zero ptr \<Rightarrow> 'e Ciphertext ptr list \<Rightarrow> crypto_error + unit" where
  "checkSumStatement ctx publicKey cts =
     bindE (Context_validate ctx) (\<lambda>_. bindE (checkPublicKey publicKey) (\<lambda>_.
       if cts = [] then Inl ErrMalformed else checkE checkCiphertext cts))"

definition sum_fields :: "('s, 'e) prims \<Rightarrow> Context \<Rightarrow> 'e \<Rightarrow> 'e Ciphertext \<Rightarrow> 'e \<Rightarrow> 'e \<Rightarrow> bytes list" where
  "sum_fields R ctx publicKey aggCt a b =
     ballot_fields ctx
       [e_bytes R publicKey, e_bytes R (the (C1 aggCt)), e_bytes R (the (C2 aggCt)), e_bytes R a, e_bytes R b]"

definition sumChallenge :: "('s, 'e) prims \<Rightarrow> Context \<Rightarrow> 'e \<Rightarrow> 'e Ciphertext \<Rightarrow> 'e \<Rightarrow> 'e \<Rightarrow> 's" where
  "sumChallenge R ctx publicKey aggCt a b = FiatShamir R sumDomain (sum_fields R ctx publicKey aggCt a b)"

definition ProveSumOne ::
  "('s::field, 'e::ab_group_add) prims \<Rightarrow> Context \<Rightarrow> 'e ptr \<Rightarrow> 'e Ciphertext ptr list \<Rightarrow> 's ptr \<Rightarrow> 's tape
     \<Rightarrow> crypto_error + ('s, 'e) SumOneProof \<times> 's tape" where
  "ProveSumOne R ctx publicKey cts rSum tape =
     bindE (checkSumStatement ctx publicKey cts) (\<lambda>_.
     if rSum = None then Inl ErrMalformed
     else bindE (HomomorphicAdd cts) (\<lambda>aggCt.
       let (k, tape') = RandomScalar tape;
           a = smul R k (gen R);
           b = smul R k (the publicKey);
           e = sumChallenge R ctx (the publicKey) (the aggCt) a b;
           z = e * the rSum + k
       in Inr (\<lparr>sumA = Some a, sumB = Some b, sumZ = Some z\<rparr>, tape')))"

definition VerifySumOne ::
  "('s::field, 'e::ab_group_add) prims \<Rightarrow> Context \<Rightarrow> 'e ptr \<Rightarrow> 'e Ciphertext ptr list \<Rightarrow> ('s, 'e) SumOneProof ptr
     \<Rightarrow> crypto_error + unit" where
  "VerifySumOne R ctx publicKey cts p =
     bindE (checkSumStatement ctx publicKey cts) (\<lambda>_.
     case p of
       None \<Rightarrow> Inl ErrMalformed
     | Some p \<Rightarrow>
         if sumA p = None \<or> sumB p = None \<or> sumZ p = None then Inl ErrMalformed
         else bindE (HomomorphicAdd cts) (\<lambda>aggCt.
           let g = gen R; c1 = the (C1 (the aggCt)); c2 = the (C2 (the aggCt));
               a = the (sumA p); b = the (sumB p); z = the (sumZ p);
               e = sumChallenge R ctx (the publicKey) (the aggCt) a b
           in if smul R z g \<noteq> a + smul R e c1 then Inl ErrInvalidProof
              else if smul R z (the publicKey) \<noteq> b + smul R e (c2 - g) then Inl ErrInvalidProof
              else Inr ()))"

section \<open>Candidate proofs (\<open>candidate.go\<close>)\<close>

definition candidateSumDomain :: string where "candidateSumDomain = ''otvoren-vot.candidate-sum-01-proof''"
definition consistencyDomain :: string where "consistencyDomain = ''otvoren-vot.candidate-consistency-proof''"

definition ProveCandidateSum ::
  "('s::field, 'e::ab_group_add) prims \<Rightarrow> Context \<Rightarrow> 'e ptr \<Rightarrow> 'e Ciphertext ptr \<Rightarrow> int \<Rightarrow> 's ptr \<Rightarrow> 's tape
     \<Rightarrow> crypto_error + ('s, 'e) BinaryProof \<times> 's tape" where
  "ProveCandidateSum R ctx publicKey aggCt m rSum tape =
     proveBinaryWithDomain R candidateSumDomain ctx publicKey aggCt m rSum tape"

definition VerifyCandidateSum ::
  "('s::field, 'e::ab_group_add) prims \<Rightarrow> Context \<Rightarrow> 'e ptr \<Rightarrow> 'e Ciphertext ptr \<Rightarrow> ('s, 'e) BinaryProof ptr
     \<Rightarrow> crypto_error + unit" where
  "VerifyCandidateSum R ctx publicKey aggCt p = verifyBinaryWithDomain R candidateSumDomain ctx publicKey aggCt p"

definition checkConsistencyStatement ::
  "Context \<Rightarrow> 'e::zero ptr \<Rightarrow> 'e Ciphertext ptr \<Rightarrow> 'e Ciphertext ptr \<Rightarrow> crypto_error + unit" where
  "checkConsistencyStatement ctx publicKey partyCt candSumCt =
     bindE (Context_validate ctx) (\<lambda>_. bindE (checkPublicKey publicKey) (\<lambda>_.
     bindE (checkCiphertext partyCt) (\<lambda>_. checkCiphertext candSumCt)))"

definition homomorphicSubtract :: "'e::ab_group_add Ciphertext \<Rightarrow> 'e Ciphertext \<Rightarrow> 'e Ciphertext" where
  "homomorphicSubtract a b =
     \<lparr>C1 = Some (the (C1 a) - the (C1 b)), C2 = Some (the (C2 a) - the (C2 b))\<rparr>"

definition ProveConsistency ::
  "('s::field, 'e::ab_group_add) prims \<Rightarrow> Context \<Rightarrow> 'e ptr \<Rightarrow> 'e Ciphertext ptr \<Rightarrow> 'e Ciphertext ptr \<Rightarrow> int \<Rightarrow> 's ptr
     \<Rightarrow> 's tape \<Rightarrow> crypto_error + ('s, 'e) BinaryProof \<times> 's tape" where
  "ProveConsistency R ctx publicKey partyCt candSumCt diff rDiff tape =
     bindE (checkConsistencyStatement ctx publicKey partyCt candSumCt) (\<lambda>_.
     bindE (checkBitWitness diff rDiff) (\<lambda>_.
       let diffCt = homomorphicSubtract (the partyCt) (the candSumCt)
       in proveBinaryWithDomain R consistencyDomain ctx publicKey (Some diffCt) diff rDiff tape))"

definition proof_VerifyConsistency ::
  "('s::field, 'e::ab_group_add) prims \<Rightarrow> Context \<Rightarrow> 'e ptr \<Rightarrow> 'e Ciphertext ptr \<Rightarrow> 'e Ciphertext ptr
     \<Rightarrow> ('s, 'e) BinaryProof ptr \<Rightarrow> crypto_error + unit" where
  "proof_VerifyConsistency R ctx publicKey partyCt candSumCt p =
     bindE (checkConsistencyStatement ctx publicKey partyCt candSumCt) (\<lambda>_.
     bindE (BinaryProof_check p) (\<lambda>_.
       let diffCt = homomorphicSubtract (the partyCt) (the candSumCt)
       in verifyBinaryWithDomain R consistencyDomain ctx publicKey (Some diffCt) p))"

section \<open>Equality of discrete logarithms (\<open>chaumpedersen.go\<close>)\<close>

definition cpDomain :: string where "cpDomain = ''otvoren-vot.chaum-pedersen''"

record ('s, 'e) ChaumPedersenProof =
  cpU :: "'e ptr"
  cpV :: "'e ptr"
  cpZ :: "'s ptr"

definition checkCPStatement :: "'e ptr \<Rightarrow> 'e ptr \<Rightarrow> 'e ptr \<Rightarrow> 'e ptr \<Rightarrow> crypto_error + unit" where
  "checkCPStatement g h A B =
     (if g = None \<or> h = None \<or> A = None \<or> B = None then Inl ErrMalformed else Inr ())"

definition cp_fields :: "('s, 'e) prims \<Rightarrow> bytes list \<Rightarrow> 'e \<Rightarrow> 'e \<Rightarrow> 'e \<Rightarrow> 'e \<Rightarrow> 'e \<Rightarrow> 'e \<Rightarrow> bytes list" where
  "cp_fields R context g h A B u v =
     context @ [e_bytes R g, e_bytes R h, e_bytes R A, e_bytes R B, e_bytes R u, e_bytes R v]"

definition cpChallenge :: "('s, 'e) prims \<Rightarrow> bytes list \<Rightarrow> 'e \<Rightarrow> 'e \<Rightarrow> 'e \<Rightarrow> 'e \<Rightarrow> 'e \<Rightarrow> 'e \<Rightarrow> 's" where
  "cpChallenge R context g h A B u v = FiatShamir R cpDomain (cp_fields R context g h A B u v)"

definition ProveChaumPedersen ::
  "('s::field, 'e::ab_group_add) prims \<Rightarrow> bytes list \<Rightarrow> 'e ptr \<Rightarrow> 'e ptr \<Rightarrow> 'e ptr \<Rightarrow> 'e ptr \<Rightarrow> 's ptr \<Rightarrow> 's tape
     \<Rightarrow> crypto_error + ('s, 'e) ChaumPedersenProof \<times> 's tape" where
  "ProveChaumPedersen R context g h A B x tape =
     bindE (checkCPStatement g h A B) (\<lambda>_.
     if x = None then Inl ErrMalformed
     else
       let (k, tape') = RandomScalar tape;
           u = smul R k (the g);
           v = smul R k (the h);
           e = cpChallenge R context (the g) (the h) (the A) (the B) u v;
           z = e * the x + k
       in Inr (\<lparr>cpU = Some u, cpV = Some v, cpZ = Some z\<rparr>, tape'))"

definition VerifyChaumPedersen ::
  "('s::field, 'e::ab_group_add) prims \<Rightarrow> bytes list \<Rightarrow> 'e ptr \<Rightarrow> 'e ptr \<Rightarrow> 'e ptr \<Rightarrow> 'e ptr
     \<Rightarrow> ('s, 'e) ChaumPedersenProof ptr \<Rightarrow> crypto_error + unit" where
  "VerifyChaumPedersen R context g h A B p =
     bindE (checkCPStatement g h A B) (\<lambda>_.
     case p of
       None \<Rightarrow> Inl ErrMalformed
     | Some p \<Rightarrow>
         if cpU p = None \<or> cpV p = None \<or> cpZ p = None then Inl ErrMalformed
         else
           let u = the (cpU p); v = the (cpV p); z = the (cpZ p);
               e = cpChallenge R context (the g) (the h) (the A) (the B) u v
           in if smul R z (the g) \<noteq> u + smul R e (the A) then Inl ErrInvalidProof
              else if smul R z (the h) \<noteq> v + smul R e (the B) then Inl ErrInvalidProof
              else Inr ())"

section \<open>Completeness\<close>

lemma enc_sel [simp]: "C1 (enc R h r m) = Some (smul R r (gen R))"
  "C2 (enc R h r m) = Some (smul R r h + smul R m (gen R))"
  by (simp_all add: enc_def)

lemma checkBinaryStatement_ok:
  "Context_validate ctx = Inr () \<Longrightarrow> h \<noteq> 0 \<Longrightarrow> checkBinaryStatement ctx (Some h) (Some (enc R h' r m)) = Inr ()"
  by (simp add: checkBinaryStatement_def checkPublicKey_def checkCiphertext_def)

lemma binary_complete:
  assumes R: "ristretto R" and "Context_validate ctx = Inr ()" "h \<noteq> 0" "m = 0 \<or> m = 1" "ct = enc R h r (of_int m)"
  shows "\<exists>p t. proveBinaryWithDomain R d ctx (Some h) (Some ct) m (Some r) tape = Inr (p, t)
    \<and> verifyBinaryWithDomain R d ctx (Some h) (Some ct) (Some p) = Inr ()"
proof -
  note ok = checkBinaryStatement_ok [OF assms(2,3)]
  from assms(4) show ?thesis
  proof
    assume "m = 0"
    then show ?thesis
      by (simp add: assms(5) proveBinaryWithDomain_def verifyBinaryWithDomain_def ok checkBitWitness_def
          proveBinaryReal0_def RandomScalar_def Let_def BinaryProof_check_def smul_simps [OF R] smul_mult [OF R])
  next
    assume "m = 1"
    then show ?thesis
      by (simp add: assms(5) proveBinaryWithDomain_def verifyBinaryWithDomain_def ok checkBitWitness_def
          proveBinaryReal1_def RandomScalar_def Let_def BinaryProof_check_def smul_simps [OF R] smul_mult [OF R])
  qed
qed

lemma sum_complete:
  assumes R: "ristretto R" and "Context_validate ctx = Inr ()" "h \<noteq> 0" "cts \<noteq> []"
    and "checkE checkCiphertext cts = Inr ()" "HomomorphicAdd cts = Inr (Some (enc R h rSum 1))"
  shows "\<exists>p t. ProveSumOne R ctx (Some h) cts (Some rSum) tape = Inr (p, t) \<and> VerifySumOne R ctx (Some h) cts (Some p) = Inr ()"
proof -
  have "checkSumStatement ctx (Some h) cts = Inr ()"
    using assms by (simp add: checkSumStatement_def checkPublicKey_def)
  then show ?thesis
    using assms(6) by (simp add: ProveSumOne_def VerifySumOne_def RandomScalar_def Let_def smul_simps [OF R] smul_mult [OF R])
qed

text \<open>Adding encryptions adds their randomness and their plaintexts.\<close>

lemma add_loop_encs:
  "ristretto R \<Longrightarrow> add_loop c1 c2 (map (\<lambda>(r, m). Some (enc R h r (of_nat m))) es) =
    Inr (c1 + smul R (sum_list (map fst es)) (gen R),
         c2 + smul R (sum_list (map fst es)) h + smul R (of_nat (sum_list (map snd es))) (gen R))"
  by (induction es arbitrary: c1 c2) (auto simp: enc_def smul_zero_left smul_add_left add_ac)

lemma HomomorphicAdd_encs:
  "ristretto R \<Longrightarrow> es \<noteq> [] \<Longrightarrow> HomomorphicAdd (map (\<lambda>(r, m). Some (enc R h r (of_nat m))) es) =
    Inr (Some (enc R h (sum_list (map fst es)) (of_nat (sum_list (map snd es)))))"
  using add_loop_encs [of R "smul R (fst (hd es)) (gen R)" "smul R (fst (hd es)) h + smul R (of_nat (snd (hd es))) (gen R)" h "tl es"]
  by (cases es) (auto simp: HomomorphicAdd_def enc_def smul_add_left add_ac)

lemma checkCiphertext_encs: "checkE checkCiphertext (map (\<lambda>(r, m). Some (enc R h r (of_nat m))) es) = Inr ()"
  by (induction es) (auto simp: checkCiphertext_def enc_def)

lemma cp_complete:
  assumes R: "ristretto R" and "A = smul R x g" "B = smul R x h"
  shows "\<exists>p t. ProveChaumPedersen R context (Some g) (Some h) (Some A) (Some B) (Some x) tape = Inr (p, t)
    \<and> VerifyChaumPedersen R context (Some g) (Some h) (Some A) (Some B) (Some p) = Inr ()"
  by (simp add: assms(2,3) ProveChaumPedersen_def VerifyChaumPedersen_def checkCPStatement_def RandomScalar_def Let_def
      smul_add_left [OF R] smul_mult [OF R])

lemma subtract_enc:
  "ristretto R \<Longrightarrow> homomorphicSubtract (enc R h r m) (enc R h r' m') = enc R h (r - r') (m - m')"
  by (simp add: homomorphicSubtract_def enc_def smul_diff_left)

section \<open>Special soundness\<close>

text \<open>Two accepted responses to different challenges give the exponent.\<close>

lemma sigma_extract:
  assumes R: "ristretto R" and "smul R z x = a + smul R e c" "smul R z' x = a + smul R e' c" "e \<noteq> e'"
  shows "c = smul R ((z - z') / (e - e')) x"
proof -
  have "smul R (z - z') x = smul R (e - e') c" using assms(2,3) by (simp add: smul_diff_left [OF R])
  then have "smul R (1 / (e - e')) (smul R (z - z') x) = smul R (1 / (e - e')) (smul R (e - e') c)" by simp
  then show ?thesis using assms(4) by (simp add: smul_mult [OF R, symmetric] smul_one [OF R])
qed

text \<open>
  A fork: two accepting runs with the same commitments and different challenges, the second
  under another hash function.
\<close>

definition forked_binary ::
  "('s::field, 'e::ab_group_add) prims \<Rightarrow> (bytes \<Rightarrow> bytes) \<Rightarrow> string \<Rightarrow> Context \<Rightarrow> 'e \<Rightarrow> 'e Ciphertext
     \<Rightarrow> ('s, 'e) BinaryProof \<Rightarrow> ('s, 'e) BinaryProof \<Rightarrow> bool" where
  "forked_binary R f d ctx h ct p p' \<longleftrightarrow>
     verifyBinaryWithDomain R d ctx (Some h) (Some ct) (Some p) = Inr () \<and>
     verifyBinaryWithDomain (R\<lparr>sha512 := f\<rparr>) d ctx (Some h) (Some ct) (Some p') = Inr () \<and>
     A0 p' = A0 p \<and> A1 p' = A1 p \<and> B0 p' = B0 p \<and> B1 p' = B1 p \<and>
     binaryChallenge R d ctx h ct (the (A0 p)) (the (B0 p)) (the (A1 p)) (the (B1 p))
       \<noteq> binaryChallenge (R\<lparr>sha512 := f\<rparr>) d ctx h ct (the (A0 p)) (the (B0 p)) (the (A1 p)) (the (B1 p))"

lemma verifyBinary_equations:
  assumes "verifyBinaryWithDomain R d ctx (Some h) (Some ct) (Some p) = Inr ()"
  shows "smul R (the (Z0 p)) (gen R) = the (A0 p) + smul R (the (E0 p)) (the (C1 ct))"
    "smul R (the (Z0 p)) h = the (B0 p) + smul R (the (E0 p)) (the (C2 ct))"
    "smul R (the (Z1 p)) (gen R) = the (A1 p) + smul R (the (E1 p)) (the (C1 ct))"
    "smul R (the (Z1 p)) h = the (B1 p) + smul R (the (E1 p)) (the (C2 ct) - gen R)"
    "C1 ct \<noteq> None" "C2 ct \<noteq> None"
    "the (E0 p) + the (E1 p) = binaryChallenge R d ctx h ct (the (A0 p)) (the (B0 p)) (the (A1 p)) (the (B1 p))"
  using assms by (auto simp: verifyBinaryWithDomain_def Let_def checkBinaryStatement_def checkCiphertext_def split: if_splits)

lemma ciphertext_encI:
  "C1 ct \<noteq> None \<Longrightarrow> C2 ct \<noteq> None \<Longrightarrow> the (C1 ct) = smul R w (gen R) \<Longrightarrow>
   the (C2 ct) = smul R w h + smul R m (gen R) \<Longrightarrow> ct = enc R h w m"
  by (cases ct) (auto simp: enc_def)

lemma forked_binary_bit:
  assumes R: "ristretto R" and fork: "forked_binary R f d ctx h ct p p'"
  shows "\<exists>r. ct = enc R h r 0 \<or> ct = enc R h r 1"
proof -
  from fork have ok: "verifyBinaryWithDomain R d ctx (Some h) (Some ct) (Some p) = Inr ()"
    "verifyBinaryWithDomain (R\<lparr>sha512 := f\<rparr>) d ctx (Some h) (Some ct) (Some p') = Inr ()"
    by (simp_all add: forked_binary_def)
  note v = verifyBinary_equations(1-6) [OF ok(1)] verifyBinary_equations(1-6) [OF ok(2), simplified]
  have same: "A0 p' = A0 p" "A1 p' = A1 p" "B0 p' = B0 p" "B1 p' = B1 p"
    and fresh: "binaryChallenge R d ctx h ct (the (A0 p)) (the (B0 p)) (the (A1 p)) (the (B1 p))
      \<noteq> binaryChallenge (R\<lparr>sha512 := f\<rparr>) d ctx h ct (the (A0 p)) (the (B0 p)) (the (A1 p)) (the (B1 p))"
    using fork by (simp_all add: forked_binary_def)
  have ne: "the (E0 p) \<noteq> the (E0 p') \<or> the (E1 p) \<noteq> the (E1 p')"
    using fresh verifyBinary_equations(7) [OF ok(1)] verifyBinary_equations(7) [OF ok(2)] unfolding same by metis
  from ne show ?thesis
  proof
    assume e: "the (E0 p) \<noteq> the (E0 p')"
    let ?w = "(the (Z0 p) - the (Z0 p')) / (the (E0 p) - the (E0 p'))"
    have "the (C1 ct) = smul R ?w (gen R)" using v same e by (intro sigma_extract [OF R]) auto
    moreover have "the (C2 ct) = smul R ?w h" using v same e by (intro sigma_extract [OF R]) auto
    ultimately have "ct = enc R h ?w 0" using v by (intro ciphertext_encI) (auto simp: smul_zero_left [OF R])
    then show ?thesis by blast
  next
    assume e: "the (E1 p) \<noteq> the (E1 p')"
    let ?w = "(the (Z1 p) - the (Z1 p')) / (the (E1 p) - the (E1 p'))"
    have "the (C1 ct) = smul R ?w (gen R)" using v same e by (intro sigma_extract [OF R]) auto
    moreover have "the (C2 ct) - gen R = smul R ?w h" using v same e by (intro sigma_extract [OF R]) auto
    ultimately have "ct = enc R h ?w 1" using v by (intro ciphertext_encI) (auto simp: smul_one [OF R] algebra_simps)
    then show ?thesis by blast
  qed
qed

text \<open>The two possible plaintexts of a ciphertext exclude each other.\<close>

lemma enc_inject: "ristretto R \<Longrightarrow> enc R h r m = enc R h r' m' \<longleftrightarrow> r = r' \<and> m = m'"
  by (auto simp: enc_def smul_gen_inject)

lemma SumOne_equations:
  assumes "VerifySumOne R ctx (Some h) cts (Some p) = Inr ()" "HomomorphicAdd cts = Inr (Some agg)"
  shows "smul R (the (sumZ p)) (gen R) = the (sumA p) + smul R (sumChallenge R ctx h agg (the (sumA p)) (the (sumB p))) (the (C1 agg))"
    "smul R (the (sumZ p)) h = the (sumB p) + smul R (sumChallenge R ctx h agg (the (sumA p)) (the (sumB p))) (the (C2 agg) - gen R)"
  using assms by (auto simp: VerifySumOne_def Let_def split: if_splits)

definition forked_sum ::
  "('s::field, 'e::ab_group_add) prims \<Rightarrow> (bytes \<Rightarrow> bytes) \<Rightarrow> Context \<Rightarrow> 'e \<Rightarrow> 'e Ciphertext ptr list
     \<Rightarrow> ('s, 'e) SumOneProof \<Rightarrow> ('s, 'e) SumOneProof \<Rightarrow> bool" where
  "forked_sum R f ctx h cts p p' \<longleftrightarrow>
     VerifySumOne R ctx (Some h) cts (Some p) = Inr () \<and>
     VerifySumOne (R\<lparr>sha512 := f\<rparr>) ctx (Some h) cts (Some p') = Inr () \<and>
     sumA p' = sumA p \<and> sumB p' = sumB p \<and>
     (\<exists>agg. HomomorphicAdd cts = Inr (Some agg) \<and>
        sumChallenge R ctx h agg (the (sumA p)) (the (sumB p))
          \<noteq> sumChallenge (R\<lparr>sha512 := f\<rparr>) ctx h agg (the (sumA p)) (the (sumB p)))"

lemma forked_sum_one:
  assumes R: "ristretto R" and fork: "forked_sum R f ctx h cts p p'" and agg: "HomomorphicAdd cts = Inr (Some (enc R h r m))"
  shows "m = 1"
proof -
  let ?R' = "R\<lparr>sha512 := f\<rparr>" and ?agg = "enc R h r m"
  let ?e = "sumChallenge R ctx h ?agg (the (sumA p)) (the (sumB p))"
    and ?e' = "sumChallenge ?R' ctx h ?agg (the (sumA p)) (the (sumB p))"
  from fork agg have f: "VerifySumOne R ctx (Some h) cts (Some p) = Inr ()"
    "VerifySumOne ?R' ctx (Some h) cts (Some p') = Inr ()" "sumA p' = sumA p" "sumB p' = sumB p" "?e \<noteq> ?e'"
    by (auto simp: forked_sum_def)
  note v = SumOne_equations [OF f(1) agg] SumOne_equations [OF f(2) agg, simplified]
  let ?w = "(the (sumZ p) - the (sumZ p')) / (?e - ?e')"
  have "the (C1 ?agg) = smul R ?w (gen R)"
    by (rule sigma_extract [OF R v(1) _ f(5)]) (use v(3) f(3,4) in simp)
  moreover have "the (C2 ?agg) - gen R = smul R ?w h"
    by (rule sigma_extract [OF R v(2) _ f(5)]) (use v(4) f(3,4) in simp)
  ultimately have "r = ?w" "smul R m (gen R) = smul R 1 (gen R)"
    by (simp_all add: smul_gen_inject [OF R] smul_one [OF R])
  then show ?thesis by (simp add: smul_gen_inject [OF R])
qed

lemma forked_vector_bits:
  assumes R: "ristretto R"
    and bits: "\<And>i. i < length cts \<Longrightarrow> \<exists>ct f ctx p p'. cts ! i = Some ct \<and> forked_binary R f d ctx h ct p p'"
  shows "\<exists>ms. length ms = length cts \<and> set ms \<subseteq> {0, 1} \<and> (\<forall>i<length cts. \<exists>r. cts ! i = Some (enc R h r (of_nat (ms ! i))))"
proof -
  have "\<exists>m r. i < length cts \<longrightarrow> (m = 0 \<or> m = 1) \<and> cts ! i = Some (enc R h r (of_nat m))" for i
  proof (cases "i < length cts")
    case True
    from bits [OF True] obtain ct f ctx p p' where "cts ! i = Some ct" "forked_binary R f d ctx h ct p p'" by blast
    moreover from forked_binary_bit [OF R this(2)] obtain r where "ct = enc R h r (of_nat 0) \<or> ct = enc R h r (of_nat 1)" by auto
    ultimately show ?thesis by blast
  qed simp
  then obtain m r where mr: "\<And>i. i < length cts \<Longrightarrow> (m i = 0 \<or> m i = 1) \<and> cts ! i = Some (enc R h (r i) (of_nat (m i)))"
    by metis
  show ?thesis
    by (rule exI [of _ "map m [0..<length cts]"]) (use mr in \<open>auto simp: image_subset_iff\<close>)
qed

lemma HomomorphicAdd_vector:
  assumes "ristretto R" "cts \<noteq> []" "length ms = length cts" "\<forall>i<length cts. \<exists>r. cts ! i = Some (enc R h r (of_nat (ms ! i)))"
  shows "\<exists>r. HomomorphicAdd cts = Inr (Some (enc R h r (of_nat (sum_list ms))))"
  using assms by (intro HomomorphicAdd_enc) (auto simp: list_all2_conv_all_nth)

lemma sum_bits_le: "set ms \<subseteq> {0, 1} \<Longrightarrow> sum_list ms \<le> length ms" for ms :: "nat list"
  by (induction ms) auto

lemma sum_bits_one: "set ms \<subseteq> {0, 1} \<Longrightarrow> sum_list ms = 1 \<Longrightarrow> \<exists>i<length ms. ms ! i = 1 \<and> (\<forall>j<length ms. j \<noteq> i \<longrightarrow> ms ! j = 0)"
  for ms :: "nat list"
proof (induction ms)
  case (Cons m ms)
  show ?case
  proof (cases "m = 1")
    case True
    with Cons.prems(2) have "\<forall>j<length ms. ms ! j = 0" by (simp add: all_set_conv_all_nth [symmetric])
    with True show ?thesis by (intro exI [of _ 0]) (auto simp: nth_Cons split: nat.splits)
  next
    case False
    with Cons.prems have "m = 0" "sum_list ms = 1" "set ms \<subseteq> {0, 1}" by auto
    with Cons.IH obtain i where "i < length ms" "ms ! i = 1" "\<forall>j<length ms. j \<noteq> i \<longrightarrow> ms ! j = 0" by blast
    with \<open>m = 0\<close> show ?thesis by (intro exI [of _ "Suc i"]) (auto simp: nth_Cons split: nat.splits)
  qed
qed simp

text \<open>A party vector with forked proofs encrypts exactly one 1.\<close>

lemma forked_party_vector:
  assumes R: "ristretto R" and len: "length cts < 2 ^ 64"
    and bits: "\<And>i. i < length cts \<Longrightarrow> \<exists>ct f ctx p p'. cts ! i = Some ct \<and> forked_binary R f binaryDomain ctx h ct p p'"
    and sum: "forked_sum R f ctx h cts q q'"
  shows "\<exists>i<length cts. (\<exists>r. cts ! i = Some (enc R h r 1)) \<and> (\<forall>j<length cts. j \<noteq> i \<longrightarrow> (\<exists>r. cts ! j = Some (enc R h r 0)))"
proof -
  from forked_vector_bits [OF R bits] obtain ms where ms: "length ms = length cts" "set ms \<subseteq> {0, 1}"
    "\<forall>i<length cts. \<exists>r. cts ! i = Some (enc R h r (of_nat (ms ! i)))" by blast
  from sum have ne: "cts \<noteq> []" by (auto simp: forked_sum_def HomomorphicAdd_def)
  from HomomorphicAdd_vector [OF R ne ms(1,3)] obtain r where
    "HomomorphicAdd cts = Inr (Some (enc R h r (of_nat (sum_list ms))))" by blast
  from forked_sum_one [OF R sum this] of_nat_small_iff [OF R, of "sum_list ms" 1] sum_bits_le [OF ms(2)] ms(1) len
  have "sum_list ms = 1" by simp
  from sum_bits_one [OF ms(2) this] ms(1) obtain i where i: "i < length cts" "ms ! i = 1"
    "\<forall>j<length cts. j \<noteq> i \<longrightarrow> ms ! j = 0" by auto
  have "\<exists>r. cts ! j = Some (enc R h r (if j = i then 1 else 0))" if "j < length cts" for j
    using ms(3) [rule_format, OF that] i that by (cases "j = i") auto
  then show ?thesis using i(1) by (intro exI [of _ i]) (metis (full_types))
qed

definition forked_consistency ::
  "('s::field, 'e::ab_group_add) prims \<Rightarrow> (bytes \<Rightarrow> bytes) \<Rightarrow> Context \<Rightarrow> 'e \<Rightarrow> 'e Ciphertext \<Rightarrow> 'e Ciphertext
     \<Rightarrow> ('s, 'e) BinaryProof \<Rightarrow> ('s, 'e) BinaryProof \<Rightarrow> bool" where
  "forked_consistency R f ctx h partyCt candSumCt p p' \<longleftrightarrow>
     proof_VerifyConsistency R ctx (Some h) (Some partyCt) (Some candSumCt) (Some p) = Inr () \<and>
     proof_VerifyConsistency (R\<lparr>sha512 := f\<rparr>) ctx (Some h) (Some partyCt) (Some candSumCt) (Some p') = Inr () \<and>
     A0 p' = A0 p \<and> A1 p' = A1 p \<and> B0 p' = B0 p \<and> B1 p' = B1 p \<and>
     binaryChallenge R consistencyDomain ctx h (homomorphicSubtract partyCt candSumCt) (the (A0 p)) (the (B0 p)) (the (A1 p)) (the (B1 p))
       \<noteq> binaryChallenge (R\<lparr>sha512 := f\<rparr>) consistencyDomain ctx h (homomorphicSubtract partyCt candSumCt)
           (the (A0 p)) (the (B0 p)) (the (A1 p)) (the (B1 p))"

lemma forked_consistency_diff:
  assumes R: "ristretto R" and fork: "forked_consistency R f ctx h (enc R h r m) (enc R h r' s) p p'"
  shows "m - s = 0 \<or> m - s = 1"
proof -
  have "forked_binary R f consistencyDomain ctx h (enc R h (r - r') (m - s)) p p'"
    using fork by (auto simp: forked_consistency_def forked_binary_def proof_VerifyConsistency_def subtract_enc [OF R])
  from forked_binary_bit [OF R this] show ?thesis by (auto simp: enc_inject [OF R])
qed

text \<open>Equality of discrete logarithms.\<close>

definition forked_cp ::
  "('s::field, 'e::ab_group_add) prims \<Rightarrow> (bytes \<Rightarrow> bytes) \<Rightarrow> bytes list \<Rightarrow> 'e \<Rightarrow> 'e \<Rightarrow> 'e \<Rightarrow> 'e
     \<Rightarrow> ('s, 'e) ChaumPedersenProof \<Rightarrow> ('s, 'e) ChaumPedersenProof \<Rightarrow> bool" where
  "forked_cp R f context g h A B p p' \<longleftrightarrow>
     VerifyChaumPedersen R context (Some g) (Some h) (Some A) (Some B) (Some p) = Inr () \<and>
     VerifyChaumPedersen (R\<lparr>sha512 := f\<rparr>) context (Some g) (Some h) (Some A) (Some B) (Some p') = Inr () \<and>
     cpU p' = cpU p \<and> cpV p' = cpV p \<and>
     cpChallenge R context g h A B (the (cpU p)) (the (cpV p))
       \<noteq> cpChallenge (R\<lparr>sha512 := f\<rparr>) context g h A B (the (cpU p)) (the (cpV p))"

lemma ChaumPedersen_equations:
  assumes "VerifyChaumPedersen R context (Some g) (Some h) (Some A) (Some B) (Some p) = Inr ()"
  shows "smul R (the (cpZ p)) g = the (cpU p) + smul R (cpChallenge R context g h A B (the (cpU p)) (the (cpV p))) A"
    "smul R (the (cpZ p)) h = the (cpV p) + smul R (cpChallenge R context g h A B (the (cpU p)) (the (cpV p))) B"
  using assms by (auto simp: VerifyChaumPedersen_def Let_def split: if_splits)

lemma forked_cp_equal_logs:
  assumes R: "ristretto R" and fork: "forked_cp R f context g h A B p p'"
  shows "\<exists>x. A = smul R x g \<and> B = smul R x h"
proof -
  from fork have f: "VerifyChaumPedersen R context (Some g) (Some h) (Some A) (Some B) (Some p) = Inr ()"
    "VerifyChaumPedersen (R\<lparr>sha512 := f\<rparr>) context (Some g) (Some h) (Some A) (Some B) (Some p') = Inr ()"
    "cpU p' = cpU p" "cpV p' = cpV p" "cpChallenge R context g h A B (the (cpU p)) (the (cpV p))
       \<noteq> cpChallenge (R\<lparr>sha512 := f\<rparr>) context g h A B (the (cpU p)) (the (cpV p))"
    by (auto simp: forked_cp_def)
  note v = ChaumPedersen_equations [OF f(1)] ChaumPedersen_equations [OF f(2), simplified, unfolded f(3,4)]
  from sigma_extract [OF R v(1,3) f(5)] sigma_extract [OF R v(2,4) f(5)] show ?thesis by blast
qed

section \<open>Binding of the transcripts\<close>

text \<open>What the binary proof hashes determines the domain, the context and the whole statement.\<close>

lemma binary_transcript_inject:
  assumes R: "ristretto R"
    and "length d < 2 ^ 32" "length (ElectionID ctx) < 2 ^ 32" "length (BallotID ctx) < 2 ^ 32"
    and "length d' < 2 ^ 32" "length (ElectionID ctx') < 2 ^ 32" "length (BallotID ctx') < 2 ^ 32"
  shows "transcript d (binary_fields R ctx pk ct a0 b0 a1 b1) = transcript d' (binary_fields R ctx' pk' ct' a0' b0' a1' b1')
    \<longleftrightarrow> d = d' \<and> ElectionID ctx = ElectionID ctx' \<and> BallotID ctx = BallotID ctx' \<and> Index ctx = Index ctx'
      \<and> pk = pk' \<and> the (C1 ct) = the (C1 ct') \<and> the (C2 ct) = the (C2 ct')
      \<and> a0 = a0' \<and> b0 = b0' \<and> a1 = a1' \<and> b1 = b1'"
proof -
  have "transcript d (binary_fields R ctx pk ct a0 b0 a1 b1) = transcript d' (binary_fields R ctx' pk' ct' a0' b0' a1' b1')
    \<longleftrightarrow> d = d' \<and> binary_fields R ctx pk ct a0 b0 a1 b1 = binary_fields R ctx' pk' ct' a0' b0' a1' b1'"
    using assms by (intro transcript_inject) (auto simp: binary_fields_def ballot_fields_def e_bytes_length)
  then show ?thesis
    by (simp add: binary_fields_def ballot_fields_def bytes_of_inject be_bytes_inject e_bytes_inject [OF R])
qed

end
