(* ===== verification/Lagrange.thy ===== *)
theory Lagrange
  imports Prelude
begin

text \<open>
  Polynomials over a field as coefficient lists, as far as secret sharing needs them: Horner
  evaluation, the bound on the number of roots, and Lagrange interpolation at 0 in the form the
  code computes it (products over all positions but one).
\<close>

definition peval :: "'a::comm_ring_1 list \<Rightarrow> 'a \<Rightarrow> 'a" where
  "peval cs x = foldr (\<lambda>c acc. acc * x + c) cs 0"

lemma peval_Nil [simp]: "peval [] x = 0"
  by (simp add: peval_def)

lemma peval_Cons [simp]: "peval (c # cs) x = peval cs x * x + c"
  by (simp add: peval_def)

lemma peval_zero: "cs \<noteq> [] \<Longrightarrow> peval cs 0 = hd cs"
  by (cases cs) simp_all

lemma peval_powers: "peval cs x = (\<Sum>k<length cs. x ^ k * cs ! k)"
proof (induction cs)
  case (Cons c cs)
  have step: "(\<Sum>k<length (c # cs). x ^ k * (c # cs) ! k) = c + (\<Sum>k<length cs. x ^ Suc k * cs ! k)"
    by (simp add: sum.lessThan_Suc_shift del: sum.lessThan_Suc)
  show ?case unfolding step by (simp add: Cons sum_distrib_right sum_distrib_left ac_simps)
qed simp

section \<open>Roots\<close>

text \<open>Synthetic division by \<open>x - a\<close>.\<close>

fun syn_div :: "'a::comm_ring_1 list \<Rightarrow> 'a \<Rightarrow> 'a list" where
  "syn_div [] a = []"
| "syn_div [c] a = []"
| "syn_div (c # cs) a = peval cs a # syn_div cs a"

lemma length_syn_div [simp]: "length (syn_div cs a) = length cs - 1"
  by (induction cs a rule: syn_div.induct) auto

lemma syn_div: "peval cs x = peval cs a + (x - a) * peval (syn_div cs a) x"
proof (induction cs a rule: syn_div.induct)
  case (3 c d cs a)
  have "peval (c # d # cs) x = peval (d # cs) x * x + c" by simp
  also have "\<dots> = (peval (d # cs) a + (x - a) * peval (syn_div (d # cs) a) x) * x + c" by (subst 3) simp
  finally show ?case by (simp add: algebra_simps)
qed simp_all

lemma peval_many_roots:
  fixes cs :: "'a::field list"
  assumes "distinct xs" "length cs \<le> length xs" "\<forall>x \<in> set xs. peval cs x = 0"
  shows "peval cs y = 0"
  using assms
proof (induction xs arbitrary: cs y)
  case (Cons a xs)
  have split: "peval cs x = (x - a) * peval (syn_div cs a) x" for x
    using syn_div [of cs x a] Cons.prems(3) by simp
  have "\<forall>x \<in> set xs. peval (syn_div cs a) x = 0"
  proof
    fix x
    assume "x \<in> set xs"
    moreover from this have "x \<noteq> a" using Cons.prems(1) by auto
    moreover have "peval cs x = 0" using Cons.prems(3) \<open>x \<in> set xs\<close> by simp
    ultimately show "peval (syn_div cs a) x = 0" using split [of x] by simp
  qed
  then have "peval (syn_div cs a) y = 0" using Cons.prems by (intro Cons.IH) auto
  then show ?case by (simp add: split)
qed simp

section \<open>Functions that are polynomials\<close>

definition is_poly :: "nat \<Rightarrow> ('a::comm_ring_1 \<Rightarrow> 'a) \<Rightarrow> bool" where
  "is_poly n F \<longleftrightarrow> (\<exists>cs. length cs = n \<and> (\<forall>x. peval cs x = F x))"

lemma is_poly_peval: "is_poly (length cs) (peval cs)"
  by (auto simp: is_poly_def)

lemma peval_zeros [simp]: "peval (replicate n 0) x = 0"
  by (induction n) auto

lemma peval_append_zeros [simp]: "peval (cs @ replicate k 0) x = peval cs x"
  by (induction cs) auto

lemma is_poly_mono: "is_poly m F \<Longrightarrow> m \<le> n \<Longrightarrow> is_poly n F"
proof -
  assume "is_poly m F" "m \<le> n"
  then obtain cs where "length cs = m" "\<forall>x. peval cs x = F x" by (auto simp: is_poly_def)
  with \<open>m \<le> n\<close> show ?thesis
    unfolding is_poly_def by (intro exI [of _ "cs @ replicate (n - m) 0"]) simp
qed

lemma is_poly_const: "is_poly 1 (\<lambda>_. c)"
  unfolding is_poly_def by (intro exI [of _ "[c]"]) simp

lemma is_poly_zero: "is_poly n (\<lambda>_. 0)"
  unfolding is_poly_def by (intro exI [of _ "replicate n 0"]) simp

lemma is_poly_add: "is_poly n F \<Longrightarrow> is_poly n G \<Longrightarrow> is_poly n (\<lambda>x. F x + G x)"
proof -
  have add: "length as = length bs \<Longrightarrow> peval (map2 (+) as bs) x = peval as x + peval bs x" for as bs :: "'a list" and x
    by (induction as bs rule: list_induct2) (auto simp: algebra_simps)
  assume "is_poly n F" "is_poly n G"
  then obtain as bs where "length as = n" "\<forall>x. peval as x = F x" "length bs = n" "\<forall>x. peval bs x = G x"
    by (auto simp: is_poly_def)
  then show ?thesis unfolding is_poly_def by (intro exI [of _ "map2 (+) as bs"]) (simp add: add)
qed

lemma is_poly_mult_const: "is_poly n F \<Longrightarrow> is_poly n (\<lambda>x. F x * c)"
proof -
  have mult: "peval (map (\<lambda>a. a * c) as) x = peval as x * c" for as :: "'a list" and x
    by (induction as) (auto simp: algebra_simps)
  assume "is_poly n F"
  then obtain as where "length as = n" "\<forall>x. peval as x = F x" by (auto simp: is_poly_def)
  then show ?thesis unfolding is_poly_def by (intro exI [of _ "map (\<lambda>a. a * c) as"]) (simp add: mult)
qed

lemma is_poly_diff: "is_poly n F \<Longrightarrow> is_poly n G \<Longrightarrow> is_poly n (\<lambda>x. F x - G x)"
  using is_poly_add [of n F "\<lambda>x. G x * (- 1)"] is_poly_mult_const [of n G "- 1"] by simp

lemma is_poly_linear: "is_poly n F \<Longrightarrow> is_poly (Suc n) (\<lambda>x. (a - x) * F x)"
proof -
  assume F: "is_poly n F"
  then obtain cs where "length cs = n" "\<forall>x. peval cs x = F x" by (auto simp: is_poly_def)
  then have "is_poly (Suc n) (\<lambda>x. F x * x)"
    unfolding is_poly_def by (intro exI [of _ "0 # cs"]) simp
  moreover have "is_poly (Suc n) (\<lambda>x. F x * a)" using F by (intro is_poly_mult_const is_poly_mono [OF F]) simp
  ultimately have "is_poly (Suc n) (\<lambda>x. F x * a - F x * x)" by (rule is_poly_diff [rotated])
  then show ?thesis by (simp add: algebra_simps)
qed

lemma is_poly_sum: "finite A \<Longrightarrow> (\<And>i. i \<in> A \<Longrightarrow> is_poly n (F i)) \<Longrightarrow> is_poly n (\<lambda>x. \<Sum>i\<in>A. F i x)"
  by (induction A rule: finite_induct) (auto intro: is_poly_zero is_poly_add)

lemma is_poly_prod_list: "is_poly (Suc (length as)) (\<lambda>x. prod_list (map (\<lambda>a. a - x) as))"
proof (induction as)
  case Nil
  then show ?case using is_poly_const [of 1] by simp
next
  case (Cons a as)
  from is_poly_linear [OF this] show ?case by simp
qed

section \<open>Interpolation at 0\<close>

text \<open>The positions of a list but one.\<close>

definition others :: "nat \<Rightarrow> 'a list \<Rightarrow> 'a list" where
  "others i xs = take i xs @ drop (Suc i) xs"

lemma length_others [simp]: "i < length xs \<Longrightarrow> length (others i xs) = length xs - 1"
  by (simp add: others_def)

lemma set_others: "i < length xs \<Longrightarrow> set (others i xs) = {xs ! j | j. j < length xs \<and> j \<noteq> i}"
proof -
  assume i: "i < length xs"
  have "set (others i xs) = set (take i xs) \<union> set (drop (Suc i) xs)" by (simp add: others_def)
  also have "set (take i xs) = {xs ! j | j. j < i}"
    unfolding nth_image [OF less_imp_le [OF i], symmetric] by auto
  also have "set (drop (Suc i) xs) = {xs ! j | j. i < j \<and> j < length xs}"
  proof (intro set_eqI iffI)
    fix y
    assume "y \<in> {xs ! j | j. i < j \<and> j < length xs}"
    then obtain j where "y = xs ! j" "i < j" "j < length xs" by blast
    then show "y \<in> set (drop (Suc i) xs)"
      by (auto simp: in_set_conv_nth intro!: exI [of _ "j - Suc i"])
  qed (use i in \<open>force simp: in_set_conv_nth\<close>)
  also have "{xs ! j | j. j < i} \<union> {xs ! j | j. i < j \<and> j < length xs} = {xs ! j | j. j < length xs \<and> j \<noteq> i}"
    using i by (auto dest: less_trans) (metis linorder_neqE_nat)
  finally show ?thesis .
qed

definition lagrange0 :: "'a::field list \<Rightarrow> nat \<Rightarrow> 'a" where
  "lagrange0 xs i = prod_list (others i xs) * inverse (prod_list (map (\<lambda>x. x - xs ! i) (others i xs)))"

lemma lagrange_interpolation:
  fixes xs :: "'a::field list"
  assumes "distinct xs" "is_poly (length xs) F"
  shows "(\<Sum>i<length xs. lagrange0 xs i * F (xs ! i)) = F 0"
proof -
  let ?n = "length xs"
  define den where "den = (\<lambda>i. prod_list (map (\<lambda>x. x - xs ! i) (others i xs)))"
  define G where "G = (\<lambda>x. (\<Sum>i<?n. prod_list (map (\<lambda>a. a - x) (others i xs)) * (inverse (den i) * F (xs ! i))) - F x)"
  have poly: "is_poly ?n (\<lambda>x. prod_list (map (\<lambda>a. a - x) (others i xs)) * c)" if "i < ?n" for i c
    using is_poly_mult_const [OF is_poly_prod_list [of "others i xs"], of c] that
    by (cases "length xs") simp_all
  have "is_poly ?n G" unfolding G_def by (intro is_poly_diff is_poly_sum poly assms(2)) auto
  then obtain cs where cs: "length cs = ?n" "\<forall>x. peval cs x = G x" by (auto simp: is_poly_def)
  have den: "den i \<noteq> 0" if "i < ?n" for i
    using that assms(1) unfolding den_def by (auto simp: prod_list_zero_iff set_others nth_eq_iff_index_eq)
  have summand: "prod_list (map (\<lambda>a. a - xs ! k) (others i xs)) * (inverse (den i) * F (xs ! i)) = (if i = k then F (xs ! k) else 0)"
    if "i < ?n" "k < ?n" for i k
  proof (cases "i = k")
    case True
    have "prod_list (map (\<lambda>a. a - xs ! k) (others i xs)) = den i" by (simp add: den_def True)
    with den [OF that(1)] True show ?thesis by simp
  next
    case False
    then have "xs ! k \<in> set (others i xs)" using that by (auto simp: set_others)
    then have "prod_list (map (\<lambda>a. a - xs ! k) (others i xs)) = 0" by (auto simp: prod_list_zero_iff)
    with False show ?thesis by simp
  qed
  have "G (xs ! k) = 0" if "k < ?n" for k
    using that summand [OF _ that] by (simp add: G_def sum.delta')
  then have "\<forall>x \<in> set xs. peval cs x = 0" using cs(2) by (auto simp: in_set_conv_nth)
  then have "G 0 = 0" using peval_many_roots [OF assms(1), of cs 0] cs by simp
  then show ?thesis by (simp add: G_def lagrange0_def den_def mult.assoc)
qed

end
