(* ===== verification/Threshold.thy ===== *)
theory Threshold
  imports Proofs Lagrange Merkle_Hash
begin

text \<open>
  Threshold decryption (\<open>crypto/threshold\<close>): Feldman secret sharing, the distributed key
  generation and the combination of partial decryptions.  Go's \<open>int\<close> indices are \<open>int\<close>;
  \<open>keys\<close>, a Go map from indices to pointers, is a partial map to options.
\<close>

section \<open>Feldman sharing (\<open>feldman.go\<close>)\<close>

record ('s, 'e) Dealer =
  coefficients :: "'s list"
  Commitments :: "'e list"
  Shares :: "'s list"

definition checkIndex :: "int \<Rightarrow> crypto_error + unit" where
  "checkIndex i = (if i < 1 \<or> 4294967295 < i then Inl ErrBadIndex else Inr ())"

definition checkThreshold :: "int \<Rightarrow> int \<Rightarrow> crypto_error + unit" where
  "checkThreshold threshold numParties =
     (if threshold < 1 \<or> numParties < threshold then Inl OtherError else checkIndex numParties)"

fun check_duplicates :: "int list \<Rightarrow> int list \<Rightarrow> crypto_error + unit" where
  "check_duplicates seen [] = Inr ()"
| "check_duplicates seen (idx # indices) =
     (if idx \<in> set seen then Inl ErrDuplicateIndex else check_duplicates (idx # seen) indices)"

definition checkIndices :: "int list \<Rightarrow> crypto_error + unit" where
  "checkIndices indices = bindE (checkE checkIndex indices) (\<lambda>_. check_duplicates [] indices)"

text \<open>Horner's loop from the highest coefficient down.\<close>

definition evaluatePolynomial :: "('s::field, 'e) prims \<Rightarrow> 's list \<Rightarrow> int \<Rightarrow> crypto_error + 's" where
  "evaluatePolynomial R coeffs x =
     bindE (ScalarFromInt R x) (\<lambda>xScalar.
       Inr (foldr (\<lambda>c result. result * xScalar + c) coeffs 0))"

fun draw_coefficients :: "('s, 'e) prims \<Rightarrow> nat \<Rightarrow> 's tape \<Rightarrow> 's list \<times> 'e list \<times> 's tape" where
  "draw_coefficients R 0 tape = ([], [], tape)"
| "draw_coefficients R (Suc n) tape =
     (let (a, tape) = RandomScalar tape;
          commitment = smul R a (gen R);
          (as, commitments, tape) = draw_coefficients R n tape
      in (a # as, commitment # commitments, tape))"

definition NewDealer :: "('s::field, 'e) prims \<Rightarrow> int \<Rightarrow> int \<Rightarrow> 's tape \<Rightarrow> crypto_error + ('s, 'e) Dealer \<times> 's tape" where
  "NewDealer R threshold numParties tape =
     bindE (checkThreshold threshold numParties) (\<lambda>_.
     let (coeffs, commitments, tape') = draw_coefficients R (nat threshold) tape in
     bindE (mapE (evaluatePolynomial R coeffs) (map int [1..<nat numParties + 1])) (\<lambda>shares.
       Inr (\<lparr>coefficients = coeffs, Commitments = commitments, Shares = shares\<rparr>, tape')))"

definition Secret :: "('s, 'e) Dealer \<Rightarrow> crypto_error + 's" where
  "Secret d = (case coefficients d of [] \<Rightarrow> Inl RuntimePanic | a # _ \<Rightarrow> Inr a)"

definition Dealer_PublicKey :: "('s, 'e) Dealer \<Rightarrow> crypto_error + 'e" where
  "Dealer_PublicKey d = (case Commitments d of [] \<Rightarrow> Inl RuntimePanic | c # _ \<Rightarrow> Inr c)"

definition MultiScalarMult :: "('s, 'e::comm_monoid_add) prims \<Rightarrow> 's list \<Rightarrow> 'e list \<Rightarrow> 'e" where
  "MultiScalarMult R ss es = sum_list (map2 (smul R) ss es)"

fun powers_loop :: "'s::times \<Rightarrow> 's \<Rightarrow> nat \<Rightarrow> 's list" where
  "powers_loop pow x 0 = []"
| "powers_loop pow x (Suc n) = pow # powers_loop (pow * x) x n"

definition VerifyShare :: "('s::field, 'e::ab_group_add) prims \<Rightarrow> 's ptr \<Rightarrow> int \<Rightarrow> int \<Rightarrow> 'e ptr list \<Rightarrow> bool" where
  "VerifyShare R share index threshold commitments =
     (if threshold < 1 \<or> int (length commitments) \<noteq> threshold then False
      else if share = None \<or> \<not> is_ok (checkIndex index) then False
      else if None \<in> set commitments then False
      else case (ScalarFromInt R index, ScalarFromInt R 1) of
        (Inr x, Inr pow) \<Rightarrow>
          let powers = powers_loop pow x (length commitments);
              lhs = smul R (the share) (gen R);
              rhs = MultiScalarMult R powers (map the commitments)
          in lhs = rhs
      | _ \<Rightarrow> False)"

text \<open>The loop of \<open>lagrangeAt\<close> over all indices, which skips position \<open>pos\<close>.\<close>

fun lagrange_loop :: "('s::field, 'e) prims \<Rightarrow> nat \<Rightarrow> 's \<Rightarrow> nat \<Rightarrow> int list \<Rightarrow> 's \<Rightarrow> 's \<Rightarrow> crypto_error + 's \<times> 's" where
  "lagrange_loop R pos xi j [] num den = Inr (num, den)"
| "lagrange_loop R pos xi j (idx # indices) num den =
     (if j = pos then lagrange_loop R pos xi (Suc j) indices num den
      else bindE (ScalarFromInt R idx) (\<lambda>xj.
        lagrange_loop R pos xi (Suc j) indices (num * xj) (den * (xj - xi))))"

definition lagrangeAt :: "('s::field, 'e) prims \<Rightarrow> int list \<Rightarrow> nat \<Rightarrow> crypto_error + 's" where
  "lagrangeAt R indices pos =
     (if length indices \<le> pos then Inl RuntimePanic
      else bindE (ScalarFromInt R (indices ! pos)) (\<lambda>xi.
           bindE (ScalarFromInt R 1) (\<lambda>num. bindE (ScalarFromInt R 1) (\<lambda>den.
           bindE (lagrange_loop R pos xi 0 indices num den) (\<lambda>(num, den).
             Inr (num * inverse den))))))"

definition LagrangeCoefficient :: "('s::field, 'e) prims \<Rightarrow> int list \<Rightarrow> int \<Rightarrow> crypto_error + 's" where
  "LagrangeCoefficient R indices pos =
     bindE (checkIndices indices) (\<lambda>_.
       if pos < 0 \<or> int (length indices) \<le> pos then Inl OtherError
       else lagrangeAt R indices (nat pos))"

fun interpolate_loop :: "('s::field, 'e) prims \<Rightarrow> int list \<Rightarrow> nat \<Rightarrow> 's ptr list \<Rightarrow> 's \<Rightarrow> crypto_error + 's" where
  "interpolate_loop R indices i [] secret = Inr secret"
| "interpolate_loop R indices i (si # shares) secret =
     (case si of
        None \<Rightarrow> Inl OtherError
      | Some s \<Rightarrow> bindE (lagrangeAt R indices i) (\<lambda>lambda.
          interpolate_loop R indices (Suc i) shares (secret + lambda * s)))"

definition LagrangeInterpolate :: "('s::field, 'e) prims \<Rightarrow> 's ptr list \<Rightarrow> int list \<Rightarrow> crypto_error + 's" where
  "LagrangeInterpolate R shares indices =
     (if length shares = 0 then Inl OtherError
      else if length shares \<noteq> length indices then Inl OtherError
      else bindE (checkIndices indices) (\<lambda>_. interpolate_loop R indices 0 shares 0))"

section \<open>Key generation (\<open>dkg.go\<close>)\<close>

record ('s, 'e) DKGParticipant =
  ID :: int
  dealer :: "('s, 'e) Dealer"
  receivedShares :: "'s list"
  CombinedShare :: 's
  VerificationKey :: 'e

record ('s, 'e) DKGResult =
  ElectionPublicKey :: 'e
  Participants :: "('s, 'e) DKGParticipant list"

text \<open>Round 1: a dealer for each participant.\<close>

fun dkg_dealers :: "('s::field, 'e) prims \<Rightarrow> int \<Rightarrow> int \<Rightarrow> nat \<Rightarrow> 's tape \<Rightarrow> crypto_error + ('s, 'e) Dealer list \<times> 's tape" where
  "dkg_dealers R threshold numParties 0 tape = Inr ([], tape)"
| "dkg_dealers R threshold numParties (Suc n) tape =
     bindE (NewDealer R threshold numParties tape) (\<lambda>(d, tape').
     bindE (dkg_dealers R threshold numParties n tape') (\<lambda>(ds, tape''). Inr (d # ds, tape'')))"

text \<open>Round 2: participant \<open>i\<close> takes the share every dealer has for it, and verifies it.\<close>

definition dkg_receive :: "('s::field, 'e::ab_group_add) prims \<Rightarrow> int \<Rightarrow> ('s, 'e) Dealer list \<Rightarrow> nat \<Rightarrow> crypto_error + 's list" where
  "dkg_receive R threshold dealers i =
     mapE (\<lambda>d.
       if length (Shares d) \<le> i then Inl RuntimePanic
       else if \<not> VerifyShare R (Some (Shares d ! i)) (int i + 1) threshold (map Some (Commitments d)) then Inl OtherError
       else Inr (Shares d ! i)) dealers"

text \<open>Round 3: the combined share and its verification key.\<close>

definition dkg_participant :: "('s::field, 'e) prims \<Rightarrow> ('s, 'e) Dealer list \<Rightarrow> nat \<Rightarrow> 's list \<Rightarrow> ('s, 'e) DKGParticipant" where
  "dkg_participant R dealers i received =
     (let share = foldl (+) 0 received
      in \<lparr>ID = int i + 1, dealer = dealers ! i, receivedShares = received, CombinedShare = share,
          VerificationKey = smul R share (gen R)\<rparr>)"

definition RunDKG :: "('s::field, 'e::ab_group_add) prims \<Rightarrow> int \<Rightarrow> int \<Rightarrow> 's tape \<Rightarrow> crypto_error + ('s, 'e) DKGResult" where
  "RunDKG R threshold numParties tape =
     bindE (checkThreshold threshold numParties) (\<lambda>_.
     bindE (dkg_dealers R threshold numParties (nat numParties) tape) (\<lambda>(dealers, tape').
     bindE (mapE (dkg_receive R threshold dealers) [0..<nat numParties]) (\<lambda>received.
     bindE (mapE Dealer_PublicKey dealers) (\<lambda>publics.
       Inr \<lparr>ElectionPublicKey = foldl (+) 0 publics,
            Participants = map (\<lambda>i. dkg_participant R dealers i (received ! i)) [0..<nat numParties]\<rparr>))))"

section \<open>Partial decryption (\<open>decrypt.go\<close>)\<close>

record SlotContext =
  slot_ElectionID :: string
  SlotIndex :: "32 word"
  slot_TallyDigest :: hash
  SetCommitment :: hash
  SealedHead :: hash

record ('s, 'e) Partial =
  TrusteeIndex :: int
  D :: "'e ptr"
  Proof :: "('s, 'e) ChaumPedersenProof ptr"

definition tallyVectorDomain :: string where "tallyVectorDomain = ''otvoren-vot.tally-vector''"

definition TallyDigest :: "('s, 'e) prims \<Rightarrow> sha \<Rightarrow> 'e Ciphertext ptr list \<Rightarrow> crypto_error + hash" where
  "TallyDigest R sha256 cts =
     bindE (mapE (\<lambda>p. bindE (deref p) (Ciphertext_Bytes R)) cts) (\<lambda>bs.
       Inr (sha256 (lp (bytes_of tallyVectorDomain) @ concat (map lp bs))))"

definition checkSlot :: "SlotContext \<Rightarrow> 'e Ciphertext ptr \<Rightarrow> crypto_error + unit" where
  "checkSlot sc ct =
     (if slot_ElectionID sc = [] then Inl ErrMalformed
      else case ct of
        None \<Rightarrow> Inl ErrMalformed
      | Some ct \<Rightarrow> if C1 ct = None \<or> C2 ct = None then Inl ErrMalformed else Inr ())"

definition partialContext :: "('s, 'e) prims \<Rightarrow> SlotContext \<Rightarrow> int \<Rightarrow> 'e \<Rightarrow> bytes list" where
  "partialContext R sc trusteeIndex c2 =
     [bytes_of (slot_ElectionID sc),
      be_bytes 4 (of_int trusteeIndex :: 32 word),
      be_bytes 4 (SlotIndex sc),
      e_bytes R c2,
      hash_bytes (slot_TallyDigest sc),
      hash_bytes (SetCommitment sc),
      hash_bytes (SealedHead sc)]"

definition PartialDecrypt ::
  "('s::field, 'e::ab_group_add) prims \<Rightarrow> SlotContext \<Rightarrow> int \<Rightarrow> 's ptr \<Rightarrow> 'e Ciphertext ptr \<Rightarrow> 's tape
     \<Rightarrow> crypto_error + ('s, 'e) Partial \<times> 's tape" where
  "PartialDecrypt R sc trusteeIndex share ct tape =
     bindE (checkSlot sc ct) (\<lambda>_.
     bindE (checkIndex trusteeIndex) (\<lambda>_.
     if share = None then Inl ErrMalformed
     else
       let c1 = the (C1 (the ct)); c2 = the (C2 (the ct));
           d = smul R (the share) c1;
           hi = smul R (the share) (gen R)
       in bindE (ProveChaumPedersen R (partialContext R sc trusteeIndex c2)
                   (Some (gen R)) (Some c1) (Some hi) (Some d) share tape) (\<lambda>(p, tape').
            Inr (\<lparr>TrusteeIndex = trusteeIndex, D = Some d, Proof = Some p\<rparr>, tape'))))"

definition VerifyPartial ::
  "('s::field, 'e::ab_group_add) prims \<Rightarrow> SlotContext \<Rightarrow> 'e Ciphertext ptr \<Rightarrow> ('s, 'e) Partial ptr \<Rightarrow> 'e ptr
     \<Rightarrow> crypto_error + unit" where
  "VerifyPartial R sc ct p verificationKey =
     bindE (checkSlot sc ct) (\<lambda>_.
     case p of
       None \<Rightarrow> Inl ErrMalformed
     | Some p \<Rightarrow>
         if D p = None \<or> Proof p = None then Inl ErrMalformed
         else if verificationKey = None then Inl ErrMalformed
         else bindE (checkIndex (TrusteeIndex p)) (\<lambda>_.
           VerifyChaumPedersen R (partialContext R sc (TrusteeIndex p) (the (C2 (the ct))))
             (Some (gen R)) (C1 (the ct)) verificationKey (D p) (Proof p)))"

definition Combine ::
  "('s::field, 'e::ab_group_add) prims \<Rightarrow> SlotContext \<Rightarrow> 'e Ciphertext ptr \<Rightarrow> ('s, 'e) Partial ptr list
     \<Rightarrow> (int \<rightharpoonup> 'e ptr) \<Rightarrow> int \<Rightarrow> int \<Rightarrow> crypto_error + int" where
  "Combine R sc ct partials keys threshold maxPlaintext =
     (if threshold < 1 then Inl OtherError
      else if maxPlaintext < 0 then Inl OtherError
      else if int (length partials) \<noteq> threshold then Inl ErrPartialCount
      else
        bindE (mapE (\<lambda>p. case p of None \<Rightarrow> Inl ErrMalformed | Some p \<Rightarrow> Inr (TrusteeIndex p)) partials) (\<lambda>indices.
        bindE (checkIndices indices) (\<lambda>_.
        bindE (checkE (\<lambda>idx. case keys idx of None \<Rightarrow> Inl ErrUnknownTrustee | Some _ \<Rightarrow> Inr ()) indices) (\<lambda>_.
        bindE (checkE (\<lambda>p. VerifyPartial R sc ct p (the (keys (TrusteeIndex (the p))))) partials) (\<lambda>_.
        bindE (mapE (lagrangeAt R indices) [0..<length partials]) (\<lambda>lambdas.
        let ds = map (\<lambda>p. the (D (the p))) partials;
            combined = MultiScalarMult R lambdas ds;
            gm = the (C2 (the ct)) - combined;
            m = BabyStepGiantStep R gm maxPlaintext
        in if m < 0 then Inl ErrPlaintextOutOfRange else Inr m))))))"

section \<open>Indices\<close>

definition valid_index :: "int \<Rightarrow> bool" where
  "valid_index i \<longleftrightarrow> 1 \<le> i \<and> i \<le> 4294967295"

lemma checkIndex_iff [simp]: "checkIndex i = Inr u \<longleftrightarrow> valid_index i"
  by (auto simp: checkIndex_def valid_index_def)

lemma check_duplicates_iff [simp]: "check_duplicates seen xs = Inr u \<longleftrightarrow> distinct xs \<and> set xs \<inter> set seen = {}"
  by (induction xs arbitrary: seen) auto

lemma checkIndices_iff [simp]: "checkIndices xs = Inr u \<longleftrightarrow> (\<forall>i \<in> set xs. valid_index i) \<and> distinct xs"
  by (auto simp: checkIndices_def)

lemma checkThreshold_iff: "checkThreshold t n = Inr u \<longleftrightarrow> 1 \<le> t \<and> t \<le> n \<and> n \<le> 4294967295"
  by (auto simp: checkThreshold_def valid_index_def)

lemma ScalarFromInt_index: "ristretto R \<Longrightarrow> 0 \<le> i \<Longrightarrow> i < 2 ^ 64 \<Longrightarrow> ScalarFromInt R i = Inr (of_int i)"
  using ScalarFromInt_of_nat [of R "nat i"] by (simp add: nat_less_iff)

lemma ScalarFromInt_valid: "ristretto R \<Longrightarrow> valid_index i \<Longrightarrow> ScalarFromInt R i = Inr (of_int i)"
  by (rule ScalarFromInt_index) (auto simp: valid_index_def)

lemma ScalarFromInt_1: "ristretto R \<Longrightarrow> ScalarFromInt R 1 = Inr 1"
  using ScalarFromInt_index [of R 1] by simp

lemma of_int_index_inject:
  fixes R :: "('s::field, 'e::ab_group_add) prims"
  assumes "ristretto R" "valid_index i" "valid_index j"
  shows "(of_int i :: 's) = of_int j \<longleftrightarrow> i = j"
  using of_nat_small_iff [OF assms(1), of "nat i" "nat j"] assms(2,3)
  by (simp add: valid_index_def nat_less_iff eq_nat_nat_iff)

lemma distinct_of_int_indices:
  fixes R :: "('s::field, 'e::ab_group_add) prims"
  assumes "ristretto R" "distinct xs" "\<forall>i \<in> set xs. valid_index i"
  shows "distinct (map (of_int :: int \<Rightarrow> 's) xs)"
  using assms by (auto simp: distinct_map inj_on_def of_int_index_inject)

lemma evaluatePolynomial_eq:
  "ristretto R \<Longrightarrow> 0 \<le> i \<Longrightarrow> i < 2 ^ 64 \<Longrightarrow> evaluatePolynomial R cs i = Inr (peval cs (of_int i))"
  by (simp add: evaluatePolynomial_def ScalarFromInt_index peval_def)

section \<open>Interpolation\<close>

lemma lagrange_loop_eq:
  assumes R: "ristretto R"
  shows "(\<forall>i \<in> set idxs. valid_index i) \<Longrightarrow> lagrange_loop R pos xi j idxs num den =
    (let xs = map of_int idxs; rest = (if j \<le> pos \<and> pos < j + length idxs then others (pos - j) xs else xs)
     in Inr (num * prod_list rest, den * prod_list (map (\<lambda>x. x - xi) rest)))"
proof (induction idxs arbitrary: j num den)
  case (Cons a idxs)
  then show ?case
    by (cases "j = pos")
      (auto simp: Let_def ScalarFromInt_valid [OF R] others_def mult.assoc Suc_le_eq Suc_diff_Suc [symmetric] take_Cons' drop_Cons')
qed (simp add: others_def)

lemma lagrangeAt_eq:
  assumes R: "ristretto R" and "\<forall>i \<in> set idxs. valid_index i" "pos < length idxs"
  shows "lagrangeAt R idxs pos = Inr (lagrange0 (map of_int idxs) pos)"
  using assms by (simp add: lagrangeAt_def ScalarFromInt_valid [OF R] ScalarFromInt_1 [OF R] lagrange_loop_eq [OF R] lagrange0_def Let_def)

lemma interpolate_loop_eq:
  assumes R: "ristretto R" and "\<forall>i \<in> set idxs. valid_index i"
  shows "i + length ss \<le> length idxs \<Longrightarrow> interpolate_loop R idxs i (map Some ss) secret =
    Inr (secret + (\<Sum>k<length ss. lagrange0 (map of_int idxs) (i + k) * ss ! k))"
proof (induction ss arbitrary: i secret)
  case (Cons s ss)
  have "(\<Sum>k<length (s # ss). lagrange0 (map of_int idxs) (i + k) * (s # ss) ! k) =
      lagrange0 (map of_int idxs) i * s + (\<Sum>k<length ss. lagrange0 (map of_int idxs) (Suc i + k) * ss ! k)"
    by (simp add: sum.lessThan_Suc_shift del: sum.lessThan_Suc)
  then show ?case
    using Cons lagrangeAt_eq [OF R assms(2), of i] by (simp add: add.assoc del: sum.lessThan_Suc)
qed simp

lemma interpolate_shares:
  fixes R :: "('s::field, 'e::ab_group_add) prims"
  assumes R: "ristretto R" and "\<forall>i \<in> set idxs. valid_index i" "distinct idxs" "length cs \<le> length idxs"
  shows "(\<Sum>k<length idxs. lagrange0 (map of_int idxs) k * peval cs (of_int (idxs ! k))) = peval cs (0 :: 's)"
proof -
  have "is_poly (length (map (of_int :: int \<Rightarrow> 's) idxs)) (peval cs)"
    using assms(4) by (intro is_poly_mono [OF is_poly_peval]) simp
  from lagrange_interpolation [OF distinct_of_int_indices [OF R assms(3,2)] this] show ?thesis by simp
qed

lemma LagrangeInterpolate_shares:
  assumes R: "ristretto R" and "\<forall>i \<in> set idxs. valid_index i" "distinct idxs" "length cs \<le> length idxs" "idxs \<noteq> []"
  shows "LagrangeInterpolate R (map (\<lambda>i. Some (peval cs (of_int i))) idxs) idxs = Inr (peval cs 0)"
proof -
  have "checkIndices idxs = Inr ()" using assms by simp
  moreover have "map (\<lambda>i. Some (peval cs (of_int i))) idxs = map Some (map (\<lambda>i. peval cs (of_int i)) idxs)" by simp
  ultimately show ?thesis
    using interpolate_loop_eq [OF R assms(2), of 0 "map (\<lambda>i. peval cs (of_int i)) idxs" 0]
      interpolate_shares [OF R assms(2,3,4)] assms(5)
    by (simp add: LagrangeInterpolate_def comp_def del: checkIndices_iff)
qed

section \<open>Shares and key generation\<close>

lemma powers_loop_eq: "powers_loop pow x n = map (\<lambda>k. pow * x ^ k) [0..<n]" for x :: "'a::comm_monoid_mult"
proof (induction n arbitrary: pow)
  case (Suc n)
  have "[0..<Suc n] = 0 # map Suc [0..<n]" by (simp add: map_Suc_upt upt_conv_Cons del: upt_Suc)
  with Suc show ?case by (simp add: comp_def mult.assoc del: upt_Suc)
qed simp

lemma MultiScalarMult_common:
  assumes R: "ristretto R" and "length as = length bs"
  shows "MultiScalarMult R as (map (\<lambda>b. smul R b x) bs) = smul R (\<Sum>k<length bs. as ! k * bs ! k) x"
  using assms(2)
proof (induction as bs rule: list_induct2)
  case (Cons a as b bs)
  then show ?case
    by (simp add: MultiScalarMult_def smul_add_left [OF R] smul_mult [OF R] sum.lessThan_Suc_shift del: sum.lessThan_Suc)
qed (simp add: MultiScalarMult_def smul_zero_left [OF R])

lemma VerifyShare_iff:
  assumes R: "ristretto R" and "valid_index i" "cs \<noteq> []"
  shows "VerifyShare R (Some s) i (int (length cs)) (map (\<lambda>a. Some (smul R a (gen R))) cs)
    \<longleftrightarrow> s = peval cs (of_int i)"
proof -
  have "MultiScalarMult R (powers_loop 1 (of_int i) (length cs)) (map (\<lambda>a. smul R a (gen R)) cs) = smul R (peval cs (of_int i)) (gen R)"
    by (simp add: MultiScalarMult_common [OF R] powers_loop_eq peval_powers)
  moreover have "\<not> int (length cs) < 1" using assms(3) by (cases cs) auto
  moreover have "is_ok (checkIndex i)" using assms(2) by (simp add: is_ok_iff)
  ultimately show ?thesis
    by (auto simp: VerifyShare_def ScalarFromInt_valid [OF R assms(2)] ScalarFromInt_1 [OF R] smul_gen_inject [OF R] comp_def image_iff)
qed

lemma draw_coefficients_eq:
  "draw_coefficients R n tape = (map tape [0..<n], map (\<lambda>k. smul R (tape k) (gen R)) [0..<n], \<lambda>k. tape (n + k))"
proof (induction n arbitrary: tape)
  case (Suc n)
  have "[0..<Suc n] = 0 # map Suc [0..<n]" by (simp add: map_Suc_upt upt_conv_Cons del: upt_Suc)
  with Suc show ?case by (simp add: RandomScalar_def comp_def del: upt_Suc)
qed simp

definition is_dealer :: "('s::field, 'e::ab_group_add) prims \<Rightarrow> nat \<Rightarrow> nat \<Rightarrow> ('s, 'e) Dealer \<Rightarrow> bool" where
  "is_dealer R t n d \<longleftrightarrow> length (coefficients d) = t \<and> Commitments d = map (\<lambda>a. smul R a (gen R)) (coefficients d)
     \<and> Shares d = map (\<lambda>i. peval (coefficients d) (of_nat (Suc i))) [0..<n]"

lemma NewDealer_is_dealer:
  assumes R: "ristretto R" and "checkThreshold (int t) (int n) = Inr ()"
  shows "\<exists>d tape'. NewDealer R (int t) (int n) tape = Inr (d, tape') \<and> is_dealer R t n d"
proof -
  from assms(2) have n: "n \<le> 4294967295" by (simp add: checkThreshold_iff)
  let ?cs = "map tape [0..<t]"
  have "mapE (evaluatePolynomial R ?cs) (map int [1..<n + 1]) = Inr (map (\<lambda>i. peval ?cs (of_int i)) (map int [1..<n + 1]))"
    using n by (intro mapE_total evaluatePolynomial_eq [OF R]) auto
  moreover have "map (\<lambda>i. peval ?cs (of_int i)) (map int [1..<n + 1]) = map (\<lambda>i. peval ?cs (of_nat (Suc i))) [0..<n]"
    by (simp add: map_Suc_upt [symmetric] comp_def del: upt_Suc map_Suc_upt)
  ultimately show ?thesis
    using assms(2) by (auto simp: NewDealer_def draw_coefficients_eq is_dealer_def comp_def simp del: upt_Suc)
qed

lemma dkg_dealers_are_dealers:
  assumes R: "ristretto R" and "checkThreshold (int t) (int n) = Inr ()"
  shows "\<exists>ds tape'. dkg_dealers R (int t) (int n) k tape = Inr (ds, tape') \<and> length ds = k \<and> (\<forall>d \<in> set ds. is_dealer R t n d)"
proof (induction k arbitrary: tape)
  case (Suc k)
  obtain d tape' where d: "NewDealer R (int t) (int n) tape = Inr (d, tape')" "is_dealer R t n d"
    using NewDealer_is_dealer [OF assms] by blast
  obtain ds tape'' where "dkg_dealers R (int t) (int n) k tape' = Inr (ds, tape'')" "length ds = k" "\<forall>d \<in> set ds. is_dealer R t n d"
    using Suc.IH by blast
  with d show ?case by simp
qed simp

lemma dkg_receive_eq:
  assumes R: "ristretto R" and "\<forall>d \<in> set ds. is_dealer R t n d" "i < n" "0 < t" "n \<le> 4294967295"
  shows "dkg_receive R (int t) ds i = Inr (map (\<lambda>d. peval (coefficients d) (of_nat (Suc i))) ds)"
  unfolding dkg_receive_def
proof (rule mapE_total)
  fix d
  assume "d \<in> set ds"
  with assms(2) have d: "is_dealer R t n d" by blast
  then have "coefficients d \<noteq> []" using assms(4) by (auto simp: is_dealer_def)
  moreover have "valid_index (int i + 1)" using assms(3,5) by (simp add: valid_index_def)
  ultimately have "VerifyShare R (Some (Shares d ! i)) (int i + 1) (int t) (map Some (Commitments d))"
    using VerifyShare_iff [OF R, of "int i + 1" "coefficients d" "Shares d ! i"] d assms(3)
    by (simp add: is_dealer_def comp_def add.commute)
  then show "(if length (Shares d) \<le> i then Inl RuntimePanic
       else if \<not> VerifyShare R (Some (Shares d ! i)) (int i + 1) (int t) (map Some (Commitments d)) then Inl OtherError
       else Inr (Shares d ! i)) = Inr (peval (coefficients d) (of_nat (Suc i)))"
    using d assms(3) by (simp add: is_dealer_def)
qed

lemma sum_polynomial:
  "(\<forall>d \<in> set ds. length (coefficients d) = t) \<Longrightarrow>
    is_poly t (\<lambda>x. sum_list (map (\<lambda>d. peval (coefficients d) x) ds))"
proof (induction ds)
  case (Cons d ds)
  then have "is_poly t (peval (coefficients d))" using is_poly_peval [of "coefficients d"] by simp
  with Cons show ?case by (auto intro: is_poly_add)
qed (auto intro: is_poly_zero)

text \<open>The result of a key generation: a polynomial that is shared among the participants.\<close>

definition shares_polynomial :: "('s::field, 'e::ab_group_add) prims \<Rightarrow> nat \<Rightarrow> 's list \<Rightarrow> ('s, 'e) DKGResult \<Rightarrow> bool" where
  "shares_polynomial R t F r \<longleftrightarrow> length F = t \<and> ElectionPublicKey r = smul R (peval F 0) (gen R)
     \<and> (\<forall>i < length (Participants r). ID (Participants r ! i) = int i + 1
          \<and> CombinedShare (Participants r ! i) = peval F (of_nat (Suc i))
          \<and> VerificationKey (Participants r ! i) = smul R (peval F (of_nat (Suc i))) (gen R))"

lemma foldl_add: "foldl (+) (a :: 'a::comm_monoid_add) xs = a + sum_list xs"
  by (induction xs arbitrary: a) (simp_all add: add.assoc)

lemma RunDKG_shares:
  assumes R: "ristretto R" and th: "checkThreshold (int t) (int n) = Inr ()"
  shows "\<exists>r F. RunDKG R (int t) (int n) tape = Inr r \<and> length (Participants r) = n \<and> shares_polynomial R t F r"
proof -
  from th have b: "0 < t" "n \<le> 4294967295" by (auto simp: checkThreshold_iff)
  obtain ds tape' where ds: "dkg_dealers R (int t) (int n) n tape = Inr (ds, tape')" "length ds = n"
    "\<forall>d \<in> set ds. is_dealer R t n d" using dkg_dealers_are_dealers [OF R th] by blast
  have len: "\<forall>d \<in> set ds. length (coefficients d) = t" using ds(3) by (auto simp: is_dealer_def)
  obtain F where F: "length F = t" "\<forall>x. peval F x = sum_list (map (\<lambda>d. peval (coefficients d) x) ds)"
    using sum_polynomial [OF len] by (auto simp: is_poly_def)
  have received: "mapE (dkg_receive R (int t) ds) [0..<n] = Inr (map (\<lambda>i. map (\<lambda>d. peval (coefficients d) (of_nat (Suc i))) ds) [0..<n])"
    using dkg_receive_eq [OF R ds(3) _ b] by (intro mapE_total) simp
  have publics: "mapE Dealer_PublicKey ds = Inr (map (\<lambda>d. smul R (peval (coefficients d) 0) (gen R)) ds)"
  proof (rule mapE_total)
    fix d
    assume "d \<in> set ds"
    with ds(3) b(1) show "Dealer_PublicKey d = Inr (smul R (peval (coefficients d) 0) (gen R))"
      by (cases "coefficients d") (auto simp: is_dealer_def Dealer_PublicKey_def)
  qed
  have "sum_list (map (\<lambda>d. smul R (peval (coefficients d) 0) (gen R)) ds) = smul R (peval F 0) (gen R)"
    by (simp add: F(2) smul_sum_list_left [OF R] comp_def)
  moreover have "sum_list (map (\<lambda>d. peval (coefficients d) x) ds) = peval F x" for x using F(2) by simp
  ultimately show ?thesis
    using th ds received publics F(1)
    by (auto simp: RunDKG_def shares_polynomial_def dkg_participant_def Let_def foldl_add intro!: exI [of _ F])
qed

lemma shares_polynomial_interpolate:
  assumes R: "ristretto R" and r: "shares_polynomial R t F r" "0 < t" "length (Participants r) \<le> 4294967295"
    and js: "distinct js" "\<forall>j \<in> set js. j < length (Participants r)" "length js = t"
  shows "LagrangeInterpolate R (map (\<lambda>j. Some (CombinedShare (Participants r ! j))) js)
      (map (\<lambda>j. ID (Participants r ! j)) js) = Inr (peval F 0)"
proof -
  let ?idxs = "map (\<lambda>j. int j + 1) js"
  have valid: "\<forall>i \<in> set ?idxs. valid_index i" using js(2) r(3) by (fastforce simp: valid_index_def)
  have "distinct ?idxs" using js(1) by (simp add: distinct_map inj_on_def)
  moreover have "length F \<le> length ?idxs" "?idxs \<noteq> []" using r(1,2) js(3) by (auto simp: shares_polynomial_def)
  ultimately have "LagrangeInterpolate R (map (\<lambda>i. Some (peval F (of_int i))) ?idxs) ?idxs = Inr (peval F 0)"
    using valid by (intro LagrangeInterpolate_shares [OF R])
  moreover have "map (\<lambda>j. ID (Participants r ! j)) js = ?idxs" "map (\<lambda>j. Some (CombinedShare (Participants r ! j))) js = map (\<lambda>i. Some (peval F (of_int i))) ?idxs"
    using js(2) r(1) by (auto simp: shares_polynomial_def add.commute)
  ultimately show ?thesis by (simp only:)
qed

section \<open>Combining partial decryptions\<close>

definition slot_ok :: "SlotContext \<Rightarrow> bool" where
  "slot_ok sc \<longleftrightarrow> slot_ElectionID sc \<noteq> []"

lemma checkSlot_enc: "slot_ok sc \<Longrightarrow> checkSlot sc (Some (enc R h r m)) = Inr ()"
  by (simp add: checkSlot_def slot_ok_def)

lemma PartialDecrypt_total:
  assumes R: "ristretto R" and "slot_ok sc" "valid_index i" "ct = enc R h r m"
  shows "\<exists>p tape'. PartialDecrypt R sc i (Some s) (Some ct) tape = Inr (p, tape')"
proof -
  obtain p tape' where "ProveChaumPedersen R (partialContext R sc i (the (C2 ct))) (Some (gen R)) (Some (the (C1 ct)))
      (Some (smul R s (gen R))) (Some (smul R s (the (C1 ct)))) (Some s) tape = Inr (p, tape')"
    using cp_complete [OF R refl refl] by blast
  then show ?thesis
    using checkSlot_enc [OF assms(2)] assms(3,4) by (simp add: PartialDecrypt_def Let_def checkIndex_iff)
qed

lemma PartialDecrypt_verifies:
  assumes R: "ristretto R" and ok: "slot_ok sc" "valid_index i" and ct: "ct = enc R h r m"
    and p: "PartialDecrypt R sc i (Some s) (Some ct) tape = Inr (p, tape')"
  shows "VerifyPartial R sc (Some ct) (Some p) (Some (smul R s (gen R))) = Inr ()
    \<and> TrusteeIndex p = i \<and> D p = Some (smul R s (the (C1 ct)))"
proof -
  let ?bytes = "partialContext R sc i (the (C2 ct))"
  obtain q t where q: "ProveChaumPedersen R ?bytes (Some (gen R)) (Some (the (C1 ct)))
      (Some (smul R s (gen R))) (Some (smul R s (the (C1 ct)))) (Some s) tape = Inr (q, t)"
    "VerifyChaumPedersen R ?bytes (Some (gen R)) (Some (the (C1 ct)))
      (Some (smul R s (gen R))) (Some (smul R s (the (C1 ct)))) (Some q) = Inr ()"
    using cp_complete [OF R refl refl] by blast
  then have "p = \<lparr>TrusteeIndex = i, D = Some (smul R s (the (C1 ct))), Proof = Some q\<rparr>"
    using p checkSlot_enc [OF ok(1)] ok(2) ct by (simp add: PartialDecrypt_def Let_def)
  then show ?thesis
    using q(2) checkSlot_enc [OF ok(1)] ok(2) ct by (simp add: VerifyPartial_def)
qed

lemma combine_exponent:
  assumes R: "ristretto R" and "\<forall>i \<in> set idxs. valid_index i" "distinct idxs" "length F \<le> length idxs"
  shows "MultiScalarMult R (map (lagrange0 (map of_int idxs)) [0..<length idxs]) (map (\<lambda>i. smul R (peval F (of_int i)) c) idxs)
    = smul R (peval F 0) c"
  using MultiScalarMult_common [OF R, of "map (lagrange0 (map of_int idxs)) [0..<length idxs]" "map (\<lambda>i. peval F (of_int i)) idxs" c]
    interpolate_shares [OF assms] by (simp add: comp_def)

lemma mapE_lagrangeAt:
  assumes "ristretto R" "\<forall>i \<in> set idxs. valid_index i"
  shows "mapE (lagrangeAt R idxs) [0..<length idxs] = Inr (map (lagrange0 (map of_int idxs)) [0..<length idxs])"
  using lagrangeAt_eq [OF assms] by (intro mapE_total) simp

lemma mapE_indices:
  "mapE (\<lambda>p. case p of None \<Rightarrow> Inl ErrMalformed | Some p \<Rightarrow> Inr (TrusteeIndex p)) (map Some ps) = Inr (map TrusteeIndex ps)"
  by (induction ps) auto

lemma Combine_correct:
  assumes R: "ristretto R" and idxs: "\<forall>i \<in> set idxs. valid_index i" "distinct idxs" "idxs \<noteq> []"
    and F: "length F \<le> length idxs" and ok: "slot_ok sc" and mx: "int m \<le> mx" "mx < 2 ^ 62"
    and ct: "ct = enc R (smul R (peval F 0) (gen R)) r (of_nat m)"
    and keys: "\<forall>i \<in> set idxs. keys i = Some (Some (smul R (peval F (of_int i)) (gen R)))"
    and ps: "list_all2 (\<lambda>i p. \<exists>tape tape'. PartialDecrypt R sc i (Some (peval F (of_int i))) (Some ct) tape = Inr (p, tape')) idxs ps"
  shows "Combine R sc (Some ct) (map Some ps) keys (int (length idxs)) mx = Inr (int m)"
proof -
  have len: "length ps = length idxs" using ps by (simp add: list_all2_lengthD)
  have each: "VerifyPartial R sc (Some ct) (Some (ps ! k)) (Some (smul R (peval F (of_int (idxs ! k))) (gen R))) = Inr ()
      \<and> TrusteeIndex (ps ! k) = idxs ! k \<and> D (ps ! k) = Some (smul R (peval F (of_int (idxs ! k))) (the (C1 ct)))"
    if k: "k < length idxs" for k
  proof -
    from ps k obtain tape tape' where
      "PartialDecrypt R sc (idxs ! k) (Some (peval F (of_int (idxs ! k)))) (Some ct) tape = Inr (ps ! k, tape')"
      by (auto simp: list_all2_conv_all_nth)
    moreover have "valid_index (idxs ! k)" using idxs(1) k by simp
    ultimately show ?thesis using PartialDecrypt_verifies [OF R ok _ ct] by blast
  qed
  have indices: "map TrusteeIndex ps = idxs" using each len by (intro nth_equalityI) auto
  have ds: "map (\<lambda>p. the (D (the p))) (map Some ps) = map (\<lambda>i. smul R (peval F (of_int i)) (the (C1 ct))) idxs"
    using each len by (intro nth_equalityI) auto
  have "checkE (\<lambda>p. VerifyPartial R sc (Some ct) p (the (keys (TrusteeIndex (the p))))) (map Some ps) = Inr ()"
  proof -
    have "VerifyPartial R sc (Some ct) (Some (ps ! k)) (the (keys (TrusteeIndex (ps ! k)))) = Inr ()" if k: "k < length idxs" for k
      using each [OF k] keys [rule_format, OF nth_mem [OF k]] by simp
    then show ?thesis using len by (auto simp: in_set_conv_nth)
  qed
  moreover have "checkE (\<lambda>idx. case keys idx of None \<Rightarrow> Inl ErrUnknownTrustee | Some _ \<Rightarrow> Inr ()) idxs = Inr ()"
    using keys by auto
  moreover have "checkIndices idxs = Inr ()" using idxs by simp
  moreover have "the (C2 ct) - smul R (peval F 0) (the (C1 ct)) = smul R (of_nat m) (gen R)"
    using smul_commute [OF R, of r "peval F 0" "gen R"] by (simp add: ct)
  moreover have "\<not> int (length idxs) < 1" using idxs(3) by (cases idxs) auto
  ultimately show ?thesis
    using mx BabyStepGiantStep_complete [OF R mx(2,1)]
    unfolding Combine_def mapE_indices bindE_Inr indices ds combine_exponent [OF R idxs(1,2) F]
    by (simp add: len mapE_lagrangeAt [OF R idxs(1)] ds combine_exponent [OF R idxs(1,2) F]
        del: checkIndices_iff checkE_Inr_iff)
qed

lemma Combine_plaintext:
  assumes R: "ristretto R" and run: "Combine R sc (Some ct) (map Some ps) keys (int t) mx = Inr m" and mx: "mx < 2 ^ 62"
    and F: "length F \<le> t"
    and honest: "\<And>p. p \<in> set ps \<Longrightarrow> VerifyPartial R sc (Some ct) (Some p) (the (keys (TrusteeIndex p))) = Inr () \<Longrightarrow>
        keys (TrusteeIndex p) \<noteq> None \<Longrightarrow> the (D p) = smul R (peval F (of_int (TrusteeIndex p))) (the (C1 ct))"
  shows "0 \<le> m \<and> m \<le> mx \<and> the (C2 ct) = smul R (peval F 0) (the (C1 ct)) + smul R (of_nat (nat m)) (gen R)"
proof -
  let ?idxs = "map TrusteeIndex ps"
  have checks: "length ps = t" "checkIndices ?idxs = Inr ()" "\<forall>p \<in> set ps. keys (TrusteeIndex p) \<noteq> None"
    "\<forall>p \<in> set ps. VerifyPartial R sc (Some ct) (Some p) (the (keys (TrusteeIndex p))) = Inr ()"
    using run unfolding Combine_def mapE_indices by (auto split: if_splits option.splits)
  then have idxs: "\<forall>i \<in> set ?idxs. valid_index i" "distinct ?idxs" by simp_all
  have "map (\<lambda>p. the (D (the p))) (map Some ps) = map (\<lambda>i. smul R (peval F (of_int i)) (the (C1 ct))) ?idxs"
    using checks honest by simp
  then have "MultiScalarMult R (map (lagrange0 (map of_int ?idxs)) [0..<length ?idxs]) (map (\<lambda>p. the (D (the p))) (map Some ps))
      = smul R (peval F 0) (the (C1 ct))"
    using combine_exponent [OF R idxs, of F "the (C1 ct)"] F checks(1) by (simp only: length_map)
  then have m: "BabyStepGiantStep R (the (C2 ct) - smul R (peval F 0) (the (C1 ct))) mx = m" "0 \<le> m"
    using run mapE_lagrangeAt [OF R idxs(1)] unfolding Combine_def mapE_indices
    by (auto simp: Let_def split: if_splits)
  then have "m \<noteq> - 1" by simp
  from BabyStepGiantStep_sound [OF R mx m(1) this] show ?thesis by (simp add: algebra_simps)
qed

end
