(* ===== verification/Group_Instance.thy ===== *)
theory Group_Instance
  imports Group
begin

text \<open>
  A concrete group that satisfies \<open>ristretto\<close>, for the witnesses: the integers modulo the prime
  \<open>3 * 2^66 + 1\<close>, as scalars and, with their addition, as the group generated by 1.  It is of
  prime order above \<open>2^64\<close> with canonical 32-byte encodings, as the library promises, and
  everything in it computes.  No theorem about the code depends on this instance.
\<close>

section \<open>The prime\<close>

definition zp :: int where "zp = 221360928884514619393"

text \<open>
  Primality after Proth: \<open>125\<close> has order \<open>2^66\<close> modulo every divisor above 1, so no divisor
  above 1 is smaller than \<open>2^66\<close>.
\<close>

fun square_mod :: "nat \<Rightarrow> int \<Rightarrow> int" where
  "square_mod 0 x = x"
| "square_mod (Suc n) x = square_mod n (x * x mod zp)"

lemma square_mod_power: "square_mod n x mod zp = x ^ (2 ^ n) mod zp"
proof (induction n arbitrary: x)
  case (Suc n)
  have "square_mod (Suc n) x mod zp = (x * x mod zp) ^ (2 ^ n) mod zp" by (simp add: Suc)
  also have "\<dots> = (x * x) ^ (2 ^ n) mod zp" by (rule power_mod)
  finally show ?case by (simp add: power_mult power2_eq_square)
qed simp

lemma square_mod_dvd: "square_mod n x = zp - 1 \<Longrightarrow> zp dvd x ^ (2 ^ n) + 1"
proof -
  assume "square_mod n x = zp - 1"
  then have "x ^ (2 ^ n) mod zp = zp - 1" using square_mod_power [of n x] by (simp add: zp_def)
  then have "(x ^ (2 ^ n) + 1) mod zp = 0" by (metis diff_add_cancel mod_add_left_eq mod_self)
  then show ?thesis by (simp only: dvd_eq_mod_eq_0)
qed

lemma square_mod_125: "square_mod 65 125 = zp - 1"
  by code_simp

lemma zp_dvd_power: "zp dvd 125 ^ (2 ^ 65) + 1"
  using square_mod_125 by (rule square_mod_dvd)

lemma dvd_power_diff: "d dvd y - 1 \<Longrightarrow> d dvd y ^ m - 1" for d y :: int
proof (induction m)
  case (Suc m)
  have "y ^ Suc m - 1 = y * (y ^ m - 1) + (y - 1)" by (simp add: algebra_simps)
  with Suc show ?case by (metis dvd_add dvd_mult)
qed simp

lemma dvd_power_odd: "d dvd y + 1 \<Longrightarrow> odd u \<Longrightarrow> d dvd y ^ u + 1" for d y :: int
proof -
  assume d: "d dvd y + 1" and "odd u"
  then obtain m where u: "u = 2 * m + 1" by (elim oddE)
  have "y\<^sup>2 - 1 = (y + 1) * (y - 1)" by (simp add: algebra_simps power2_eq_square)
  with d have "d dvd y\<^sup>2 - 1" by (metis dvd_mult2)
  then have "d dvd (y\<^sup>2) ^ m - 1" by (rule dvd_power_diff)
  moreover have "y ^ u + 1 = y * ((y\<^sup>2) ^ m - 1) + (y + 1)" by (simp only: u power_add power_one_right power_mult) (simp add: algebra_simps)
  ultimately show ?thesis using d by (metis dvd_add dvd_mult)
qed

lemma odd_part: "0 < k \<Longrightarrow> \<exists>t u. k = 2 ^ t * u \<and> odd u" for k :: nat
proof (induction k rule: less_induct)
  case (less k)
  show ?case
  proof (cases "odd k")
    case True
    then show ?thesis by (intro exI [of _ 0] exI [of _ k]) simp
  next
    case False
    then obtain t u where "k div 2 = 2 ^ t * u" "odd u" using less.IH [of "k div 2"] less.prems by (auto elim!: evenE)
    with False have "k = 2 ^ Suc t * u" by (metis dvd_mult_div_cancel mult.assoc power_Suc)
    with \<open>odd u\<close> show ?thesis by blast
  qed
qed

lemma order_large_power:
  fixes d x :: int
  assumes d: "d dvd x ^ (2 ^ n) + 1" "odd d" "1 < d" and k: "0 < k" "k < 2 ^ Suc n"
  shows "\<not> d dvd x ^ k - 1"
proof
  assume "d dvd x ^ k - 1"
  obtain t u where tu: "k = 2 ^ t * u" "odd u" using odd_part [OF k(1)] by blast
  have "1 \<le> u" using tu(2) by (cases u) auto
  then have "2 ^ t \<le> k" using tu(1) by simp
  with k(2) have "(2::nat) ^ t < 2 ^ Suc n" by linarith
  then have "t < Suc n" by (rule power_less_imp_less_exp [rotated]) simp
  then obtain s where s: "n = t + s" using less_Suc_eq_le le_Suc_ex by blast
  have "d dvd (x ^ k) ^ (2 ^ s) - 1" using \<open>d dvd x ^ k - 1\<close> by (rule dvd_power_diff)
  moreover have "(x ^ k) ^ (2 ^ s) = (x ^ (2 ^ n)) ^ u"
    unfolding power_mult [symmetric] by (simp add: tu s power_add ac_simps)
  moreover have "d dvd (x ^ (2 ^ n)) ^ u + 1" using d(1) tu(2) by (rule dvd_power_odd)
  ultimately have "d dvd ((x ^ (2 ^ n)) ^ u + 1) - ((x ^ (2 ^ n)) ^ u - 1)" by (metis dvd_diff)
  then have "d dvd 2" by simp
  then have "d \<le> 2" by (rule zdvd_imp_le) simp
  with d(2,3) show False by (cases "d = 2") auto
qed

lemma proth_divisor:
  fixes d x :: int
  assumes d: "d dvd x ^ (2 ^ n) + 1" "odd d" "1 < d"
  shows "2 ^ Suc n \<le> d"
proof -
  have cop: "coprime d x"
  proof (rule coprimeI)
    fix c
    assume "c dvd d" "c dvd x"
    then have "c dvd x ^ (2 ^ n) + 1" "c dvd x ^ (2 ^ n)" using d(1) by (auto intro: dvd_trans dvd_power)
    then show "is_unit c" by (metis dvd_add_right_iff)
  qed
  have "inj_on (\<lambda>i. x ^ i mod d) {..<2 ^ Suc n}"
  proof (rule linorder_inj_onI)
    fix i j :: nat
    assume ij: "i < j" "i \<in> {..<2 ^ Suc n}" "j \<in> {..<2 ^ Suc n}"
    show "x ^ i mod d \<noteq> x ^ j mod d"
    proof
      assume "x ^ i mod d = x ^ j mod d"
      then have "d dvd x ^ j - x ^ i" by (metis mod_eq_dvd_iff)
      also have "x ^ j - x ^ i = x ^ i * (x ^ (j - i) - 1)" using ij(1)
        by (simp add: algebra_simps power_add [symmetric])
      finally have "d dvd x ^ (j - i) - 1"
        using cop by (meson coprime_dvd_mult_right_iff coprime_power_right_iff)
      moreover have "0 < j - i" "j - i < 2 ^ Suc n" using ij by (auto intro: less_imp_diff_less)
      ultimately show False using order_large_power [OF d] by blast
    qed
  qed auto
  moreover have "(\<lambda>i. x ^ i mod d) ` {..<2 ^ Suc n} \<subseteq> {0..<d}" using d(3) by auto
  ultimately have "card {..<(2::nat) ^ Suc n} \<le> card {0..<d}" by (intro card_inj_on_le) auto
  then have "2 ^ Suc n \<le> nat d" by simp
  then have "int (2 ^ Suc n) \<le> int (nat d)" by (simp only: of_nat_le_iff)
  then show ?thesis using d(3) by simp
qed

lemma zp_divisor:
  assumes "d dvd zp" "1 < d"
  shows "2 ^ 66 \<le> d"
proof -
  have "odd d" using assms(1) dvd_trans [of 2 d zp] by (auto simp: zp_def)
  moreover have "d dvd 125 ^ (2 ^ 65) + 1" using assms(1) zp_dvd_power by (rule dvd_trans)
  ultimately have "2 ^ Suc 65 \<le> d" using assms(2) by (intro proth_divisor)
  then show ?thesis by simp
qed

lemma zp_prime: "0 < a \<Longrightarrow> a < zp \<Longrightarrow> coprime a zp"
proof (rule ccontr)
  assume a: "0 < a" "a < zp" and "\<not> coprime a zp"
  define d where "d = gcd a zp"
  have d: "d dvd zp" "d dvd a" "0 < d" using a(1) by (auto simp: d_def)
  with \<open>\<not> coprime a zp\<close> have "1 < d" unfolding coprime_iff_gcd_eq_1 d_def by linarith
  with d have "2 ^ 66 \<le> d" by (intro zp_divisor)
  obtain c where c: "zp = d * c" using d(1) by (elim dvdE)
  have "d \<le> a" using d(2) a(1) by (rule zdvd_imp_le)
  have "1 < c"
  proof (rule ccontr)
    assume "\<not> 1 < c"
    then have "d * c \<le> d * 1" using d(3) by (intro mult_left_mono) auto
    with c a \<open>d \<le> a\<close> show False by simp
  qed
  moreover have "c dvd zp" by (simp only: c dvd_triv_right)
  ultimately have "2 ^ 66 \<le> c" by (intro zp_divisor)
  with \<open>2 ^ 66 \<le> d\<close> have "2 ^ 66 * 2 ^ 66 \<le> d * c" by (intro mult_mono) auto
  with c show False by (simp add: zp_def)
qed

section \<open>The field\<close>

typedef scalar = "{0..<zp}"
  by (intro exI [of _ 0]) (simp add: zp_def)

setup_lifting type_definition_scalar

lemma zp_pos [simp]: "0 < zp"
  by (simp add: zp_def)

lemma Rep_scalar_mod [simp]: "Rep_scalar x mod zp = Rep_scalar x"
  using Rep_scalar [of x] by simp

instantiation scalar :: comm_ring_1
begin

lift_definition zero_scalar :: scalar is 0 by simp
lift_definition one_scalar :: scalar is 1 by (simp add: zp_def)
lift_definition plus_scalar :: "scalar \<Rightarrow> scalar \<Rightarrow> scalar" is "\<lambda>a b. (a + b) mod zp" by simp
lift_definition minus_scalar :: "scalar \<Rightarrow> scalar \<Rightarrow> scalar" is "\<lambda>a b. (a - b) mod zp" by simp
lift_definition uminus_scalar :: "scalar \<Rightarrow> scalar" is "\<lambda>a. (- a) mod zp" by simp
lift_definition times_scalar :: "scalar \<Rightarrow> scalar \<Rightarrow> scalar" is "\<lambda>a b. a * b mod zp" by simp

instance
  by standard (transfer; simp add: mod_simps algebra_simps zp_def)+

end

instantiation scalar :: field
begin

lift_definition inverse_scalar :: "scalar \<Rightarrow> scalar" is
  "\<lambda>a. if a = 0 then 0 else fst (bezw (nat a) (nat zp)) mod zp" by simp

definition divide_scalar :: "scalar \<Rightarrow> scalar \<Rightarrow> scalar" where
  "divide_scalar a b = a * inverse b"

instance
proof
  fix a b :: scalar
  show "a div b = a * inverse b" by (simp add: divide_scalar_def)
  show "inverse (0 :: scalar) = 0" by transfer simp
  show "a \<noteq> 0 \<Longrightarrow> inverse a * a = 1"
  proof (transfer, clarify)
    fix a :: int
    assume a: "a \<in> {0..<zp}" "a \<noteq> 0"
    have "int (gcd (nat a) (nat zp)) = gcd (int (nat a)) (int (nat zp))" by (simp only: gcd_int_int_eq)
    also have "\<dots> = 1" using a zp_prime [of a] by (simp add: coprime_iff_gcd_eq_1)
    finally have "gcd (nat a) (nat zp) = 1" by simp
    then have "fst (bezw (nat a) (nat zp)) * a + snd (bezw (nat a) (nat zp)) * zp = 1"
      using bezw_aux [of "nat a" "nat zp"] a by simp
    then have "fst (bezw (nat a) (nat zp)) * a mod zp = 1 mod zp"
      by (metis mod_mult_self1)
    with a show "(if a = 0 then 0 else fst (bezw (nat a) (nat zp)) mod zp) * a mod zp = 1"
      by (simp add: mod_simps zp_def)
  qed
qed

end

lemma Rep_scalar_of_nat: "Rep_scalar (of_nat n) = int n mod zp"
proof (induction n)
  case (Suc n)
  have "Rep_scalar (of_nat (Suc n)) = (1 + Rep_scalar (of_nat n)) mod zp"
    by (simp add: plus_scalar.rep_eq one_scalar.rep_eq)
  then show ?case by (simp add: Suc mod_simps)
qed (simp add: zero_scalar.rep_eq)

lemma of_nat_Rep_scalar: "of_nat (nat (Rep_scalar x)) = x"
proof -
  have "Rep_scalar (of_nat (nat (Rep_scalar x))) = Rep_scalar x"
    unfolding Rep_scalar_of_nat using Rep_scalar [of x] by simp
  then show ?thesis by (simp only: Rep_scalar_inject)
qed

section \<open>The group\<close>

definition zp_encode :: "scalar \<Rightarrow> bytes" where
  "zp_encode x = le_bytes 32 (of_nat (nat (Rep_scalar x)) :: 256 word)"

definition zp_decode :: "bytes \<Rightarrow> scalar option" where
  "zp_decode b = (if length b = 32 \<and> le_value b < nat zp then Some (of_nat (le_value b)) else None)"

definition Zp :: "(scalar, scalar) prims" where
  "Zp = \<lparr>smul = (*), gen = 1, order = nat zp, e_bytes = zp_encode, e_decode = zp_decode,
         s_decode = zp_decode, s_uniform = (\<lambda>b. of_nat (le_value b)), sha512 = (\<lambda>_. [7])\<rparr>"

lemma le_value_inject: "length a = length b \<Longrightarrow> le_value a = le_value b \<Longrightarrow> a = b"
proof (induction a arbitrary: b)
  case (Cons x a)
  then obtain y b' where b: "b = y # b'" by (cases b) auto
  have lt: "unat x < 256" "unat y < 256" by (rule less_le_trans [OF unsigned_less], simp)+
  have eq: "unat x + 256 * le_value a = unat y + 256 * le_value b'" using Cons.prems(2) b by simp
  then have "(unat x + 256 * le_value a) mod 256 = (unat y + 256 * le_value b') mod 256" by simp
  with lt have same: "unat x = unat y" by simp
  then have "x = y" by (rule unsigned_word_eqI)
  moreover have "le_value a = le_value b'" using eq same by simp
  ultimately have "x = y" "le_value a = le_value b'" by auto
  with Cons b show ?case by simp
qed simp

lemma le_value_zp_encode: "le_value (zp_encode x) = nat (Rep_scalar x)"
proof -
  have "nat (Rep_scalar x) < 2 ^ 256" using Rep_scalar [of x] by (simp add: zp_def nat_less_iff)
  moreover from this have "unat (of_nat (nat (Rep_scalar x)) :: 256 word) = nat (Rep_scalar x)"
    unfolding unat_of_nat by simp
  ultimately show ?thesis by (simp add: zp_encode_def le_value_le_bytes)
qed

lemma length_zp_encode: "length (zp_encode x) = 32"
  by (simp add: zp_encode_def)

lemma zp_decode_encode: "zp_decode (zp_encode x) = Some x"
  using Rep_scalar [of x] of_nat_Rep_scalar [of x]
  by (simp add: zp_decode_def le_value_zp_encode) (simp add: zp_encode_def)

lemma zp_encode_decode: "zp_decode b = Some x \<Longrightarrow> zp_encode x = b"
proof -
  assume "zp_decode b = Some x"
  then have b: "length b = 32" "le_value b < nat zp" "x = of_nat (le_value b)"
    by (auto simp: zp_decode_def split: if_splits)
  then have "le_value (zp_encode x) = le_value b" by (simp add: le_value_zp_encode Rep_scalar_of_nat)
  then show ?thesis using b(1) by (intro le_value_inject) (simp_all add: zp_encode_def)
qed

lemma ristretto_Zp: "ristretto Zp"
proof -
  have "(of_nat m :: scalar) = of_nat n \<longleftrightarrow> m mod nat zp = n mod nat zp" for m n
  proof -
    have rep: "Rep_scalar (of_nat k) = int (k mod nat zp)" for k
      unfolding Rep_scalar_of_nat zmod_int using less_imp_le [OF zp_pos] by simp
    show ?thesis unfolding Rep_scalar_inject [symmetric] rep by simp
  qed
  moreover have "2 ^ 64 < nat zp" by (simp add: zp_def)
  ultimately show ?thesis
    unfolding ristretto_def Zp_def
    by (simp add: zp_decode_encode zp_encode_decode length_zp_encode algebra_simps) (simp add: zp_decode_def)
qed

end
