(* ===== verification/Crypto_Props.thy ===== *)
theory Crypto_Props
  imports Threshold Group_Instance
begin

text \<open>
  The properties of the cryptographic packages, stated for every group that satisfies
  \<open>ristretto\<close>, every hash function and every randomness tape, with witnesses in the group \<open>Zp\<close>.
\<close>

section \<open>Encrypted tallies\<close>

text \<open>A vote: the party, the candidate (\<open>-1\<close> for none) and the randomness of its encryption.\<close>

type_synonym 's vote = "int \<times> int \<times> 's tape"

definition encodes ::
  "('s::field, 'e::ab_group_add) prims \<Rightarrow> 'e \<Rightarrow> nat \<Rightarrow> nat \<Rightarrow> 's vote \<Rightarrow> ('s, 'e) Ballot \<Rightarrow> bool" where
  "encodes R h n k v b \<longleftrightarrow>
     (\<exists>tape'. EncodeBallotWithCandidates R (Some h) (int n) (int k) (fst v) (fst (snd v)) (snd (snd v)) = Inr (b, tape'))"

definition party_votes :: "'s vote list \<Rightarrow> nat \<Rightarrow> nat" where
  "party_votes votes i = length (filter (\<lambda>(choice, _, _). choice = int i) votes)"

definition candidate_votes :: "'s vote list \<Rightarrow> nat \<Rightarrow> nat \<Rightarrow> nat" where
  "candidate_votes votes p c = length (filter (\<lambda>(choice, candidate, _). choice = int p \<and> candidate = int c) votes)"

lemma encodes_total:
  assumes "ristretto R" "h \<noteq> 0" "\<forall>(_, _, tape) \<in> set votes. \<forall>j. tape j \<noteq> 0"
  shows "\<exists>bs. list_all2 (encodes R h n k) votes bs"
proof -
  have "\<exists>b. encodes R h n k v b" if v: "v \<in> set votes" for v
  proof -
    have "\<And>j. snd (snd v) j \<noteq> 0" using assms(3) v by auto
    from EncodeBallotWithCandidates_total [OF assms(1,2) _ _ this, of "int n" "int k" "fst v" "fst (snd v)"]
    show ?thesis by (auto simp: encodes_def)
  qed
  then obtain f where "\<And>v. v \<in> set votes \<Longrightarrow> encodes R h n k v (f v)" by metis
  then show ?thesis by (intro exI [of _ "map f votes"]) (simp add: list_all2_map2 list.rel_refl_strong)
qed

lemma party_bit_sum: "sum_list (map (\<lambda>v. party_bit (fst v) i) votes) = party_votes votes i"
  by (induction votes) (auto simp: party_votes_def party_bit_def)

lemma candidate_bit_sum: "sum_list (map (\<lambda>v. candidate_bit (fst v) (fst (snd v)) p c) votes) = candidate_votes votes p c"
  by (induction votes) (auto simp: candidate_votes_def candidate_bit_def)

lemma TallyBallots_votes:
  assumes R: "ristretto R" and h: "h \<noteq> 0" and votes: "votes \<noteq> []" "list_all2 (encodes R h n k) votes bs"
  shows "\<exists>t. TallyBallots (map Some bs) = Inr t \<and> is_ballot R h n k (party_votes votes) (candidate_votes votes) t"
proof -
  let ?ms = "map (\<lambda>(choice, candidate, tape). (party_bit choice, candidate_bit choice candidate)) votes"
  have ne: "bs \<noteq> []" using votes by (auto simp: list_all2_Nil2)
  have all: "list_all2 (\<lambda>b (pm, cm). is_ballot R h n k pm cm b) bs ?ms"
  proof -
    have "is_ballot R h n k (party_bit (fst v)) (candidate_bit (fst v) (fst (snd v))) b" if "encodes R h n k v b" for v b
      using that EncodeBallotWithCandidates_is_ballot [OF R h, of "int n" "int k"] by (auto simp: encodes_def)
    then show ?thesis using votes(2)
      by (auto simp: list_all2_conv_all_nth case_prod_unfold)
  qed
  have parties: "(\<lambda>i. sum_list (map (\<lambda>(pm, cm). pm i) ?ms)) = party_votes votes"
    by (simp add: fun_eq_iff party_bit_sum [symmetric] case_prod_unfold comp_def)
  have candidates: "(\<lambda>p c. sum_list (map (\<lambda>(pm, cm). cm p c) ?ms)) = candidate_votes votes"
    by (simp add: fun_eq_iff candidate_bit_sum [symmetric] case_prod_unfold comp_def)
  show ?thesis using TallyBallots_is_ballot [OF R ne all] unfolding parties candidates .
qed

text \<open>
  C12.  Tallying encrypted ballots counts the votes: ballots encoded from any votes with non-zero
  randomness are summed without an error or a panic, and decrypting the sum gives, for every
  party, the number of votes for it and, for every candidate of every party, the number of
  preferences.
\<close>

theorem tally_counts:
  assumes "ristretto R" "smul R x (gen R) \<noteq> 0" "votes \<noteq> []" "int (length votes) \<le> MaxDecrypt"
    and "\<forall>(_, _, tape) \<in> set votes. \<forall>j. tape j \<noteq> 0"
  shows "\<exists>bs t. list_all2 (encodes R (smul R x (gen R)) n k) votes bs \<and> TallyBallots (map Some bs) = Inr t
    \<and> (\<forall>i<n. Decrypt R x (PartyVector t ! i) = Inr (int (party_votes votes i)))
    \<and> (\<forall>p<n. \<forall>c<k. Decrypt R x (the (CandidateVectors t) ! p ! c) = Inr (int (candidate_votes votes p c)))"
proof -
  obtain bs where bs: "list_all2 (encodes R (smul R x (gen R)) n k) votes bs" using encodes_total [OF assms(1,2,5)] by blast
  from TallyBallots_votes [OF assms(1,2,3) bs] obtain t where t: "TallyBallots (map Some bs) = Inr t"
    "is_ballot R (smul R x (gen R)) n k (party_votes votes) (candidate_votes votes) t" by blast
  have "party_votes votes i \<le> length votes" "candidate_votes votes p c \<le> length votes" for i p c
    by (simp_all add: party_votes_def candidate_votes_def)
  then have "int (party_votes votes i) \<le> MaxDecrypt" "int (candidate_votes votes p c) \<le> MaxDecrypt" for i p c
    using assms(4) by (meson of_nat_mono order_trans)+
  note dec = Decrypt_enc [OF assms(1) this(1)] Decrypt_enc [OF assms(1) this(2)]
  from t(2) obtain vs where vs: "CandidateVectors t = Some vs" "\<forall>p<n. encrypts R (smul R x (gen R)) k (candidate_votes votes p) (vs ! p)"
    by (auto simp: is_ballot_def)
  have "Decrypt R x (PartyVector t ! i) = Inr (int (party_votes votes i))" if "i < n" for i
    using t(2) that dec(1) by (auto simp: is_ballot_def encrypts_def)
  moreover have "Decrypt R x (the (CandidateVectors t) ! p ! c) = Inr (int (candidate_votes votes p c))" if "p < n" "c < k" for p c
  proof -
    from vs(2) that obtain r where "vs ! p ! c = Some (enc R (smul R x (gen R)) r (of_nat (candidate_votes votes p c)))"
      unfolding encrypts_def by blast
    then show ?thesis using vs(1) dec(2) by simp
  qed
  ultimately show ?thesis using bs t(1) by blast
qed

theorem tally_counts_witness:
  "\<exists>bs t. list_all2 (encodes Zp (smul Zp 1 (gen Zp)) 2 1) [(0, 0, \<lambda>_. 1), (1, -1, \<lambda>_. 1), (1, 0, \<lambda>_. 1)] bs
    \<and> TallyBallots (map Some bs) = Inr t
    \<and> (\<forall>i<2. Decrypt Zp 1 (PartyVector t ! i) = Inr (int (party_votes [(0, 0, \<lambda>_. 1), (1, -1, \<lambda>_. 1), (1, 0, \<lambda>_. 1 :: scalar)] i)))
    \<and> (\<forall>p<2. \<forall>c<1. Decrypt Zp 1 (the (CandidateVectors t) ! p ! c)
          = Inr (int (candidate_votes [(0, 0, \<lambda>_. 1), (1, -1, \<lambda>_. 1), (1, 0, \<lambda>_. 1 :: scalar)] p c)))"
  using tally_counts [OF ristretto_Zp, of 1 "[(0, 0, \<lambda>_. 1), (1, -1, \<lambda>_. 1), (1, 0, \<lambda>_. 1)]" 2 1]
  by (simp add: Zp_def MaxDecrypt_def)

text \<open>
  C13.  A ciphertext from the wire is accepted exactly when it is the serialisation of two
  elements that are not the identity, and then decoding gives those elements back.
\<close>

theorem ciphertext_decoding:
  assumes "ristretto R"
  shows "CiphertextFromBytes R data = Inr ct \<longleftrightarrow>
    (\<exists>a b. a \<noteq> 0 \<and> b \<noteq> 0 \<and> ct = \<lparr>C1 = Some a, C2 = Some b\<rparr> \<and> Ciphertext_Bytes R ct = Inr data)"
proof -
  have "length data = 64 \<Longrightarrow> take 32 data = e_bytes R a \<Longrightarrow> drop 32 data = e_bytes R b \<Longrightarrow> data = e_bytes R a @ e_bytes R b" for a b
    by (metis append_take_drop_id)
  then show ?thesis
    using e_bytes_length [OF assms]
    by (auto simp: CiphertextFromBytes_def Ciphertext_Bytes_def copy32_def DecodeElement_iff [OF assms])
qed

theorem ciphertext_decoding_witness:
  "CiphertextFromBytes Zp (zp_encode 1 @ zp_encode 1) = Inr \<lparr>C1 = Some 1, C2 = Some 1\<rparr>"
  using ciphertext_decoding [OF ristretto_Zp, of "zp_encode 1 @ zp_encode 1" "\<lparr>C1 = Some 1, C2 = Some 1\<rparr>"]
  by (simp add: Ciphertext_Bytes_def copy32_def Zp_def length_zp_encode)

text \<open>
  C14.  \<open>BabyStepGiantStep\<close> solves small discrete logarithms exactly: it finds \<open>m\<close> whenever the
  target is the \<open>m\<close>-th multiple of the generator with \<open>0 \<le> m \<le> max\<close>, and returns \<open>-1\<close> otherwise.
\<close>

theorem BabyStepGiantStep_exact:
  assumes "ristretto R" "mx < 2 ^ 62"
  shows "(int m \<le> mx \<longrightarrow> BabyStepGiantStep R (smul R (of_nat m) (gen R)) mx = int m)
    \<and> ((\<forall>m. int m \<le> mx \<longrightarrow> target \<noteq> smul R (of_nat m) (gen R)) \<longrightarrow> BabyStepGiantStep R target mx = -1)"
proof (intro conjI impI)
  show "int m \<le> mx \<Longrightarrow> BabyStepGiantStep R (smul R (of_nat m) (gen R)) mx = int m"
    using BabyStepGiantStep_complete [OF assms] by blast
  assume none: "\<forall>m. int m \<le> mx \<longrightarrow> target \<noteq> smul R (of_nat m) (gen R)"
  show "BabyStepGiantStep R target mx = -1"
  proof (rule ccontr)
    assume "BabyStepGiantStep R target mx \<noteq> -1"
    note sound = BabyStepGiantStep_sound [OF assms refl this]
    then have "int (nat (BabyStepGiantStep R target mx)) \<le> mx" by simp
    from none [rule_format, OF this] sound show False by blast
  qed
qed

theorem BabyStepGiantStep_exact_witness:
  "BabyStepGiantStep Zp (smul Zp (of_nat 3) (gen Zp)) 5 = 3"
  using BabyStepGiantStep_exact [OF ristretto_Zp, of 5 3] by simp

section \<open>Ballot proofs\<close>

text \<open>
  C15.  The provers are complete: with a valid context, a proper key and a true statement, every
  prover of a ballot succeeds for every randomness, and its verifier accepts: the zero-or-one
  proof of a bit, the candidate-sum proof, the consistency proof of a party bit and a sum of
  preferences that differ by zero or one, and the sum-equals-one proof of a vector of encrypted
  bits that add up to one, with the sum of their randomness as the witness.
\<close>

theorem ballot_proofs_complete:
  assumes "ristretto R" "Context_validate ctx = Inr ()" "h \<noteq> 0" "m = 0 \<or> m = 1"
    and "party - cand = 0 \<or> party - cand = (1 :: int)" "sum_list (map snd bits) = (1 :: nat)"
  shows "(\<exists>p t. ProveBinary R ctx (Some h) (Some (enc R h r (of_int m))) m (Some r) tape = Inr (p, t)
            \<and> VerifyBinary R ctx (Some h) (Some (enc R h r (of_int m))) (Some p) = Inr ())
    \<and> (\<exists>p t. ProveCandidateSum R ctx (Some h) (Some (enc R h r (of_int m))) m (Some r) tape = Inr (p, t)
            \<and> VerifyCandidateSum R ctx (Some h) (Some (enc R h r (of_int m))) (Some p) = Inr ())
    \<and> (\<exists>p t. ProveConsistency R ctx (Some h) (Some (enc R h r (of_int party))) (Some (enc R h s (of_int cand)))
                 (party - cand) (Some (r - s)) tape = Inr (p, t)
            \<and> proof_VerifyConsistency R ctx (Some h) (Some (enc R h r (of_int party))) (Some (enc R h s (of_int cand))) (Some p) = Inr ())
    \<and> (\<exists>p t. ProveSumOne R ctx (Some h) (map (\<lambda>(r, b). Some (enc R h r (of_nat b))) bits) (Some (sum_list (map fst bits))) tape = Inr (p, t)
            \<and> VerifySumOne R ctx (Some h) (map (\<lambda>(r, b). Some (enc R h r (of_nat b))) bits) (Some p) = Inr ())"
proof (intro conjI)
  have "bits \<noteq> []" using assms(6) by auto
  then show "\<exists>p t. ProveSumOne R ctx (Some h) (map (\<lambda>(r, b). Some (enc R h r (of_nat b))) bits) (Some (sum_list (map fst bits))) tape = Inr (p, t)
            \<and> VerifySumOne R ctx (Some h) (map (\<lambda>(r, b). Some (enc R h r (of_nat b))) bits) (Some p) = Inr ()"
    using HomomorphicAdd_encs [OF assms(1), of bits h] assms(6)
    by (intro sum_complete assms(1-3) checkCiphertext_encs) simp_all
next
  have "\<exists>p t. proveBinaryWithDomain R consistencyDomain ctx (Some h) (Some (enc R h (r - s) (of_int (party - cand)))) (party - cand) (Some (r - s)) tape = Inr (p, t)
      \<and> verifyBinaryWithDomain R consistencyDomain ctx (Some h) (Some (enc R h (r - s) (of_int (party - cand)))) (Some p) = Inr ()"
    using assms by (intro binary_complete) auto
  moreover have "verifyBinaryWithDomain R consistencyDomain ctx (Some h) c p = Inr () \<Longrightarrow> BinaryProof_check p = Inr ()" for c p
    by (auto simp: verifyBinaryWithDomain_def)
  ultimately show "\<exists>p t. ProveConsistency R ctx (Some h) (Some (enc R h r (of_int party))) (Some (enc R h s (of_int cand)))
                 (party - cand) (Some (r - s)) tape = Inr (p, t)
            \<and> proof_VerifyConsistency R ctx (Some h) (Some (enc R h r (of_int party))) (Some (enc R h s (of_int cand))) (Some p) = Inr ()"
    using assms by (auto simp: ProveConsistency_def proof_VerifyConsistency_def checkConsistencyStatement_def checkPublicKey_def
        checkCiphertext_def checkBitWitness_def subtract_enc Let_def)
qed (use binary_complete [OF assms(1-4) refl] in \<open>simp_all add: ProveBinary_def VerifyBinary_def ProveCandidateSum_def VerifyCandidateSum_def\<close>)

theorem ballot_proofs_complete_witness:
  "(\<exists>p t. ProveBinary Zp \<lparr>ElectionID = ''e'', BallotID = ''b'', Index = 0\<rparr> (Some 1) (Some (enc Zp 1 2 1)) 1 (Some 2) (\<lambda>_. 3) = Inr (p, t)
     \<and> VerifyBinary Zp \<lparr>ElectionID = ''e'', BallotID = ''b'', Index = 0\<rparr> (Some 1) (Some (enc Zp 1 2 1)) (Some p) = Inr ())
   \<and> (\<exists>p t. ProveSumOne Zp \<lparr>ElectionID = ''e'', BallotID = ''b'', Index = 0\<rparr> (Some 1) [Some (enc Zp 1 5 0), Some (enc Zp 1 6 1)] (Some 11) (\<lambda>_. 3) = Inr (p, t)
     \<and> VerifySumOne Zp \<lparr>ElectionID = ''e'', BallotID = ''b'', Index = 0\<rparr> (Some 1) [Some (enc Zp 1 5 0), Some (enc Zp 1 6 1)] (Some p) = Inr ())"
  using ballot_proofs_complete [OF ristretto_Zp, of "\<lparr>ElectionID = ''e'', BallotID = ''b'', Index = 0\<rparr>" 1 1 1 0 "[(5, 0), (6, 1)]" 2 "\<lambda>_. 3" 0]
  by (simp add: Context_validate_def)

text \<open>
  C16.  Soundness of a party vector: if every ciphertext has a fork of its zero-or-one proof and
  the vector has a fork of its sum-equals-one proof, the vector encrypts exactly one vote: one
  entry encrypts 1 and all others encrypt 0.
\<close>

theorem party_vector_one_hot:
  assumes "ristretto R" "length cts < 2 ^ 64"
    and "\<forall>i<length cts. \<exists>ct f ctx p p'. cts ! i = Some ct \<and> forked_binary R f binaryDomain ctx h ct p p'"
    and "forked_sum R f ctx h cts q q'"
  shows "\<exists>i<length cts. (\<exists>r. cts ! i = Some (enc R h r 1)) \<and> (\<forall>j<length cts. j \<noteq> i \<longrightarrow> (\<exists>r. cts ! j = Some (enc R h r 0)))"
  using assms by (intro forked_party_vector) auto

definition zp_ctx :: Context where
  "zp_ctx = \<lparr>ElectionID = ''e'', BallotID = ''b'', Index = 0\<rparr>"

text \<open>The ciphertexts of 1 under the key 1 with randomness 1 and 2.\<close>

definition zp_ct :: "scalar Ciphertext" where
  "zp_ct = \<lparr>C1 = Some 1, C2 = Some 2\<rparr>"

definition zp_party :: "scalar Ciphertext" where
  "zp_party = \<lparr>C1 = Some 2, C2 = Some 3\<rparr>"

lemma Zp_simps: "smul Zp = (*)" "gen Zp = 1" "smul (Zp\<lparr>sha512 := f\<rparr>) = (*)" "gen (Zp\<lparr>sha512 := f\<rparr>) = 1"
  "FiatShamir Zp d xs = 7" "FiatShamir (Zp\<lparr>sha512 := \<lambda>_. [8]\<rparr>) d xs = 8"
  by (simp_all add: Zp_def FiatShamir_def)

lemma scalar_7_neq_8: "(7 :: scalar) \<noteq> 8" "(1 :: scalar) \<noteq> 0"
  using of_nat_small_iff [OF ristretto_Zp, of 7 8] by simp_all

text \<open>A proof for the ciphertext \<open>(1, 2)\<close> of 1 under the key 1, with commitments 0 and challenge \<open>e\<close>.\<close>

definition proof1 :: "scalar \<Rightarrow> (scalar, scalar) BinaryProof" where
  "proof1 e = \<lparr>A0 = Some 0, A1 = Some 0, B0 = Some 0, B1 = Some 0, E0 = Some 0, E1 = Some e, Z0 = Some 0, Z1 = Some e\<rparr>"

definition sum_proof1 :: "scalar \<Rightarrow> (scalar, scalar) SumOneProof" where
  "sum_proof1 e = \<lparr>sumA = Some 0, sumB = Some 0, sumZ = Some e\<rparr>"

lemma fork1: "forked_binary Zp (\<lambda>_. [8]) d zp_ctx 1 zp_ct (proof1 7) (proof1 8)"
  using scalar_7_neq_8
  by (simp add: forked_binary_def verifyBinaryWithDomain_def checkBinaryStatement_def Context_validate_def zp_ctx_def zp_ct_def zp_party_def
      checkPublicKey_def checkCiphertext_def BinaryProof_check_def proof1_def binaryChallenge_def Zp_simps)

lemma vector_fork1:
  "\<forall>i<length [Some zp_ct]. \<exists>ct f ctx p p'. [Some zp_ct] ! i = Some ct \<and> forked_binary Zp f d ctx 1 ct p p'"
  using fork1 [of d] by simp blast

theorem party_vector_one_hot_witness:
  "\<exists>i<length [Some zp_ct]. (\<exists>r. [Some zp_ct] ! i = Some (enc Zp 1 r 1))
     \<and> (\<forall>j<length [Some zp_ct]. j \<noteq> i \<longrightarrow> (\<exists>r. [Some zp_ct] ! j = Some (enc Zp 1 r 0)))"
proof (rule party_vector_one_hot [OF ristretto_Zp])
  show "forked_sum Zp (\<lambda>_. [8]) zp_ctx 1 [Some zp_ct] (sum_proof1 7) (sum_proof1 8)"
    using scalar_7_neq_8
    by (simp add: forked_sum_def VerifySumOne_def checkSumStatement_def Context_validate_def zp_ctx_def zp_ct_def zp_party_def
        checkPublicKey_def checkCiphertext_def sum_proof1_def sumChallenge_def HomomorphicAdd_def Zp_simps)
qed (use fork1 vector_fork1 in simp_all)

text \<open>
  Soundness of candidate preferences: for a party bit and a candidate vector whose entries,
  sum and consistency with the party bit all have forked proofs, the candidate vector encrypts
  no preference unless the party is selected, and then at most one.
\<close>

theorem candidate_consistent:
  assumes "ristretto R" "length cands < 2 ^ 64" "cands \<noteq> []"
    and "\<forall>i<length cands. \<exists>ct f ctx p p'. cands ! i = Some ct \<and> forked_binary R f binaryDomain ctx h ct p p'"
    and "forked_binary R f1 binaryDomain ctx1 h party p1 p1'"
    and "HomomorphicAdd cands = Inr (Some agg)"
    and "forked_binary R f2 candidateSumDomain ctx2 h agg p2 p2'"
    and "forked_consistency R f3 ctx3 h party agg p3 p3'"
  shows "\<exists>m r ms. party = enc R h r (of_nat m) \<and> m \<le> 1
    \<and> length ms = length cands \<and> (\<forall>i<length cands. \<exists>r. cands ! i = Some (enc R h r (of_nat (ms ! i)))) \<and> sum_list ms \<le> m"
proof -
  obtain ms where ms: "length ms = length cands" "set ms \<subseteq> {0, 1}"
    "\<forall>i<length cands. \<exists>r. cands ! i = Some (enc R h r (of_nat (ms ! i)))"
    using forked_vector_bits [OF assms(1), of cands binaryDomain h] assms(4) by blast
  obtain r where "HomomorphicAdd cands = Inr (Some (enc R h r (of_nat (sum_list ms))))"
    using HomomorphicAdd_vector [OF assms(1,3) ms(1,3)] by blast
  then have agg: "agg = enc R h r (of_nat (sum_list ms))" using assms(6) by simp
  have small: "sum_list ms < 2 ^ 64" using sum_bits_le [OF ms(2)] ms(1) assms(2) by simp
  have "(of_nat (sum_list ms) :: 'a) = of_nat 0 \<or> (of_nat (sum_list ms) :: 'a) = of_nat 1"
    using forked_binary_bit [OF assms(1,7)] unfolding agg enc_inject [OF assms(1)] by auto
  then have sum: "sum_list ms = 0 \<or> sum_list ms = 1"
    using of_nat_small_iff [OF assms(1) small, of 0] of_nat_small_iff [OF assms(1) small, of 1] by auto
  obtain r' m where m: "party = enc R h r' (of_nat m)" "m = 0 \<or> m = 1"
  proof -
    from forked_binary_bit [OF assms(1,5)] obtain r' where "party = enc R h r' (of_nat 0) \<or> party = enc R h r' (of_nat 1)" by auto
    then show thesis using that by blast
  qed
  have "(of_nat m :: 'a) = of_nat (sum_list ms) \<or> (of_nat m :: 'a) = of_nat (sum_list ms + 1)"
    using forked_consistency_diff [OF assms(1)] assms(8) unfolding m(1) agg by (fastforce simp: algebra_simps)
  moreover have "m \<le> 1" "sum_list ms + 1 \<le> 2" using m(2) sum by linarith+
  then have "m < 2 ^ 64" "sum_list ms + 1 < 2 ^ 64" by (auto elim!: le_less_trans)
  ultimately have "m = sum_list ms \<or> m = sum_list ms + 1"
    using of_nat_small_iff [OF assms(1)] small by blast
  then have "sum_list ms \<le> m" "m \<le> 1" using m(2) by linarith+
  with m(1) ms show ?thesis by blast
qed

theorem candidate_consistent_witness:
  "\<exists>m r ms. zp_party = enc Zp 1 r (of_nat m) \<and> m \<le> 1
    \<and> length ms = length [Some zp_ct]
    \<and> (\<forall>i<length [Some zp_ct]. \<exists>r. [Some zp_ct] ! i = Some (enc Zp 1 r (of_nat (ms ! i))))
    \<and> sum_list ms \<le> m"
proof (rule candidate_consistent [OF ristretto_Zp])
  define party_proof where "party_proof = (\<lambda>e :: scalar. \<lparr>A0 = Some (0 :: scalar), A1 = Some 0, B0 = Some 0, B1 = Some 0,
      E0 = Some 0, E1 = Some e, Z0 = Some 0, Z1 = Some (2 * e)\<rparr>)"
  define diff_proof where "diff_proof = (\<lambda>e :: scalar. \<lparr>A0 = Some (0 :: scalar), A1 = Some 0, B0 = Some 0, B1 = Some 0,
      E0 = Some e, E1 = Some 0, Z0 = Some e, Z1 = Some 0\<rparr>)"
  show "forked_binary Zp (\<lambda>_. [8]) binaryDomain zp_ctx 1 zp_party (party_proof 7) (party_proof 8)"
    using scalar_7_neq_8
    by (simp add: forked_binary_def verifyBinaryWithDomain_def checkBinaryStatement_def Context_validate_def zp_ctx_def zp_ct_def zp_party_def
        checkPublicKey_def checkCiphertext_def BinaryProof_check_def party_proof_def binaryChallenge_def Zp_simps)
  show "HomomorphicAdd [Some zp_ct] = Inr (Some zp_ct)"
    by (simp add: HomomorphicAdd_def zp_ct_def)
  show "forked_binary Zp (\<lambda>_. [8]) candidateSumDomain zp_ctx 1 zp_ct (proof1 7) (proof1 8)"
    by (rule fork1)
  show "forked_consistency Zp (\<lambda>_. [8]) zp_ctx 1 zp_party zp_ct (diff_proof 7) (diff_proof 8)"
    using scalar_7_neq_8
    by (simp add: forked_consistency_def proof_VerifyConsistency_def checkConsistencyStatement_def verifyBinaryWithDomain_def
        checkBinaryStatement_def Context_validate_def zp_ctx_def zp_ct_def zp_party_def checkPublicKey_def checkCiphertext_def BinaryProof_check_def
        homomorphicSubtract_def diff_proof_def binaryChallenge_def Zp_simps)
qed (use fork1 vector_fork1 in simp_all)

text \<open>
  Transcripts bind: the bytes hashed for a zero-or-one, candidate-sum or consistency proof
  determine the domain, the election, the ballot, the index, the key, the ciphertext and the
  commitments, so a proof verifies in no other context unless SHA-512 collides.
\<close>

theorem ballot_transcript_binding:
  assumes "ristretto R"
    and "length d < 2 ^ 32" "length (ElectionID ctx) < 2 ^ 32" "length (BallotID ctx) < 2 ^ 32"
    and "length d' < 2 ^ 32" "length (ElectionID ctx') < 2 ^ 32" "length (BallotID ctx') < 2 ^ 32"
    and "transcript d (binary_fields R ctx pk ct a0 b0 a1 b1) = transcript d' (binary_fields R ctx' pk' ct' a0' b0' a1' b1')"
  shows "d = d' \<and> ElectionID ctx = ElectionID ctx' \<and> BallotID ctx = BallotID ctx' \<and> Index ctx = Index ctx'
    \<and> pk = pk' \<and> the (C1 ct) = the (C1 ct') \<and> the (C2 ct) = the (C2 ct') \<and> [a0, b0, a1, b1] = [a0', b0', a1', b1']"
  using binary_transcript_inject [OF assms(1-7)] assms(8) by simp

theorem ballot_transcript_binding_witness:
  "binaryDomain = binaryDomain \<and> ElectionID zp_ctx = ElectionID zp_ctx \<and> BallotID zp_ctx = BallotID zp_ctx \<and> Index zp_ctx = Index zp_ctx
    \<and> (1 :: scalar) = 1 \<and> the (C1 (enc Zp 1 1 1)) = the (C1 (enc Zp 1 1 1)) \<and> the (C2 (enc Zp 1 1 1)) = the (C2 (enc Zp 1 1 1))
    \<and> [0 :: scalar, 0, 0, 0] = [0, 0, 0, 0]"
  by (rule ballot_transcript_binding [OF ristretto_Zp, where ct = "enc Zp 1 1 1" and ct' = "enc Zp 1 1 1"])
    (simp_all add: binaryDomain_def zp_ctx_def)

section \<open>Threshold decryption\<close>

text \<open>
  A share verifies against the commitments of a polynomial exactly when it is the value of
  the polynomial at the index: a dealer cannot hand out a wrong share, and (every commitment
  vector commits to some polynomial) cannot commit to more than the threshold's degree.
\<close>

theorem VerifyShare_exact:
  assumes "ristretto R" "valid_index i" "cs \<noteq> []"
  shows "VerifyShare R (Some s) i threshold (map (\<lambda>a. Some (smul R a (gen R))) cs)
    \<longleftrightarrow> threshold = int (length cs) \<and> s = peval cs (of_int i)"
proof (cases "threshold = int (length cs)")
  case True
  then show ?thesis using VerifyShare_iff [OF assms] by simp
next
  case False
  then show ?thesis by (simp add: VerifyShare_def)
qed

theorem VerifyShare_exact_witness:
  "VerifyShare Zp (Some 5) 1 2 (map (\<lambda>a. Some (smul Zp a (gen Zp))) [2, 3])"
  using VerifyShare_exact [OF ristretto_Zp, of 1 "[2, 3]" 5 2] by (simp add: valid_index_def)

text \<open>
  C17.  The key generation succeeds for every threshold \<open>1 \<le> t \<le> n\<close> and randomness; the
  participants have the indices 1 to \<open>n\<close>, each verification key belongs to its share, and the
  shares of any \<open>t\<close> participants interpolate to one secret whose public key is the election key.
\<close>

theorem RunDKG_correct:
  assumes "ristretto R" "checkThreshold (int t) (int n) = Inr ()"
  shows "\<exists>r x. RunDKG R (int t) (int n) tape = Inr r \<and> ElectionPublicKey r = smul R x (gen R)
    \<and> length (Participants r) = n
    \<and> (\<forall>i<n. ID (Participants r ! i) = int i + 1
          \<and> VerificationKey (Participants r ! i) = smul R (CombinedShare (Participants r ! i)) (gen R))
    \<and> (\<forall>js. distinct js \<and> length js = t \<and> (\<forall>j \<in> set js. j < n) \<longrightarrow>
          LagrangeInterpolate R (map (\<lambda>j. Some (CombinedShare (Participants r ! j))) js)
            (map (\<lambda>j. ID (Participants r ! j)) js) = Inr x)"
proof -
  from assms(2) have b: "0 < t" "n \<le> 4294967295" by (auto simp: checkThreshold_iff)
  obtain r F where r: "RunDKG R (int t) (int n) tape = Inr r" "length (Participants r) = n" "shares_polynomial R t F r"
    using RunDKG_shares [OF assms] by blast
  show ?thesis
  proof (intro exI [of _ r] exI [of _ "peval F 0"] conjI allI impI)
    fix js
    assume "distinct js \<and> length js = t \<and> (\<forall>j \<in> set js. j < n)"
    then show "LagrangeInterpolate R (map (\<lambda>j. Some (CombinedShare (Participants r ! j))) js)
        (map (\<lambda>j. ID (Participants r ! j)) js) = Inr (peval F 0)"
      using shares_polynomial_interpolate [OF assms(1) r(3) b(1)] r(2) b(2) by simp
  qed (use r in \<open>auto simp: shares_polynomial_def\<close>)
qed

theorem RunDKG_correct_witness:
  "\<exists>r x. RunDKG Zp 2 3 (\<lambda>_. 1) = Inr r \<and> ElectionPublicKey r = smul Zp x (gen Zp)
    \<and> LagrangeInterpolate Zp (map (\<lambda>j. Some (CombinedShare (Participants r ! j))) [0, 2]) (map (\<lambda>j. ID (Participants r ! j)) [0, 2]) = Inr x"
proof -
  have "checkThreshold (int 2) (int 3) = Inr ()" by (simp add: checkThreshold_iff)
  from RunDKG_correct [OF ristretto_Zp this, of "\<lambda>_. 1"] obtain r x where
    "RunDKG Zp (int 2) (int 3) (\<lambda>_. 1) = Inr r" "ElectionPublicKey r = smul Zp x (gen Zp)"
    "\<forall>js. distinct js \<and> length js = 2 \<and> (\<forall>j \<in> set js. j < 3) \<longrightarrow>
       LagrangeInterpolate Zp (map (\<lambda>j. Some (CombinedShare (Participants r ! j))) js) (map (\<lambda>j. ID (Participants r ! j)) js) = Inr x"
    by blast
  moreover from this(3) [rule_format, of "[0, 2]"] have
    "LagrangeInterpolate Zp [Some (CombinedShare (Participants r ! 0)), Some (CombinedShare (Participants r ! 2))]
       [ID (Participants r ! 0), ID (Participants r ! 2)] = Inr x" by simp
  ultimately show ?thesis by auto
qed

text \<open>
  C18.  What \<open>Combine\<close> returns is the plaintext, whoever made the partial decryptions: under
  verification keys that belong to the shares of a polynomial of degree below the threshold, if
  a decryption proof that verifies in the transcript of this slot and trustee can be forked
  (what the forking lemma gives for a hash that is a random oracle), the result is in range and
  the ciphertext encrypts it under the polynomial's value at 0.
\<close>

theorem Combine_sound:
  assumes "ristretto R" "length F \<le> t" "mx < 2 ^ 62"
    and "Combine R sc (Some ct) (map Some ps) keys (int t) mx = Inr m"
    and "\<forall>i v. keys i = Some v \<longrightarrow> v = Some (smul R (peval F (of_int i)) (gen R))"
    and "\<forall>p \<in> set ps. VerifyChaumPedersen R (partialContext R sc (TrusteeIndex p) (the (C2 ct))) (Some (gen R)) (C1 ct)
           (Some (smul R (peval F (of_int (TrusteeIndex p))) (gen R))) (D p) (Proof p) = Inr () \<longrightarrow>
         (\<exists>f q. forked_cp R f (partialContext R sc (TrusteeIndex p) (the (C2 ct))) (gen R) (the (C1 ct))
           (smul R (peval F (of_int (TrusteeIndex p))) (gen R)) (the (D p)) (the (Proof p)) q)"
  shows "0 \<le> m \<and> m \<le> mx \<and> the (C2 ct) = smul R (peval F 0) (the (C1 ct)) + smul R (of_nat (nat m)) (gen R)"
proof (rule Combine_plaintext [OF assms(1,4,3,2)])
  fix p
  assume p: "p \<in> set ps" "VerifyPartial R sc (Some ct) (Some p) (the (keys (TrusteeIndex p))) = Inr ()" "keys (TrusteeIndex p) \<noteq> None"
  with assms(5) have "keys (TrusteeIndex p) = Some (Some (smul R (peval F (of_int (TrusteeIndex p))) (gen R)))" by auto
  with p(2) have "VerifyChaumPedersen R (partialContext R sc (TrusteeIndex p) (the (C2 ct))) (Some (gen R)) (C1 ct)
      (Some (smul R (peval F (of_int (TrusteeIndex p))) (gen R))) (D p) (Proof p) = Inr ()"
    by (simp add: VerifyPartial_def split: if_splits)
  with assms(6) p(1) obtain f q where "forked_cp R f (partialContext R sc (TrusteeIndex p) (the (C2 ct))) (gen R) (the (C1 ct))
      (smul R (peval F (of_int (TrusteeIndex p))) (gen R)) (the (D p)) (the (Proof p)) q" by blast
  from forked_cp_equal_logs [OF assms(1) this] obtain x where
    "smul R (peval F (of_int (TrusteeIndex p))) (gen R) = smul R x (gen R)" "the (D p) = smul R x (the (C1 ct))" by blast
  then show "the (D p) = smul R (peval F (of_int (TrusteeIndex p))) (the (C1 ct))"
    by (simp add: smul_gen_inject [OF assms(1)])
qed

definition zp_slot :: SlotContext where
  "zp_slot = \<lparr>slot_ElectionID = ''e'', SlotIndex = 0, slot_TallyDigest = 0, SetCommitment = 0, SealedHead = 0\<rparr>"

text \<open>The proof that \<open>(1, 1, 1, 1)\<close> has equal logarithms, with commitments 0 and challenge \<open>e\<close>.\<close>

definition cp_proof1 :: "scalar \<Rightarrow> (scalar, scalar) ChaumPedersenProof" where
  "cp_proof1 e = \<lparr>cpU = Some 0, cpV = Some 0, cpZ = Some e\<rparr>"

definition zp_partial :: "(scalar, scalar) Partial" where
  "zp_partial = \<lparr>TrusteeIndex = 1, D = Some 1, Proof = Some (cp_proof1 7)\<rparr>"

lemma Combine_Zp: "Combine Zp zp_slot (Some zp_ct) [Some zp_partial] (\<lambda>_. Some (Some 1)) 1 5 = Inr 1"
proof -
  have "BabyStepGiantStep Zp (smul Zp (of_nat 1) (gen Zp)) 5 = 1"
    using BabyStepGiantStep_complete [OF ristretto_Zp, of 5 1] by simp
  moreover have "lagrangeAt Zp [1] 0 = Inr 1"
    using lagrangeAt_eq [OF ristretto_Zp, of "[1]" 0] by (simp add: valid_index_def lagrange0_def others_def)
  ultimately show ?thesis
    by (simp add: Combine_def VerifyPartial_def checkSlot_def zp_slot_def zp_ct_def zp_partial_def checkIndices_def checkIndex_def
        valid_index_def VerifyChaumPedersen_def checkCPStatement_def cp_proof1_def cpChallenge_def MultiScalarMult_def Zp_simps Let_def)
qed

theorem Combine_sound_witness:
  "0 \<le> (1 :: int) \<and> 1 \<le> (5 :: int) \<and> the (C2 zp_ct) = smul Zp (peval [1] 0) (the (C1 zp_ct)) + smul Zp (of_nat (nat 1)) (gen Zp)"
proof (rule Combine_sound [OF ristretto_Zp])
  show "Combine Zp zp_slot (Some zp_ct) (map Some [zp_partial]) (\<lambda>_. Some (Some 1)) (int 1) 5 = Inr 1" using Combine_Zp by simp
  show "\<forall>p \<in> set [zp_partial]. VerifyChaumPedersen Zp (partialContext Zp zp_slot (TrusteeIndex p) (the (C2 zp_ct))) (Some (gen Zp)) (C1 zp_ct)
        (Some (smul Zp (peval [1] (of_int (TrusteeIndex p))) (gen Zp))) (D p) (Proof p) = Inr () \<longrightarrow>
      (\<exists>f q. forked_cp Zp f (partialContext Zp zp_slot (TrusteeIndex p) (the (C2 zp_ct))) (gen Zp) (the (C1 zp_ct))
        (smul Zp (peval [1] (of_int (TrusteeIndex p))) (gen Zp)) (the (D p)) (the (Proof p)) q)"
    using scalar_7_neq_8
    by (auto simp: forked_cp_def VerifyChaumPedersen_def checkCPStatement_def zp_ct_def zp_partial_def cp_proof1_def
        cpChallenge_def Zp_simps intro!: exI [of _ "\<lambda>_. [8]"] exI [of _ "cp_proof1 8"])
qed (simp_all add: Zp_simps)

end
