(* ===== verification/Voter_Map.thy ===== *)
theory Voter_Map
  imports Merkle_Hash "HOL-Library.AList" "HOL-Library.List_Lexorder"
    "HOL-Library.Char_ord" "HOL-Library.Product_Lexorder"
begin

text \<open>
  The voter map of the collection service (\<open>collection/votermap/votermap.go\<close>,
  \<open>collection/store/postgres.go\<close>): which ballot of a voter is the active one, and the
  hash-chained history of the voter's submissions.  HMAC-SHA256 is a parameter.  The interface
  \<open>votermap.Store\<close> is the locale \<open>voter_store\<close>, over an abstraction that maps
  a voter to the list of the submissions; the in-memory store and the PostgreSQL store are its two
  interpretations.  A Go map is an association list with distinct keys, and what ranges over one
  takes the order from a parameter.  The columns keep times to the microsecond.
\<close>

section \<open>Rows of the history\<close>

type_synonym mac = "bytes \<Rightarrow> bytes \<Rightarrow> hash"

text \<open>An instant, in nanoseconds.\<close>

type_synonym instant = int

definition HashEGN :: "mac \<Rightarrow> string \<Rightarrow> bytes \<Rightarrow> string" where
  "HashEGN hmac egn key = hex_encode (hash_bytes (hmac key (bytes_of egn)))"

type_synonym Channel = string

definition ChannelOnline :: Channel where "ChannelOnline = ''online''"
definition ChannelInPerson :: Channel where "ChannelInPerson = ''in_person''"

record HistoryEntry =
  BallotID :: string
  he_Channel :: Channel
  SubmittedAt :: instant
  Seq :: int
  RowHash :: string

record OverrideChain =
  EgnHash :: string
  Submissions :: "HistoryEntry list"

definition ActiveBallotID :: "OverrideChain \<Rightarrow> string" where
  "ActiveBallotID c = (if Submissions c = [] then '''' else BallotID (last (Submissions c)))"

text \<open>\<open>fmt.Appendf(nil, "%s\x00%s\x00%s\x00%d", ...)\<close>.\<close>

definition row_data :: "string \<Rightarrow> string \<Rightarrow> string \<Rightarrow> int \<Rightarrow> string" where
  "row_data prevHash egnHash ballotID seq =
     prevHash @ [CHR 0x00] @ egnHash @ [CHR 0x00] @ ballotID @ [CHR 0x00] @ itoa seq"

definition ComputeRowHash :: "mac \<Rightarrow> bytes \<Rightarrow> string \<Rightarrow> string \<Rightarrow> string \<Rightarrow> int \<Rightarrow> string" where
  "ComputeRowHash hmac key prevHash egnHash ballotID seq =
     hex_encode (hash_bytes (hmac key (bytes_of (row_data prevHash egnHash ballotID seq))))"

lemma append_nul_inject:
  "CHR 0x00 \<notin> set a \<Longrightarrow> CHR 0x00 \<notin> set b \<Longrightarrow> a @ CHR 0x00 # x = b @ CHR 0x00 # y \<longleftrightarrow> a = b \<and> x = y"
  by (auto simp: append_eq_append_conv2 append_eq_Cons_conv Cons_eq_append_conv)

text \<open>The delimiters make the data of a row unambiguous, whatever the ballot ID holds.\<close>

lemma row_data_inject:
  assumes "CHR 0x00 \<notin> set p" "CHR 0x00 \<notin> set e" "CHR 0x00 \<notin> set p'" "CHR 0x00 \<notin> set e'"
  shows "row_data p e b n = row_data p' e' b' n' \<longleftrightarrow> p = p' \<and> e = e' \<and> b = b' \<and> n = n'"
proof -
  have "b @ CHR 0x00 # itoa n = b' @ CHR 0x00 # itoa n' \<longleftrightarrow> b = b' \<and> n = n'"
  proof
    assume "b @ CHR 0x00 # itoa n = b' @ CHR 0x00 # itoa n'"
    then have "rev (itoa n) @ CHR 0x00 # rev b = rev (itoa n') @ CHR 0x00 # rev b'"
      by (metis append.assoc append_Cons append_Nil rev.simps(2) rev_append)
    then have "rev (itoa n) = rev (itoa n') \<and> rev b = rev b'"
      by (subst (asm) append_nul_inject) (simp_all add: itoa_no_nul)
    then show "b = b' \<and> n = n'" by (simp add: itoa_inject)
  qed simp
  then show ?thesis
    using append_nul_inject [OF assms(1,3)] append_nul_inject [OF assms(2,4)] by (auto simp: row_data_def)
qed

section \<open>The in-memory store\<close>

datatype db_step = BeginTx | AdvisoryLock | FetchPrev | UpsertCTE | CommitTx
datatype store_error = DbError db_step | ConstraintViolation

record entry =
  e_BallotID :: string
  e_Channel :: Channel
  e_SubmittedAt :: instant

record MemoryStore =
  mapping :: "(string \<times> entry) list"
  history :: "(string \<times> HistoryEntry list) list"
  historyHMACKey :: bytes

definition NewMemoryStore :: "bytes \<Rightarrow> MemoryStore" where
  "NewMemoryStore key = \<lparr>mapping = [], history = [], historyHMACKey = key\<rparr>"

text \<open>Reading a Go map at a missing key gives the zero value, here the nil slice.\<close>

definition entries_of :: "MemoryStore \<Rightarrow> string \<Rightarrow> HistoryEntry list" where
  "entries_of ms egnHash = (case map_of (history ms) egnHash of None \<Rightarrow> [] | Some es \<Rightarrow> es)"

definition ms_Record ::
  "mac \<Rightarrow> MemoryStore \<Rightarrow> string \<Rightarrow> string \<Rightarrow> Channel \<Rightarrow> instant \<Rightarrow> store_error + string \<times> MemoryStore" where
  "ms_Record hmac ms egnHash ballotID channel submittedAt =
     (let prev = (case map_of (mapping ms) egnHash of None \<Rightarrow> '''' | Some e \<Rightarrow> e_BallotID e);
          mapping' = AList.update egnHash
            \<lparr>e_BallotID = ballotID, e_Channel = channel, e_SubmittedAt = submittedAt\<rparr> (mapping ms);
          entries = entries_of ms egnHash;
          prevHash = (if entries \<noteq> [] then RowHash (last entries) else '''');
          nextSeq = int (length entries) + 1;
          rowHash = ComputeRowHash hmac (historyHMACKey ms) prevHash egnHash ballotID nextSeq;
          history' = AList.update egnHash
            (entries @ [\<lparr>BallotID = ballotID, he_Channel = channel, SubmittedAt = submittedAt,
               Seq = nextSeq, RowHash = rowHash\<rparr>]) (history ms)
      in Inr (prev, ms\<lparr>mapping := mapping', history := history'\<rparr>))"

definition ms_GetOverrideHistory :: "MemoryStore \<Rightarrow> string \<Rightarrow> HistoryEntry list" where
  "ms_GetOverrideHistory ms egnHash = entries_of ms egnHash"

text \<open>The callback gets an accumulator; \<open>order\<close> is the order the map is ranged over.\<close>

definition ms_GetAllOverrideChains ::
  "((string \<times> HistoryEntry list) list \<Rightarrow> (string \<times> HistoryEntry list) list) \<Rightarrow> MemoryStore
    \<Rightarrow> (OverrideChain \<Rightarrow> 'a \<Rightarrow> 'e + 'a) \<Rightarrow> 'a \<Rightarrow> 'e + 'a" where
  "ms_GetAllOverrideChains order ms f =
     foldE (\<lambda>(egnHash, entries) a.
       if length entries < 2 then Inr a
       else f \<lparr>EgnHash = egnHash, Submissions = entries\<rparr> a) (reorder order (history ms))"

definition ms_GetActiveBallotID :: "MemoryStore \<Rightarrow> string \<Rightarrow> string option" where
  "ms_GetActiveBallotID ms egnHash = map_option e_BallotID (map_of (mapping ms) egnHash)"

definition ms_ActiveSet :: "((string \<times> entry) list \<Rightarrow> (string \<times> entry) list) \<Rightarrow> MemoryStore \<Rightarrow> string list" where
  "ms_ActiveSet order ms = map (\<lambda>(_, e). e_BallotID e) (reorder order (mapping ms))"

definition ms_Size :: "MemoryStore \<Rightarrow> nat" where
  "ms_Size ms = length (mapping ms)"

definition ms_HasVoted :: "MemoryStore \<Rightarrow> string \<Rightarrow> bool" where
  "ms_HasVoted ms egnHash = (map_of (mapping ms) egnHash \<noteq> None)"

section \<open>The PostgreSQL store\<close>

text \<open>
  The two tables of the migrations, the rows in the order of insertion.  A query without
  \<open>ORDER BY\<close> returns rows in an order that is a parameter.
\<close>

record voter_row =
  v_egn_hash :: string
  v_election_id :: string
  v_ballot_id :: string
  v_submitted_at :: instant
  v_channel :: Channel

record history_row =
  h_egn_hash :: string
  h_election_id :: string
  h_ballot_id :: string
  h_submitted_at :: instant
  h_channel :: Channel
  h_seq :: int
  h_row_hash :: string

record voter_db =
  voters :: "voter_row list"
  voter_ballot_history :: "history_row list"

record PostgresStore =
  ps_electionID :: string
  ps_historyHMACKey :: bytes

definition voter_rows :: "PostgresStore \<Rightarrow> voter_db \<Rightarrow> voter_row list" where
  "voter_rows s db = filter (\<lambda>r. v_election_id r = ps_electionID s) (voters db)"

definition select_voter :: "PostgresStore \<Rightarrow> voter_db \<Rightarrow> string \<Rightarrow> voter_row option" where
  "select_voter s db egnHash = find (\<lambda>r. v_egn_hash r = egnHash) (voter_rows s db)"

definition history_rows :: "PostgresStore \<Rightarrow> voter_db \<Rightarrow> string \<Rightarrow> history_row list" where
  "history_rows s db egnHash =
     filter (\<lambda>r. h_egn_hash r = egnHash \<and> h_election_id r = ps_electionID s) (voter_ballot_history db)"

text \<open>\<open>ORDER BY seq DESC LIMIT 1\<close>.\<close>

definition latest_history :: "PostgresStore \<Rightarrow> voter_db \<Rightarrow> string \<Rightarrow> history_row option" where
  "latest_history s db egnHash =
     (let rows = sort_key h_seq (history_rows s db egnHash) in if rows = [] then None else Some (last rows))"

text \<open>\<open>INSERT ... ON CONFLICT (egn_hash, election_id) DO UPDATE\<close>.\<close>

definition upsert_voter :: "voter_row \<Rightarrow> voter_row list \<Rightarrow> voter_row list" where
  "upsert_voter r rows =
     (let same = (\<lambda>q. v_egn_hash q = v_egn_hash r \<and> v_election_id q = v_election_id r) in
      if \<exists>q \<in> set rows. same q then map (\<lambda>q. if same q then r else q) rows else rows @ [r])"

text \<open>
  A \<open>TIMESTAMPTZ\<close> column keeps microseconds: the driver cuts the nanoseconds off.
\<close>

definition microseconds :: "instant \<Rightarrow> instant" where
  "microseconds t = t div 1000 * 1000"

text \<open>
  What the database refuses: text with a NUL byte, and what the constraints of the migrations
  exclude (the \<open>CHECK\<close> on the channel, the width of the \<open>INT\<close> column and the primary key of the
  history).  An ID too long for the index on \<open>ballot_id\<close> is a failing round trip.
\<close>

lemma text_ok_HashEGN: "text_ok (HashEGN hmac egn key)"
  by (simp add: text_ok_def HashEGN_def hex_encode_no_nul)

definition history_constraints :: "voter_db \<Rightarrow> history_row \<Rightarrow> bool" where
  "history_constraints db r \<longleftrightarrow>
     text_ok (h_egn_hash r) \<and> text_ok (h_ballot_id r)
     \<and> h_channel r \<in> {ChannelOnline, ChannelInPerson} \<and> h_seq r < 2 ^ 31
     \<and> (\<forall>q \<in> set (voter_ballot_history db).
          (h_egn_hash q, h_election_id q, h_seq q) \<noteq> (h_egn_hash r, h_election_id r, h_seq r))"

text \<open>
  \<open>PostgresStore.Record\<close>: the round trips can fail; a failing commit may still have been
  applied by the server, which \<open>applied\<close> says.  Every other early return rolls back.
\<close>

definition pg_Record ::
  "mac \<Rightarrow> PostgresStore \<Rightarrow> (db_step \<Rightarrow> bool) \<Rightarrow> bool \<Rightarrow> voter_db \<Rightarrow> string \<Rightarrow> string \<Rightarrow> Channel \<Rightarrow> instant
    \<Rightarrow> (store_error + string) \<times> voter_db" where
  "pg_Record hmac s fails applied db egnHash ballotID channel submittedAt =
     (if fails BeginTx then (Inl (DbError BeginTx), db)
      else if fails AdvisoryLock then (Inl (DbError AdvisoryLock), db)
      else if fails FetchPrev then (Inl (DbError FetchPrev), db)
      else
        let (prevHash, nextSeq) =
              (case latest_history s db egnHash of None \<Rightarrow> ('''', 1) | Some r \<Rightarrow> (h_row_hash r, h_seq r + 1));
            rowHash = ComputeRowHash hmac (ps_historyHMACKey s) prevHash egnHash ballotID nextSeq;
            prev = map_option v_ballot_id (select_voter s db egnHash);
            row = \<lparr>h_egn_hash = egnHash, h_election_id = ps_electionID s, h_ballot_id = ballotID,
                   h_submitted_at = microseconds submittedAt, h_channel = channel, h_seq = nextSeq, h_row_hash = rowHash\<rparr>;
            db' = \<lparr>voters = upsert_voter \<lparr>v_egn_hash = egnHash, v_election_id = ps_electionID s,
                      v_ballot_id = ballotID, v_submitted_at = microseconds submittedAt, v_channel = channel\<rparr> (voters db),
                   voter_ballot_history = voter_ballot_history db @ [row]\<rparr>
        in if fails UpsertCTE then (Inl (DbError UpsertCTE), db)
           else if \<not> history_constraints db row then (Inl ConstraintViolation, db)
           else if fails CommitTx then (Inl (DbError CommitTx), if applied then db' else db)
           else (Inr (case prev of None \<Rightarrow> '''' | Some b \<Rightarrow> b), db'))"

definition pg_GetActiveBallotID :: "PostgresStore \<Rightarrow> voter_db \<Rightarrow> string \<Rightarrow> string option" where
  "pg_GetActiveBallotID s db egnHash = map_option v_ballot_id (select_voter s db egnHash)"

definition pg_ActiveSet :: "(voter_row list \<Rightarrow> voter_row list) \<Rightarrow> PostgresStore \<Rightarrow> voter_db \<Rightarrow> string list" where
  "pg_ActiveSet order s db = map v_ballot_id (reorder order (voter_rows s db))"

definition pg_Size :: "PostgresStore \<Rightarrow> voter_db \<Rightarrow> nat" where
  "pg_Size s db = length (voter_rows s db)"

definition pg_HasVoted :: "PostgresStore \<Rightarrow> voter_db \<Rightarrow> string \<Rightarrow> bool" where
  "pg_HasVoted s db egnHash = (select_voter s db egnHash \<noteq> None)"

definition scan_history :: "history_row \<Rightarrow> HistoryEntry" where
  "scan_history r = \<lparr>BallotID = h_ballot_id r, he_Channel = h_channel r, SubmittedAt = h_submitted_at r,
     Seq = h_seq r, RowHash = h_row_hash r\<rparr>"

definition pg_GetOverrideHistory :: "PostgresStore \<Rightarrow> voter_db \<Rightarrow> string \<Rightarrow> HistoryEntry list" where
  "pg_GetOverrideHistory s db egnHash = map scan_history (sort_key h_seq (history_rows s db egnHash))"

text \<open>
  The query of \<open>GetAllOverrideChains\<close>: the voters with two rows or more, ordered by voter
  and sequence number; and the loop that cuts the rows into chains, where \<open>current\<close> starts as
  the zero value and the empty voter means that there is no chain yet.
\<close>

definition override_rows :: "PostgresStore \<Rightarrow> voter_db \<Rightarrow> history_row list" where
  "override_rows s db =
     sort_key (\<lambda>r. (h_egn_hash r, h_seq r))
       (filter (\<lambda>r. h_election_id r = ps_electionID s \<and> 2 \<le> length (history_rows s db (h_egn_hash r)))
         (voter_ballot_history db))"

fun stream_chains ::
  "(OverrideChain \<Rightarrow> 'a \<Rightarrow> 'e + 'a) \<Rightarrow> history_row list \<Rightarrow> OverrideChain \<Rightarrow> 'a \<Rightarrow> 'e + 'a" where
  "stream_chains f [] current a = (if EgnHash current \<noteq> '''' then f current a else Inr a)"
| "stream_chains f (r # rows) current a =
     bindE (if h_egn_hash r \<noteq> EgnHash current \<and> EgnHash current \<noteq> '''' then f current a else Inr a) (\<lambda>a'.
     let current' = (if h_egn_hash r \<noteq> EgnHash current then \<lparr>EgnHash = h_egn_hash r, Submissions = []\<rparr> else current)
     in stream_chains f rows (current'\<lparr>Submissions := Submissions current' @ [scan_history r]\<rparr>) a')"

definition pg_GetAllOverrideChains ::
  "PostgresStore \<Rightarrow> voter_db \<Rightarrow> (OverrideChain \<Rightarrow> 'a \<Rightarrow> 'e + 'a) \<Rightarrow> 'a \<Rightarrow> 'e + 'a" where
  "pg_GetAllOverrideChains s db f a =
     stream_chains f (override_rows s db) \<lparr>EgnHash = '''', Submissions = []\<rparr> a"

section \<open>The interface\<close>

text \<open>What a voter's history holds after one more submission.\<close>

definition next_entry :: "(string \<Rightarrow> string \<Rightarrow> string \<Rightarrow> int \<Rightarrow> string) \<Rightarrow> string \<Rightarrow> HistoryEntry list \<Rightarrow> string
    \<Rightarrow> Channel \<Rightarrow> instant \<Rightarrow> HistoryEntry" where
  "next_entry rowhash e es b c t =
     \<lparr>BallotID = b, he_Channel = c, SubmittedAt = t, Seq = int (length es) + 1,
      RowHash = rowhash (if es = [] then '''' else RowHash (last es)) e b (int (length es) + 1)\<rparr>"

definition active_of :: "HistoryEntry list \<Rightarrow> string option" where
  "active_of es = (if es = [] then None else Some (BallotID (last es)))"

text \<open>A list of calls of \<open>Record\<close>, stopping at the first error.\<close>

type_synonym submission = "string \<times> string \<times> Channel \<times> instant"

definition record_all ::
  "('st \<Rightarrow> string \<Rightarrow> string \<Rightarrow> Channel \<Rightarrow> instant \<Rightarrow> store_error + string \<times> 'st) \<Rightarrow> submission list \<Rightarrow> 'st
    \<Rightarrow> store_error + 'st" where
  "record_all rc = foldE (\<lambda>(e, b, c, t) st. bindE (rc st e b c t) (\<lambda>(_, st'). Inr st'))"

text \<open>The specification of the voter map: the last ballot of a voter among submissions.\<close>

definition submissions_of :: "submission list \<Rightarrow> string \<Rightarrow> (string \<times> Channel \<times> instant) list" where
  "submissions_of xs e = map snd (filter (\<lambda>x. fst x = e) xs)"

text \<open>Submissions with their times as a store keeps them.\<close>

definition stamped :: "(instant \<Rightarrow> instant) \<Rightarrow> (string \<times> Channel \<times> instant) list \<Rightarrow> (string \<times> Channel \<times> instant) list" where
  "stamped stamp = map (\<lambda>(b, c, t). (b, c, stamp t))"

definition last_ballot :: "submission list \<Rightarrow> string \<Rightarrow> string option" where
  "last_ballot xs e = (let ys = submissions_of xs e in if ys = [] then None else Some (fst (last ys)))"

text \<open>A chain whose rows hash to what they say, the loop of \<open>verifyHashChain\<close>.\<close>

fun verify_rows :: "(string \<Rightarrow> string \<Rightarrow> string \<Rightarrow> int \<Rightarrow> string) \<Rightarrow> string \<Rightarrow> string \<Rightarrow> HistoryEntry list \<Rightarrow> bool" where
  "verify_rows rowhash e prevHash [] = True"
| "verify_rows rowhash e prevHash (x # xs) =
     (RowHash x = rowhash prevHash e (BallotID x) (Seq x) \<and> verify_rows rowhash e (RowHash x) xs)"

lemma verify_rows_append:
  "verify_rows rh e p (xs @ [y]) \<longleftrightarrow>
     verify_rows rh e p xs \<and> RowHash y = rh (if xs = [] then p else RowHash (last xs)) e (BallotID y) (Seq y)"
  by (induction xs arbitrary: p) auto

locale voter_store =
  fixes rc :: "'st \<Rightarrow> string \<Rightarrow> string \<Rightarrow> Channel \<Rightarrow> instant \<Rightarrow> store_error + string \<times> 'st"
    and active :: "'st \<Rightarrow> string \<Rightarrow> string option"
    and active_set :: "'st \<Rightarrow> string list"
    and sz :: "'st \<Rightarrow> nat"
    and voted :: "'st \<Rightarrow> string \<Rightarrow> bool"
    and overrides :: "'st \<Rightarrow> string \<Rightarrow> HistoryEntry list"
    and rowhash :: "string \<Rightarrow> string \<Rightarrow> string \<Rightarrow> int \<Rightarrow> string"
    and stamp :: "instant \<Rightarrow> instant"
    and accepts :: "'st \<Rightarrow> string \<Rightarrow> string \<Rightarrow> Channel \<Rightarrow> bool"
    and inv :: "'st \<Rightarrow> bool"
    and subs :: "'st \<Rightarrow> string \<Rightarrow> HistoryEntry list"
  assumes rc_step: "inv st \<Longrightarrow> accepts st e b c \<Longrightarrow>
      \<exists>st'. rc st e b c t = Inr (case active_of (subs st e) of None \<Rightarrow> '''' | Some p \<Rightarrow> p, st') \<and> inv st'
        \<and> subs st' = (subs st)(e := subs st e @ [next_entry rowhash e (subs st e) b c (stamp t)])"
    and rc_refused: "inv st \<Longrightarrow> \<not> accepts st e b c \<Longrightarrow> \<exists>err. rc st e b c t = Inl err"
    and active_eq: "inv st \<Longrightarrow> active st e = active_of (subs st e)"
    and voters_finite: "inv st \<Longrightarrow> finite {e. subs st e \<noteq> []}"
    and active_set_eq: "inv st \<Longrightarrow>
      mset (active_set st) = image_mset (\<lambda>e. BallotID (last (subs st e))) (mset_set {e. subs st e \<noteq> []})"
    and sz_eq: "inv st \<Longrightarrow> sz st = card {e. subs st e \<noteq> []}"
    and voted_eq: "inv st \<Longrightarrow> voted st e \<longleftrightarrow> subs st e \<noteq> []"
    and overrides_eq: "inv st \<Longrightarrow> overrides st e = subs st e"
begin

lemma rc_ok:
  assumes "inv st" "rc st e b c t = Inr (p, st')"
  shows "inv st'" "subs st' = (subs st)(e := subs st e @ [next_entry rowhash e (subs st e) b c (stamp t)])"
    "p = (case active_of (subs st e) of None \<Rightarrow> '''' | Some q \<Rightarrow> q)" "accepts st e b c"
proof -
  show a: "accepts st e b c" using rc_refused [OF assms(1), of e b c t] assms(2) by fastforce
  from rc_step [OF assms(1) a, of t] assms(2)
  show "inv st'" "subs st' = (subs st)(e := subs st e @ [next_entry rowhash e (subs st e) b c (stamp t)])"
    "p = (case active_of (subs st e) of None \<Rightarrow> '''' | Some q \<Rightarrow> q)"
    by simp_all
qed

lemma rc_valid:
  assumes "inv st" "rc st e b c t = Inr (p, st')" "\<And>v. verify_rows rowhash v '''' (subs st v)"
  shows "verify_rows rowhash v '''' (subs st' v)"
  using assms(3) by (simp add: rc_ok(2) [OF assms(1,2)] verify_rows_append next_entry_def)

lemma record_all_ok:
  assumes "inv st" "record_all rc xs st = Inr st'"
  shows "inv st' \<and> map (\<lambda>x. (BallotID x, he_Channel x, SubmittedAt x)) (subs st' e)
      = map (\<lambda>x. (BallotID x, he_Channel x, SubmittedAt x)) (subs st e) @ stamped stamp (submissions_of xs e)"
  using assms
proof (induction xs arbitrary: st)
  case (Cons x xs)
  obtain v b c t where x: "x = (v, b, c, t)" by (cases x) auto
  from Cons.prems(2) obtain p st1 where st1: "rc st v b c t = Inr (p, st1)" "record_all rc xs st1 = Inr st'"
    by (auto simp: record_all_def x)
  from Cons.IH [OF rc_ok(1) [OF Cons.prems(1) st1(1)] st1(2)] show ?case
    by (auto simp: rc_ok(2) [OF Cons.prems(1) st1(1)] x next_entry_def submissions_of_def stamped_def)
qed (simp add: record_all_def submissions_of_def stamped_def)

lemma record_all_valid:
  assumes "inv st" "record_all rc xs st = Inr st'" "\<And>v. verify_rows rowhash v '''' (subs st v)"
  shows "verify_rows rowhash v '''' (subs st' v)"
  using assms
proof (induction xs arbitrary: st)
  case (Cons x xs)
  obtain u b c t where x: "x = (u, b, c, t)" by (cases x) auto
  from Cons.prems(2) obtain p st1 where st1: "rc st u b c t = Inr (p, st1)" "record_all rc xs st1 = Inr st'"
    by (auto simp: record_all_def x)
  show ?case
    using Cons.IH [OF rc_ok(1) [OF Cons.prems(1) st1(1)] st1(2)] rc_valid [OF Cons.prems(1) st1(1) Cons.prems(3)] by blast
qed (simp add: record_all_def)

text \<open>After submissions to an empty store, everything it reports is a function of the submissions.\<close>

lemma record_all_reports:
  assumes "inv st0" "\<And>e. subs st0 e = []" "record_all rc xs st0 = Inr st"
  shows "active st e = last_ballot xs e" "voted st e \<longleftrightarrow> e \<in> fst ` set xs"
    "sz st = card (fst ` set xs)"
    "mset (active_set st) = image_mset (the \<circ> last_ballot xs) (mset_set (fst ` set xs))"
    "verify_rows rowhash e '''' (overrides st e)"
    "map (\<lambda>x. (BallotID x, he_Channel x, SubmittedAt x)) (overrides st e) = stamped stamp (submissions_of xs e)"
proof -
  have i: "inv st" and h: "map (\<lambda>x. (BallotID x, he_Channel x, SubmittedAt x)) (subs st e) = stamped stamp (submissions_of xs e)" for e
    using record_all_ok [OF assms(1,3)] assms(2) by auto
  have ne: "subs st e = [] \<longleftrightarrow> submissions_of xs e = []" for e
    using h [of e] by (auto simp: stamped_def)
  have dom: "{e. subs st e \<noteq> []} = fst ` set xs"
    by (force simp: ne submissions_of_def filter_empty_conv)
  have last: "last_ballot xs e = active_of (subs st e)" for e
  proof (cases "subs st e = []")
    case False
    then have "last (stamped stamp (submissions_of xs e)) = (\<lambda>x. (BallotID x, he_Channel x, SubmittedAt x)) (last (subs st e))"
      using last_map [of "subs st e" "\<lambda>x. (BallotID x, he_Channel x, SubmittedAt x)"] unfolding h by simp
    then have "fst (last (submissions_of xs e)) = BallotID (last (subs st e))"
      using False by (simp add: stamped_def ne last_map case_prod_beta)
    with False show ?thesis by (simp add: last_ballot_def active_of_def Let_def ne)
  qed (simp add: last_ballot_def active_of_def Let_def ne)
  show "active st e = last_ballot xs e" using last active_eq [OF i] by simp
  show "voted st e \<longleftrightarrow> e \<in> fst ` set xs" using voted_eq [OF i] dom by auto
  show "sz st = card (fst ` set xs)" using sz_eq [OF i] dom by simp
  have "BallotID (last (subs st e)) = the (last_ballot xs e)" if "e \<in> {e. subs st e \<noteq> []}" for e
    using that by (simp add: last active_of_def)
  then show "mset (active_set st) = image_mset (the \<circ> last_ballot xs) (mset_set (fst ` set xs))"
    unfolding active_set_eq [OF i] dom [symmetric]
    by (intro image_mset_cong) (simp add: elem_mset_set [OF voters_finite [OF i]])
  show "verify_rows rowhash e '''' (overrides st e)"
    using record_all_valid [OF assms(1,3)] assms(2) overrides_eq [OF i] by simp
  show "map (\<lambda>x. (BallotID x, he_Channel x, SubmittedAt x)) (overrides st e) = stamped stamp (submissions_of xs e)"
    using h overrides_eq [OF i] by simp
qed

end

section \<open>The in-memory store implements the interface\<close>

definition ms_inv :: "bytes \<Rightarrow> MemoryStore \<Rightarrow> bool" where
  "ms_inv key ms \<longleftrightarrow> distinct (map fst (mapping ms)) \<and> distinct (map fst (history ms)) \<and> historyHMACKey ms = key
     \<and> (\<forall>e. map_option e_BallotID (map_of (mapping ms) e) = active_of (entries_of ms e))
     \<and> (\<forall>e. map_of (history ms) e \<noteq> Some [])"

lemma NewMemoryStore_empty [simp]: "ms_inv key (NewMemoryStore key)" "entries_of (NewMemoryStore key) e = []"
  by (simp_all add: ms_inv_def NewMemoryStore_def entries_of_def active_of_def)

lemma active_of_eq_None [simp]: "active_of es = None \<longleftrightarrow> es = []" "None = active_of es \<longleftrightarrow> es = []"
  by (auto simp: active_of_def)

lemma active_of_Nil [simp]: "active_of [] = None"
  by (simp add: active_of_def)

lemma active_of_snoc [simp]: "active_of (es @ [next_entry rh e es' b c t]) = Some b"
  by (simp add: active_of_def next_entry_def)

lemma ms_Record_step:
  assumes "ms_inv key ms"
  obtains ms' where "ms_Record hmac ms e b c t = Inr (case active_of (entries_of ms e) of None \<Rightarrow> '''' | Some p \<Rightarrow> p, ms')"
    "ms_inv key ms'"
    "entries_of ms' = (entries_of ms)(e := entries_of ms e @ [next_entry (ComputeRowHash hmac key) e (entries_of ms e) b c t])"
proof -
  let ?new = "entries_of ms e @ [next_entry (ComputeRowHash hmac key) e (entries_of ms e) b c t]"
  let ?ms' = "ms\<lparr>mapping := AList.update e \<lparr>e_BallotID = b, e_Channel = c, e_SubmittedAt = t\<rparr> (mapping ms),
    history := AList.update e ?new (history ms)\<rparr>"
  have key: "historyHMACKey ms = key" and active: "\<And>v. map_option e_BallotID (map_of (mapping ms) v) = active_of (entries_of ms v)"
    using assms by (auto simp: ms_inv_def)
  have prev: "(case map_of (mapping ms) e of None \<Rightarrow> '''' | Some x \<Rightarrow> e_BallotID x)
      = (case active_of (entries_of ms e) of None \<Rightarrow> '''' | Some p \<Rightarrow> p)"
    by (simp flip: active split: option.split)
  have "ms_Record hmac ms e b c t = Inr (case active_of (entries_of ms e) of None \<Rightarrow> '''' | Some p \<Rightarrow> p, ?ms')"
    by (simp add: ms_Record_def Let_def prev next_entry_def key)
  moreover have entries: "entries_of ?ms' = (entries_of ms)(e := ?new)"
    by (auto simp: entries_of_def fun_eq_iff update_conv)
  moreover have "ms_inv key ?ms'"
    using assms unfolding ms_inv_def entries by (auto simp: distinct_update update_conv)
  ultimately show ?thesis using that by blast
qed

lemma map_of_distinct_mset:
  assumes "distinct (map fst xs)"
  shows "mset xs = image_mset (\<lambda>k. (k, the (map_of xs k))) (mset_set (fst ` set xs))"
  using assms
proof (induction xs)
  case (Cons x xs)
  have "image_mset (\<lambda>k. (k, the (map_of (x # xs) k))) (mset_set (fst ` set xs))
      = image_mset (\<lambda>k. (k, the (map_of xs k))) (mset_set (fst ` set xs))"
    using Cons.prems by (cases x) (force intro!: image_mset_cong)
  with Cons show ?case by simp
qed simp

lemma ms_voters:
  assumes "ms_inv key ms"
  shows "{e. entries_of ms e \<noteq> []} = fst ` set (mapping ms)"
proof -
  have "entries_of ms e = [] \<longleftrightarrow> map_of (mapping ms) e = None" for e
    using assms by (metis active_of_eq_None(1) map_option_is_None ms_inv_def)
  then show ?thesis by (auto simp: map_of_eq_None_iff)
qed

interpretation ms: voter_store "ms_Record hmac" ms_GetActiveBallotID "ms_ActiveSet order" ms_Size ms_HasVoted
    ms_GetOverrideHistory "ComputeRowHash hmac key" "\<lambda>t. t" "\<lambda>_ _ _ _. True" "ms_inv key" entries_of
  for hmac key order
proof unfold_locales
  fix st e b c t
  assume inv: "ms_inv key st"
  show "\<exists>st'. ms_Record hmac st e b c t = Inr (case active_of (entries_of st e) of None \<Rightarrow> '''' | Some p \<Rightarrow> p, st')
      \<and> ms_inv key st' \<and> entries_of st' = (entries_of st)
          (e := entries_of st e @ [next_entry (ComputeRowHash hmac key) e (entries_of st e) b c t])"
    by (rule ms_Record_step [OF inv]) blast
  show "ms_GetActiveBallotID st e = active_of (entries_of st e)"
    using inv by (simp add: ms_GetActiveBallotID_def ms_inv_def)
  show "finite {e. entries_of st e \<noteq> []}" by (simp add: ms_voters [OF inv])
  show "ms_Size st = card {e. entries_of st e \<noteq> []}"
    using inv distinct_card [of "map fst (mapping st)"] by (simp add: ms_voters [OF inv] ms_Size_def ms_inv_def)
  show "ms_HasVoted st e \<longleftrightarrow> entries_of st e \<noteq> []"
    using inv unfolding ms_HasVoted_def ms_inv_def by (metis active_of_eq_None(1) map_option_is_None)
  show "ms_GetOverrideHistory st e = entries_of st e" by (simp add: ms_GetOverrideHistory_def)
  have "e_BallotID (the (map_of (mapping st) v)) = BallotID (last (entries_of st v))" if "v \<in> fst ` set (mapping st)" for v
  proof -
    from that obtain x where x: "map_of (mapping st) v = Some x" by (metis map_of_eq_None_iff not_None_eq)
    with inv have "active_of (entries_of st v) = Some (e_BallotID x)" by (metis ms_inv_def option.map(2))
    with x show ?thesis by (auto simp: active_of_def split: if_splits)
  qed
  then have *: "image_mset (\<lambda>v. e_BallotID (the (map_of (mapping st) v))) (mset_set (fst ` set (mapping st)))
      = image_mset (\<lambda>e. BallotID (last (entries_of st e))) (mset_set (fst ` set (mapping st)))"
    by (intro image_mset_cong) simp
  have "mset (ms_ActiveSet order st) = image_mset (\<lambda>(_, e). e_BallotID e) (mset (mapping st))"
    by (simp add: ms_ActiveSet_def)
  also have "\<dots> = image_mset (\<lambda>v. e_BallotID (the (map_of (mapping st) v))) (mset_set (fst ` set (mapping st)))"
    using inv by (subst map_of_distinct_mset) (simp_all add: ms_inv_def image_mset.compositionality comp_def)
  finally show "mset (ms_ActiveSet order st)
      = image_mset (\<lambda>e. BallotID (last (entries_of st e))) (mset_set {e. entries_of st e \<noteq> []})"
    unfolding ms_voters [OF inv] * .
qed simp

section \<open>The PostgreSQL store implements the interface\<close>

definition pg_put ::
  "mac \<Rightarrow> PostgresStore \<Rightarrow> voter_db \<Rightarrow> string \<Rightarrow> string \<Rightarrow> Channel \<Rightarrow> instant \<Rightarrow> store_error + string \<times> voter_db" where
  "pg_put hmac s db e b c t =
     (case pg_Record hmac s (\<lambda>_. False) False db e b c t of (Inl err, _) \<Rightarrow> Inl err | (Inr p, db') \<Rightarrow> Inr (p, db'))"

definition pg_subs :: "PostgresStore \<Rightarrow> voter_db \<Rightarrow> string \<Rightarrow> HistoryEntry list" where
  "pg_subs s db e = map scan_history (history_rows s db e)"

definition pg_accepts :: "PostgresStore \<Rightarrow> voter_db \<Rightarrow> string \<Rightarrow> string \<Rightarrow> Channel \<Rightarrow> bool" where
  "pg_accepts s db e b c \<longleftrightarrow> text_ok e \<and> text_ok b \<and> c \<in> {ChannelOnline, ChannelInPerson} \<and> int (length (history_rows s db e)) + 1 < 2 ^ 31"

definition pg_inv :: "PostgresStore \<Rightarrow> voter_db \<Rightarrow> bool" where
  "pg_inv s db \<longleftrightarrow>
     (\<forall>e. map h_seq (history_rows s db e) = map int [1..<Suc (length (history_rows s db e))])
     \<and> distinct (map v_egn_hash (voter_rows s db))
     \<and> (\<forall>e. map_option v_ballot_id (select_voter s db e) = active_of (pg_subs s db e))"

lemma pg_inv_empty [simp]:
  "pg_inv s \<lparr>voters = [], voter_ballot_history = []\<rparr>" "pg_subs s \<lparr>voters = [], voter_ballot_history = []\<rparr> e = []"
  by (simp_all add: pg_inv_def pg_subs_def history_rows_def voter_rows_def select_voter_def)

lemma pg_subs_Nil [simp]: "pg_subs s db e = [] \<longleftrightarrow> history_rows s db e = []"
  by (simp add: pg_subs_def)

lemma filter_upsert:
  "v_election_id r = eid \<Longrightarrow> filter (\<lambda>q. v_election_id q = eid) (upsert_voter r rows) =
     (let xs = filter (\<lambda>q. v_election_id q = eid) rows in
      if \<exists>q \<in> set xs. v_egn_hash q = v_egn_hash r then map (\<lambda>q. if v_egn_hash q = v_egn_hash r then r else q) xs
      else xs @ [r])"
proof -
  assume r: "v_election_id r = eid"
  let ?f = "\<lambda>q. if v_egn_hash q = v_egn_hash r \<and> v_election_id q = v_election_id r then r else q"
  let ?g = "\<lambda>q. if v_egn_hash q = v_egn_hash r then r else q"
  have "map ?f (filter (\<lambda>q. v_election_id q = eid) rows) = map ?g (filter (\<lambda>q. v_election_id q = eid) rows)"
    using r by (intro map_cong) auto
  moreover have "(\<lambda>q. v_election_id (?f q) = eid) = (\<lambda>q. v_election_id q = eid)"
    using r by auto
  ultimately show ?thesis
    using r by (auto simp: upsert_voter_def Let_def filter_map comp_def)
qed

lemma find_replace:
  "find (\<lambda>q. v_egn_hash q = e) (map (\<lambda>q. if v_egn_hash q = v_egn_hash r then r else q) xs) =
     (if e = v_egn_hash r then (if \<exists>q \<in> set xs. v_egn_hash q = v_egn_hash r then Some r else None)
      else find (\<lambda>q. v_egn_hash q = e) xs)"
  by (induction xs) auto

lemma find_key: "q \<in> set xs \<Longrightarrow> distinct (map f xs) \<Longrightarrow> find (\<lambda>r. f r = f q) xs = Some q"
  by (induction xs) auto

lemma find_snoc: "find P (xs @ [x]) = (case find P xs of None \<Rightarrow> if P x then Some x else None | Some y \<Rightarrow> Some y)"
  by (induction xs) auto

lemma select_upsert:
  assumes "v_election_id r = ps_electionID s" "voters db' = upsert_voter r (voters db)"
  shows "select_voter s db' e = (if e = v_egn_hash r then Some r else select_voter s db e)"
    and "distinct (map v_egn_hash (voter_rows s db)) \<Longrightarrow> distinct (map v_egn_hash (voter_rows s db'))"
proof -
  have rows: "voter_rows s db' =
     (if \<exists>q \<in> set (voter_rows s db). v_egn_hash q = v_egn_hash r
      then map (\<lambda>q. if v_egn_hash q = v_egn_hash r then r else q) (voter_rows s db) else voter_rows s db @ [r])"
    unfolding voter_rows_def assms(2) filter_upsert [OF assms(1)] by (simp only: Let_def)
  show "select_voter s db' e = (if e = v_egn_hash r then Some r else select_voter s db e)"
  proof (cases "\<exists>q \<in> set (voter_rows s db). v_egn_hash q = v_egn_hash r")
    case True
    then show ?thesis by (simp add: select_voter_def rows find_replace)
  next
    case False
    then have "find (\<lambda>q. v_egn_hash q = v_egn_hash r) (voter_rows s db) = None"
      by (simp add: find_None_iff)
    with False show ?thesis by (simp add: select_voter_def rows find_snoc split: option.split)
  qed
  have "map v_egn_hash (map (\<lambda>q. if v_egn_hash q = v_egn_hash r then r else q) xs) = map v_egn_hash xs" for xs
    by (induction xs) auto
  note same = this
  show "distinct (map v_egn_hash (voter_rows s db)) \<Longrightarrow> distinct (map v_egn_hash (voter_rows s db'))"
    unfolding rows by (auto simp del: map_map simp: same)
qed

lemma history_sorted:
  assumes "pg_inv s db"
  shows "sort_key h_seq (history_rows s db e) = history_rows s db e"
    and "history_rows s db e \<noteq> [] \<Longrightarrow> h_seq (last (history_rows s db e)) = int (length (history_rows s db e))"
    and "q \<in> set (history_rows s db e) \<Longrightarrow> h_seq q \<le> int (length (history_rows s db e))"
proof -
  have seqs: "map h_seq (history_rows s db e) = map int [1..<Suc (length (history_rows s db e))]"
    using assms by (simp add: pg_inv_def)
  show "sort_key h_seq (history_rows s db e) = history_rows s db e"
    by (rule sort_key_id_if_sorted) (simp add: seqs sorted_wrt_map del: upt_Suc)
  show "history_rows s db e \<noteq> [] \<Longrightarrow> h_seq (last (history_rows s db e)) = int (length (history_rows s db e))"
  proof -
    assume ne: "history_rows s db e \<noteq> []"
    have "last (map h_seq (history_rows s db e)) = last (map int [1..<Suc (length (history_rows s db e))])"
      by (simp only: seqs)
    with ne show ?thesis by (simp add: last_map Suc_le_eq)
  qed
  show "h_seq q \<le> int (length (history_rows s db e))" if "q \<in> set (history_rows s db e)"
    using arg_cong [OF seqs, of set] that by force
qed

lemma pg_GetOverrideHistory_eq: "pg_inv s db \<Longrightarrow> pg_GetOverrideHistory s db e = pg_subs s db e"
  by (simp add: pg_GetOverrideHistory_def pg_subs_def history_sorted)

lemma latest_history_eq:
  assumes "pg_inv s db"
  shows "(case latest_history s db e of None \<Rightarrow> ('''', 1) | Some r \<Rightarrow> (h_row_hash r, h_seq r + 1))
    = (if pg_subs s db e = [] then '''' else RowHash (last (pg_subs s db e)), int (length (pg_subs s db e)) + 1)"
  using history_sorted [OF assms, where e = e]
  by (auto simp: latest_history_def Let_def pg_subs_def last_map scan_history_def)

lemma pg_put_step:
  assumes "pg_inv s db" "pg_accepts s db e b c"
  obtains db' where "pg_put hmac s db e b c t = Inr (case active_of (pg_subs s db e) of None \<Rightarrow> '''' | Some p \<Rightarrow> p, db')"
    "pg_inv s db'"
    "pg_subs s db' = (pg_subs s db)(e := pg_subs s db e @
       [next_entry (ComputeRowHash hmac (ps_historyHMACKey s)) e (pg_subs s db e) b c (microseconds t)])"
proof -
  define new where "new = next_entry (ComputeRowHash hmac (ps_historyHMACKey s)) e (pg_subs s db e) b c (microseconds t)"
  let ?row = "\<lparr>h_egn_hash = e, h_election_id = ps_electionID s, h_ballot_id = b, h_submitted_at = microseconds t, h_channel = c,
    h_seq = Seq new, h_row_hash = RowHash new\<rparr>"
  let ?voter = "\<lparr>v_egn_hash = e, v_election_id = ps_electionID s, v_ballot_id = b, v_submitted_at = microseconds t, v_channel = c\<rparr>"
  let ?db' = "\<lparr>voters = upsert_voter ?voter (voters db), voter_ballot_history = voter_ballot_history db @ [?row]\<rparr>"
  have active: "\<And>v. map_option v_ballot_id (select_voter s db v) = active_of (pg_subs s db v)"
    and seqs: "\<And>v. map h_seq (history_rows s db v) = map int [1..<Suc (length (history_rows s db v))]"
    and dist: "distinct (map v_egn_hash (voter_rows s db))"
    using assms(1) by (auto simp: pg_inv_def)
  have len: "length (pg_subs s db e) = length (history_rows s db e)" by (simp add: pg_subs_def)
  have "history_constraints db ?row"
    using assms(2) history_sorted(3) [OF assms(1)]
    by (fastforce simp: history_constraints_def pg_accepts_def new_def next_entry_def len history_rows_def)
  then have "pg_put hmac s db e b c t = Inr (case active_of (pg_subs s db e) of None \<Rightarrow> '''' | Some p \<Rightarrow> p, ?db')"
    unfolding pg_put_def pg_Record_def latest_history_eq [OF assms(1)] active by (simp add: new_def next_entry_def)
  moreover have rows: "history_rows s \<lparr>voters = vs, voter_ballot_history = voter_ballot_history db @ [?row]\<rparr> v
      = history_rows s db v @ (if v = e then [?row] else [])" for v vs
    by (simp add: history_rows_def)
  moreover have subs: "pg_subs s ?db' = (pg_subs s db)(e := pg_subs s db e @ [new])"
  proof
    show "pg_subs s ?db' v = ((pg_subs s db)(e := pg_subs s db e @ [new])) v" for v
      unfolding pg_subs_def rows by (simp add: scan_history_def new_def next_entry_def)
  qed
  moreover have "pg_inv s ?db'"
    unfolding pg_inv_def
  proof (intro conjI allI)
    fix v
    show "map h_seq (history_rows s ?db' v) = map int [1..<Suc (length (history_rows s ?db' v))]"
      unfolding rows using seqs [of v] by (simp add: new_def next_entry_def len)
    show "distinct (map v_egn_hash (voter_rows s ?db'))"
      using select_upsert(2) [of ?voter s ?db' db] dist by simp
    show "map_option v_ballot_id (select_voter s ?db' v) = active_of (pg_subs s ?db' v)"
      unfolding subs using select_upsert(1) [of ?voter s ?db' db v] active [of v] by (simp add: new_def)
  qed
  ultimately show ?thesis using that unfolding new_def by blast
qed

interpretation pg: voter_store "pg_put hmac s" "pg_GetActiveBallotID s" "pg_ActiveSet order s" "pg_Size s" "pg_HasVoted s"
    "pg_GetOverrideHistory s" "ComputeRowHash hmac (ps_historyHMACKey s)" microseconds "pg_accepts s" "pg_inv s" "pg_subs s"
  for hmac s order
proof unfold_locales
  fix db e b c t
  assume inv: "pg_inv s db"
  have active: "map_option v_ballot_id (select_voter s db v) = active_of (pg_subs s db v)" for v
    using inv by (simp add: pg_inv_def)
  have dist: "distinct (map v_egn_hash (voter_rows s db))" using inv by (simp add: pg_inv_def)
  have none: "select_voter s db v = None \<longleftrightarrow> pg_subs s db v = []" for v
    using active [of v] by (cases "select_voter s db v") (auto simp: active_of_def split: if_splits)
  then have "pg_subs s db v = [] \<longleftrightarrow> (\<forall>q \<in> set (voter_rows s db). v_egn_hash q \<noteq> v)" for v
    by (auto simp: find_None_iff simp flip: none simp: select_voter_def)
  then have dom: "{v. pg_subs s db v \<noteq> []} = v_egn_hash ` set (voter_rows s db)" by blast
  show "pg_accepts s db e b c \<Longrightarrow> \<exists>db'. pg_put hmac s db e b c t = Inr (case active_of (pg_subs s db e) of None \<Rightarrow> '''' | Some p \<Rightarrow> p, db')
      \<and> pg_inv s db' \<and> pg_subs s db' = (pg_subs s db)(e := pg_subs s db e @
          [next_entry (ComputeRowHash hmac (ps_historyHMACKey s)) e (pg_subs s db e) b c (microseconds t)])"
    by (rule pg_put_step [OF inv]) auto
  show "\<not> pg_accepts s db e b c \<Longrightarrow> \<exists>err. pg_put hmac s db e b c t = Inl err"
    unfolding pg_put_def pg_Record_def latest_history_eq [OF inv]
    by (auto simp: history_constraints_def pg_accepts_def pg_subs_def)
  show "pg_GetActiveBallotID s db e = active_of (pg_subs s db e)" by (simp add: pg_GetActiveBallotID_def active)
  show "finite {e. pg_subs s db e \<noteq> []}" unfolding dom by simp
  show "pg_Size s db = card {e. pg_subs s db e \<noteq> []}"
    unfolding dom using distinct_card [OF dist] by (simp add: pg_Size_def)
  show "pg_HasVoted s db e \<longleftrightarrow> pg_subs s db e \<noteq> []"
    unfolding pg_HasVoted_def by (simp add: none)
  show "pg_GetOverrideHistory s db e = pg_subs s db e" by (rule pg_GetOverrideHistory_eq [OF inv])
  have ballot: "v_ballot_id q = BallotID (last (pg_subs s db (v_egn_hash q)))" if "q \<in> set (voter_rows s db)" for q
  proof -
    have "select_voter s db (v_egn_hash q) = Some q"
      unfolding select_voter_def by (rule find_key [OF that dist])
    with active [of "v_egn_hash q"] show ?thesis by (auto simp: active_of_def split: if_splits)
  qed
  have "mset (pg_ActiveSet order s db) = image_mset v_ballot_id (mset (voter_rows s db))"
    by (simp add: pg_ActiveSet_def)
  also have "\<dots> = image_mset (\<lambda>e. BallotID (last (pg_subs s db e))) (image_mset v_egn_hash (mset (voter_rows s db)))"
    unfolding image_mset.compositionality by (intro image_mset_cong) (simp add: ballot)
  also have "image_mset v_egn_hash (mset (voter_rows s db)) = mset_set {e. pg_subs s db e \<noteq> []}"
    unfolding dom using mset_set_set [OF dist] by simp
  finally show "mset (pg_ActiveSet order s db)
      = image_mset (\<lambda>e. BallotID (last (pg_subs s db e))) (mset_set {e. pg_subs s db e \<noteq> []})" .
qed

section \<open>Override chains\<close>

text \<open>
  The interface \<open>AuditStore\<close>: the callback runs over one chain for every voter with two
  submissions or more, in some order, and stops at the first error.
\<close>

definition override_chains :: "(string \<Rightarrow> HistoryEntry list) \<Rightarrow> OverrideChain set" where
  "override_chains h = {\<lparr>EgnHash = e, Submissions = h e\<rparr> | e. 2 \<le> length (h e)}"

locale audit_store = voter_store +
  fixes for_each :: "'st \<Rightarrow> (OverrideChain \<Rightarrow> 'b list \<Rightarrow> 'c + 'b list) \<Rightarrow> 'b list \<Rightarrow> 'c + 'b list"
  assumes for_each_chain: "inv st \<Longrightarrow> subs st '''' = [] \<Longrightarrow>
      \<exists>cs. distinct (map EgnHash cs) \<and> set cs = override_chains (subs st) \<and> (\<forall>f a. for_each st f a = foldE f cs a)"
begin

text \<open>A callback that collects a function of each chain either fails or collects all of them.\<close>

lemma for_each_collect:
  assumes "inv st" "subs st '''' = []" "\<And>c acc. f c acc = bindE (g c) (\<lambda>y. Inr (acc @ [y]))"
  obtains cs where "distinct (map EgnHash cs)" "set cs = override_chains (subs st)" "for_each st f [] = mapE g cs"
proof -
  obtain cs where cs: "distinct (map EgnHash cs)" "set cs = override_chains (subs st)"
    "\<And>f a. for_each st f a = foldE f cs a"
    using for_each_chain [OF assms(1,2)] by blast
  have "for_each st f [] = bindE (mapE g cs) (\<lambda>ys. Inr ([] @ ys))"
    unfolding cs(3) by (rule foldE_collect) (rule assms(3))
  then have "for_each st f [] = mapE g cs" by (cases "mapE g cs") simp_all
  with cs that show ?thesis by blast
qed

end

lemma foldE_filter: "foldE (\<lambda>x a. if P x then Inr a else f x a) xs a = foldE f (filter (\<lambda>x. \<not> P x) xs) a"
proof (induction xs arbitrary: a)
  case (Cons x xs)
  then show ?case by (cases "f x a") auto
qed simp

lemma foldE_map: "foldE f (map g xs) a = foldE (\<lambda>x. f (g x)) xs a"
proof (induction xs arbitrary: a)
  case (Cons x xs)
  then show ?case by (cases "f (g x) a") auto
qed simp

interpretation ms_audit: audit_store "ms_Record hmac" ms_GetActiveBallotID "ms_ActiveSet order" ms_Size ms_HasVoted
    ms_GetOverrideHistory "ComputeRowHash hmac key" "\<lambda>t. t" "\<lambda>_ _ _ _. True" "ms_inv key" entries_of
    "ms_GetAllOverrideChains horder"
  for hmac key order horder
proof unfold_locales
  fix st
  assume inv: "ms_inv key st"
  let ?kept = "filter (\<lambda>(e, es). \<not> length es < 2) (reorder horder (history st))"
  let ?cs = "map (\<lambda>(e, es). \<lparr>EgnHash = e, Submissions = es\<rparr>) ?kept"
  have dist: "distinct (map fst (history st))" using inv by (simp add: ms_inv_def)
  have lookup: "(e, es) \<in> set (history st) \<longleftrightarrow> entries_of st e = es \<and> es \<noteq> []" for e es
  proof -
    have "map_of (history st) e \<noteq> Some []" using inv by (simp add: ms_inv_def)
    then show ?thesis
      unfolding map_of_eq_Some_iff [OF dist, symmetric] by (cases "map_of (history st) e") (auto simp: entries_of_def)
  qed
  have "distinct (map fst ?kept)" using dist by (simp add: distinct_map_filter)
  then have "distinct (map EgnHash ?cs)" by (simp add: comp_def case_prod_unfold)
  moreover have "set ?cs = override_chains (entries_of st)"
    by (force simp: override_chains_def image_iff lookup)
  moreover have "\<forall>f a. ms_GetAllOverrideChains horder st f a = foldE f ?cs a"
    by (simp add: ms_GetAllOverrideChains_def foldE_map case_prod_unfold foldE_filter)
  ultimately show "\<exists>cs. distinct (map EgnHash cs) \<and> set cs = override_chains (entries_of st)
      \<and> (\<forall>f a. ms_GetAllOverrideChains horder st f a = foldE f cs a)" by blast
qed

text \<open>The loop over sorted rows cuts them into one chain per voter.\<close>

definition chain_for :: "history_row list \<Rightarrow> string \<Rightarrow> OverrideChain" where
  "chain_for rows e = \<lparr>EgnHash = e, Submissions = map scan_history (filter (\<lambda>r. h_egn_hash r = e) rows)\<rparr>"

definition cut_chains :: "history_row list \<Rightarrow> OverrideChain \<Rightarrow> string list \<Rightarrow> OverrideChain list" where
  "cut_chains rows current es =
     current\<lparr>Submissions := Submissions current @ Submissions (chain_for rows (EgnHash current))\<rparr> # map (chain_for rows) es"

lemma chain_for_Cons:
  "chain_for (r # rows) e = (if h_egn_hash r = e
     then \<lparr>EgnHash = e, Submissions = scan_history r # Submissions (chain_for rows e)\<rparr> else chain_for rows e)"
  by (simp add: chain_for_def)

lemma chain_for_fresh: "e \<notin> h_egn_hash ` set rows \<Longrightarrow> Submissions (chain_for rows e) = []"
  by (auto simp: chain_for_def filter_empty_conv)

lemma map_chain_for_Cons: "h_egn_hash r \<notin> set es \<Longrightarrow> map (chain_for (r # rows)) es = map (chain_for rows) es"
  by (intro map_cong) (auto simp: chain_for_Cons)

text \<open>The voters after the current one, in the order of the rows.\<close>

fun chain_keys :: "history_row list \<Rightarrow> string \<Rightarrow> string list" where
  "chain_keys [] e = []"
| "chain_keys (r # rows) e =
     (if h_egn_hash r = e then chain_keys rows e else h_egn_hash r # chain_keys rows (h_egn_hash r))"

lemma chain_keys_sorted:
  assumes "sorted (map h_egn_hash rows)" "\<forall>r \<in> set rows. e \<le> h_egn_hash r"
  shows "distinct (chain_keys rows e) \<and> set (chain_keys rows e) = h_egn_hash ` set rows - {e}"
  using assms
proof (induction rows arbitrary: e)
  case (Cons r rows)
  have "e \<notin> h_egn_hash ` set rows" if "h_egn_hash r \<noteq> e" using that Cons.prems by fastforce
  with Cons show ?case by auto
qed simp

lemma stream_chains_sorted:
  assumes "EgnHash current \<noteq> []" "sorted (map h_egn_hash rows)" "\<forall>r \<in> set rows. EgnHash current \<le> h_egn_hash r"
  shows "stream_chains f rows current a = foldE f (cut_chains rows current (chain_keys rows (EgnHash current))) a"
  using assms
proof (induction rows arbitrary: current a)
  case Nil
  then show ?case by (cases "f current a") (simp_all add: cut_chains_def chain_for_def)
next
  case (Cons r rows)
  show ?case
  proof (cases "h_egn_hash r = EgnHash current")
    case True
    let ?cur = "current\<lparr>Submissions := Submissions current @ [scan_history r]\<rparr>"
    have "EgnHash current \<notin> set (chain_keys rows (EgnHash current))"
      using chain_keys_sorted [of rows "EgnHash current"] Cons.prems by simp
    then have "cut_chains (r # rows) current (chain_keys rows (EgnHash current)) = cut_chains rows ?cur (chain_keys rows (EgnHash current))"
      using True by (simp add: cut_chains_def map_chain_for_Cons chain_for_Cons)
    with Cons.IH [of ?cur] Cons.prems True show ?thesis by simp
  next
    case False
    let ?cur = "\<lparr>EgnHash = h_egn_hash r, Submissions = [scan_history r]\<rparr>"
    let ?es = "chain_keys rows (h_egn_hash r)"
    have later: "EgnHash current < h_egn_hash r" using False Cons.prems(3) by (auto simp: le_less)
    then have ne: "h_egn_hash r \<noteq> []" by (cases "h_egn_hash r") auto
    have es: "h_egn_hash r \<notin> set ?es"
      using chain_keys_sorted [of rows "h_egn_hash r"] Cons.prems by simp
    have fresh: "EgnHash current \<notin> h_egn_hash ` set (r # rows)"
      using later Cons.prems(2) by fastforce
    have "cut_chains (r # rows) current (h_egn_hash r # ?es) = current # cut_chains rows ?cur ?es"
      using es chain_for_fresh [OF fresh] by (simp add: cut_chains_def map_chain_for_Cons chain_for_Cons [of r rows "h_egn_hash r"])
    with Cons.IH [of ?cur] False Cons.prems ne show ?thesis by (simp cong: bindE_cong)
  qed
qed

definition all_keys :: "history_row list \<Rightarrow> string list" where
  "all_keys rows = (case rows of [] \<Rightarrow> [] | r # rest \<Rightarrow> h_egn_hash r # chain_keys rest (h_egn_hash r))"

lemma stream_chains_from_zero:
  assumes "sorted (map h_egn_hash rows)" "\<forall>r \<in> set rows. h_egn_hash r \<noteq> []"
  shows "distinct (all_keys rows)" "set (all_keys rows) = h_egn_hash ` set rows"
    "stream_chains f rows \<lparr>EgnHash = [], Submissions = []\<rparr> a = foldE f (map (chain_for rows) (all_keys rows)) a"
proof -
  have "distinct (all_keys rows) \<and> set (all_keys rows) = h_egn_hash ` set rows
    \<and> stream_chains f rows \<lparr>EgnHash = [], Submissions = []\<rparr> a = foldE f (map (chain_for rows) (all_keys rows)) a"
  proof (cases rows)
    case (Cons r rest)
    let ?es = "chain_keys rest (h_egn_hash r)"
    have es: "distinct ?es" "set ?es = h_egn_hash ` set rest - {h_egn_hash r}"
      using chain_keys_sorted [of rest "h_egn_hash r"] assms by (simp_all add: Cons)
    have "cut_chains rest \<lparr>EgnHash = h_egn_hash r, Submissions = [scan_history r]\<rparr> ?es = map (chain_for rows) (h_egn_hash r # ?es)"
      using es(2) by (simp add: cut_chains_def Cons map_chain_for_Cons chain_for_Cons [of r rest "h_egn_hash r"])
    with es assms show ?thesis by (auto simp: all_keys_def Cons stream_chains_sorted)
  qed (simp add: all_keys_def)
  then show "distinct (all_keys rows)" "set (all_keys rows) = h_egn_hash ` set rows"
    "stream_chains f rows \<lparr>EgnHash = [], Submissions = []\<rparr> a = foldE f (map (chain_for rows) (all_keys rows)) a"
    by auto
qed

lemma sort_key_filter_voter:
  assumes "pg_inv s db"
  shows "filter (\<lambda>r. h_egn_hash r = e) (override_rows s db) = (if 2 \<le> length (history_rows s db e) then history_rows s db e else [])"
proof -
  have "filter (\<lambda>r. h_egn_hash r = e) (override_rows s db) = sort_key (\<lambda>r. (h_egn_hash r, h_seq r))
      (filter (\<lambda>r. h_egn_hash r = e) (filter (\<lambda>r. h_election_id r = ps_electionID s \<and> 2 \<le> length (history_rows s db (h_egn_hash r)))
        (voter_ballot_history db)))"
    by (simp add: override_rows_def filter_sort)
  also have "filter (\<lambda>r. h_egn_hash r = e) (filter (\<lambda>r. h_election_id r = ps_electionID s \<and> 2 \<le> length (history_rows s db (h_egn_hash r)))
        (voter_ballot_history db)) = (if 2 \<le> length (history_rows s db e) then history_rows s db e else [])"
    by (auto simp: history_rows_def filter_empty_conv intro!: filter_cong)
  also have "sort_key (\<lambda>r. (h_egn_hash r, h_seq r)) \<dots> = \<dots>"
  proof (rule sort_key_id_if_sorted)
    have "sorted (map h_seq (history_rows s db e))"
      using assms by (simp add: pg_inv_def sorted_wrt_map del: upt_Suc)
    moreover have "\<forall>r \<in> set (history_rows s db e). h_egn_hash r = e" by (simp add: history_rows_def)
    ultimately show "sorted (map (\<lambda>r. (h_egn_hash r, h_seq r))
        (if 2 \<le> length (history_rows s db e) then history_rows s db e else []))"
      by (auto simp: sorted_wrt_map intro: sorted_wrt_mono_rel [rotated])
  qed
  finally show ?thesis .
qed

interpretation pg_audit: audit_store "pg_put hmac s" "pg_GetActiveBallotID s" "pg_ActiveSet order s" "pg_Size s" "pg_HasVoted s"
    "pg_GetOverrideHistory s" "ComputeRowHash hmac (ps_historyHMACKey s)" microseconds "pg_accepts s" "pg_inv s" "pg_subs s"
    "pg_GetAllOverrideChains s"
  for hmac s order
proof unfold_locales
  fix db
  assume inv: "pg_inv s db" and zero: "pg_subs s db '''' = []"
  let ?rows = "override_rows s db"
  have srt: "sorted (map h_egn_hash ?rows)"
  proof -
    have "sorted (map (\<lambda>r. (h_egn_hash r, h_seq r)) ?rows)" by (simp add: override_rows_def)
    then show ?thesis unfolding sorted_map by (rule sorted_wrt_mono_rel [rotated]) (auto simp: less_eq_prod_def)
  qed
  have voters: "e \<in> h_egn_hash ` set ?rows \<longleftrightarrow> 2 \<le> length (history_rows s db e)" for e
  proof -
    have "e \<in> h_egn_hash ` set ?rows \<longleftrightarrow> filter (\<lambda>r. h_egn_hash r = e) ?rows \<noteq> []"
      by (auto simp: filter_empty_conv)
    then show ?thesis unfolding sort_key_filter_voter [OF inv] by auto
  qed
  have "\<forall>r \<in> set ?rows. h_egn_hash r \<noteq> []"
    using voters [of "[]"] zero by force
  note es = stream_chains_from_zero [OF srt this]
  let ?cs = "map (chain_for ?rows) (all_keys ?rows)"
  have chain: "chain_for ?rows e = \<lparr>EgnHash = e, Submissions = pg_subs s db e\<rparr>" if "2 \<le> length (history_rows s db e)" for e
    using that by (simp add: chain_for_def sort_key_filter_voter [OF inv] pg_subs_def)
  have "map EgnHash ?cs = all_keys ?rows" by (simp add: chain_for_def comp_def)
  moreover have "set ?cs = override_chains (pg_subs s db)"
  proof -
    have "set ?cs = chain_for ?rows ` {e. 2 \<le> length (history_rows s db e)}"
      unfolding set_map es(2) using voters by (intro arg_cong [where f = "image (chain_for ?rows)"]) blast
    also have "\<dots> = override_chains (pg_subs s db)"
      by (auto simp: override_chains_def chain pg_subs_def)
    finally show ?thesis .
  qed
  ultimately show "\<exists>cs. distinct (map EgnHash cs) \<and> set cs = override_chains (pg_subs s db)
      \<and> (\<forall>f a. pg_GetAllOverrideChains s db f a = foldE f cs a)"
    using es(1) by (intro exI [of _ ?cs]) (simp add: pg_GetAllOverrideChains_def es(3))
qed

section \<open>What a run of submissions leaves\<close>

definition replay ::
  "(string \<Rightarrow> string \<Rightarrow> string \<Rightarrow> int \<Rightarrow> string) \<Rightarrow> (instant \<Rightarrow> instant) \<Rightarrow> submission list \<Rightarrow> (string \<Rightarrow> HistoryEntry list) \<Rightarrow> string \<Rightarrow> HistoryEntry list" where
  "replay rowhash stamp xs h = foldl (\<lambda>h (e, b, c, t). h(e := h e @ [next_entry rowhash e (h e) b c (stamp t)])) h xs"

text \<open>The times do not enter the row hashes, so stores with other clocks keep the same rows but for the times.\<close>

lemma replay_stamp:
  "map (\<lambda>x. x\<lparr>SubmittedAt := stamp (SubmittedAt x)\<rparr>) (replay rowhash (\<lambda>t. t) xs h e) = replay rowhash stamp xs h' e"
  if "\<And>e. map (\<lambda>x. x\<lparr>SubmittedAt := stamp (SubmittedAt x)\<rparr>) (h e) = h' e"
  using that
proof (induction xs arbitrary: h h')
  case (Cons x xs)
  obtain v b c t where x: "x = (v, b, c, t)" by (cases x) auto
  have "h v = [] \<longleftrightarrow> h' v = []" "length (h' v) = length (h v)" "h v \<noteq> [] \<Longrightarrow> RowHash (last (h' v)) = RowHash (last (h v))"
    by (auto simp flip: Cons.prems simp: last_map)
  then have step: "map (\<lambda>x. x\<lparr>SubmittedAt := stamp (SubmittedAt x)\<rparr>) ((h(v := h v @ [next_entry rowhash v (h v) b c t])) e)
      = (h'(v := h' v @ [next_entry rowhash v (h' v) b c (stamp t)])) e" for e
    using Cons.prems by (auto simp: next_entry_def)
  have "map (\<lambda>x. x\<lparr>SubmittedAt := stamp (SubmittedAt x)\<rparr>)
        (replay rowhash (\<lambda>t. t) xs (h(v := h v @ [next_entry rowhash v (h v) b c t])) e)
      = replay rowhash stamp xs (h'(v := h' v @ [next_entry rowhash v (h' v) b c (stamp t)])) e"
    by (rule Cons.IH) (rule step)
  then show ?case unfolding replay_def x by simp
qed (simp add: replay_def)

context voter_store
begin

lemma record_all_replay:
  assumes "inv st" "record_all rc xs st = Inr st'"
  shows "inv st' \<and> subs st' = replay rowhash stamp xs (subs st)"
  using assms
proof (induction xs arbitrary: st)
  case (Cons x xs)
  obtain v b c t where x: "x = (v, b, c, t)" by (cases x) auto
  from Cons.prems(2) obtain p st1 where st1: "rc st v b c t = Inr (p, st1)" "record_all rc xs st1 = Inr st'"
    by (auto simp: record_all_def x)
  from Cons.IH [OF rc_ok(1) [OF Cons.prems(1) st1(1)] st1(2)] show ?case
    by (simp add: rc_ok(2) [OF Cons.prems(1) st1(1)] x replay_def fun_upd_def)
qed (simp add: record_all_def replay_def)

lemma record_all_total:
  assumes "inv st" "\<forall>(e, b, c, _) \<in> set xs. text_ok e \<and> text_ok b \<and> c \<in> {ChannelOnline, ChannelInPerson}"
    and "\<forall>e. length (subs st e) + length xs < 2 ^ 31"
    and "\<And>st e b c. inv st \<Longrightarrow> text_ok e \<Longrightarrow> text_ok b \<Longrightarrow> c \<in> {ChannelOnline, ChannelInPerson} \<Longrightarrow> length (subs st e) + 1 < 2 ^ 31
      \<Longrightarrow> accepts st e b c"
  shows "\<exists>st'. record_all rc xs st = Inr st'"
  using assms(1-3)
proof (induction xs arbitrary: st)
  case (Cons x xs)
  obtain v b c t where x: "x = (v, b, c, t)" by (cases x) auto
  have "length (subs st v) + 1 < 2 ^ 31" using Cons.prems(3) [rule_format, of v] by simp
  then have "accepts st v b c" using Cons.prems(2) by (intro assms(4) [OF Cons.prems(1)]) (auto simp: x)
  from rc_step [OF Cons.prems(1) this, of t] obtain p st1 where st1: "rc st v b c t = Inr (p, st1)" by blast
  have "\<forall>e. length (subs st1 e) + length xs < 2 ^ 31"
  proof
    fix e
    have "length (subs st e) + Suc (length xs) < 2 ^ 31" using Cons.prems(3) [rule_format, of e] by simp
    then show "length (subs st1 e) + length xs < 2 ^ 31"
      by (cases "e = v") (simp_all add: rc_ok(2) [OF Cons.prems(1) st1])
  qed
  with Cons.IH [OF rc_ok(1) [OF Cons.prems(1) st1]] Cons.prems(2) obtain st' where "record_all rc xs st1 = Inr st'"
    by auto
  with st1 show ?case by (auto simp: record_all_def x)
qed (simp add: record_all_def)

end

lemma ms_record_all:
  assumes "\<forall>(e, b, c, _) \<in> set xs. text_ok e \<and> text_ok b \<and> c \<in> {ChannelOnline, ChannelInPerson}" "length xs < 2 ^ 31"
  obtains ms where "record_all (ms_Record hmac) xs (NewMemoryStore key) = Inr ms"
  using ms.record_all_total [where xs = xs and st = "NewMemoryStore key" and key = key and hmac = hmac] assms by auto

lemma pg_record_all:
  assumes "\<forall>(e, b, c, _) \<in> set xs. text_ok e \<and> text_ok b \<and> c \<in> {ChannelOnline, ChannelInPerson}" "length xs < 2 ^ 31"
  obtains db where "record_all (pg_put hmac s) xs \<lparr>voters = [], voter_ballot_history = []\<rparr> = Inr db"
proof -
  have "\<exists>db. record_all (pg_put hmac s) xs \<lparr>voters = [], voter_ballot_history = []\<rparr> = Inr db"
    by (rule pg.record_all_total [where s = s]) (use assms in \<open>auto simp: pg_accepts_def pg_subs_def history_rows_def\<close>)
  with that show ?thesis by blast
qed

end
