(* ===== verification/Http.thy ===== *)
theory Http
  imports Prelude
begin

text \<open>
  HTTP as the services use it: requests, the replies of another service, the responses of a
  handler, the API key check of \<open>pkg/middleware\<close> and the session tokens of \<open>pkg/jwtauth\<close>.
  A handler that fails writes a status and an error code, one that succeeds a status and a body.
\<close>

section \<open>Requests and replies\<close>

text \<open>A missing header reads as the empty string.\<close>

record http_request =
  req_method :: string
  req_path :: string
  req_header :: "string \<Rightarrow> string"
  req_cookie :: "string \<Rightarrow> string option"
  req_query :: "string \<Rightarrow> string"
  req_body :: bytes

datatype reply = NoReply | Reply nat bytes

datatype 'a response = Failure nat string | Success nat 'a

fun status_of :: "'a response \<Rightarrow> nat" where
  "status_of (Failure n _) = n"
| "status_of (Success n _) = n"

definition StatusOK :: nat where "StatusOK = 200"
definition StatusCreated :: nat where "StatusCreated = 201"

section \<open>The API key check\<close>

definition RequireKey :: "string \<Rightarrow> (http_request \<Rightarrow> 'st \<Rightarrow> 'a response \<times> 'st) \<Rightarrow> http_request \<Rightarrow> 'st \<Rightarrow> 'a response \<times> 'st" where
  "RequireKey key next_handler r st =
     (if req_header r ''X-Internal-Key'' \<noteq> key then (Failure 401 ''unauthorized'', st) else next_handler r st)"

lemma RequireKey_ok: "req_header r ''X-Internal-Key'' = key \<Longrightarrow> RequireKey key f r st = f r st"
  by (simp add: RequireKey_def)

lemma RequireKey_refused: "req_header r ''X-Internal-Key'' \<noteq> key \<Longrightarrow> RequireKey key f r st = (Failure 401 ''unauthorized'', st)"
  by (simp add: RequireKey_def)

section \<open>Session tokens\<close>

definition Issuer :: string where "Issuer = ''otvoren-vot-auth''"
definition Audience :: string where "Audience = ''otvoren-vot-collection''"

record SessionClaims =
  claims_Issuer :: string
  claims_Subject :: string
  claims_Audience :: "string list"
  claims_ID :: string
  claims_IssuedAt :: int
  claims_ExpiresAt :: int
  ElectionID :: string

text \<open>
  \<open>jwt.ParseWithClaims\<close> is a parameter: from the token, the key function on the signing method
  and the accepted methods, issuer and audience it gives the claims and whether the token is valid.
\<close>

datatype jwt_error = InvalidToken | InvalidClaims | UnexpectedMethod

type_synonym 'k jwt_parser =
  "string \<Rightarrow> (string \<Rightarrow> jwt_error + 'k) \<Rightarrow> string list \<Rightarrow> string \<Rightarrow> string \<Rightarrow> (SessionClaims \<times> bool) option"

definition jwt_Verify :: "'k jwt_parser \<Rightarrow> string \<Rightarrow> 'k \<Rightarrow> jwt_error + SessionClaims" where
  "jwt_Verify parse tokenStr pubKey =
     (case parse tokenStr (\<lambda>alg. if alg \<noteq> ''EdDSA'' then Inl UnexpectedMethod else Inr pubKey)
             [''EdDSA''] Issuer Audience of
        None \<Rightarrow> Inl InvalidToken
      | Some (claims, valid) \<Rightarrow> if \<not> valid then Inl InvalidClaims else Inr claims)"

definition jwt_Sign :: "(string \<Rightarrow> SessionClaims \<Rightarrow> 'k \<Rightarrow> string option) \<Rightarrow> SessionClaims \<Rightarrow> 'k \<Rightarrow> string option" where
  "jwt_Sign mint claims privKey = mint ''EdDSA'' claims privKey"

text \<open>
  What the library documents of a parser and a signer with matching keys: a signed token is
  accepted with its claims when issuer and audience are the expected ones and it has not expired.
\<close>

definition jwt_keys ::
  "'k jwt_parser \<Rightarrow> (string \<Rightarrow> SessionClaims \<Rightarrow> 'p \<Rightarrow> string option) \<Rightarrow> 'k \<Rightarrow> 'p \<Rightarrow> int \<Rightarrow> bool" where
  "jwt_keys parse mint pub priv now \<longleftrightarrow>
     (\<forall>claims tok keyf. mint ''EdDSA'' claims priv = Some tok \<longrightarrow> keyf ''EdDSA'' = Inr pub \<longrightarrow>
        now < claims_ExpiresAt claims \<longrightarrow> Audience \<in> set (claims_Audience claims) \<longrightarrow>
        parse tok keyf [''EdDSA''] (claims_Issuer claims) Audience = Some (claims, True))"

lemma jwt_Verify_Sign:
  assumes "jwt_keys parse mint pub priv now" "jwt_Sign mint claims priv = Some tok"
    and "now < claims_ExpiresAt claims" "claims_Issuer claims = Issuer" "Audience \<in> set (claims_Audience claims)"
  shows "jwt_Verify parse tok pub = Inr claims"
proof -
  have "parse tok (\<lambda>alg. if alg \<noteq> ''EdDSA'' then Inl UnexpectedMethod else Inr pub) [''EdDSA''] Issuer Audience
      = Some (claims, True)"
    using assms(1) [unfolded jwt_keys_def, rule_format, of claims tok "\<lambda>alg. if alg \<noteq> ''EdDSA'' then Inl UnexpectedMethod else Inr pub"]
      assms(2-) by (simp add: jwt_Sign_def)
  then show ?thesis by (simp add: jwt_Verify_def)
qed

section \<open>Cross-origin requests\<close>

text \<open>
  \<open>corsMiddleware\<close>: the response headers it sets and whether the next handler runs.  The
  services differ in the methods and headers they allow.
\<close>

definition cors_origin :: "string list \<Rightarrow> http_request \<Rightarrow> (string \<times> string) list" where
  "cors_origin allowedOrigins r =
     (let origin = req_header r ''Origin'' in
      if origin \<in> set allowedOrigins then
        [(''Access-Control-Allow-Origin'', origin), (''Access-Control-Allow-Credentials'', ''true''), (''Vary'', ''Origin'')]
      else [])"

definition corsMiddleware ::
  "string \<Rightarrow> string \<Rightarrow> string list \<Rightarrow> (http_request \<Rightarrow> 'st \<Rightarrow> 'a response \<times> 'st) \<Rightarrow> http_request \<Rightarrow> 'st
    \<Rightarrow> (string \<times> string) list \<times> 'a response option \<times> 'st" where
  "corsMiddleware allowMethods allowHeaders allowedOrigins next_handler r st =
     (if req_method r = ''OPTIONS'' then
        (cors_origin allowedOrigins r @ [(''Access-Control-Allow-Methods'', allowMethods),
           (''Access-Control-Allow-Headers'', allowHeaders), (''Access-Control-Max-Age'', ''86400'')], None, st)
      else case next_handler r st of (resp, st') \<Rightarrow> (cors_origin allowedOrigins r, Some resp, st'))"

end
