(* ===== verification/Collection.thy ===== *)
theory Collection
  imports Voter_Map Http
begin

text \<open>
  The collection service (\<open>collection/handler.go\<close>, the start-up checks and routes of
  \<open>collection/main.go\<close>): it identifies the voter, records the ballot in the voter map and
  forwards it without the identity.  The voter map is any store; the auth service, the bulletin
  board and JSON are parameters, so the board can be plugged in.
\<close>

section \<open>Identifying the voter\<close>

record CollectionHandler =
  egnHMACKey :: bytes
  bulletinBoardURL :: string
  internalAPIKey :: string
  overrideReportDir :: string
  devAuth :: bool
  authServiceURL :: string
  sessionAPIKey :: string
  col_electionID :: string

datatype token_error = NotBearer | NoToken

text \<open>\<open>strings.HasPrefix\<close> and \<open>TrimPrefix\<close>.\<close>

definition HasPrefix :: "string \<Rightarrow> string \<Rightarrow> bool" where
  "HasPrefix s p = (take (length p) s = p)"

definition TrimPrefix :: "string \<Rightarrow> string \<Rightarrow> string" where
  "TrimPrefix s p = (if HasPrefix s p then drop (length p) s else s)"

definition extractToken :: "http_request \<Rightarrow> token_error + string" where
  "extractToken r =
     (let auth = req_header r ''Authorization'' in
      if auth \<noteq> '''' then
        if HasPrefix auth ''Bearer '' then Inr (TrimPrefix auth ''Bearer '') else Inl NotBearer
      else case req_cookie r ''session'' of Some v \<Rightarrow> Inr v | None \<Rightarrow> Inl NoToken)"

definition isValidEGN :: "string \<Rightarrow> bool" where
  "isValidEGN egn = (if length egn \<noteq> 10 then False
     else list_all (\<lambda>c. \<not> (of_char c < (48 :: nat) \<or> (57 :: nat) < of_char c)) egn)"

datatype session_error = BadSessionFormat | CreateRequest | SessionNotFound | AuthStatus nat | DecodeSession | AuthUnavailable

text \<open>
  \<open>resolveSession\<close>: two attempts, a second one only after a transport error.  The auth service
  answers a URL, a key and an attempt; \<open>url_ok\<close> says which URLs parse.
\<close>

fun resolve_loop ::
  "(string \<Rightarrow> bool) \<Rightarrow> (string \<Rightarrow> string \<Rightarrow> nat \<Rightarrow> reply) \<Rightarrow> (bytes \<Rightarrow> string option) \<Rightarrow> string \<Rightarrow> string \<Rightarrow> nat list \<Rightarrow> session_error + string" where
  "resolve_loop url_ok auth decode url key [] = Inl AuthUnavailable"
| "resolve_loop url_ok auth decode url key (attempt # rest) =
     (if \<not> url_ok url then Inl CreateRequest
      else case auth url key attempt of
        NoReply \<Rightarrow> resolve_loop url_ok auth decode url key rest
      | Reply status body \<Rightarrow>
          if status = 404 then Inl SessionNotFound
          else if status \<noteq> StatusOK then Inl (AuthStatus status)
          else case decode (take 65536 body) of None \<Rightarrow> Inl DecodeSession | Some egn \<Rightarrow> Inr egn)"

definition resolveSession ::
  "(string \<Rightarrow> bool) \<Rightarrow> (string \<Rightarrow> string \<Rightarrow> nat \<Rightarrow> reply) \<Rightarrow> (bytes \<Rightarrow> string option) \<Rightarrow> CollectionHandler \<Rightarrow> string
    \<Rightarrow> session_error + string" where
  "resolveSession url_ok auth decode h sessionID =
     (if length sessionID \<noteq> 36 then Inl BadSessionFormat
      else resolve_loop url_ok auth decode (authServiceURL h @ ''/internal/v1/session/'' @ sessionID) (sessionAPIKey h) [0, 1])"

text \<open>The identity part of \<open>HandleSubmit\<close>: the EGN, or the status and code of the refusal.\<close>

definition identify ::
  "(string \<Rightarrow> jwt_error + SessionClaims) \<Rightarrow> (string \<Rightarrow> session_error + string) \<Rightarrow> CollectionHandler \<Rightarrow> http_request
    \<Rightarrow> (nat \<times> string) + string" where
  "identify verify resolve h r =
     bindE
       (if devAuth h then
          let egn = req_header r ''X-Voter-EGN'' in
          if \<not> isValidEGN egn then Inl (400, ''invalid_egn'') else Inr egn
        else
          case extractToken r of
            Inl _ \<Rightarrow> Inl (401, ''missing_token'')
          | Inr tokenStr \<Rightarrow>
              (case verify tokenStr of
                 Inl _ \<Rightarrow> Inl (401, ''invalid_token'')
               | Inr claims \<Rightarrow>
                   if ElectionID claims \<noteq> col_electionID h then Inl (403, ''wrong_election'')
                   else case resolve (claims_Subject claims) of
                     Inl _ \<Rightarrow> Inl (401, ''session_error'')
                   | Inr egn \<Rightarrow> if \<not> isValidEGN egn then Inl (502, ''invalid_session'') else Inr egn))
       (\<lambda>egn. if egn = '''' then Inl (401, ''missing_identity'') else Inr egn)"

section \<open>Submitting a ballot\<close>

record submitRequest =
  sub_BallotID :: string
  EncryptedBallot :: bytes
  ZKProofs :: bytes

record submitResponse =
  resp_BallotID :: string
  Position :: int
  MerkleRoot :: string
  IsOverride :: bool

record bbResponse =
  bb_Position :: int
  bb_MerkleRoot :: string

datatype forward_error = ConnectBoard | BoardStatus nat | ParseBoard

text \<open>
  \<open>forwardToBulletinBoard\<close>: the board is a function from its state and the posted body to the
  reply and the next state.
\<close>

definition forwardToBulletinBoard ::
  "('bd \<Rightarrow> bytes \<Rightarrow> reply \<times> 'bd) \<Rightarrow> (bytes \<Rightarrow> bbResponse option) \<Rightarrow> 'bd \<Rightarrow> bytes \<Rightarrow> (forward_error + bbResponse) \<times> 'bd" where
  "forwardToBulletinBoard board decode bd body =
     (case board bd body of
        (NoReply, bd') \<Rightarrow> (Inl ConnectBoard, bd')
      | (Reply status respBody, bd') \<Rightarrow>
          (if status \<noteq> StatusCreated then Inl (BoardStatus status)
           else case decode respBody of None \<Rightarrow> Inl ParseBoard | Some resp \<Rightarrow> Inr resp, bd'))"

text \<open>JSON as the handler uses it: the request it reads, the body it posts, the reply it parses.\<close>

record submit_codec =
  decode_submit :: "bytes \<Rightarrow> submitRequest option"
  encode_board :: "submitRequest \<Rightarrow> bytes"
  decode_board :: "bytes \<Rightarrow> bbResponse option"

text \<open>
  \<open>HandleSubmit\<close> over a store with the operation \<open>rc\<close>: the voter map is written before the
  ballot is forwarded.  A body over 1 MB ends early for the decoder.
\<close>

definition HandleSubmit ::
  "mac \<Rightarrow> ('st \<Rightarrow> string \<Rightarrow> string \<Rightarrow> Channel \<Rightarrow> instant \<Rightarrow> (store_error + string) \<times> 'st) \<Rightarrow> ('bd \<Rightarrow> bytes \<Rightarrow> reply \<times> 'bd) \<Rightarrow> submit_codec
    \<Rightarrow> (http_request \<Rightarrow> (nat \<times> string) + string) \<Rightarrow> CollectionHandler \<Rightarrow> instant \<Rightarrow> http_request \<Rightarrow> 'st \<times> 'bd
    \<Rightarrow> submitResponse response \<times> 'st \<times> 'bd" where
  "HandleSubmit hmac rc board codec who h now r = (\<lambda>(st, bd).
     case who r of
       Inl (status, code) \<Rightarrow> (Failure status code, st, bd)
     | Inr egn \<Rightarrow>
         let egnHash = HashEGN hmac egn (egnHMACKey h) in
         (case decode_submit codec (take (2 ^ 20) (req_body r)) of
            None \<Rightarrow> (Failure 400 ''invalid_body'', st, bd)
          | Some req \<Rightarrow>
              if sub_BallotID req = '''' then (Failure 400 ''missing_ballot_id'', st, bd)
              else
                (case rc st egnHash (sub_BallotID req) ChannelOnline now of
                   (Inl _, st') \<Rightarrow> (Failure 500 ''store_error'', st', bd)
                 | (Inr prevBallotID, st') \<Rightarrow>
                     (case forwardToBulletinBoard board (decode_board codec) bd (encode_board codec req) of
                        (Inl _, bd') \<Rightarrow> (Failure 502 ''board_error'', st', bd')
                      | (Inr resp, bd') \<Rightarrow>
                          (Success StatusCreated \<lparr>resp_BallotID = sub_BallotID req, Position = bb_Position resp,
                             MerkleRoot = bb_MerkleRoot resp, IsOverride = (prevBallotID \<noteq> '''')\<rparr>, st', bd')))))"

section \<open>The internal endpoints\<close>

definition HandleActiveSet :: "('st \<Rightarrow> store_error + string list) \<Rightarrow> 'st \<Rightarrow> (string list \<times> nat) response" where
  "HandleActiveSet active_set st =
     (case active_set st of
        Inl _ \<Rightarrow> Failure 500 ''store_error''
      | Inr ids \<Rightarrow> Success StatusOK (ids, length ids))"

text \<open>Reading a file gives its content, or whether the failure is that it does not exist.\<close>

definition HandleOverrideReport :: "(string \<Rightarrow> bool + bytes) \<Rightarrow> (string \<Rightarrow> string \<Rightarrow> string) \<Rightarrow> CollectionHandler \<Rightarrow> bytes response" where
  "HandleOverrideReport read_file join_path h =
     (if overrideReportDir h = '''' then Failure 404 ''not_configured''
      else case read_file (join_path (overrideReportDir h) ''header.json'') of
        Inl notExist \<Rightarrow> if notExist then Failure 404 ''not_generated'' else Failure 500 ''read_error''
      | Inr content \<Rightarrow> Success StatusOK content)"

section \<open>Start-up\<close>

record col_config =
  DatabaseURL :: string
  EGNHMACKey :: string
  HistoryHMACKey :: string
  DevAuth :: bool
  AuthJWTPublicKey :: string
  SessionAPIKey :: string
  BULLETIN_BOARD_API_KEY :: string
  ACTIVE_SET_API_KEY :: string

datatype startup_error = MissingSetting string | DevAuthWithDatabase | BadJWTKey

datatype store_choice = UsePostgres | UseMemory

text \<open>
  The checks of \<open>main\<close> in their order; each failing one exits the process.  \<open>load_key\<close> says whether
  the file of the public key loads.
\<close>

definition startup_auth :: "col_config \<Rightarrow> startup_error + unit" where
  "startup_auth c =
     bindE (guardE (BULLETIN_BOARD_API_KEY c \<noteq> '''') (MissingSetting ''BULLETIN_BOARD_API_KEY'')) (\<lambda>_.
     bindE (guardE (ACTIVE_SET_API_KEY c \<noteq> '''') (MissingSetting ''ACTIVE_SET_API_KEY'')) (\<lambda>_.
     bindE (guardE (\<not> (DevAuth c \<and> DatabaseURL c \<noteq> '''')) DevAuthWithDatabase) (\<lambda>_.
     bindE (guardE (\<not> (\<not> DevAuth c \<and> AuthJWTPublicKey c = '''')) (MissingSetting ''AUTH_JWT_PUBLIC_KEY'')) (\<lambda>_.
     guardE (\<not> (\<not> DevAuth c \<and> SessionAPIKey c = '''')) (MissingSetting ''SESSION_API_KEY'')))))"

definition startup_store :: "col_config \<Rightarrow> startup_error + store_choice" where
  "startup_store c =
     bindE (guardE (\<not> (DatabaseURL c \<noteq> '''' \<and> EGNHMACKey c = '''')) (MissingSetting ''EGN_HMAC_KEY'')) (\<lambda>_.
     bindE (guardE (\<not> (DatabaseURL c \<noteq> '''' \<and> HistoryHMACKey c = '''')) (MissingSetting ''HISTORY_HMAC_KEY'')) (\<lambda>_.
     Inr (if DatabaseURL c \<noteq> '''' then UsePostgres else UseMemory)))"

definition collection_startup :: "(string \<Rightarrow> bool) \<Rightarrow> col_config \<Rightarrow> startup_error + store_choice" where
  "collection_startup load_key c =
     bindE (startup_auth c) (\<lambda>_.
     bindE (if \<not> DevAuth c then guardE (load_key (AuthJWTPublicKey c)) BadJWTKey else Inr ()) (\<lambda>_.
     startup_store c))"

end
