(* ===== verification/Override_Audit.thy ===== *)
theory Override_Audit
  imports Merkle_Verify Voter_Map
begin

text \<open>
  The signed override report (\<open>collection/audit\<close>): the verification of the hash-chained
  histories, the blinded chain identifiers and the generation of the report.  JSON with JCS, the
  signature and the clock are parameters.  The report's properties are proved once for every store
  that satisfies \<open>audit_store\<close> and stated for the two stores of the code.
\<close>

section \<open>Report types\<close>

record SubmissionDTO =
  dto_BallotID :: string
  dto_Seq :: int
  dto_Channel :: string
  dto_SubmittedAt :: string

record ChainDTO =
  ChainID :: string
  dto_Submissions :: "SubmissionDTO list"
  dto_ActiveBallotID :: string

record ReportHeader =
  rep_ElectionID :: string
  GeneratedAt :: string
  TotalVoters :: nat
  TotalOverrides :: nat
  OverrideChainsMerkleRoot :: string
  ChainsFileSHA256 :: string
  BulletinBoardMerkleRoot :: string
  ReportNonce :: string
  SigningPublicKey :: string
  Signature :: string

datatype audit_error =
  NonceError | CorruptRow int | StoreFailed | MarshalError | WriteChains | SignError | WriteHeader | MerklePanic

section \<open>Verifying a history\<close>

fun verify_loop :: "mac \<Rightarrow> bytes \<Rightarrow> string \<Rightarrow> string \<Rightarrow> HistoryEntry list \<Rightarrow> audit_error + unit" where
  "verify_loop hmac key egnHash prevHash [] = Inr ()"
| "verify_loop hmac key egnHash prevHash (x # xs) =
     (if RowHash x \<noteq> ComputeRowHash hmac key prevHash egnHash (BallotID x) (Seq x) then Inl (CorruptRow (Seq x))
      else verify_loop hmac key egnHash (RowHash x) xs)"

definition verifyHashChain :: "mac \<Rightarrow> bytes \<Rightarrow> OverrideChain \<Rightarrow> audit_error + unit" where
  "verifyHashChain hmac key chain = verify_loop hmac key (EgnHash chain) '''' (Submissions chain)"

lemma verify_loop_iff: "verify_loop hmac key e p xs = Inr () \<longleftrightarrow> verify_rows (ComputeRowHash hmac key) e p xs"
  by (induction xs arbitrary: p) auto

lemma verifyHashChain_iff:
  "verifyHashChain hmac key c = Inr () \<longleftrightarrow> verify_rows (ComputeRowHash hmac key) (EgnHash c) '''' (Submissions c)"
  by (simp add: verifyHashChain_def verify_loop_iff)

lemma verify_loop_append:
  "verify_loop hmac key e p (xs @ [y]) = Inr () \<longleftrightarrow> verify_loop hmac key e p xs = Inr ()
     \<and> RowHash y = ComputeRowHash hmac key (if xs = [] then p else RowHash (last xs)) e (BallotID y) (Seq y)"
  unfolding verify_loop_iff by (rule verify_rows_append)

definition hmacSHA256 :: "mac \<Rightarrow> bytes \<Rightarrow> bytes \<Rightarrow> bytes" where
  "hmacSHA256 hmac key data = hash_bytes (hmac key data)"

section \<open>Generating the report\<close>

definition chainsMerkleRoot :: "sha \<Rightarrow> bytes list \<Rightarrow> merkle_error + hash option" where
  "chainsMerkleRoot sha jcsChains =
     bindE (append_all sha New jcsChains) (\<lambda>t.
     if jcsChains = [] then Inr None else bindE (Root sha t) (\<lambda>root. Inr (Some root)))"

text \<open>
  What \<open>Generate\<close> calls outside the module: the random nonce, JSON encoding followed by JCS,
  the signer, the clock and the writers, each of which can fail.
\<close>

record audit_env =
  env_sha :: sha
  env_hmac :: mac
  env_nonce :: "bytes option"
  jcs_chain :: "ChainDTO \<Rightarrow> bytes option"
  jcs_chains :: "ChainDTO list \<Rightarrow> bytes option"
  jcs_header :: "ReportHeader \<Rightarrow> bytes option"
  rfc3339 :: "instant \<Rightarrow> string"
  env_now :: instant
  sign_report :: "bytes \<Rightarrow> bytes option"
  report_key :: bytes
  write_chains :: bool
  write_header :: bool
  dto_order :: "ChainDTO list \<Rightarrow> ChainDTO list"

record generator =
  gen_electionID :: string
  historyKey :: bytes

definition orElse :: "'a option \<Rightarrow> 'e \<Rightarrow> 'e + 'a" where
  "orElse x e = (case x of None \<Rightarrow> Inl e | Some y \<Rightarrow> Inr y)"

lemma orElse_eq_Inr [simp]: "orElse x e = Inr y \<longleftrightarrow> x = Some y"
  by (cases x) (simp_all add: orElse_def)

lemma orElse_Some [simp]: "orElse (Some y) e = Inr y"
  by (simp add: orElse_def)

text \<open>The callback of \<open>GetAllOverrideChains\<close>.\<close>

definition submission_dto :: "audit_env \<Rightarrow> HistoryEntry \<Rightarrow> SubmissionDTO" where
  "submission_dto env x = \<lparr>dto_BallotID = BallotID x, dto_Seq = Seq x, dto_Channel = he_Channel x,
     dto_SubmittedAt = rfc3339 env (SubmittedAt x)\<rparr>"

definition chain_dto :: "audit_env \<Rightarrow> generator \<Rightarrow> bytes \<Rightarrow> OverrideChain \<Rightarrow> audit_error + ChainDTO" where
  "chain_dto env g nonce chain =
     bindE (verifyHashChain (env_hmac env) (historyKey g) chain) (\<lambda>_.
     Inr \<lparr>ChainID = hex_encode (hmacSHA256 (env_hmac env) nonce (bytes_of (EgnHash chain))),
          dto_Submissions = map (submission_dto env) (Submissions chain),
          dto_ActiveBallotID = ActiveBallotID chain\<rparr>)"

definition collect_chain :: "audit_env \<Rightarrow> generator \<Rightarrow> bytes \<Rightarrow> OverrideChain \<Rightarrow> ChainDTO list \<Rightarrow> audit_error + ChainDTO list" where
  "collect_chain env g nonce chain chainDTOs =
     bindE (chain_dto env g nonce chain) (\<lambda>d. Inr (chainDTOs @ [d]))"

text \<open>
  \<open>sort.Slice\<close> by chain ID is not stable, so equal IDs come in any order.
\<close>

definition sort_chains :: "audit_env \<Rightarrow> ChainDTO list \<Rightarrow> ChainDTO list" where
  "sort_chains env ds = sort_key ChainID (reorder (dto_order env) ds)"

text \<open>
  \<open>Generate\<close> up to the chains file; the result holds the header to be signed.  The provider is
  the loop over the chains and the number of voters, whose query may fail.
\<close>

definition report_header ::
  "audit_env \<Rightarrow> generator \<Rightarrow> string \<Rightarrow> nat \<Rightarrow> bytes \<Rightarrow> ChainDTO list \<Rightarrow> hash option \<Rightarrow> bytes \<Rightarrow> ReportHeader" where
  "report_header env g bbMerkleRoot totalVoters nonce chainDTOs root chainsCanonical =
     \<lparr>rep_ElectionID = gen_electionID g, GeneratedAt = rfc3339 env (env_now env), TotalVoters = totalVoters,
      TotalOverrides = length chainDTOs,
      OverrideChainsMerkleRoot = (case root of None \<Rightarrow> '''' | Some h \<Rightarrow> hex_encode (hash_bytes h)),
      ChainsFileSHA256 = hex_encode (hash_bytes (env_sha env chainsCanonical)),
      BulletinBoardMerkleRoot = bbMerkleRoot, ReportNonce = hex_encode nonce,
      SigningPublicKey = hex_encode (report_key env), Signature = ''''\<rparr>"

definition prepare_report ::
  "audit_env \<Rightarrow> generator \<Rightarrow> ((OverrideChain \<Rightarrow> ChainDTO list \<Rightarrow> audit_error + ChainDTO list) \<Rightarrow> ChainDTO list \<Rightarrow> audit_error + ChainDTO list)
    \<Rightarrow> nat option \<Rightarrow> string \<Rightarrow> audit_error + ReportHeader \<times> bytes" where
  "prepare_report env g for_each size_query bbMerkleRoot =
     bindE (orElse (env_nonce env) NonceError) (\<lambda>nonce.
     bindE (for_each (collect_chain env g nonce) []) (\<lambda>collected.
     let chainDTOs = sort_chains env collected in
     bindE (mapE (\<lambda>d. orElse (jcs_chain env d) MarshalError) chainDTOs) (\<lambda>leaves.
     bindE (case chainsMerkleRoot (env_sha env) leaves of Inl _ \<Rightarrow> Inl MerklePanic | Inr r \<Rightarrow> Inr r) (\<lambda>root.
     bindE (orElse size_query StoreFailed) (\<lambda>totalVoters.
     bindE (orElse (jcs_chains env chainDTOs) MarshalError) (\<lambda>chainsCanonical.
     Inr (report_header env g bbMerkleRoot totalVoters nonce chainDTOs root chainsCanonical, chainsCanonical)))))))"

definition sign_header :: "audit_env \<Rightarrow> ReportHeader \<Rightarrow> audit_error + ReportHeader \<times> bytes" where
  "sign_header env header =
     bindE (orElse (jcs_header env header) MarshalError) (\<lambda>headerCanonical.
     bindE (orElse (sign_report env headerCanonical) SignError) (\<lambda>sig.
     let header' = header\<lparr>Signature := hex_encode sig\<rparr> in
     bindE (orElse (jcs_header env header') MarshalError) (\<lambda>finalCanonical. Inr (header', finalCanonical))))"

text \<open>
  \<open>Generate\<close>: the result, what was written to the chains file and what was written to the
  header file.  The chains file is written before the header is signed.
\<close>

definition Generate ::
  "audit_env \<Rightarrow> generator \<Rightarrow> ((OverrideChain \<Rightarrow> ChainDTO list \<Rightarrow> audit_error + ChainDTO list) \<Rightarrow> ChainDTO list \<Rightarrow> audit_error + ChainDTO list)
    \<Rightarrow> nat option \<Rightarrow> string \<Rightarrow> (audit_error + ReportHeader) \<times> bytes option \<times> bytes option" where
  "Generate env g for_each size_query bbMerkleRoot =
     (case prepare_report env g for_each size_query bbMerkleRoot of
        Inl e \<Rightarrow> (Inl e, None, None)
      | Inr (header, chainsCanonical) \<Rightarrow>
          if \<not> write_chains env then (Inl WriteChains, None, None)
          else
            case sign_header env header of
              Inl e \<Rightarrow> (Inl e, Some chainsCanonical, None)
            | Inr (header', finalCanonical) \<Rightarrow>
                if \<not> write_header env then (Inl WriteHeader, Some chainsCanonical, None)
                else (Inr header', Some chainsCanonical, Some finalCanonical))"

section \<open>What a verified chain shows\<close>

text \<open>The inputs \<open>verifyHashChain\<close> hashes.\<close>

fun chain_inputs :: "string \<Rightarrow> string \<Rightarrow> HistoryEntry list \<Rightarrow> bytes list" where
  "chain_inputs e p [] = []"
| "chain_inputs e p (x # xs) = bytes_of (row_data p e (BallotID x) (Seq x)) # chain_inputs e (RowHash x) xs"

lemma chain_inputs_append:
  "chain_inputs e p (xs @ [y]) =
     chain_inputs e p xs @ [bytes_of (row_data (if xs = [] then p else RowHash (last xs)) e (BallotID y) (Seq y))]"
  by (induction xs arbitrary: p) auto

lemma ComputeRowHash_shape: "ComputeRowHash hmac key p e b n \<noteq> []" "CHR 0x00 \<notin> set (ComputeRowHash hmac key p e b n)"
  by (auto simp: ComputeRowHash_def hex_encode_no_nul simp flip: length_0_conv simp: length_hex_encode)

definition row_core :: "HistoryEntry \<Rightarrow> string \<times> int \<times> string" where
  "row_core x = (BallotID x, Seq x, RowHash x)"

lemma row_core_eq: "row_core x = row_core y \<longleftrightarrow> BallotID x = BallotID y \<and> Seq x = Seq y \<and> RowHash x = RowHash y"
  by (simp add: row_core_def)

lemma verified_hash_shape:
  assumes "verify_loop hmac key e '''' xs = Inr ()" "xs \<noteq> []"
  shows "RowHash (last xs) \<noteq> [] \<and> CHR 0x00 \<notin> set (RowHash (last xs))"
  using assms by (cases xs rule: rev_cases) (auto simp: verify_loop_append ComputeRowHash_shape split: if_splits)

lemma verified_rows_determined:
  assumes "verify_loop hmac key e '''' xs = Inr ()" "verify_loop hmac key e' '''' ys = Inr ()"
    and "xs \<noteq> []" "ys \<noteq> []" "RowHash (last xs) = RowHash (last ys)"
    and "CHR 0x00 \<notin> set e" "CHR 0x00 \<notin> set e'"
  shows "(e = e' \<and> map row_core xs = map row_core ys)
    \<or> collides (hmac key) (chain_inputs e '''' xs) (chain_inputs e' '''' ys)"
  using assms
proof (induction xs arbitrary: ys rule: rev_induct)
  case (snoc x xs)
  obtain ys' y where ys: "ys = ys' @ [y]" using snoc.prems(4) by (cases ys rule: rev_cases) auto
  let ?p = "if xs = [] then '''' else RowHash (last xs)"
  let ?q = "if ys' = [] then '''' else RowHash (last ys')"
  have v: "verify_loop hmac key e '''' xs = Inr ()" "verify_loop hmac key e' '''' ys' = Inr ()"
    "RowHash x = ComputeRowHash hmac key ?p e (BallotID x) (Seq x)" "RowHash y = ComputeRowHash hmac key ?q e' (BallotID y) (Seq y)"
    using snoc.prems(1,2) by (simp_all only: verify_loop_append ys)
  have shapes: "CHR 0x00 \<notin> set ?p" "CHR 0x00 \<notin> set ?q" "?p = [] \<longleftrightarrow> xs = []" "?q = [] \<longleftrightarrow> ys' = []"
    using verified_hash_shape [OF v(1)] verified_hash_shape [OF v(2)] by auto
  have "RowHash x = RowHash y" using snoc.prems(5) by (simp add: ys)
  then have eq: "hmac key (bytes_of (row_data ?p e (BallotID x) (Seq x))) = hmac key (bytes_of (row_data ?q e' (BallotID y) (Seq y)))"
    unfolding v(3,4) by (simp add: ComputeRowHash_def hex_encode_inject)
  show ?case
  proof (cases "row_data ?p e (BallotID x) (Seq x) = row_data ?q e' (BallotID y) (Seq y)")
    case False
    then have "collides (hmac key) (chain_inputs e '''' (xs @ [x])) (chain_inputs e' '''' ys)"
      using eq unfolding ys chain_inputs_append collides_iff by (auto simp: bytes_of_inject)
    then show ?thesis ..
  next
    case True
    then have same: "?p = ?q" "e = e'" "BallotID x = BallotID y" "Seq x = Seq y"
      using row_data_inject [OF shapes(1) snoc.prems(6) shapes(2) snoc.prems(7)] by blast+
    show ?thesis
    proof (cases "xs = []")
      case True
      with same shapes(4) \<open>RowHash x = RowHash y\<close> show ?thesis by (simp add: ys row_core_def)
    next
      case False
      with same(1) shapes have ys': "ys' \<noteq> []" by metis
      with False same(1) have "RowHash (last xs) = RowHash (last ys')" by simp
      from snoc.IH [OF v(1,2) False ys' this snoc.prems(6,7)]
      have "map row_core xs = map row_core ys' \<or> collides (hmac key) (chain_inputs e '''' xs) (chain_inputs e' '''' ys')" by blast
      then show ?thesis
      proof
        assume "map row_core xs = map row_core ys'"
        with same \<open>RowHash x = RowHash y\<close> show ?thesis by (simp add: ys row_core_eq)
      next
        assume "collides (hmac key) (chain_inputs e '''' xs) (chain_inputs e' '''' ys')"
        then show ?thesis unfolding ys chain_inputs_append collides_iff by auto
      qed
    qed
  qed
qed simp

text \<open>What the rows do not fix: the channel, the time, and the end of the chain.\<close>

lemma verify_loop_cong: "map row_core xs = map row_core ys \<Longrightarrow> verify_loop hmac key e p xs = verify_loop hmac key e p ys"
proof (induction xs arbitrary: ys p)
  case (Cons x xs)
  then obtain y ys' where "ys = y # ys'" "row_core x = row_core y" "map row_core xs = map row_core ys'" by (cases ys) auto
  with Cons.IH [of ys'] show ?case by (simp add: row_core_eq)
qed simp

lemma verifyHashChain_blind_spots:
  assumes "verifyHashChain hmac key c = Inr ()"
  shows "verifyHashChain hmac key (c\<lparr>Submissions := take n (Submissions c)\<rparr>) = Inr ()"
    and "verifyHashChain hmac key (c\<lparr>Submissions := map (\<lambda>x. x\<lparr>he_Channel := f x, SubmittedAt := g x\<rparr>) (Submissions c)\<rparr>) = Inr ()"
proof -
  have "verify_loop hmac key e p (xs @ ys) = Inr () \<Longrightarrow> verify_loop hmac key e p xs = Inr ()" for e p xs ys
    by (induction xs arbitrary: p) (auto split: if_splits)
  from this [of "EgnHash c" "[]" "take n (Submissions c)" "drop n (Submissions c)"]
  show "verifyHashChain hmac key (c\<lparr>Submissions := take n (Submissions c)\<rparr>) = Inr ()"
    using assms by (simp add: verifyHashChain_def)
  have "verify_loop hmac key (EgnHash c) '''' (map (\<lambda>x. x\<lparr>he_Channel := f x, SubmittedAt := g x\<rparr>) (Submissions c))
      = verify_loop hmac key (EgnHash c) '''' (Submissions c)"
    by (rule verify_loop_cong) (simp add: row_core_def)
  then show "verifyHashChain hmac key (c\<lparr>Submissions := map (\<lambda>x. x\<lparr>he_Channel := f x, SubmittedAt := g x\<rparr>) (Submissions c)\<rparr>) = Inr ()"
    using assms by (simp add: verifyHashChain_def)
qed

section \<open>The report of a store\<close>

definition hist_dto :: "audit_env \<Rightarrow> bytes \<Rightarrow> OverrideChain \<Rightarrow> ChainDTO" where
  "hist_dto env nonce chain =
     \<lparr>ChainID = hex_encode (hmacSHA256 (env_hmac env) nonce (bytes_of (EgnHash chain))),
      dto_Submissions = map (submission_dto env) (Submissions chain),
      dto_ActiveBallotID = ActiveBallotID chain\<rparr>"

lemma chain_dto_eq:
  "chain_dto env g nonce c = bindE (verifyHashChain (env_hmac env) (historyKey g) c) (\<lambda>_. Inr (hist_dto env nonce c))"
  by (simp add: chain_dto_def hist_dto_def)

lemma mapE_chain_dto:
  "mapE (chain_dto env g nonce) cs = Inr ds \<longleftrightarrow>
     (\<forall>c \<in> set cs. verifyHashChain (env_hmac env) (historyKey g) c = Inr ()) \<and> ds = map (hist_dto env nonce) cs"
proof (induction cs arbitrary: ds)
  case (Cons c cs)
  then show ?case by (auto simp: chain_dto_eq)
qed auto

lemma sort_chains [simp]:
  "mset (sort_chains env ds) = mset ds" "sorted (map ChainID (sort_chains env ds))"
  "length (sort_chains env ds) = length ds"
  by (simp_all add: sort_chains_def)

lemma chainsMerkleRoot_eq:
  "chainsMerkleRoot sha leaves = Inr (if leaves = [] then None else Some (MTH sha leaves))"
  by (simp add: chainsMerkleRoot_def append_all_New Root_tree_for MTH_def)

text \<open>What a signed header states about the chains of a store.\<close>

definition report_of ::
  "audit_env \<Rightarrow> OverrideChain list \<Rightarrow> nat \<Rightarrow> string \<Rightarrow> ReportHeader \<Rightarrow> bytes \<Rightarrow> bytes \<Rightarrow> bool" where
  "report_of env cs nv bb h cfile hdr \<longleftrightarrow>
     (\<exists>nonce ds leaves sig body.
        env_nonce env = Some nonce
        \<and> mset ds = image_mset (hist_dto env nonce) (mset cs) \<and> sorted (map ChainID ds)
        \<and> jcs_chains env ds = Some cfile \<and> ChainsFileSHA256 h = hex_encode (hash_bytes (env_sha env cfile))
        \<and> list_all2 (\<lambda>d l. jcs_chain env d = Some l) ds leaves
        \<and> OverrideChainsMerkleRoot h = (if leaves = [] then '''' else hex_encode (hash_bytes (MTH (env_sha env) leaves)))
        \<and> TotalOverrides h = length cs \<and> TotalVoters h = nv \<and> BulletinBoardMerkleRoot h = bb
        \<and> jcs_header env (h\<lparr>Signature := ''''\<rparr>) = Some body \<and> sign_report env body = Some sig
        \<and> Signature h = hex_encode sig \<and> jcs_header env h = Some hdr)"

lemma prepare_report_Inr:
  assumes "for_each (collect_chain env g (the (env_nonce env))) [] = mapE (chain_dto env g (the (env_nonce env))) cs"
    and "prepare_report env g for_each (Some nv) bb = Inr (h, cfile)"
  obtains nonce ds leaves where "env_nonce env = Some nonce"
    "\<forall>c \<in> set cs. verifyHashChain (env_hmac env) (historyKey g) c = Inr ()"
    "ds = sort_chains env (map (hist_dto env nonce) cs)" "jcs_chains env ds = Some cfile"
    "list_all2 (\<lambda>d l. jcs_chain env d = Some l) ds leaves"
    "h = report_header env g bb nv nonce ds (if leaves = [] then None else Some (MTH (env_sha env) leaves)) cfile"
proof -
  from assms(2) obtain nonce xa where n: "env_nonce env = Some nonce" "for_each (collect_chain env g nonce) [] = Inr xa"
    by (auto simp: prepare_report_def)
  then have "mapE (chain_dto env g nonce) cs = Inr xa" using assms(1) by simp
  then have v: "\<forall>c \<in> set cs. verifyHashChain (env_hmac env) (historyKey g) c = Inr ()" "xa = map (hist_dto env nonce) cs"
    by (simp_all add: mapE_chain_dto)
  from assms(2) n obtain leaves where "jcs_chains env (sort_chains env xa) = Some cfile"
    "list_all2 (\<lambda>d l. jcs_chain env d = Some l) (sort_chains env xa) leaves"
    "h = report_header env g bb nv nonce (sort_chains env xa) (if leaves = [] then None else Some (MTH (env_sha env) leaves)) cfile"
    by (auto simp: prepare_report_def Let_def mapE_Inr_iff chainsMerkleRoot_eq)
  with n(1) v that show ?thesis by blast
qed

lemma Generate_report_of:
  assumes "for_each (collect_chain env g (the (env_nonce env))) [] = mapE (chain_dto env g (the (env_nonce env))) cs"
    and "Generate env g for_each (Some nv) bb = (Inr h, out)"
  obtains cfile hdr where "out = (Some cfile, Some hdr)" "report_of env cs nv bb h cfile hdr"
    "\<forall>c \<in> set cs. verifyHashChain (env_hmac env) (historyKey g) c = Inr ()"
proof -
  obtain h0 cfile where p: "prepare_report env g for_each (Some nv) bb = Inr (h0, cfile)"
    using assms(2) by (auto simp: Generate_def split: sum.splits)
  from prepare_report_Inr [OF assms(1) p] obtain nonce ds leaves where r: "env_nonce env = Some nonce"
    "\<forall>c \<in> set cs. verifyHashChain (env_hmac env) (historyKey g) c = Inr ()"
    "ds = sort_chains env (map (hist_dto env nonce) cs)" "jcs_chains env ds = Some cfile"
    "list_all2 (\<lambda>d l. jcs_chain env d = Some l) ds leaves"
    "h0 = report_header env g bb nv nonce ds (if leaves = [] then None else Some (MTH (env_sha env) leaves)) cfile"
    by blast
  from assms(2) p obtain hdr where s: "sign_header env h0 = Inr (h, hdr)" "out = (Some cfile, Some hdr)"
    by (auto simp: Generate_def split: sum.splits if_splits)
  then obtain body sig where "jcs_header env h0 = Some body" "sign_report env body = Some sig"
    "h = h0\<lparr>Signature := hex_encode sig\<rparr>" "jcs_header env h = Some hdr"
    by (auto simp: sign_header_def Let_def)
  moreover from this have "h\<lparr>Signature := ''''\<rparr> = h0" by (simp add: r(6) report_header_def)
  ultimately have "report_of env cs nv bb h cfile hdr"
    unfolding report_of_def using r
    by (intro exI [of _ nonce] exI [of _ ds] exI [of _ leaves] exI [of _ sig] exI [of _ body]) (auto simp: report_header_def)
  with s(2) r(2) that show ?thesis by blast
qed

text \<open>Every call of the environment succeeds.\<close>

definition env_total :: "audit_env \<Rightarrow> bool" where
  "env_total env \<longleftrightarrow> env_nonce env \<noteq> None \<and> (\<forall>d. jcs_chain env d \<noteq> None) \<and> (\<forall>ds. jcs_chains env ds \<noteq> None)
     \<and> (\<forall>h. jcs_header env h \<noteq> None) \<and> (\<forall>b. sign_report env b \<noteq> None) \<and> write_chains env \<and> write_header env"

lemma env_totalD:
  assumes "env_total env"
  shows "\<exists>y. jcs_chain env d = Some y" "\<exists>y. jcs_chains env ds = Some y" "\<exists>y. jcs_header env h = Some y"
    "\<exists>y. sign_report env b = Some y"
  using assms by (auto simp: env_total_def)

lemma Generate_total:
  assumes "for_each (collect_chain env g (the (env_nonce env))) [] = mapE (chain_dto env g (the (env_nonce env))) cs"
    and "env_total env" "\<forall>c \<in> set cs. verifyHashChain (env_hmac env) (historyKey g) c = Inr ()"
  shows "\<exists>h out. Generate env g for_each (Some nv) bb = (Inr h, out)"
proof -
  obtain nonce where n: "env_nonce env = Some nonce" using assms(2) by (auto simp: env_total_def)
  let ?ds = "sort_chains env (map (hist_dto env nonce) cs)"
  have "mapE (\<lambda>d. orElse (jcs_chain env d) MarshalError) ?ds = Inr (map (\<lambda>d. the (jcs_chain env d)) ?ds)"
    using assms(2) by (intro mapE_total) (auto simp: env_total_def)
  moreover have "mapE (chain_dto env g nonce) cs = Inr (map (hist_dto env nonce) cs)"
    using assms(3) by (simp add: mapE_chain_dto)
  moreover obtain cfile where "jcs_chains env ?ds = Some cfile" using env_totalD [OF assms(2)] by blast
  ultimately obtain h0 where p: "prepare_report env g for_each (Some nv) bb = Inr (h0, cfile)"
    using assms(1) n by (simp add: prepare_report_def chainsMerkleRoot_eq Let_def)
  obtain body where b: "jcs_header env h0 = Some body" using env_totalD [OF assms(2)] by blast
  obtain sig where sg: "sign_report env body = Some sig" using env_totalD [OF assms(2)] by blast
  obtain hdr where "jcs_header env (h0\<lparr>Signature := hex_encode sig\<rparr>) = Some hdr" using env_totalD [OF assms(2)] by blast
  with b sg have "sign_header env h0 = Inr (h0\<lparr>Signature := hex_encode sig\<rparr>, hdr)" by (simp add: sign_header_def)
  with p assms(2) show ?thesis by (simp add: Generate_def env_total_def)
qed

locale audited = audit_store rc active active_set sz voted overrides rowhash stamp accepts inv subs for_each
  for rc :: "'st \<Rightarrow> string \<Rightarrow> string \<Rightarrow> Channel \<Rightarrow> instant \<Rightarrow> store_error + string \<times> 'st"
    and active active_set sz voted overrides rowhash stamp accepts inv subs
    and for_each :: "'st \<Rightarrow> (OverrideChain \<Rightarrow> ChainDTO list \<Rightarrow> audit_error + ChainDTO list) \<Rightarrow> ChainDTO list \<Rightarrow> audit_error + ChainDTO list"
begin

lemma chains_of_store:
  assumes "inv st" "subs st '''' = []"
  obtains cs where "distinct (map EgnHash cs)" "set cs = override_chains (subs st)"
    "for_each st (collect_chain env g n) [] = mapE (chain_dto env g n) cs"
  by (rule for_each_collect [OF assms, of "collect_chain env g n" "chain_dto env g n"]) (simp add: collect_chain_def)

lemma report_states_store:
  assumes "inv st" "subs st '''' = []" "Generate env g (for_each st) (Some (sz st)) bb = (Inr h, out)"
  shows "\<exists>cs cfile hdr. distinct (map EgnHash cs) \<and> set cs = override_chains (subs st)
    \<and> out = (Some cfile, Some hdr) \<and> report_of env cs (card {e. subs st e \<noteq> []}) bb h cfile hdr
    \<and> (\<forall>c \<in> set cs. verifyHashChain (env_hmac env) (historyKey g) c = Inr ())"
proof -
  obtain cs where cs: "distinct (map EgnHash cs)" "set cs = override_chains (subs st)"
    "for_each st (collect_chain env g (the (env_nonce env))) [] = mapE (chain_dto env g (the (env_nonce env))) cs"
    using chains_of_store [OF assms(1,2)] by blast
  from Generate_report_of [OF cs(3) assms(3)] cs(1,2) show ?thesis
    unfolding sz_eq [OF assms(1)] by blast
qed

lemma report_succeeds:
  assumes "inv st" "subs st '''' = []" "env_total env"
    and "\<And>e. verify_rows (ComputeRowHash (env_hmac env) (historyKey g)) e '''' (subs st e)"
  shows "\<exists>h out. Generate env g (for_each st) (Some n) bb = (Inr h, out)"
proof -
  obtain cs where cs: "set cs = override_chains (subs st)"
    "for_each st (collect_chain env g (the (env_nonce env))) [] = mapE (chain_dto env g (the (env_nonce env))) cs"
    using chains_of_store [OF assms(1,2)] by blast
  show ?thesis
    by (rule Generate_total [where for_each = "for_each st", OF cs(2) assms(3)]) (use assms(4) in \<open>auto simp: cs(1) override_chains_def verifyHashChain_iff\<close>)
qed

end

interpretation ms_report: audited "ms_Record hmac" ms_GetActiveBallotID "ms_ActiveSet order" ms_Size ms_HasVoted
    ms_GetOverrideHistory "ComputeRowHash hmac key" "\<lambda>t. t" "\<lambda>_ _ _ _. True" "ms_inv key" entries_of
    "ms_GetAllOverrideChains horder"
  for hmac key order horder ..

interpretation pg_report: audited "pg_put hmac s" "pg_GetActiveBallotID s" "pg_ActiveSet order s" "pg_Size s" "pg_HasVoted s"
    "pg_GetOverrideHistory s" "ComputeRowHash hmac (ps_historyHMACKey s)" microseconds "pg_accepts s" "pg_inv s" "pg_subs s"
    "pg_GetAllOverrideChains s"
  for hmac s order ..

end
