(* ===== verification/Collection_Props.thy ===== *)
theory Collection_Props
  imports Collection Override_Audit
begin

text \<open>
  The properties of the collection service: the voter map under both stores, the history and its
  report, and the submission handler.
\<close>

section \<open>The voter map\<close>

abbreviation empty_db :: voter_db where
  "empty_db \<equiv> \<lparr>voters = [], voter_ballot_history = []\<rparr>"

text \<open>
  Submissions both stores take: one of the code's channels, text without NUL bytes (the strings
  are valid UTF-8, since they come from decoded JSON and hexadecimal digests), a voter's hash of at
  most the 64 digits of \<open>HashEGN\<close>, and a ballot ID that fits into an entry of the index on
  \<open>ballot_id\<close>.
\<close>

definition valid_submissions :: "submission list \<Rightarrow> bool" where
  "valid_submissions xs \<longleftrightarrow> length xs < 2 ^ 31
     \<and> (\<forall>(e, b, c, _) \<in> set xs. text_ok e \<and> length e \<le> 64 \<and> text_ok b \<and> length b \<le> 2000
          \<and> c \<in> {ChannelOnline, ChannelInPerson})"

lemma valid_submissionsD:
  assumes "valid_submissions xs"
  shows "\<forall>(e, b, c, _) \<in> set xs. text_ok e \<and> text_ok b \<and> c \<in> {ChannelOnline, ChannelInPerson}" "length xs < 2 ^ 31"
  using assms by (auto simp: valid_submissions_def)

text \<open>
  C19.  The last ballot counts: after any submissions that are valid text and name one of the
  code's channels the PostgreSQL store has accepted all of them, the active ballot of a voter is
  the last one submitted, the active set has exactly one ballot per voter, and every voter's
  history lists the submissions in order, their times cut to microseconds, with a hash chain that
  verifies.
\<close>

theorem voter_map_last_ballot:
  assumes "valid_submissions xs"
  shows "\<exists>db. record_all (pg_put hmac s) xs empty_db = Inr db
    \<and> (\<forall>e. pg_GetActiveBallotID s db e = last_ballot xs e)
    \<and> (\<forall>e. pg_HasVoted s db e \<longleftrightarrow> e \<in> fst ` set xs)
    \<and> pg_Size s db = card (fst ` set xs)
    \<and> mset (pg_ActiveSet order s db) = image_mset (the \<circ> last_ballot xs) (mset_set (fst ` set xs))
    \<and> (\<forall>e. map (\<lambda>x. (BallotID x, he_Channel x, SubmittedAt x)) (pg_GetOverrideHistory s db e)
         = map (\<lambda>(b, c, t). (b, c, microseconds t)) (submissions_of xs e))
    \<and> (\<forall>e. verifyHashChain hmac (ps_historyHMACKey s) \<lparr>EgnHash = e, Submissions = pg_GetOverrideHistory s db e\<rparr> = Inr ())"
proof -
  obtain db where db: "record_all (pg_put hmac s) xs empty_db = Inr db"
    using pg_record_all [OF valid_submissionsD [OF assms]] by blast
  note reports = pg.record_all_reports [OF pg_inv_empty db, unfolded stamped_def]
  show ?thesis
    by (intro exI [of _ db] conjI allI db reports) (simp add: verifyHashChain_iff reports(5))
qed

definition test_ps :: PostgresStore where
  "test_ps = \<lparr>ps_electionID = ''e'', ps_historyHMACKey = []\<rparr>"

definition test_subs :: "submission list" where
  "test_subs = [(''v'', ''b1'', ChannelOnline, 1), (''w'', ''b2'', ChannelOnline, 2), (''v'', ''b3'', ChannelInPerson, 3)]"

lemma test_subs_ok: "valid_submissions test_subs"
  by (simp add: valid_submissions_def test_subs_def text_ok_def)

theorem voter_map_last_ballot_witness:
  "\<exists>db. record_all (pg_put (\<lambda>_ _. 0) test_ps) test_subs empty_db = Inr db
    \<and> pg_GetActiveBallotID test_ps db ''v'' = Some ''b3'' \<and> pg_Size test_ps db = 2"
proof -
  from voter_map_last_ballot [OF test_subs_ok, of "\<lambda>_ _. 0" test_ps "\<lambda>x. x"] obtain db where
    "record_all (pg_put (\<lambda>_ _. 0) test_ps) test_subs empty_db = Inr db"
    "pg_GetActiveBallotID test_ps db ''v'' = last_ballot test_subs ''v''" "pg_Size test_ps db = card (fst ` set test_subs)"
    by blast
  then show ?thesis
    by (intro exI [of _ db]) (simp add: last_ballot_def submissions_of_def test_subs_def card_insert_if)
qed

text \<open>
  C20.  The two stores are the same voter map: after the same submissions, which are valid text and
  name one of the code's channels, the in-memory store and the PostgreSQL store with the same key
  agree on who has voted, the active ballots, the size and the active set, and the histories have the same rows
  in the same order, row hashes included.  They differ in the times only: the in-memory store
  keeps them to the nanosecond and the columns to the microsecond.
\<close>

theorem stores_agree:
  assumes "valid_submissions xs"
  shows "\<exists>m db. record_all (ms_Record hmac) xs (NewMemoryStore (ps_historyHMACKey s)) = Inr m
    \<and> record_all (pg_put hmac s) xs empty_db = Inr db
    \<and> (\<forall>e. ms_GetActiveBallotID m e = pg_GetActiveBallotID s db e \<and> ms_HasVoted m e = pg_HasVoted s db e
         \<and> pg_GetOverrideHistory s db e
             = map (\<lambda>x. x\<lparr>SubmittedAt := microseconds (SubmittedAt x)\<rparr>) (ms_GetOverrideHistory m e))
    \<and> ms_Size m = pg_Size s db \<and> mset (ms_ActiveSet order m) = mset (pg_ActiveSet order' s db)"
proof -
  obtain m where m: "record_all (ms_Record hmac) xs (NewMemoryStore (ps_historyHMACKey s)) = Inr m"
    using ms_record_all [OF valid_submissionsD [OF assms]] by blast
  obtain db where db: "record_all (pg_put hmac s) xs empty_db = Inr db"
    using pg_record_all [OF valid_submissionsD [OF assms]] by blast
  note rm = ms.record_all_reports [OF NewMemoryStore_empty m] and rp = pg.record_all_reports [OF pg_inv_empty db]
  have "pg_GetOverrideHistory s db e = map (\<lambda>x. x\<lparr>SubmittedAt := microseconds (SubmittedAt x)\<rparr>) (ms_GetOverrideHistory m e)" for e
  proof -
    have "replay (ComputeRowHash hmac (ps_historyHMACKey s)) microseconds xs (pg_subs s empty_db) e
        = map (\<lambda>x. x\<lparr>SubmittedAt := microseconds (SubmittedAt x)\<rparr>)
            (replay (ComputeRowHash hmac (ps_historyHMACKey s)) (\<lambda>t. t) xs (entries_of (NewMemoryStore (ps_historyHMACKey s))) e)"
      by (rule replay_stamp [symmetric]) simp
    then show ?thesis
      using ms.record_all_replay [OF NewMemoryStore_empty(1) m] pg.record_all_replay [OF pg_inv_empty(1) db]
      by (simp add: ms_GetOverrideHistory_def pg_GetOverrideHistory_eq)
  qed
  then show ?thesis
    by (intro exI [of _ m] exI [of _ db]) (simp add: m db rm(1-4) rp(1-4))
qed

theorem stores_agree_witness:
  "\<exists>m db. record_all (ms_Record (\<lambda>_ _. 0)) test_subs (NewMemoryStore (ps_historyHMACKey test_ps)) = Inr m
    \<and> record_all (pg_put (\<lambda>_ _. 0) test_ps) test_subs empty_db = Inr db \<and> ms_Size m = pg_Size test_ps db"
  using stores_agree [OF test_subs_ok, of "\<lambda>_ _. 0" test_ps "\<lambda>x. x" "\<lambda>x. x"] by blast

text \<open>
  C21.  Histories are tamper-evident: two chains that verify under the same key and end in the same
  row hash belong to the same voter and agree in every ballot, sequence number and row hash,
  whatever the ballot IDs contain, unless two of the hashed rows collide.
\<close>

theorem override_chain_tamper_evident:
  assumes "verifyHashChain hmac key c = Inr ()" "verifyHashChain hmac key c' = Inr ()"
    and "Submissions c \<noteq> []" "Submissions c' \<noteq> []"
    and "RowHash (last (Submissions c)) = RowHash (last (Submissions c'))"
    and "CHR 0x00 \<notin> set (EgnHash c)" "CHR 0x00 \<notin> set (EgnHash c')"
  shows "(EgnHash c = EgnHash c' \<and> map row_core (Submissions c) = map row_core (Submissions c'))
    \<or> collides (hmac key) (chain_inputs (EgnHash c) '''' (Submissions c)) (chain_inputs (EgnHash c') '''' (Submissions c'))"
  using assms unfolding verifyHashChain_def by (rule verified_rows_determined)

definition one_row :: HistoryEntry where
  "one_row = \<lparr>BallotID = ''b'', he_Channel = ChannelOnline, SubmittedAt = 0, Seq = 1,
     RowHash = ComputeRowHash (\<lambda>_ _. 0) [] '''' ''v'' ''b'' 1\<rparr>"

theorem override_chain_tamper_evident_witness:
  "verifyHashChain (\<lambda>_ _. 0) [] \<lparr>EgnHash = ''v'', Submissions = [one_row]\<rparr> = Inr ()
    \<and> (map row_core [one_row] = map row_core [one_row\<lparr>SubmittedAt := 5\<rparr>]
       \<or> collides (\<lambda>_. 0) (chain_inputs ''v'' '''' [one_row]) (chain_inputs ''v'' '''' [one_row]))"
  using override_chain_tamper_evident [of "\<lambda>_ _. 0" "[]" "\<lparr>EgnHash = ''v'', Submissions = [one_row]\<rparr>"
      "\<lparr>EgnHash = ''v'', Submissions = [one_row\<lparr>SubmittedAt := 5\<rparr>]\<rparr>"]
  by (auto simp: verifyHashChain_def one_row_def)

section \<open>The override report\<close>

text \<open>
  C22.  A generated report states the store: a header that was signed and written lists, in the
  order of the blinded identifiers, exactly the voters with two submissions or more, each with a
  verified chain; its Merkle root is the tree hash of their canonical forms, its counts are the
  voters and the overriding voters, and the signature is over the header without signature.
\<close>

theorem override_report_states_store:
  assumes "pg_inv s db" "pg_subs s db '''' = []"
    and "Generate env g (pg_GetAllOverrideChains s db) (Some (pg_Size s db)) bb = (Inr h, out)"
  shows "\<exists>cs cfile hdr. distinct (map EgnHash cs) \<and> set cs = override_chains (pg_GetOverrideHistory s db)
    \<and> out = (Some cfile, Some hdr) \<and> report_of env cs (card {e. pg_HasVoted s db e}) bb h cfile hdr
    \<and> (\<forall>c \<in> set cs. verifyHashChain (env_hmac env) (historyKey g) c = Inr ())"
proof -
  have "pg_GetOverrideHistory s db = pg_subs s db" using assms(1) by (simp add: fun_eq_iff pg_GetOverrideHistory_eq)
  then show ?thesis
    using pg_report.report_states_store [OF assms] pg.voted_eq [OF assms(1)] by simp
qed

definition test_env :: audit_env where
  "test_env = \<lparr>env_sha = \<lambda>_. 0, env_hmac = \<lambda>_ _. 0, env_nonce = Some [1], jcs_chain = \<lambda>_. Some [2], jcs_chains = \<lambda>_. Some [3],
     jcs_header = \<lambda>_. Some [4], rfc3339 = \<lambda>_. ''t'', env_now = 0, sign_report = \<lambda>_. Some [5], report_key = [6],
     write_chains = True, write_header = True, dto_order = \<lambda>ds. ds\<rparr>"

lemma test_env_total: "env_total test_env"
  by (simp add: env_total_def test_env_def)

definition test_gen :: generator where
  "test_gen = \<lparr>gen_electionID = ''e'', historyKey = []\<rparr>"

theorem override_report_states_store_witness:
  "\<exists>h out cs. Generate test_env test_gen (pg_GetAllOverrideChains test_ps empty_db) (Some (pg_Size test_ps empty_db)) ''r'' = (Inr h, out)
    \<and> set cs = override_chains (pg_GetOverrideHistory test_ps empty_db) \<and> TotalOverrides h = length cs"
proof -
  have "\<exists>h out. Generate test_env test_gen (pg_GetAllOverrideChains test_ps empty_db) (Some (pg_Size test_ps empty_db)) ''r'' = (Inr h, out)"
    by (rule pg_report.report_succeeds) (simp_all add: test_env_total)
  then obtain h out where r: "Generate test_env test_gen (pg_GetAllOverrideChains test_ps empty_db) (Some (pg_Size test_ps empty_db)) ''r'' = (Inr h, out)"
    by blast
  from override_report_states_store [OF pg_inv_empty r] r show ?thesis by (auto simp: report_of_def)
qed

text \<open>
  Histories written by the service never block the report: after any submissions recorded
  with the generator's key, generation succeeds whenever the calls outside the module do.
\<close>

theorem override_report_succeeds:
  assumes "record_all (pg_put (env_hmac env) s) xs empty_db = Inr db" "'''' \<notin> fst ` set xs"
    and "historyKey g = ps_historyHMACKey s" "env_total env"
  shows "\<exists>h out. Generate env g (pg_GetAllOverrideChains s db) (Some (pg_Size s db)) bb = (Inr h, out)"
proof -
  note run = pg.record_all_ok [OF pg_inv_empty(1) assms(1)]
  have "submissions_of xs '''' = []"
    using assms(2) by (force simp: submissions_of_def filter_empty_conv)
  then have "pg_subs s db '''' = []" using run [of "''''"] by (simp add: stamped_def)
  moreover have "verify_rows (ComputeRowHash (env_hmac env) (historyKey g)) e '''' (pg_subs s db e)" for e
    using pg.record_all_valid [OF pg_inv_empty(1) assms(1)] by (simp add: assms(3))
  ultimately show ?thesis
    using run by (intro pg_report.report_succeeds assms(4)) auto
qed

theorem override_report_succeeds_witness:
  "\<exists>db h out. record_all (pg_put (env_hmac test_env) test_ps) test_subs empty_db = Inr db
    \<and> Generate test_env test_gen (pg_GetAllOverrideChains test_ps db) (Some (pg_Size test_ps db)) ''r'' = (Inr h, out)"
proof -
  obtain db where db: "record_all (pg_put (env_hmac test_env) test_ps) test_subs empty_db = Inr db"
    using pg_record_all [OF valid_submissionsD [OF test_subs_ok]] by blast
  have "\<exists>h out. Generate test_env test_gen (pg_GetAllOverrideChains test_ps db) (Some (pg_Size test_ps db)) ''r'' = (Inr h, out)"
    by (rule override_report_succeeds [OF db]) (simp_all add: test_subs_def test_gen_def test_ps_def test_env_total)
  with db show ?thesis by blast
qed

section \<open>The submission handler\<close>

text \<open>
  Identity is stripped: whatever the voter, the header and the state of the voter map, the
  handler changes the board only by posting the encoding of the decoded request, which does not
  depend on who submitted it.
\<close>

theorem submit_identity_stripped:
  assumes "HandleSubmit hmac rc board codec who h now r (st, bd) = (resp, st', bd')"
  shows "bd' = bd \<or> (\<exists>req. decode_submit codec (take (2 ^ 20) (req_body r)) = Some req \<and> bd' = snd (board bd (encode_board codec req)))"
  using assms
  by (auto simp: HandleSubmit_def forwardToBulletinBoard_def Let_def
      split: sum.splits option.splits prod.splits reply.splits if_splits)

definition test_codec :: submit_codec where
  "test_codec = \<lparr>decode_submit = \<lambda>b. Some \<lparr>sub_BallotID = ''b2'', EncryptedBallot = b, ZKProofs = []\<rparr>,
     encode_board = EncryptedBallot, decode_board = \<lambda>_. Some \<lparr>bb_Position = 7, bb_MerkleRoot = ''''\<rparr>\<rparr>"

definition test_request :: http_request where
  "test_request = \<lparr>req_method = ''POST'', req_path = ''/api/v1/submit'',
     req_header = \<lambda>n. if n = ''X-Voter-EGN'' then ''1234567890'' else '''', req_cookie = \<lambda>_. None, req_query = \<lambda>_. '''', req_body = [1]\<rparr>"

definition test_handler :: CollectionHandler where
  "test_handler = \<lparr>egnHMACKey = [], bulletinBoardURL = '''', internalAPIKey = '''', overrideReportDir = '''', devAuth = True,
     authServiceURL = '''', sessionAPIKey = '''', col_electionID = ''e''\<rparr>"

definition test_who :: "http_request \<Rightarrow> (nat \<times> string) + string" where
  "test_who = identify (\<lambda>_. Inl InvalidToken) (\<lambda>_. Inl AuthUnavailable) test_handler"

definition test_record :: "voter_db \<Rightarrow> string \<Rightarrow> string \<Rightarrow> Channel \<Rightarrow> instant \<Rightarrow> (store_error + string) \<times> voter_db" where
  "test_record = pg_Record (\<lambda>_ _. 0) test_ps (\<lambda>_. False) False"

lemma test_sel [simp]: "req_body test_request = [1]" "egnHMACKey test_handler = []"
  by (simp_all add: test_request_def test_handler_def)

lemma test_who_egn: "test_who test_request = Inr ''1234567890''"
  by (simp add: test_who_def identify_def test_handler_def test_request_def isValidEGN_def)

theorem submit_identity_stripped_witness:
  "\<exists>resp st' bd'. HandleSubmit (\<lambda>_ _. 0) test_record (\<lambda>bd b. (Reply 201 [], b # bd)) test_codec test_who test_handler 0 test_request (empty_db, [])
      = (resp, st', bd') \<and> (bd' = [] \<or> bd' = [[1]])"
proof -
  obtain resp st' bd' where r: "HandleSubmit (\<lambda>_ _. 0) test_record (\<lambda>bd b. (Reply 201 [], b # bd)) test_codec test_who test_handler 0 test_request (empty_db, [])
      = (resp, st', bd')" by (metis prod.exhaust)
  from submit_identity_stripped [OF r] r show ?thesis
    by (auto simp: test_codec_def)
qed

text \<open>A successful \<open>Record\<close>, with failing round trips possible, is the store's operation.\<close>

lemma pg_Record_put: "pg_Record hmac s fails applied db e b c t = (Inr p, db') \<Longrightarrow> pg_put hmac s db e b c t = Inr (p, db')"
  by (auto simp: pg_put_def pg_Record_def Let_def split: if_splits prod.splits)

text \<open>
  A receipt is truthful: the handler answers 201 only when the board answered 201 to the
  ballot, and then the ballot is the voter's active one in the PostgreSQL store and the receipt
  calls it an override exactly when the voter had an earlier ballot; round trips to the database
  may fail.
\<close>

theorem submit_created:
  assumes "pg_inv s st" "who r = Inr egn"
    and "HandleSubmit hmac (pg_Record hmac s fails applied) board codec who h now r (st, bd) = (Success n resp, st', bd')"
  shows "n = 201 \<and> pg_inv s st'
    \<and> pg_GetActiveBallotID s st' (HashEGN hmac egn (egnHMACKey h)) = Some (resp_BallotID resp)
    \<and> (IsOverride resp \<longleftrightarrow> (\<exists>b. pg_GetActiveBallotID s st (HashEGN hmac egn (egnHMACKey h)) = Some b \<and> b \<noteq> ''''))
    \<and> (\<exists>req body. decode_submit codec (take (2 ^ 20) (req_body r)) = Some req \<and> sub_BallotID req = resp_BallotID resp
         \<and> board bd (encode_board codec req) = (Reply 201 body, bd'))"
proof -
  let ?e = "HashEGN hmac egn (egnHMACKey h)"
  from assms(2,3) obtain req p body where d: "decode_submit codec (take (2 ^ 20) (req_body r)) = Some req"
    "pg_Record hmac s fails applied st ?e (sub_BallotID req) ChannelOnline now = (Inr p, st')"
    "board bd (encode_board codec req) = (Reply 201 body, bd')" "n = 201"
    "resp_BallotID resp = sub_BallotID req" "IsOverride resp \<longleftrightarrow> p \<noteq> ''''"
    by (auto simp: HandleSubmit_def forwardToBulletinBoard_def Let_def StatusCreated_def
        split: sum.splits option.splits prod.splits reply.splits if_splits)
  note step = pg.rc_ok [OF assms(1) pg_Record_put [OF d(2)]]
  have "p \<noteq> '''' \<longleftrightarrow> (\<exists>b. pg_GetActiveBallotID s st ?e = Some b \<and> b \<noteq> '''')"
    unfolding pg.active_eq [OF assms(1)] step(3) by (cases "active_of (pg_subs s st ?e)") (simp_all del: active_of_eq_None)
  with d show ?thesis
    using step(1) pg.active_eq [OF step(1)] by (simp add: step(2))
qed

lemma text_ok_b2: "text_ok ''b2''"
  by (simp add: text_ok_def)

lemma test_record_Inr: "\<exists>st'. test_record empty_db e b ChannelOnline t = (Inr '''', st')"
  if "text_ok e" "text_ok b"
  using that by (simp add: test_record_def pg_Record_def latest_history_def history_rows_def select_voter_def voter_rows_def
      history_constraints_def Let_def)

theorem submit_created_witness:
  "\<exists>resp st' bd'. HandleSubmit (\<lambda>_ _. 0) test_record (\<lambda>bd b. (Reply 201 [], b # bd)) test_codec test_who test_handler 0 test_request (empty_db, [])
      = (Success 201 resp, st', bd') \<and> pg_GetActiveBallotID test_ps st' (HashEGN (\<lambda>_ _. 0) ''1234567890'' []) = Some ''b2'' \<and> \<not> IsOverride resp"
proof -
  obtain st' where "test_record empty_db (HashEGN (\<lambda>_ _. 0) ''1234567890'' []) ''b2'' ChannelOnline 0 = (Inr '''', st')"
    using test_record_Inr [OF text_ok_HashEGN, of "''b2''"] by (metis text_ok_b2)
  then have r: "HandleSubmit (\<lambda>_ _. 0) test_record (\<lambda>bd b. (Reply 201 [], b # bd)) test_codec test_who test_handler 0 test_request (empty_db, [])
      = (Success 201 \<lparr>resp_BallotID = ''b2'', Position = 7, MerkleRoot = '''', IsOverride = False\<rparr>, st', [[1]])"
    by (simp add: HandleSubmit_def test_who_egn test_codec_def forwardToBulletinBoard_def StatusCreated_def)
  from submit_created [OF pg_inv_empty(1) test_who_egn r [unfolded test_record_def]] r show ?thesis
    by auto
qed

text \<open>
  C24.  A ballot the board refuses still replaces the voter's earlier one: when the board does not
  answer 201 the voter gets an error, but the voter map already names the refused ballot as the
  active one.
\<close>

theorem submit_refused_by_board:
  assumes "pg_inv s st" "who r = Inr egn" "decode_submit codec (take (2 ^ 20) (req_body r)) = Some req" "sub_BallotID req \<noteq> ''''"
    and "pg_accepts s st (HashEGN hmac egn (egnHMACKey h)) (sub_BallotID req) ChannelOnline"
    and "board bd (encode_board codec req) = (Reply status body, bd')" "status \<noteq> 201"
  shows "\<exists>st'. HandleSubmit hmac (pg_Record hmac s (\<lambda>_. False) False) board codec who h now r (st, bd) = (Failure 502 ''board_error'', st', bd')
    \<and> pg_GetActiveBallotID s st' (HashEGN hmac egn (egnHMACKey h)) = Some (sub_BallotID req)"
proof -
  let ?e = "HashEGN hmac egn (egnHMACKey h)"
  obtain p st' where p: "pg_put hmac s st ?e (sub_BallotID req) ChannelOnline now = Inr (p, st')"
    using pg.rc_step [OF assms(1,5)] by blast
  then have "pg_Record hmac s (\<lambda>_. False) False st ?e (sub_BallotID req) ChannelOnline now = (Inr p, st')"
    by (auto simp: pg_put_def split: sum.splits prod.splits)
  then have "HandleSubmit hmac (pg_Record hmac s (\<lambda>_. False) False) board codec who h now r (st, bd) = (Failure 502 ''board_error'', st', bd')"
    using assms(2-4,6,7) by (simp add: HandleSubmit_def forwardToBulletinBoard_def StatusCreated_def)
  moreover have "pg_GetActiveBallotID s st' ?e = Some (sub_BallotID req)"
    using pg.active_eq pg.rc_ok(1,2) [OF assms(1) p] by simp
  ultimately show ?thesis by blast
qed

theorem submit_refused_by_board_witness:
  "\<exists>st'. HandleSubmit (\<lambda>_ _. 0) (pg_Record (\<lambda>_ _. 0) test_ps (\<lambda>_. False) False) (\<lambda>bd _. (Reply 409 [], bd)) test_codec test_who test_handler 0
        test_request (empty_db, ()) = (Failure 502 ''board_error'', st', ())
    \<and> pg_GetActiveBallotID test_ps st' (HashEGN (\<lambda>_ _. 0) ''1234567890'' (egnHMACKey test_handler)) = Some ''b2''"
  using submit_refused_by_board [of test_ps empty_db test_who test_request "''1234567890''" test_codec "\<lparr>sub_BallotID = ''b2'', EncryptedBallot = [1], ZKProofs = []\<rparr>"
      "\<lambda>_ _. 0" test_handler "\<lambda>bd _. (Reply 409 [], bd)" "()" 409 "[]" "()"]
  by (simp add: test_who_egn test_codec_def pg_accepts_def history_rows_def text_ok_HashEGN) (simp add: text_ok_def)

text \<open>
  Production does not trust headers: when the start-up checks choose the PostgreSQL store, dev
  authentication is off, every key is set, the identity of a request does not depend on the
  \<open>X-Voter-EGN\<close> header, and it comes from a token for this election whose session resolves to a
  well-formed number.
\<close>

theorem production_identity:
  assumes "collection_startup load_key c = Inr UsePostgres" "devAuth h = DevAuth c"
  shows "\<not> DevAuth c \<and> EGNHMACKey c \<noteq> '''' \<and> HistoryHMACKey c \<noteq> '''' \<and> AuthJWTPublicKey c \<noteq> '''' \<and> SessionAPIKey c \<noteq> ''''
    \<and> identify verify resolve h (r\<lparr>req_header := (req_header r)(''X-Voter-EGN'' := x)\<rparr>) = identify verify resolve h r
    \<and> (\<forall>egn. identify verify resolve h r = Inr egn \<longleftrightarrow>
         isValidEGN egn \<and> (\<exists>tok claims. extractToken r = Inr tok \<and> verify tok = Inr claims
           \<and> ElectionID claims = col_electionID h \<and> resolve (claims_Subject claims) = Inr egn))"
proof -
  have c: "\<not> DevAuth c" "EGNHMACKey c \<noteq> ''''" "HistoryHMACKey c \<noteq> ''''" "AuthJWTPublicKey c \<noteq> ''''" "SessionAPIKey c \<noteq> ''''"
    using assms(1) by (auto simp: collection_startup_def startup_auth_def startup_store_def split: if_splits)
  have "isValidEGN egn \<Longrightarrow> egn \<noteq> ''''" for egn by (auto simp: isValidEGN_def)
  then show ?thesis
    using c assms(2) by (auto simp: identify_def extractToken_def split: sum.splits option.splits if_splits)
qed

theorem production_identity_witness:
  "\<exists>c h. collection_startup (\<lambda>_. True) c = Inr UsePostgres \<and> devAuth h = DevAuth c \<and> \<not> DevAuth c
    \<and> identify (\<lambda>_. Inl InvalidToken) (\<lambda>_. Inl AuthUnavailable) h (test_request\<lparr>req_header := (req_header test_request)(''X-Voter-EGN'' := ''x'')\<rparr>)
      = identify (\<lambda>_. Inl InvalidToken) (\<lambda>_. Inl AuthUnavailable) h test_request"
proof -
  let ?c = "\<lparr>DatabaseURL = ''d'', EGNHMACKey = ''k'', HistoryHMACKey = ''k'', DevAuth = False, AuthJWTPublicKey = ''p'',
     SessionAPIKey = ''s'', BULLETIN_BOARD_API_KEY = ''b'', ACTIVE_SET_API_KEY = ''a''\<rparr>"
  let ?h = "test_handler\<lparr>devAuth := False\<rparr>"
  have "collection_startup (\<lambda>_. True) ?c = Inr UsePostgres" "devAuth ?h = DevAuth ?c" by (simp_all add: collection_startup_def startup_auth_def startup_store_def)
  from production_identity [OF this, of "\<lambda>_. Inl InvalidToken" "\<lambda>_. Inl AuthUnavailable" test_request "''x''"] this
  show ?thesis by blast
qed

end
