(* ===== verification/Text_Encoding.thy ===== *)
theory Text_Encoding
  imports Prelude
begin

text \<open>
  The text encodings of the Go standard library that the services use: \<open>encoding/base64\<close> with the
  standard and the URL alphabet, and \<open>strconv\<close> for decimal numbers, with the round trips the
  components rest on.
\<close>

section \<open>Base64\<close>

definition std_alphabet :: string where
  "std_alphabet = ''ABCDEFGHIJKLMNOPQRSTUVWXYZabcdefghijklmnopqrstuvwxyz0123456789+/''"

definition url_alphabet :: string where
  "url_alphabet = ''ABCDEFGHIJKLMNOPQRSTUVWXYZabcdefghijklmnopqrstuvwxyz0123456789-_''"

fun index_from :: "char \<Rightarrow> string \<Rightarrow> nat \<Rightarrow> nat option" where
  "index_from c [] n = None"
| "index_from c (d # ds) n = (if c = d then Some n else index_from c ds (Suc n))"

definition b64_value :: "string \<Rightarrow> char \<Rightarrow> nat option" where
  "b64_value alphabet c = index_from c alphabet 0"

fun b64_encode :: "string \<Rightarrow> bytes \<Rightarrow> string" where
  "b64_encode al [] = []"
| "b64_encode al [a] = [al ! (unat a div 4), al ! (unat a mod 4 * 16), CHR ''='', CHR ''='']"
| "b64_encode al [a, b] = [al ! (unat a div 4), al ! (unat a mod 4 * 16 + unat b div 16), al ! (unat b mod 16 * 4), CHR ''='']"
| "b64_encode al (a # b # c # bs) =
     [al ! (unat a div 4), al ! (unat a mod 4 * 16 + unat b div 16), al ! (unat b mod 16 * 4 + unat c div 64), al ! (unat c mod 64)]
     @ b64_encode al bs"

text \<open>The decoder is not strict: it ignores the unused bits of the last character and skips newlines.\<close>

fun b64_groups :: "string \<Rightarrow> string \<Rightarrow> bytes option" where
  "b64_groups al [] = Some []"
| "b64_groups al (p # q # x # y # r) =
     (case (b64_value al p, b64_value al q) of
        (Some a, Some b) \<Rightarrow>
          if x = CHR ''='' then
            if y = CHR ''='' \<and> r = [] then Some [of_nat (a * 4 + b div 16)] else None
          else (case b64_value al x of
              None \<Rightarrow> None
            | Some c \<Rightarrow>
                if y = CHR ''='' then
                  if r = [] then Some [of_nat (a * 4 + b div 16), of_nat (b mod 16 * 16 + c div 4)] else None
                else (case b64_value al y of
                    None \<Rightarrow> None
                  | Some d \<Rightarrow> map_option (\<lambda>rest.
                      [of_nat (a * 4 + b div 16), of_nat (b mod 16 * 16 + c div 4), of_nat (c mod 4 * 64 + d)] @ rest)
                      (b64_groups al r)))
      | _ \<Rightarrow> None)"
| "b64_groups al _ = None"

definition b64_decode :: "string \<Rightarrow> string \<Rightarrow> bytes option" where
  "b64_decode al s = b64_groups al (filter (\<lambda>c. c \<noteq> CHR 0x0A \<and> c \<noteq> CHR 0x0D) s)"

definition alphabet :: "string \<Rightarrow> bool" where
  "alphabet al \<longleftrightarrow> (\<forall>n < 64. b64_value al (al ! n) = Some n \<and> al ! n \<notin> {CHR ''='', CHR 0x0A, CHR 0x0D})"

lemma alphabets [simp]: "alphabet std_alphabet" "alphabet url_alphabet"
proof -
  have "\<forall>n \<in> set [0..<64]. b64_value std_alphabet (std_alphabet ! n) = Some n \<and> std_alphabet ! n \<notin> {CHR ''='', CHR 0x0A, CHR 0x0D}"
    by code_simp
  then show "alphabet std_alphabet" by (simp add: alphabet_def)
  have "\<forall>n \<in> set [0..<64]. b64_value url_alphabet (url_alphabet ! n) = Some n \<and> url_alphabet ! n \<notin> {CHR ''='', CHR 0x0A, CHR 0x0D}"
    by code_simp
  then show "alphabet url_alphabet" by (simp add: alphabet_def)
qed

lemma unat_byte: "unat (a :: byte) < 256"
  by (rule less_le_trans [OF unsigned_less]) simp

lemma byte_parts:
  fixes a b c :: byte
  shows "unat a div 4 < 64" "unat a mod 4 * 16 < 64" "unat a mod 4 * 16 + unat b div 16 < 64" "unat b mod 16 * 4 < 64"
    "unat b mod 16 * 4 + unat c div 64 < 64" "unat c mod 64 < 64"
  using unat_byte [of a] unat_byte [of b] unat_byte [of c] by auto

lemma b64_bytes:
  fixes a b c :: byte
  shows "of_nat (unat a div 4 * 4 + unat a mod 4) = a"
    "(unat a mod 4 * 16) div 16 = unat a mod 4" "(unat a mod 4 * 16 + unat b div 16) div 16 = unat a mod 4"
    "(unat a mod 4 * 16 + unat b div 16) mod 16 = unat b div 16"
    "of_nat (unat b div 16 * 16 + unat b mod 16) = b"
    "(unat b mod 16 * 4) div 4 = unat b mod 16" "(unat b mod 16 * 4 + unat c div 64) div 4 = unat b mod 16"
    "(unat b mod 16 * 4 + unat c div 64) mod 4 = unat c div 64" "of_nat (unat c div 64 * 64 + unat c mod 64) = c"
  using unat_byte [of a] unat_byte [of b] unat_byte [of c] by (auto simp: div_mult_mod_eq)

lemma b64_words:
  fixes b :: byte
  shows "word_of_nat (unat b div 4) * 4 + word_of_nat (unat b mod 4) = b"
    "word_of_nat (unat b div 16) * 16 + word_of_nat (unat b mod 16) = b"
    "word_of_nat (unat b div 64) * 64 + word_of_nat (unat b mod 64) = b"
    "unat b div 16 mod 16 = unat b div 16" "unat b div 64 mod 4 = unat b div 64"
proof -
  have "word_of_nat (unat b div k) * word_of_nat k + word_of_nat (unat b mod k) = b" for k
    by (simp flip: of_nat_mult of_nat_add)
  from this [of 4] this [of 16] this [of 64]
  show "word_of_nat (unat b div 4) * 4 + word_of_nat (unat b mod 4) = b"
    "word_of_nat (unat b div 16) * 16 + word_of_nat (unat b mod 16) = b"
    "word_of_nat (unat b div 64) * 64 + word_of_nat (unat b mod 64) = b" by simp_all
  show "unat b div 16 mod 16 = unat b div 16" "unat b div 64 mod 4 = unat b div 64"
    using unat_byte [of b] by auto
qed

lemma b64_groups_encode: "alphabet al \<Longrightarrow> b64_groups al (b64_encode al bs) = Some bs"
proof (induction al bs rule: b64_encode.induct)
  case (2 al a)
  then show ?case by (simp add: alphabet_def b64_bytes b64_words byte_parts)
next
  case (3 al a b)
  then show ?case by (auto simp: alphabet_def b64_bytes b64_words byte_parts)
next
  case (4 al a b c bs)
  then show ?case by (auto simp: alphabet_def b64_bytes b64_words byte_parts)
qed simp

lemma b64_encode_chars:
  "alphabet al \<Longrightarrow> ch \<in> set (b64_encode al bs) \<Longrightarrow> ch \<noteq> CHR 0x0A \<and> ch \<noteq> CHR 0x0D"
proof (induction al bs rule: b64_encode.induct)
  case (2 al a)
  then show ?case by (auto simp: alphabet_def byte_parts)
next
  case (3 al a b)
  then show ?case by (auto simp: alphabet_def byte_parts)
next
  case (4 al a b c bs)
  then show ?case by (auto simp: alphabet_def byte_parts)
qed simp

lemma b64_decode_encode: "alphabet al \<Longrightarrow> b64_decode al (b64_encode al bs) = Some bs"
proof -
  assume al: "alphabet al"
  have "filter (\<lambda>c. c \<noteq> CHR 0x0A \<and> c \<noteq> CHR 0x0D) (b64_encode al bs) = b64_encode al bs"
    using b64_encode_chars [OF al] by (intro filter_True) blast
  then show ?thesis using al by (simp add: b64_decode_def b64_groups_encode)
qed

section \<open>Decimal numbers\<close>

text \<open>
  \<open>strconv.ParseInt(s, 10, 64)\<close>: the value and whether it failed; a number out of range gives the
  nearest bound, anything else that fails gives 0.
\<close>

definition digits :: "string \<Rightarrow> bool" where
  "digits s \<longleftrightarrow> s \<noteq> [] \<and> list_all (\<lambda>c. 48 \<le> (of_char c :: nat) \<and> (of_char c :: nat) \<le> 57) s"

definition ParseInt64 :: "string \<Rightarrow> int \<times> bool" where
  "ParseInt64 s =
     (let (neg, ds) = (case s of [] \<Rightarrow> (False, [])
            | c # cs \<Rightarrow> if c = CHR ''+'' then (False, cs) else if c = CHR ''-'' then (True, cs) else (False, s))
      in if \<not> digits ds then (0, False)
         else let n = int (numeral_value ds) in
           if \<not> neg then if 2 ^ 63 \<le> n then (2 ^ 63 - 1, False) else (n, True)
           else if 2 ^ 63 < n then (- (2 ^ 63), False) else (- n, True))"

lemma digits_utoa: "digits (utoa n)"
  using utoa_chars by (auto simp: digits_def list_all_iff)

lemma ParseInt64_utoa: "n < 2 ^ 63 \<Longrightarrow> ParseInt64 (utoa n) = (int n, True)"
proof -
  assume n: "n < 2 ^ 63"
  obtain c cs where c: "utoa n = c # cs" by (cases "utoa n") auto
  then have "c \<noteq> CHR ''+''" "c \<noteq> CHR ''-''" using utoa_chars [of c n] by auto
  then show ?thesis
    using n digits_utoa [of n] numeral_value_utoa [of n] unfolding c by (simp add: ParseInt64_def)
qed

lemma ParseInt64_itoa: "0 \<le> i \<Longrightarrow> i < 2 ^ 63 \<Longrightarrow> ParseInt64 (itoa i) = (i, True)"
  using ParseInt64_utoa [of "nat i"] by (simp add: itoa_def)

lemma ParseInt64_range: "- (2 ^ 63) \<le> fst (ParseInt64 s) \<and> fst (ParseInt64 s) < 2 ^ 63"
  by (auto simp: ParseInt64_def Let_def split: list.splits prod.splits)

text \<open>\<open>strings.Contains\<close>.\<close>

definition Contains :: "string \<Rightarrow> string \<Rightarrow> bool" where
  "Contains s t = list_ex (\<lambda>n. take (length t) (drop n s) = t) [0..<Suc (length s)]"

end
