(* ===== verification/Board_Store.thy ===== *)
theory Board_Store
  imports Merkle_Verify Text_Encoding "HOL-Library.AList"
begin

text \<open>
  The PostgreSQL store of the bulletin board (\<open>bulletin-board/store/postgres.go\<close>) over its three
  tables.  A \<open>jsonb\<close> column keeps a normalised form of what is stored, which is a parameter, as
  are the failures of the database and what other processes write between two queries.
\<close>

section \<open>Tables\<close>

record BallotRecord =
  BallotID :: string
  EncryptedBallot :: bytes
  ZKProofs :: bytes
  SubmittedAt :: int
  Position :: int
  MerkleRootSHA :: string

record SignedRootRecord =
  sr_ID :: int
  sr_SignedAt :: int
  sr_RootSHA256 :: string
  sr_BallotCount :: int
  sr_Signature :: string

record board_db =
  ballots :: "BallotRecord list"
  signed_roots :: "SignedRootRecord list"
  board_state :: "(string \<times> string) list"

text \<open>
  What the database does besides the queries: JSON normalisation, clock and failures.  The
  functions of the failures take the number of the attempt; an insert that fails on the way back
  may have been applied by the server, which \<open>insert_applied\<close> says.
\<close>

record db_env =
  jsonb :: "bytes \<Rightarrow> bytes option"
  db_now :: int
  fail_max :: "nat \<Rightarrow> bool"
  fail_insert :: "nat \<Rightarrow> bool"
  insert_applied :: "nat \<Rightarrow> bool"
  others_write :: "nat \<Rightarrow> board_db \<Rightarrow> board_db"

datatype board_error =
  ErrBoardSealed | ErrDuplicateBallot | ErrPositionConflict | DbFailed | InvalidValue
  | ValidationFailed | NotInTree | TreeError merkle_error

section \<open>Inserting a ballot\<close>

text \<open>
  The names PostgreSQL gives the primary key on \<open>ballot_id\<close> and the \<open>UNIQUE\<close> column \<open>position\<close>
  of the table \<open>ballots\<close>; a violation names the first index that fails.
\<close>

definition pkey_name :: string where "pkey_name = ''ballots_pkey''"
definition position_key_name :: string where "position_key_name = ''ballots_position_key''"

definition unique_violation :: "board_db \<Rightarrow> BallotRecord \<Rightarrow> string option" where
  "unique_violation db r =
     (if BallotID r \<in> BallotID ` set (ballots db) then Some pkey_name
      else if Position r \<in> Position ` set (ballots db) then Some position_key_name
      else None)"

definition classify_violation :: "string \<Rightarrow> board_error" where
  "classify_violation constraintName =
     (if Contains constraintName ''ballot'' then ErrDuplicateBallot else ErrPositionConflict)"

text \<open>
  The server's part of the \<open>INSERT\<close>: the text of the ID and the JSON of the two columns have to be
  values of their types, and the indexes have to take the row.
\<close>

datatype refusal = UniqueViolation string | BadValue

definition insert_row :: "db_env \<Rightarrow> BallotRecord \<Rightarrow> board_db \<Rightarrow> refusal + board_db" where
  "insert_row env r db =
     (if \<not> text_ok (BallotID r) then Inl BadValue
      else case (jsonb env (EncryptedBallot r), jsonb env (ZKProofs r)) of
        (Some eb, Some zk) \<Rightarrow>
          (case unique_violation db r of
             Some name \<Rightarrow> Inl (UniqueViolation name)
           | None \<Rightarrow> Inr (db\<lparr>ballots := ballots db @ [r\<lparr>EncryptedBallot := eb, ZKProofs := zk, SubmittedAt := db_now env\<rparr>]\<rparr>))
      | _ \<Rightarrow> Inl BadValue)"

text \<open>
  \<open>InsertBallot\<close>: a call that fails for the connection says nothing of the server, which may have
  inserted the row before.
\<close>

definition InsertBallot :: "db_env \<Rightarrow> bool \<Rightarrow> bool \<Rightarrow> BallotRecord \<Rightarrow> board_db \<Rightarrow> (board_error + unit) \<times> board_db" where
  "InsertBallot env failed applied r db =
     (if failed then (Inl DbFailed, if applied then (case insert_row env r db of Inl _ \<Rightarrow> db | Inr db' \<Rightarrow> db') else db)
      else case insert_row env r db of
        Inr db' \<Rightarrow> (Inr (), db')
      | Inl (UniqueViolation name) \<Rightarrow> (Inl (classify_violation name), db)
      | Inl BadValue \<Rightarrow> (Inl InvalidValue, db))"

section \<open>Queries\<close>

text \<open>The query for one ballot; an ID with a NUL byte is an error of the database (see \<open>Board_GetBallot\<close>).\<close>

definition store_GetBallot :: "board_db \<Rightarrow> string \<Rightarrow> BallotRecord option" where
  "store_GetBallot db ballotID = find (\<lambda>r. BallotID r = ballotID) (ballots db)"

definition by_position :: "board_db \<Rightarrow> BallotRecord list" where
  "by_position db = sort_key Position (ballots db)"

text \<open>\<open>LIMIT\<close> with a negative number is an error of the database; the API never passes one.\<close>

definition ListBallots :: "board_db \<Rightarrow> int \<Rightarrow> nat \<Rightarrow> BallotRecord list" where
  "ListBallots db afterPosition limit = take limit (filter (\<lambda>r. afterPosition < Position r) (by_position db))"

definition GetBallotCount :: "board_db \<Rightarrow> int" where
  "GetBallotCount db = int (length (ballots db))"

definition GetMaxPosition :: "board_db \<Rightarrow> int" where
  "GetMaxPosition db = (case map Position (ballots db) of [] \<Rightarrow> 0 | ps \<Rightarrow> Max (set ps))"

definition leaf_data :: "string \<Rightarrow> bytes \<Rightarrow> bytes \<Rightarrow> bytes" where
  "leaf_data ballotID encBallot proofs = lp (bytes_of ballotID) @ lp encBallot @ lp proofs"

definition GetAllLeafData :: "board_db \<Rightarrow> bytes list" where
  "GetAllLeafData db = map (\<lambda>r. leaf_data (BallotID r) (EncryptedBallot r) (ZKProofs r)) (by_position db)"

definition InsertSignedRoot :: "int \<Rightarrow> SignedRootRecord \<Rightarrow> board_db \<Rightarrow> board_db" where
  "InsertSignedRoot now r db =
     db\<lparr>signed_roots := signed_roots db @ [r\<lparr>sr_ID := int (length (signed_roots db)) + 1, sr_SignedAt := now\<rparr>]\<rparr>"

definition GetLatestSignedRoot :: "board_db \<Rightarrow> SignedRootRecord option" where
  "GetLatestSignedRoot db =
     (let rows = sort_key sr_ID (signed_roots db) in if rows = [] then None else Some (last rows))"

definition GetBoardState :: "board_db \<Rightarrow> string \<Rightarrow> string" where
  "GetBoardState db key = (case map_of (board_state db) key of None \<Rightarrow> '''' | Some v \<Rightarrow> v)"

definition SetBoardState :: "board_db \<Rightarrow> string \<Rightarrow> string \<Rightarrow> board_db" where
  "SetBoardState db key value = db\<lparr>board_state := AList.update key value (board_state db)\<rparr>"

section \<open>Facts about the store\<close>

text \<open>Both constraint names contain the name of the table, so no violation is a position conflict.\<close>

lemma constraint_names: "Contains pkey_name ''ballot''" "Contains position_key_name ''ballot''"
  by (simp_all add: Contains_def pkey_name_def position_key_name_def upt_rec)

lemma classify_known: "unique_violation db r = Some name \<Longrightarrow> classify_violation name = ErrDuplicateBallot"
  by (auto simp: unique_violation_def classify_violation_def constraint_names split: if_splits)

lemma InsertBallot_no_conflict: "fst (InsertBallot env failed applied r db) \<noteq> Inl ErrPositionConflict"
  by (auto simp: InsertBallot_def insert_row_def classify_known split: option.splits if_splits)

text \<open>Rows as the board writes them: positions 1, 2, and so on, and distinct IDs.\<close>

definition db_inv :: "board_db \<Rightarrow> bool" where
  "db_inv db \<longleftrightarrow> map Position (ballots db) = map int [1..<Suc (length (ballots db))] \<and> distinct (map BallotID (ballots db))"

lemma db_inv_positions: "db_inv db \<Longrightarrow> Position ` set (ballots db) = int ` {1..length (ballots db)}"
proof -
  assume "db_inv db"
  then have "set (map Position (ballots db)) = set (map int [1..<Suc (length (ballots db))])"
    unfolding db_inv_def by simp
  then show ?thesis by (simp add: atLeastLessThanSuc_atLeastAtMost del: upt_Suc)
qed

lemma db_inv_nth: "db_inv db \<Longrightarrow> i < length (ballots db) \<Longrightarrow> Position (ballots db ! i) = int i + 1"
proof -
  assume "db_inv db" and i: "i < length (ballots db)"
  then have "map Position (ballots db) ! i = map int [1..<Suc (length (ballots db))] ! i"
    by (simp only: db_inv_def)
  with i show ?thesis by (simp del: upt_Suc)
qed

lemma by_position_eq: "db_inv db \<Longrightarrow> by_position db = ballots db"
  unfolding by_position_def by (rule sort_key_id_if_sorted) (simp add: db_inv_def sorted_wrt_map del: upt_Suc)

lemma GetMaxPosition_eq: "db_inv db \<Longrightarrow> GetMaxPosition db = int (length (ballots db))"
proof (cases "ballots db")
  case (Cons r rs)
  assume inv: "db_inv db"
  have "GetMaxPosition db = Max (Position ` set (ballots db))"
    by (simp add: GetMaxPosition_def Cons)
  also have "\<dots> = int (length (ballots db))"
    unfolding db_inv_positions [OF inv] using Cons by (intro Max_eqI) (auto intro: image_eqI [of _ int "Suc (length rs)"])
  finally show ?thesis .
qed (simp add: GetMaxPosition_def)

lemma db_inv_append:
  assumes "db_inv db" "BallotID r \<notin> BallotID ` set (ballots db)" "Position r = int (length (ballots db)) + 1"
    "ballots db' = ballots db @ [r]"
  shows "db_inv db'"
  using assms by (simp add: db_inv_def)

lemma position_fresh: "db_inv db \<Longrightarrow> int (length (ballots db)) + 1 \<notin> Position ` set (ballots db)"
  by (auto simp: db_inv_positions)

lemma store_GetBallot_iff:
  "db_inv db \<Longrightarrow> store_GetBallot db i = Some r \<longleftrightarrow> r \<in> set (ballots db) \<and> BallotID r = i"
proof -
  assume "db_inv db"
  then have "distinct (map BallotID xs) \<Longrightarrow> find (\<lambda>r. BallotID r = i) xs = Some r \<longleftrightarrow> r \<in> set xs \<and> BallotID r = i" for xs
    by (induction xs) auto
  with \<open>db_inv db\<close> show ?thesis by (simp add: store_GetBallot_def db_inv_def)
qed

lemma GetBoardState_SetBoardState: "GetBoardState (SetBoardState db k v) k' = (if k' = k then v else GetBoardState db k')"
  by (simp add: GetBoardState_def SetBoardState_def update_conv)

lemma SetBoardState_ballots [simp]: "ballots (SetBoardState db k v) = ballots db" "db_inv (SetBoardState db k v) = db_inv db"
  by (simp_all add: SetBoardState_def db_inv_def)

end
