(* ===== verification/Board.thy ===== *)
theory Board
  imports Board_Store
begin

text \<open>
  The bulletin board (\<open>bulletin-board/board/board.go\<close>, \<open>signer.go\<close>): appending ballots to the
  database and the Merkle tree, inclusion proofs, sealing, rebuilding after a restart and signed
  roots.  A method holds the mutex, so it is one step; what runs under two locks takes two states.
\<close>

section \<open>The board\<close>

record Board =
  board_tree :: tree
  sealed :: bool
  validateFn :: "(bytes \<Rightarrow> bytes \<Rightarrow> bool) option"

record AppendResult =
  res_Position :: int
  res_MerkleRoot :: string

definition EncodeLeaf :: "string \<Rightarrow> bytes \<Rightarrow> bytes \<Rightarrow> bytes" where
  "EncodeLeaf ballotID encryptedBallot zkProofs =
     (let idBytes = bytes_of ballotID in
      u32be (length idBytes) @ idBytes @ u32be (length encryptedBallot) @ encryptedBallot
      @ u32be (length zkProofs) @ zkProofs)"

definition hex_hash :: "hash \<Rightarrow> string" where
  "hex_hash h = hex_encode (hash_bytes h)"

definition tree_error :: "merkle_error + 'a \<Rightarrow> board_error + 'a" where
  "tree_error r = (case r of Inl e \<Rightarrow> Inl (TreeError e) | Inr x \<Rightarrow> Inr x)"

lemma tree_error_simps [simp]: "tree_error (Inr x) = Inr x" "tree_error (Inl e) = Inl (TreeError e)"
  by (simp_all add: tree_error_def)

definition Board_New :: "sha \<Rightarrow> bool \<Rightarrow> board_db \<Rightarrow> board_error + Board" where
  "Board_New sha db_fails db =
     (if db_fails then Inl DbFailed
      else
        let sealedVal = GetBoardState db ''sealed'' in
        bindE (tree_error (append_all sha New (GetAllLeafData db))) (\<lambda>t.
        Inr \<lparr>board_tree = t, sealed = (sealedVal = ''true''), validateFn = None\<rparr>))"

definition SetValidator :: "Board \<Rightarrow> (bytes \<Rightarrow> bytes \<Rightarrow> bool) option \<Rightarrow> Board" where
  "SetValidator b f = b\<lparr>validateFn := f\<rparr>"

text \<open>
  The loop of \<open>AppendBallot\<close> over the attempts: the position is read, other processes may write,
  the row is inserted.
\<close>

fun insert_loop ::
  "db_env \<Rightarrow> string \<Rightarrow> bytes \<Rightarrow> bytes \<Rightarrow> nat list \<Rightarrow> board_db \<Rightarrow> (board_error + int) \<times> board_db" where
  "insert_loop env ballotID eb zk [] db = (Inr 0, db)"
| "insert_loop env ballotID eb zk (attempt # rest) db =
     (if fail_max env attempt then (Inl DbFailed, db)
      else
        let position = GetMaxPosition db + 1;
            rec = \<lparr>BallotID = ballotID, EncryptedBallot = eb, ZKProofs = zk, SubmittedAt = 0, Position = position,
                   MerkleRootSHA = ''''\<rparr>
        in case InsertBallot env (fail_insert env attempt) (insert_applied env attempt) rec (others_write env attempt db) of
             (Inr _, db') \<Rightarrow> (Inr position, db')
           | (Inl e, db') \<Rightarrow>
               if e = ErrDuplicateBallot then (Inl ErrDuplicateBallot, db')
               else if e = ErrPositionConflict then
                 if rest = [] then (Inl ErrPositionConflict, db') else insert_loop env ballotID eb zk rest db'
               else (Inl e, db'))"

definition maxRetries :: nat where "maxRetries = 3"

definition AppendBallot ::
  "sha \<Rightarrow> db_env \<Rightarrow> string \<Rightarrow> bytes \<Rightarrow> bytes \<Rightarrow> Board \<times> board_db \<Rightarrow> (board_error + AppendResult) \<times> Board \<times> board_db" where
  "AppendBallot sha env ballotID eb zk = (\<lambda>(b, db).
     if sealed b then (Inl ErrBoardSealed, b, db)
     else if (case validateFn b of None \<Rightarrow> False | Some f \<Rightarrow> \<not> f eb zk) then (Inl ValidationFailed, b, db)
     else
       let leafData = EncodeLeaf ballotID eb zk in
       case insert_loop env ballotID eb zk [0..<maxRetries] db of
         (Inl e, db') \<Rightarrow> (Inl e, b, db')
       | (Inr position, db') \<Rightarrow>
           (case bindE (Append sha (board_tree b) leafData) (\<lambda>(_, t). bindE (Root sha t) (\<lambda>r. Inr (t, r))) of
              Inl e \<Rightarrow> (Inl (TreeError e), b, db')
            | Inr (t, rootHash) \<Rightarrow>
                (Inr \<lparr>res_Position = position, res_MerkleRoot = hex_hash rootHash\<rparr>, b\<lparr>board_tree := t\<rparr>, db')))"

record Inclusion =
  inc_Proof :: "hash list"
  TreeSize :: nat
  inc_Root :: hash

text \<open>The row is read before the lock is taken, so \<open>b\<close> may be a later state than \<open>db\<close>.\<close>

definition Board_GetBallot ::
  "sha \<Rightarrow> bool \<Rightarrow> string \<Rightarrow> Board \<times> board_db \<Rightarrow> board_error + (BallotRecord \<times> Inclusion) option" where
  "Board_GetBallot sha db_fails ballotID = (\<lambda>(b, db).
     if db_fails \<or> \<not> text_ok ballotID then Inl DbFailed
     else case store_GetBallot db ballotID of
       None \<Rightarrow> Inr None
     | Some rec \<Rightarrow>
         let size = Size (board_tree b) in
         if Position rec < 1 \<or> int size \<le> Position rec - 1 then Inl NotInTree
         else
           bindE (tree_error (InclusionProof sha (board_tree b) (nat (Position rec - 1)) size)) (\<lambda>proof.
           bindE (tree_error (Root sha (board_tree b))) (\<lambda>root.
           Inr (Some (rec, \<lparr>inc_Proof = proof, TreeSize = size, inc_Root = root\<rparr>)))))"

definition Board_Root :: "sha \<Rightarrow> Board \<Rightarrow> board_error + string" where
  "Board_Root sha b =
     (if Size (board_tree b) = 0 then Inr '''' else bindE (tree_error (Root sha (board_tree b))) (\<lambda>r. Inr (hex_hash r)))"

definition Board_Size :: "Board \<Rightarrow> int" where
  "Board_Size b = int (Size (board_tree b))"

text \<open>A write of the state that fails for the connection may have taken effect, as an insert.\<close>

definition Seal :: "bool \<Rightarrow> bool \<Rightarrow> Board \<times> board_db \<Rightarrow> (board_error + unit) \<times> Board \<times> board_db" where
  "Seal db_fails applied = (\<lambda>(b, db).
     if db_fails then (Inl DbFailed, b, if applied then SetBoardState db ''sealed'' ''true'' else db)
     else (Inr (), b\<lparr>sealed := True\<rparr>, SetBoardState db ''sealed'' ''true''))"

definition IsSealed :: "Board \<Rightarrow> bool" where
  "IsSealed b = sealed b"

section \<open>Signed roots\<close>

record SignedRoot =
  RootSHA256 :: string
  BallotCount :: int
  SignedAt :: int
  root_Signature :: string

text \<open>The data to sign: root, number of ballots and time, separated by bars.\<close>

definition root_data :: "(int \<Rightarrow> string) \<Rightarrow> string \<Rightarrow> int \<Rightarrow> int \<Rightarrow> bytes" where
  "root_data fmt root nb now = bytes_of (root @ ''|'' @ itoa nb @ ''|'' @ fmt now)"

text \<open>
  \<open>SignRoot\<close> reads the root and the size under two locks, so each may come from its own state of
  the board.
\<close>

definition SignRoot ::
  "sha \<Rightarrow> (int \<Rightarrow> string) \<Rightarrow> (hash \<Rightarrow> bytes option) \<Rightarrow> int \<Rightarrow> Board \<Rightarrow> Board \<Rightarrow> board_error + SignedRoot option" where
  "SignRoot sha fmt ecdsa_sign now b1 b2 =
     bindE (Board_Root sha b1) (\<lambda>root.
     let nb = Board_Size b2 in
     case ecdsa_sign (sha (root_data fmt root nb now)) of
       None \<Rightarrow> Inr None
     | Some sigBytes \<Rightarrow> Inr (Some \<lparr>RootSHA256 = root, BallotCount = nb, SignedAt = now,
         root_Signature = b64_encode std_alphabet sigBytes\<rparr>))"

definition VerifySignature :: "sha \<Rightarrow> (int \<Rightarrow> string) \<Rightarrow> (hash \<Rightarrow> bytes \<Rightarrow> bool) \<Rightarrow> SignedRoot \<Rightarrow> bool" where
  "VerifySignature sha fmt ecdsa_verify sr =
     (case b64_decode std_alphabet (root_Signature sr) of
        None \<Rightarrow> False
      | Some sigBytes \<Rightarrow> ecdsa_verify (sha (root_data fmt (RootSHA256 sr) (BallotCount sr) (SignedAt sr))) sigBytes)"

definition ToStoreRecord :: "SignedRoot \<Rightarrow> SignedRootRecord" where
  "ToStoreRecord sr = \<lparr>sr_ID = 0, sr_SignedAt = 0, sr_RootSHA256 = RootSHA256 sr, sr_BallotCount = BallotCount sr,
     sr_Signature = root_Signature sr\<rparr>"

section \<open>The board refines a list of ballots\<close>

lemma EncodeLeaf_lp: "EncodeLeaf i eb zk = leaf_data i eb zk"
  by (simp add: EncodeLeaf_def leaf_data_def lp_def)

lemma leaf_data_inject:
  assumes "length i < 2 ^ 32" "length i' < 2 ^ 32" "length eb < 2 ^ 32" "length eb' < 2 ^ 32" "length zk < 2 ^ 32" "length zk' < 2 ^ 32"
  shows "leaf_data i eb zk = leaf_data i' eb' zk' \<longleftrightarrow> i = i' \<and> eb = eb' \<and> zk = zk'"
  using assms by (simp add: leaf_data_def lp_append_inject lp_inject bytes_of_inject)

text \<open>The tree of the board holds the given leaves, and the rows are as the board writes them.\<close>

definition board_inv :: "sha \<Rightarrow> bytes list \<Rightarrow> Board \<times> board_db \<Rightarrow> bool" where
  "board_inv sha leaves = (\<lambda>(b, db). board_tree b = tree_for sha (map (LeafHash sha) leaves) \<and> db_inv db)"

text \<open>The tree and the rows are in step: one leaf per row.\<close>

definition board_for :: "sha \<Rightarrow> bytes list \<Rightarrow> Board \<times> board_db \<Rightarrow> bool" where
  "board_for sha leaves = (\<lambda>(b, db). board_inv sha leaves (b, db) \<and> length leaves = length (ballots db))"

definition record_leaf :: "BallotRecord \<Rightarrow> bytes" where
  "record_leaf r = leaf_data (BallotID r) (EncryptedBallot r) (ZKProofs r)"

text \<open>Nobody else writes between the two queries of an attempt.\<close>

definition alone :: "db_env \<Rightarrow> bool" where
  "alone env \<longleftrightarrow> others_write env 0 = (\<lambda>db. db)"

definition append_fails :: "db_env \<Rightarrow> bool" where
  "append_fails env \<longleftrightarrow> fail_max env 0 \<or> fail_insert env 0"

text \<open>The insert is an error for the board, but the server has applied it.\<close>

definition insert_lost :: "db_env \<Rightarrow> bool" where
  "insert_lost env \<longleftrightarrow> \<not> fail_max env 0 \<and> fail_insert env 0 \<and> insert_applied env 0"

definition new_record :: "db_env \<Rightarrow> string \<Rightarrow> bytes \<Rightarrow> bytes \<Rightarrow> nat \<Rightarrow> BallotRecord" where
  "new_record env i eb zk n = \<lparr>BallotID = i, EncryptedBallot = the (jsonb env eb), ZKProofs = the (jsonb env zk),
     SubmittedAt = db_now env, Position = int n + 1, MerkleRootSHA = ''''\<rparr>"

definition with_row :: "db_env \<Rightarrow> string \<Rightarrow> bytes \<Rightarrow> bytes \<Rightarrow> board_db \<Rightarrow> board_db" where
  "with_row env i eb zk db = db\<lparr>ballots := ballots db @ [new_record env i eb zk (length (ballots db))]\<rparr>"

text \<open>A ballot whose values the columns take, and one whose row the table takes.\<close>

definition storable :: "db_env \<Rightarrow> string \<Rightarrow> bytes \<Rightarrow> bytes \<Rightarrow> bool" where
  "storable env i eb zk \<longleftrightarrow> text_ok i \<and> jsonb env eb \<noteq> None \<and> jsonb env zk \<noteq> None"

definition insertable :: "db_env \<Rightarrow> string \<Rightarrow> bytes \<Rightarrow> bytes \<Rightarrow> board_db \<Rightarrow> bool" where
  "insertable env i eb zk db \<longleftrightarrow> storable env i eb zk \<and> i \<notin> BallotID ` set (ballots db)"

lemma insert_loop_alone:
  assumes "alone env" "db_inv db"
  shows "insert_loop env i eb zk [0..<maxRetries] db =
    (if append_fails env then (Inl DbFailed, if insert_lost env \<and> insertable env i eb zk db then with_row env i eb zk db else db)
     else if \<not> storable env i eb zk then (Inl InvalidValue, db)
     else if i \<in> BallotID ` set (ballots db) then (Inl ErrDuplicateBallot, db)
     else (Inr (int (length (ballots db)) + 1), with_row env i eb zk db))"
proof -
  have "[0..<maxRetries] = 0 # [1..<maxRetries]" by (simp add: maxRetries_def upt_rec)
  then show ?thesis
    using assms position_fresh [OF assms(2)]
    by (auto simp: alone_def append_fails_def InsertBallot_def insert_row_def unique_violation_def classify_violation_def constraint_names
        GetMaxPosition_eq new_record_def with_row_def insert_lost_def insertable_def storable_def Let_def split: option.splits)
qed

lemma AppendBallot_alone:
  assumes "alone env" "board_inv sha leaves (b, db)"
  shows "AppendBallot sha env i eb zk (b, db) =
    (if sealed b then (Inl ErrBoardSealed, b, db)
     else if (case validateFn b of None \<Rightarrow> False | Some f \<Rightarrow> \<not> f eb zk) then (Inl ValidationFailed, b, db)
     else if append_fails env then (Inl DbFailed, b, if insert_lost env \<and> insertable env i eb zk db then with_row env i eb zk db else db)
     else if \<not> storable env i eb zk then (Inl InvalidValue, b, db)
     else if i \<in> BallotID ` set (ballots db) then (Inl ErrDuplicateBallot, b, db)
     else (Inr \<lparr>res_Position = int (length (ballots db)) + 1, res_MerkleRoot = hex_hash (MTH sha (leaves @ [leaf_data i eb zk]))\<rparr>,
       b\<lparr>board_tree := tree_for sha (map (LeafHash sha) (leaves @ [leaf_data i eb zk]))\<rparr>, with_row env i eb zk db))"
  using assms
  by (simp add: AppendBallot_def insert_loop_alone board_inv_def Append_tree_for Root_tree_for EncodeLeaf_lp MTH_def Let_def)

end
