(* ===== verification/Board_Api.thy ===== *)
theory Board_Api
  imports Board Http
begin

text \<open>
  The HTTP interface of the bulletin board (\<open>bulletin-board/api\<close>) and the client that the tally
  service reads it with (\<open>tally/bbclient.go\<close>): submission, pages with cursors, single ballots with
  inclusion proofs, and the loop that follows the cursors.  Encoding and decoding of JSON bodies
  are parameters.
\<close>

section \<open>Handlers\<close>

definition requireAPIKey :: "string \<Rightarrow> (http_request \<Rightarrow> 'st \<Rightarrow> 'a response \<times> 'st) \<Rightarrow> http_request \<Rightarrow> 'st \<Rightarrow> 'a response \<times> 'st" where
  "requireAPIKey key next_handler r st =
     (let provided = req_header r ''X-Internal-Key'' in
      if provided \<noteq> key then (Failure 401 ''unauthorized'', st) else next_handler r st)"

record submitBallotRequest =
  sbr_BallotID :: string
  sbr_EncryptedBallot :: bytes
  sbr_ZKProofs :: bytes

definition handleSubmitBallot ::
  "sha \<Rightarrow> db_env \<Rightarrow> (bytes \<Rightarrow> submitBallotRequest option) \<Rightarrow> http_request \<Rightarrow> Board \<times> board_db \<Rightarrow> AppendResult response \<times> Board \<times> board_db" where
  "handleSubmitBallot sha env decode r s =
     (case decode (req_body r) of
        None \<Rightarrow> (Failure 400 ''invalid_body'', s)
      | Some req \<Rightarrow>
          if sbr_BallotID req = '''' then (Failure 400 ''missing_ballot_id'', s)
          else
            (case AppendBallot sha env (sbr_BallotID req) (sbr_EncryptedBallot req) (sbr_ZKProofs req) s of
               (Inl err, s') \<Rightarrow>
                 (if err = ErrBoardSealed then Failure 409 ''board_sealed''
                  else if err = ErrDuplicateBallot then Failure 409 ''duplicate_ballot''
                  else Failure 500 ''internal'', s')
             | (Inr result, s') \<Rightarrow> (Success StatusCreated result, s')))"

text \<open>\<open>string(data)\<close> for bytes from the wire.\<close>

definition string_of :: "bytes \<Rightarrow> string" where
  "string_of bs = map (\<lambda>b. char_of (unat b)) bs"

record page =
  page_records :: "BallotRecord list"
  page_cursor :: string
  page_total :: int

definition page_limit :: "string \<Rightarrow> nat" where
  "page_limit l =
     (if l \<noteq> '''' then
        let (parsed, ok) = ParseInt64 l in if ok \<and> 0 < parsed \<and> parsed \<le> 1000 then nat parsed else 100
      else 100)"

definition handleListBallots :: "bool \<Rightarrow> http_request \<Rightarrow> Board \<times> board_db \<Rightarrow> page response" where
  "handleListBallots db_fails r = (\<lambda>(b, db).
     let cursor = req_query r ''cursor'' in
     case (if cursor \<noteq> '''' then
             case b64_decode url_alphabet cursor of
               None \<Rightarrow> Inl ''invalid_cursor''
             | Some data \<Rightarrow> Inr (fst (ParseInt64 (string_of data)))
           else Inr 0) of
       Inl code \<Rightarrow> Failure 400 code
     | Inr afterPos \<Rightarrow>
         let limit = page_limit (req_query r ''limit'') in
         if db_fails then Failure 500 ''internal''
         else
           let records = ListBallots db afterPos limit;
               nextCursor = (if length records = limit
                 then b64_encode url_alphabet (bytes_of (itoa (Position (last records)))) else '''')
           in Success StatusOK \<lparr>page_records = records, page_cursor = nextCursor, page_total = Board_Size b\<rparr>)"

record ballotResponse =
  br_Record :: BallotRecord
  MerkleProof :: "string list"
  br_TreeSize :: nat
  br_RootSHA256 :: string

definition handleGetBallot :: "sha \<Rightarrow> bool \<Rightarrow> (http_request \<Rightarrow> string) \<Rightarrow> http_request \<Rightarrow> Board \<times> board_db \<Rightarrow> ballotResponse response" where
  "handleGetBallot sha db_fails path_id r s =
     (let ballotID = path_id r in
      if ballotID = '''' then Failure 400 ''missing_id''
      else case Board_GetBallot sha db_fails ballotID s of
        Inl _ \<Rightarrow> Failure 500 ''internal''
      | Inr None \<Rightarrow> Failure 404 ''ballot_not_found''
      | Inr (Some (rec, inc)) \<Rightarrow>
          Success StatusOK \<lparr>br_Record = rec, MerkleProof = map hex_hash (inc_Proof inc), br_TreeSize = TreeSize inc,
            br_RootSHA256 = hex_hash (inc_Root inc)\<rparr>)"

text \<open>The three fields of \<open>handleGetRoot\<close> are read under three locks.\<close>

definition handleGetRoot :: "sha \<Rightarrow> Board \<Rightarrow> Board \<Rightarrow> Board \<Rightarrow> (string \<times> int \<times> bool) response" where
  "handleGetRoot sha b1 b2 b3 =
     (case Board_Root sha b1 of
        Inl _ \<Rightarrow> Failure 500 ''panic''
      | Inr root \<Rightarrow> Success StatusOK (root, Board_Size b2, IsSealed b3))"

text \<open>\<open>withCORS\<close>: the headers set, and whether the next handler runs.\<close>

definition withCORS ::
  "string list \<Rightarrow> (http_request \<Rightarrow> 'st \<Rightarrow> 'a response \<times> 'st) \<Rightarrow> http_request \<Rightarrow> 'st
    \<Rightarrow> (string \<times> string) list \<times> 'a response option \<times> 'st" where
  "withCORS allowedOrigins next_handler r st =
     (let allowAll = (length allowedOrigins = 1 \<and> allowedOrigins ! 0 = ''*'');
          origin = req_header r ''Origin'';
          headers = (if allowAll \<or> origin \<in> set allowedOrigins
              then [(''Access-Control-Allow-Origin'', origin), (''Vary'', ''Origin'')] else [])
            @ [(''Access-Control-Allow-Methods'', ''GET, OPTIONS''), (''Access-Control-Allow-Headers'', ''Content-Type'')]
      in if req_method r = ''OPTIONS'' then (headers, None, st)
         else case next_handler r st of (resp, st') \<Rightarrow> (headers, Some resp, st'))"

section \<open>The client\<close>

record SerializedBallot =
  sb_BallotID :: string
  sb_EncryptedBallot :: bytes

record BBClient =
  baseURL :: string
  pageLimit :: nat

definition defaultPageLimit :: nat where "defaultPageLimit = 1000"
definition maxResponseBytes :: nat where "maxResponseBytes = 64 * 1024 * 1024"

definition NewBBClient :: "string \<Rightarrow> BBClient" where
  "NewBBClient url = \<lparr>baseURL = url, pageLimit = defaultPageLimit\<rparr>"

datatype client_error = BadURL | Unreachable | HttpStatus nat | DecodeError

text \<open>A server maps a URL and a query to a reply; \<open>url_ok\<close> says which URLs parse.\<close>

type_synonym server = "string \<Rightarrow> (string \<times> string) list \<Rightarrow> reply"

definition client_IsSealed :: "(string \<Rightarrow> bool) \<Rightarrow> server \<Rightarrow> (bytes \<Rightarrow> bool option) \<Rightarrow> BBClient \<Rightarrow> client_error + bool" where
  "client_IsSealed url_ok srv decode c =
     (let reqURL = baseURL c @ ''/api/v1/board/root'' in
      if \<not> url_ok reqURL then Inl BadURL
      else case srv reqURL [] of
        NoReply \<Rightarrow> Inl Unreachable
      | Reply status body \<Rightarrow>
          if status \<noteq> StatusOK then Inl (HttpStatus status)
          else case decode (take maxResponseBytes body) of None \<Rightarrow> Inl DecodeError | Some s \<Rightarrow> Inr s)"

definition buildPageURL :: "(string \<Rightarrow> bool) \<Rightarrow> BBClient \<Rightarrow> string \<Rightarrow> client_error + string \<times> (string \<times> string) list" where
  "buildPageURL url_ok c cursor =
     (let u = baseURL c @ ''/api/v1/board'' in
      if \<not> url_ok u then Inl BadURL
      else Inr (u, (''limit'', itoa (int (pageLimit c))) # (if cursor \<noteq> '''' then [(''cursor'', cursor)] else [])))"

definition fetchPage ::
  "(string \<Rightarrow> bool) \<Rightarrow> server \<Rightarrow> (bytes \<Rightarrow> (SerializedBallot list \<times> string) option) \<Rightarrow> BBClient \<Rightarrow> string
    \<Rightarrow> client_error + SerializedBallot list \<times> string" where
  "fetchPage url_ok srv decode c cursor =
     bindE (buildPageURL url_ok c cursor) (\<lambda>(u, q).
     case srv u q of
       NoReply \<Rightarrow> Inl Unreachable
     | Reply status body \<Rightarrow>
         let decoded = decode (take maxResponseBytes body) in
         if status \<noteq> StatusOK then Inl (HttpStatus status)
         else case decoded of None \<Rightarrow> Inl DecodeError | Some p \<Rightarrow> Inr p)"

text \<open>The loop of \<open>FetchAllBallots\<close> has no bound: \<open>None\<close> is a run that never ends.\<close>

partial_function (option) fetch_loop ::
  "(string \<Rightarrow> client_error + SerializedBallot list \<times> string) \<Rightarrow> string \<Rightarrow> SerializedBallot list
    \<Rightarrow> (client_error + SerializedBallot list) option" where
  "fetch_loop fetch cursor allBallots =
     (case fetch cursor of
        Inl e \<Rightarrow> Some (Inl e)
      | Inr p \<Rightarrow>
          if snd p = '''' then Some (Inr (allBallots @ fst p))
          else fetch_loop fetch (snd p) (allBallots @ fst p))"

definition FetchAllBallots ::
  "(string \<Rightarrow> bool) \<Rightarrow> server \<Rightarrow> (bytes \<Rightarrow> (SerializedBallot list \<times> string) option) \<Rightarrow> BBClient
    \<Rightarrow> (client_error + SerializedBallot list) option" where
  "FetchAllBallots url_ok srv decode c = fetch_loop (fetchPage url_ok srv decode c) '''' []"

section \<open>Following the cursors\<close>

lemma string_of_bytes_of [simp]: "string_of (bytes_of s) = s"
proof -
  have "char_of (unat (of_char c :: byte)) = c" for c
  proof -
    have "(of_char c :: nat) < 256"
      using of_char_mod_256 [of c, where ?'a = nat] by (metis mod_less_divisor zero_less_numeral)
    then have "unat (of_nat (of_char c) :: byte) = of_char c"
      by (simp add: unat_of_nat take_bit_nat_eq_self)
    then show ?thesis by (simp add: of_nat_of_char)
  qed
  then show ?thesis by (simp add: string_of_def bytes_of_def comp_def)
qed

text \<open>A page of the board's list with the cursor that follows it.\<close>

definition next_cursor :: "BallotRecord list \<Rightarrow> nat \<Rightarrow> string" where
  "next_cursor records limit =
     (if length records = limit then b64_encode url_alphabet (bytes_of (itoa (Position (last records)))) else '''')"

definition cursor_for :: "int \<Rightarrow> string" where
  "cursor_for p = b64_encode url_alphabet (bytes_of (itoa p))"

lemma cursor_for_nonempty [simp]: "cursor_for p \<noteq> ''''"
proof -
  have ne: "b64_encode al bs \<noteq> []" if "bs \<noteq> []" for al bs
    using that by (cases bs; cases "tl bs"; cases "tl (tl bs)") (auto simp: Let_def)
  have "bytes_of (itoa p) \<noteq> []" by (simp add: bytes_of_def itoa_def utoa_nonempty)
  then show ?thesis unfolding cursor_for_def by (rule ne)
qed

lemma cursor_for_decode:
  "0 \<le> p \<Longrightarrow> p < 2 ^ 63 \<Longrightarrow>
    b64_decode url_alphabet (cursor_for p) = Some (bytes_of (itoa p)) \<and> fst (ParseInt64 (string_of (bytes_of (itoa p)))) = p"
  by (simp add: cursor_for_def b64_decode_encode ParseInt64_itoa)

lemma page_limit_itoa: "0 < n \<Longrightarrow> n \<le> 1000 \<Longrightarrow> page_limit (itoa (int n)) = n"
proof -
  assume n: "0 < n" "n \<le> 1000"
  have "itoa (int n) \<noteq> ''''" by (simp add: itoa_def)
  with n show ?thesis by (simp add: page_limit_def ParseInt64_itoa)
qed

text \<open>
  The pages a client sees when the board answers.  Go compacts a \<open>json.RawMessage\<close> and escapes
  it for HTML when it writes a page, so the client reads the same JSON value in other bytes:
  \<open>wire\<close> is what becomes of them on the way.
\<close>

definition serialize :: "(bytes \<Rightarrow> bytes) \<Rightarrow> BallotRecord \<Rightarrow> SerializedBallot" where
  "serialize wire r = \<lparr>sb_BallotID = BallotID r, sb_EncryptedBallot = wire (EncryptedBallot r)\<rparr>"

definition board_pages :: "(bytes \<Rightarrow> bytes) \<Rightarrow> board_db \<Rightarrow> nat \<Rightarrow> int \<Rightarrow> client_error + SerializedBallot list \<times> string" where
  "board_pages wire db limit afterPos =
     (let records = ListBallots db afterPos limit in Inr (map (serialize wire) records, next_cursor records limit))"

lemma ListBallots_eq:
  assumes "db_inv db" "k \<le> length (ballots db)"
  shows "ListBallots db (int k) limit = take limit (drop k (ballots db))"
proof -
  note pos = db_inv_nth [OF assms(1)]
  have "filter (\<lambda>r. int k < Position r) (take k (ballots db)) = []"
    using pos assms(2) by (auto simp: filter_empty_conv in_set_conv_nth)
  moreover have "filter (\<lambda>r. int k < Position r) (drop k (ballots db)) = drop k (ballots db)"
    using pos by (intro filter_True) (auto simp: in_set_conv_nth)
  ultimately have "filter (\<lambda>r. int k < Position r) (ballots db) = drop k (ballots db)"
    by (metis append_Nil append_take_drop_id filter_append)
  then show ?thesis by (simp add: ListBallots_def by_position_eq [OF assms(1)])
qed

lemma fetch_loop_pages:
  assumes "db_inv db" "0 < limit" "k \<le> length (ballots db)"
    and "fetch cursor = board_pages wire db limit (int k)"
    and "\<And>p. 0 < p \<Longrightarrow> p \<le> int (length (ballots db)) \<Longrightarrow> fetch (cursor_for p) = board_pages wire db limit p"
  shows "fetch_loop fetch cursor acc = Some (Inr (acc @ map (serialize wire) (drop k (ballots db))))"
  using assms(3,4)
proof (induction "length (ballots db) - k" arbitrary: k cursor acc rule: less_induct)
  case less
  let ?records = "take limit (drop k (ballots db))"
  have fetch: "fetch cursor = Inr (map (serialize wire) ?records, next_cursor ?records limit)"
    using less.prems(2) by (simp add: board_pages_def Let_def ListBallots_eq [OF assms(1) less.prems(1)])
  show ?case
  proof (cases "length ?records = limit")
    case False
    then have "?records = drop k (ballots db)" by simp
    with False fetch show ?thesis by (subst fetch_loop.simps) (simp add: next_cursor_def)
  next
    case True
    then have le: "k + limit \<le> length (ballots db)" using assms(2) less.prems(1) by simp
    have "last ?records = ballots db ! (k + limit - 1)"
    proof -
      have "?records \<noteq> []" using True assms(2) by auto
      then have "last ?records = ?records ! (limit - 1)" by (metis True last_conv_nth)
      then show ?thesis using le assms(2) by simp
    qed
    moreover have "Position (ballots db ! (k + limit - 1)) = int (k + limit)"
      using db_inv_nth [OF assms(1), of "k + limit - 1"] le assms(2) by simp
    ultimately have cur: "next_cursor ?records limit = cursor_for (int (k + limit))"
      unfolding next_cursor_def cursor_for_def using True by simp
    have "fetch_loop fetch (cursor_for (int (k + limit))) (acc @ map (serialize wire) ?records)
        = Some (Inr ((acc @ map (serialize wire) ?records) @ map (serialize wire) (drop (k + limit) (ballots db))))"
      by (rule less.hyps) (use le assms(2,5) in auto)
    moreover have "map (serialize wire) ?records @ map (serialize wire) (drop (k + limit) (ballots db)) = map (serialize wire) (drop k (ballots db))"
      by (metis add.commute append_take_drop_id drop_drop map_append)
    ultimately show ?thesis
      by (subst fetch_loop.simps) (simp add: fetch cur)
  qed
qed

text \<open>A server whose cursors never end keeps the client in the loop for ever.\<close>

lemma fetch_loop_ends:
  "fetch_loop fetch cursor acc = Some r \<Longrightarrow> \<exists>c. case fetch c of Inl _ \<Rightarrow> True | Inr (page, nxt) \<Rightarrow> nxt = []"
proof (erule fetch_loop.raw_induct [rotated])
  fix loop fetch cursor acc r
  assume IH: "\<And>fetch cursor acc r. loop fetch cursor acc = Some r \<Longrightarrow> \<exists>c. case fetch c of Inl _ \<Rightarrow> True | Inr (page, nxt) \<Rightarrow> nxt = []"
    and run: "(case fetch cursor of Inl e \<Rightarrow> Some (Inl e)
      | Inr p \<Rightarrow> if snd p = [] then Some (Inr (acc @ fst p)) else loop fetch (snd p) (acc @ fst p)) = Some r"
  show "\<exists>c. case fetch c of Inl _ \<Rightarrow> True | Inr (page, nxt) \<Rightarrow> nxt = []"
  proof (cases "fetch cursor")
    case (Inr p)
    show ?thesis
    proof (cases "snd p = []")
      case True
      with Inr show ?thesis by (intro exI [of _ cursor]) (simp add: case_prod_beta)
    next
      case False
      with run Inr have "loop fetch (snd p) (acc @ fst p) = Some r" by simp
      then show ?thesis by (rule IH)
    qed
  qed (auto intro: exI [of _ cursor])
qed

lemma fetch_loop_forever:
  assumes "\<And>cursor. \<exists>page nxt. fetch cursor = Inr (page, nxt) \<and> nxt \<noteq> []"
  shows "fetch_loop fetch cursor acc = None"
proof (rule ccontr)
  assume "fetch_loop fetch cursor acc \<noteq> None"
  then obtain r where "fetch_loop fetch cursor acc = Some r" by auto
  from fetch_loop_ends [OF this] obtain c where "case fetch c of Inl _ \<Rightarrow> True | Inr (page, nxt) \<Rightarrow> nxt = []" ..
  with assms [of c] show False by auto
qed

end
