(* ===== verification/Board_Props.thy ===== *)
theory Board_Props
  imports Board_Api "HOL-Library.Sublist"
begin

text \<open>
  The properties of the bulletin board: runs of appends, sealing and restarts as step relations
  with what they preserve, the outcomes of \<open>AppendBallot\<close>, the proofs the board gives for its
  ballots, rebuilding after a restart, and a client that reads the whole board page by page.
\<close>

section \<open>One append\<close>

lemma with_row_simps [simp]:
  "ballots (with_row env i eb zk db) = ballots db @ [new_record env i eb zk (length (ballots db))]"
  "GetBoardState (with_row env i eb zk db) k = GetBoardState db k"
  by (simp_all add: with_row_def GetBoardState_def)

lemma new_record_simps [simp]: "BallotID (new_record env i eb zk n) = i" "Position (new_record env i eb zk n) = int n + 1"
  "EncryptedBallot (new_record env i eb zk n) = the (jsonb env eb)" "ZKProofs (new_record env i eb zk n) = the (jsonb env zk)"
  by (simp_all add: new_record_def)

lemma with_row_inv: "db_inv db \<Longrightarrow> insertable env i eb zk db \<Longrightarrow> db_inv (with_row env i eb zk db)"
  by (rule db_inv_append) (simp_all add: insertable_def)

text \<open>An append changes nothing, or leaves a row without a leaf, or adds one row and one leaf.\<close>

lemma AppendBallot_cases:
  assumes "alone env" "board_inv sha lv (b, db)" "AppendBallot sha env i eb zk (b, db) = (r, b', db')"
  obtains (same) e where "r = Inl e" "b' = b" "db' = db"
    | (lost) "r = Inl DbFailed" "b' = b" "\<not> sealed b" "insert_lost env" "insertable env i eb zk db"
        "db' = with_row env i eb zk db" "board_inv sha lv (b', db')"
    | (added) res where "r = Inr res" "\<not> sealed b" "insertable env i eb zk db" "db' = with_row env i eb zk db"
        "b' = b\<lparr>board_tree := tree_for sha (map (LeafHash sha) (lv @ [EncodeLeaf i eb zk]))\<rparr>"
        "res_Position res = int (length (ballots db)) + 1" "board_inv sha (lv @ [EncodeLeaf i eb zk]) (b', db')"
proof (cases r)
  case (Inl e)
  with assms(3) have "b' = b" "db' = db \<or> (e = DbFailed \<and> \<not> sealed b \<and> insert_lost env \<and> insertable env i eb zk db \<and> db' = with_row env i eb zk db)"
    by (auto simp: AppendBallot_alone [OF assms(1,2)] split: if_splits)
  with Inl assms(2) show ?thesis
    by (auto simp: board_inv_def with_row_inv intro: same lost)
next
  case (Inr res)
  with assms(3) have "\<not> sealed b" "insertable env i eb zk db" "db' = with_row env i eb zk db"
    "b' = b\<lparr>board_tree := tree_for sha (map (LeafHash sha) (lv @ [EncodeLeaf i eb zk]))\<rparr>" "res_Position res = int (length (ballots db)) + 1"
    by (auto simp: AppendBallot_alone [OF assms(1,2)] insertable_def EncodeLeaf_lp split: if_splits)
  with Inr assms(2) show ?thesis
    by (auto simp: board_inv_def with_row_inv intro!: added)
qed

section \<open>Runs of the board\<close>

text \<open>
  The board's process is the only writer of its tables, and \<open>norm\<close> is what a \<open>jsonb\<close> column does
  to the text it is given.
\<close>

definition one_writer :: "(bytes \<Rightarrow> bytes option) \<Rightarrow> db_env \<Rightarrow> bool" where
  "one_writer norm env \<longleftrightarrow> alone env \<and> jsonb env = norm"

text \<open>JSON whose normal form is itself, so that the database gives back the bytes it was given.\<close>

definition canonical :: "(bytes \<Rightarrow> bytes option) \<Rightarrow> bool" where
  "canonical norm \<longleftrightarrow> (\<forall>x y. norm x = Some y \<longrightarrow> y = x)"

text \<open>
  The steps within the life of a process, for the databases that \<open>Q\<close> allows, and the steps of a
  board that may be restarted.  Calls may fail, with their effect or without.
\<close>

inductive live_step :: "sha \<Rightarrow> (db_env \<Rightarrow> bool) \<Rightarrow> Board \<times> board_db \<Rightarrow> Board \<times> board_db \<Rightarrow> bool" for sha Q where
  append: "Q env \<Longrightarrow> AppendBallot sha env i eb zk s = (r, s') \<Longrightarrow> live_step sha Q s s'"
| seal: "Seal db_fails applied s = (r, s') \<Longrightarrow> live_step sha Q s s'"
| validator: "live_step sha Q (b, db) (SetValidator b f, db)"

inductive board_step :: "sha \<Rightarrow> (db_env \<Rightarrow> bool) \<Rightarrow> Board \<times> board_db \<Rightarrow> Board \<times> board_db \<Rightarrow> bool" for sha Q where
  live: "live_step sha Q s s' \<Longrightarrow> board_step sha Q s s'"
| restart: "Board_New sha db_fails db = Inr b' \<Longrightarrow> board_step sha Q (b, db) (b', db)"

inductive_cases live_stepE [elim]: "live_step sha Q s s'"
inductive_cases board_stepE [elim]: "board_step sha Q s s'"

definition board_leaves :: "board_db \<Rightarrow> bytes list" where
  "board_leaves db = map record_leaf (ballots db)"

definition stored_seal :: "board_db \<Rightarrow> bool" where
  "stored_seal db \<longleftrightarrow> GetBoardState db ''sealed'' = ''true''"

text \<open>The leaf of a row: the submitted bytes, of which the row has the normal form.\<close>

definition leaf_of_row :: "(bytes \<Rightarrow> bytes option) \<Rightarrow> bytes \<Rightarrow> BallotRecord \<Rightarrow> bool" where
  "leaf_of_row norm leaf r \<longleftrightarrow>
     (\<exists>eb zk. leaf = EncodeLeaf (BallotID r) eb zk \<and> norm eb = Some (EncryptedBallot r) \<and> norm zk = Some (ZKProofs r))"

lemma canonical_leaves:
  assumes "list_all2 (leaf_of_row norm) new rs" "canonical norm"
  shows "new = map record_leaf rs"
  using assms(1)
proof (induction rule: list_all2_induct)
  case (Cons leaf new r rs)
  then have "leaf = record_leaf r"
    using assms(2) unfolding canonical_def leaf_of_row_def record_leaf_def EncodeLeaf_lp by blast
  with Cons show ?case by simp
qed simp

text \<open>
  What a part of a run does to a board: it adds rows and leaves, the leaves are those of some of
  the rows in their order, and a sealed board is left as it is.
\<close>

definition keeps_inserts :: "(db_env \<Rightarrow> bool) \<Rightarrow> bool" where
  "keeps_inserts Q \<longleftrightarrow> (\<forall>env. Q env \<longrightarrow> \<not> insert_lost env)"

definition grown :: "(bytes \<Rightarrow> bytes option) \<Rightarrow> (db_env \<Rightarrow> bool) \<Rightarrow> Board \<times> board_db \<Rightarrow> Board \<times> board_db
    \<Rightarrow> bytes list \<Rightarrow> BallotRecord list \<Rightarrow> bool" where
  "grown norm Q s s' new rs \<longleftrightarrow>
     ballots (snd s') = ballots (snd s) @ rs
     \<and> (\<exists>rows. subseq rows rs \<and> list_all2 (leaf_of_row norm) new rows \<and> (keeps_inserts Q \<longrightarrow> rows = rs))
     \<and> (sealed (fst s) \<longrightarrow> sealed (fst s') \<and> rs = []) \<and> (stored_seal (snd s) \<longrightarrow> stored_seal (snd s'))
     \<and> ((sealed (fst s) \<longrightarrow> stored_seal (snd s)) \<longrightarrow> sealed (fst s') \<longrightarrow> stored_seal (snd s'))"

lemma grown_refl: "grown norm Q s s [] []"
  by (auto simp: grown_def)

lemma grown_trans:
  assumes "grown norm Q s s1 new1 rs1" "grown norm Q s1 s2 new2 rs2"
  shows "grown norm Q s s2 (new1 @ new2) (rs1 @ rs2)"
proof -
  obtain rows1 rows2 where "subseq rows1 rs1" "list_all2 (leaf_of_row norm) new1 rows1" "keeps_inserts Q \<longrightarrow> rows1 = rs1"
    "subseq rows2 rs2" "list_all2 (leaf_of_row norm) new2 rows2" "keeps_inserts Q \<longrightarrow> rows2 = rs2"
    using assms unfolding grown_def by blast
  then have "subseq (rows1 @ rows2) (rs1 @ rs2) \<and> list_all2 (leaf_of_row norm) (new1 @ new2) (rows1 @ rows2)
      \<and> (keeps_inserts Q \<longrightarrow> rows1 @ rows2 = rs1 @ rs2)"
    by (auto intro: list_emb_append_mono list_all2_appendI)
  with assms show ?thesis unfolding grown_def by (intro conjI exI [of _ "rows1 @ rows2"]) auto
qed

lemma live_step_grown:
  assumes "live_step sha Q s s'" "board_inv sha lv s" "\<forall>env. Q env \<longrightarrow> one_writer norm env"
  shows "\<exists>new rs. board_inv sha (lv @ new) s' \<and> grown norm Q s s' new rs"
  using assms(1)
proof cases
  case (append env i eb zk r)
  obtain b db b' db' where s: "s = (b, db)" "s' = (b', db')" by fastforce
  have env: "alone env" "jsonb env = norm" using append(1) assms(3) by (auto simp: one_writer_def)
  let ?rec = "new_record env i eb zk (length (ballots db))"
  show ?thesis
  proof (cases rule: AppendBallot_cases [OF env(1) assms(2) [unfolded s] append(2) [unfolded s], case_names same lost added])
    case same
    then show ?thesis using assms(2) by (intro exI [of _ "[]"]) (simp add: s grown_refl)
  next
    case lost
    then have "\<not> keeps_inserts Q" using append(1) by (auto simp: keeps_inserts_def)
    with lost show ?thesis
      by (intro exI [of _ "[]"] exI [of _ "[?rec]"]) (simp add: s grown_def stored_seal_def)
  next
    case (added res)
    then have "leaf_of_row norm (EncodeLeaf i eb zk) ?rec"
      by (auto simp: leaf_of_row_def insertable_def storable_def env(2))
    with added show ?thesis
      by (intro exI [of _ "[EncodeLeaf i eb zk]"] exI [of _ "[?rec]"])
        (auto simp: s grown_def stored_seal_def intro!: exI [of _ "[?rec]"])
  qed
next
  case (seal db_fails applied r)
  then show ?thesis
    using assms(2) by (cases s) (auto simp: Seal_def board_inv_def grown_def stored_seal_def
      GetBoardState_SetBoardState split: if_splits intro!: exI [of _ "[]"])
next
  case (validator b db f)
  then show ?thesis
    using assms(2) by (auto simp: board_inv_def SetValidator_def grown_def intro!: exI [of _ "[]"])
qed

lemma live_run_grown:
  assumes "(live_step sha Q)\<^sup>*\<^sup>* s s'" "board_inv sha lv s" "\<forall>env. Q env \<longrightarrow> one_writer norm env"
  shows "\<exists>new rs. board_inv sha (lv @ new) s' \<and> grown norm Q s s' new rs"
  using assms(1)
proof (induction rule: rtranclp_induct)
  case base
  then show ?case using assms(2) grown_refl by (intro exI [of _ "[]"]) auto
next
  case (step y z)
  then obtain new rs where y: "board_inv sha (lv @ new) y" "grown norm Q s y new rs" by blast
  from live_step_grown [OF step(2) y(1) assms(3)] obtain new' rs' where
    "board_inv sha ((lv @ new) @ new') z" "grown norm Q y z new' rs'" by blast
  with grown_trans [OF y(2)] show ?case by (intro exI [of _ "new @ new'"] exI [of _ "rs @ rs'"]) auto
qed

section \<open>Starting from the database\<close>

text \<open>A board whose leaves are those of the rows, as every start makes it.\<close>

definition board_ok :: "sha \<Rightarrow> Board \<times> board_db \<Rightarrow> bool" where
  "board_ok sha s \<longleftrightarrow> board_inv sha (board_leaves (snd s)) s"

lemma GetAllLeafData_eq: "db_inv db \<Longrightarrow> GetAllLeafData db = board_leaves db"
  by (simp add: GetAllLeafData_def board_leaves_def record_leaf_def by_position_eq)

lemma Board_New_eq:
  "db_inv db \<Longrightarrow> Board_New sha False db = Inr \<lparr>board_tree = tree_for sha (map (LeafHash sha) (board_leaves db)),
     sealed = stored_seal db, validateFn = None\<rparr>"
  by (simp add: Board_New_def GetAllLeafData_eq append_all_New stored_seal_def)

lemma Board_New_ok:
  assumes "db_inv db" "Board_New sha db_fails db = Inr b"
  shows "board_ok sha (b, db)" "sealed b = stored_seal db"
  using assms by (cases db_fails; auto simp: Board_New_def GetAllLeafData_eq append_all_New board_ok_def board_inv_def stored_seal_def)+

lemma board_ok_simps:
  assumes "board_ok sha (b, db)"
  shows "board_tree b = tree_for sha (map (LeafHash sha) (board_leaves db))"
    and "Size (board_tree b) = length (ballots db)"
    and "Root sha (board_tree b) = Inr (MTH sha (board_leaves db))"
    and "db_inv db"
  using assms by (simp_all add: board_ok_def board_inv_def board_leaves_def Root_tree_for MTH_def)

section \<open>Runs with restarts\<close>

lemma board_step_inv:
  assumes "board_step sha Q s s'" "board_inv sha lv s" "\<forall>env. Q env \<longrightarrow> one_writer norm env" "sealed (fst s) \<longrightarrow> stored_seal (snd s)"
  shows "\<exists>lv' rs. board_inv sha lv' s' \<and> ballots (snd s') = ballots (snd s) @ rs
    \<and> (sealed (fst s) \<longrightarrow> sealed (fst s') \<and> rs = []) \<and> (sealed (fst s') \<longrightarrow> stored_seal (snd s'))
    \<and> (keeps_inserts Q \<longrightarrow> board_for sha lv s \<longrightarrow> board_for sha lv' s')
    \<and> (keeps_inserts Q \<longrightarrow> canonical norm \<longrightarrow> board_ok sha s \<longrightarrow> board_ok sha s')"
  using assms(1)
proof cases
  case live
  from live_step_grown [OF live assms(2,3)] obtain new rs where g: "board_inv sha (lv @ new) s'" "grown norm Q s s' new rs" by blast
  have "keeps_inserts Q \<Longrightarrow> list_all2 (leaf_of_row norm) new rs" using g(2) by (auto simp: grown_def)
  moreover from this have "length new = length rs" if "keeps_inserts Q" using that by (blast dest: list_all2_lengthD)
  moreover have "board_ok sha s'"
    if "keeps_inserts Q" and can: "canonical norm" and ok: "board_ok sha s"
  proof -
    from live_step_grown [OF live ok [unfolded board_ok_def] assms(3)] obtain new' rs' where
      g': "board_inv sha (board_leaves (snd s) @ new') s'" "grown norm Q s s' new' rs'" by blast
    have "list_all2 (leaf_of_row norm) new' rs'" using g'(2) that(1) by (auto simp: grown_def)
    then have "new' = map record_leaf rs'" using can by (rule canonical_leaves)
    with g' show ?thesis by (simp add: board_ok_def board_leaves_def grown_def)
  qed
  ultimately show ?thesis
    using g assms(2,4) by (intro exI [of _ "lv @ new"] exI [of _ rs]) (cases s; cases s'; auto simp: grown_def board_for_def)
next
  case (restart db_fails db b' b)
  then have inv: "db_inv db" using assms(2) by (simp add: board_inv_def)
  note new = Board_New_ok [OF inv restart(3)]
  from new(1) have "board_for sha (board_leaves db) (b', db)" by (simp add: board_ok_def board_for_def board_leaves_def)
  with new assms(4) restart show ?thesis
    by (intro exI [of _ "board_leaves db"] exI [of _ "[]"]) (simp add: board_ok_def)
qed

lemma board_run_inv:
  assumes "(board_step sha Q)\<^sup>*\<^sup>* s s'" "board_inv sha lv s" "\<forall>env. Q env \<longrightarrow> one_writer norm env" "sealed (fst s) \<longrightarrow> stored_seal (snd s)"
  shows "\<exists>lv' rs. board_inv sha lv' s' \<and> ballots (snd s') = ballots (snd s) @ rs
    \<and> (sealed (fst s) \<longrightarrow> sealed (fst s') \<and> rs = []) \<and> (sealed (fst s') \<longrightarrow> stored_seal (snd s'))
    \<and> (keeps_inserts Q \<longrightarrow> board_for sha lv s \<longrightarrow> board_for sha lv' s')
    \<and> (keeps_inserts Q \<longrightarrow> canonical norm \<longrightarrow> board_ok sha s \<longrightarrow> board_ok sha s')"
  using assms(1)
proof (induction rule: rtranclp_induct)
  case base
  show ?case using assms(2,4) by (intro exI [of _ lv] exI [of _ "[]"]) simp
next
  case (step y z)
  then obtain lv1 rs where y: "board_inv sha lv1 y" "ballots (snd y) = ballots (snd s) @ rs"
    "sealed (fst s) \<longrightarrow> sealed (fst y) \<and> rs = []" "sealed (fst y) \<longrightarrow> stored_seal (snd y)"
    "keeps_inserts Q \<longrightarrow> board_for sha lv s \<longrightarrow> board_for sha lv1 y"
    "keeps_inserts Q \<longrightarrow> canonical norm \<longrightarrow> board_ok sha s \<longrightarrow> board_ok sha y" by blast
  from board_step_inv [OF step(2) y(1) assms(3) y(4)] obtain lv2 rs' where z: "board_inv sha lv2 z" "ballots (snd z) = ballots (snd y) @ rs'"
    "sealed (fst y) \<longrightarrow> sealed (fst z) \<and> rs' = []" "sealed (fst z) \<longrightarrow> stored_seal (snd z)"
    "keeps_inserts Q \<longrightarrow> board_for sha lv1 y \<longrightarrow> board_for sha lv2 z"
    "keeps_inserts Q \<longrightarrow> canonical norm \<longrightarrow> board_ok sha y \<longrightarrow> board_ok sha z" by blast
  with y show ?case by (intro exI [of _ lv2] exI [of _ "rs @ rs'"]) simp
qed

text \<open>A run is within one life of the process, or its last life begins with a start from the rows.\<close>

lemma board_run_last_life:
  assumes "(board_step sha Q)\<^sup>*\<^sup>* s s'"
  shows "(live_step sha Q)\<^sup>*\<^sup>* s s' \<or>
    (\<exists>b db b' db_fails. (board_step sha Q)\<^sup>*\<^sup>* s (b, db) \<and> Board_New sha db_fails db = Inr b' \<and> (live_step sha Q)\<^sup>*\<^sup>* (b', db) s')"
  using assms
proof (induction rule: rtranclp_induct)
  case (step y z)
  from step(2) show ?case
  proof cases
    case live
    with step.IH show ?thesis by (meson rtranclp.rtrancl_into_rtrancl)
  next
    case (restart db_fails db b' b)
    with step(1) show ?thesis by blast
  qed
qed simp

section \<open>Properties\<close>

text \<open>
  The two trees publish roots, and the later one has a consistency proof between their sizes that
  the public verifier accepts between the roots.
\<close>

definition consistent :: "sha \<Rightarrow> tree \<Rightarrow> tree \<Rightarrow> bool" where
  "consistent sha t t' \<longleftrightarrow> (\<exists>root root' ps. Root sha t = Inr root \<and> Root sha t' = Inr root'
     \<and> ConsistencyProof sha t' (Size t) (Size t') = Inr ps \<and> VerifyConsistency sha (Size t) (Size t') root root' ps = Inr ())"

lemma consistent_trees:
  assumes "t = tree_for sha (map (LeafHash sha) lv)" "t' = tree_for sha (map (LeafHash sha) (lv @ new))"
  shows "consistent sha t t'"
  using consistency_accepts [of "length lv" "length (lv @ new)" "lv @ new" sha]
  by (simp add: assms consistent_def Root_tree_for MTH_def)

text \<open>
  C25.  The bulletin board is append-only, for one process that writes to the database.  Take any
  run of submissions (accepted, refused or failing, the failing ones with their row inserted or
  not), sealing, restarts and validator changes, and a later part of it without a restart.  The
  rows that were there stay and new ones only follow them, with distinct IDs and the positions in
  order; a sealed board stays sealed, restarts included, with its rows frozen.  Within the life
  of the process the tree only grows: its new leaves are the submitted bytes of rows added, in
  their order, and it has a consistency proof that the public verifier accepts.  A restart takes
  the tree of the rows.  If no insert was applied before its error, every row has a leaf, and if
  moreover the database keeps the JSON it is given as it is, the tree is that of the rows and
  consistent over restarts.
\<close>

theorem board_append_only:
  assumes "db_inv db0" "Board_New sha db_fails db0 = Inr b0" "\<forall>env. Q env \<longrightarrow> one_writer norm env"
    and "(board_step sha Q)\<^sup>*\<^sup>* (b0, db0) (b1, db1)" "(live_step sha Q)\<^sup>*\<^sup>* (b1, db1) (b, db)"
  shows "\<exists>rs1 rs lv new rows. ballots db1 = ballots db0 @ rs1 \<and> ballots db = ballots db1 @ rs \<and> db_inv db
    \<and> (sealed b0 \<longrightarrow> sealed b1 \<and> rs1 = []) \<and> (sealed b1 \<longrightarrow> sealed b \<and> rs = [])
    \<and> Root sha (board_tree b1) = Inr (MTH sha lv) \<and> Root sha (board_tree b) = Inr (MTH sha (lv @ new))
    \<and> Size (board_tree b1) = length lv \<and> Size (board_tree b) = length (lv @ new)
    \<and> consistent sha (board_tree b1) (board_tree b) \<and> subseq rows rs \<and> list_all2 (leaf_of_row norm) new rows
    \<and> (\<forall>f b2. Board_New sha f db = Inr b2 \<longrightarrow>
         Root sha (board_tree b2) = Inr (MTH sha (map record_leaf (ballots db))) \<and> (sealed b \<longrightarrow> sealed b2))
    \<and> (keeps_inserts Q \<longrightarrow> rows = rs \<and> length lv = length (ballots db1))
    \<and> (keeps_inserts Q \<longrightarrow> canonical norm \<longrightarrow>
         lv @ new = map record_leaf (ballots db) \<and> consistent sha (board_tree b0) (board_tree b))"
proof -
  have ok0: "board_ok sha (b0, db0)" and seal0: "sealed (fst (b0, db0)) \<longrightarrow> stored_seal (snd (b0, db0))"
    using Board_New_ok [OF assms(1,2)] by simp_all
  from board_run_inv [OF assms(4) ok0 [unfolded board_ok_def] assms(3) seal0] ok0 obtain lv0 rs1 where
    one: "board_inv sha lv0 (b1, db1)" "ballots db1 = ballots db0 @ rs1" "sealed b0 \<longrightarrow> sealed b1 \<and> rs1 = []" "sealed b1 \<longrightarrow> stored_seal db1"
      "keeps_inserts Q \<longrightarrow> length lv0 = length (ballots db1)"
      "keeps_inserts Q \<longrightarrow> canonical norm \<longrightarrow> board_ok sha (b1, db1)"
    by (auto simp: board_ok_def board_for_def board_leaves_def)
  define lv where "lv = (if keeps_inserts Q \<and> canonical norm then board_leaves db1 else lv0)"
  have lv: "board_inv sha lv (b1, db1)" "keeps_inserts Q \<longrightarrow> length lv = length (ballots db1)"
    using one(1,5,6) by (simp_all add: lv_def board_ok_def board_leaves_def)
  from live_run_grown [OF assms(5) lv(1) assms(3)] obtain new rs where
    g: "board_inv sha (lv @ new) (b, db)" "grown norm Q (b1, db1) (b, db) new rs" by blast
  from g(2) obtain rows where rows: "subseq rows rs" "list_all2 (leaf_of_row norm) new rows" "keeps_inserts Q \<longrightarrow> rows = rs"
    by (auto simp: grown_def)
  have trees: "board_tree b1 = tree_for sha (map (LeafHash sha) lv)" "board_tree b = tree_for sha (map (LeafHash sha) (lv @ new))"
    and inv: "db_inv db" using lv(1) g(1) by (simp_all add: board_inv_def)
  have exact: "lv @ new = map record_leaf (ballots db) \<and> consistent sha (board_tree b0) (board_tree b)"
    if keep: "keeps_inserts Q" and can: "canonical norm"
  proof -
    have "new = map record_leaf rs" using rows keep can by (intro canonical_leaves) auto
    moreover have "lv = map record_leaf (ballots db1)" using keep can by (simp add: lv_def board_leaves_def)
    ultimately have leaves: "lv @ new = map record_leaf (ballots db)" using g(2) by (simp add: grown_def)
    then have "lv @ new = board_leaves db0 @ map record_leaf (rs1 @ rs)" using one(2) g(2) by (simp add: grown_def board_leaves_def)
    with trees(2) have "board_tree b = tree_for sha (map (LeafHash sha) (board_leaves db0 @ map record_leaf (rs1 @ rs)))" by (simp only:)
    with consistent_trees [OF board_ok_simps(1) [OF ok0]] leaves show ?thesis by blast
  qed
  have restart: "Root sha (board_tree b2) = Inr (MTH sha (map record_leaf (ballots db))) \<and> (sealed b \<longrightarrow> sealed b2)"
    if "Board_New sha f db = Inr b2" for f b2
    using board_ok_simps(3) [OF Board_New_ok(1) [OF inv that]] Board_New_ok(2) [OF inv that] one(4) g(2)
    by (simp add: grown_def board_leaves_def)
  have last: "ballots db = ballots db1 @ rs" "sealed b1 \<longrightarrow> sealed b \<and> rs = []" using g(2) by (simp_all add: grown_def)
  have roots: "Root sha (board_tree b1) = Inr (MTH sha lv)" "Root sha (board_tree b) = Inr (MTH sha (lv @ new))"
    "Size (board_tree b1) = length lv" "Size (board_tree b) = length (lv @ new)"
    by (simp_all add: trees Root_tree_for MTH_def)
  have steps: "consistent sha (board_tree b1) (board_tree b)" by (rule consistent_trees [OF trees])
  have kept: "keeps_inserts Q \<longrightarrow> rows = rs \<and> length lv = length (ballots db1)" using rows(3) lv(2) by blast
  have starts: "\<forall>f b2. Board_New sha f db = Inr b2 \<longrightarrow>
      Root sha (board_tree b2) = Inr (MTH sha (map record_leaf (ballots db))) \<and> (sealed b \<longrightarrow> sealed b2)"
    using restart by blast
  have same: "keeps_inserts Q \<longrightarrow> canonical norm \<longrightarrow>
      lv @ new = map record_leaf (ballots db) \<and> consistent sha (board_tree b0) (board_tree b)"
    using exact by blast
  show ?thesis
    by (rule exI [of _ rs1], rule exI [of _ rs], rule exI [of _ lv], rule exI [of _ new], rule exI [of _ rows])
      (rule conjI one(2,3) last inv roots steps rows(1,2) kept starts same)+
qed

text \<open>The empty database, the one after the first ballot, and an environment without failures.\<close>

definition empty_board_db :: board_db where
  "empty_board_db = \<lparr>ballots = [], signed_roots = [], board_state = []\<rparr>"

definition calm :: db_env where
  "calm = \<lparr>jsonb = Some, db_now = 7, fail_max = (\<lambda>_. False), fail_insert = (\<lambda>_. False), insert_applied = (\<lambda>_. False),
     others_write = (\<lambda>_ db. db)\<rparr>"

definition one_ballot :: BallotRecord where
  "one_ballot = \<lparr>BallotID = ''x'', EncryptedBallot = [1], ZKProofs = [2], SubmittedAt = 7, Position = 1, MerkleRootSHA = ''''\<rparr>"

definition one_db :: board_db where
  "one_db = \<lparr>ballots = [one_ballot], signed_roots = [], board_state = []\<rparr>"

definition board_of :: "board_db \<Rightarrow> Board" where
  "board_of db = \<lparr>board_tree = tree_for (\<lambda>_. 0) (map (LeafHash (\<lambda>_. 0)) (board_leaves db)), sealed = False, validateFn = None\<rparr>"

lemma example_dbs [simp]: "db_inv empty_board_db" "db_inv one_db"
  by (simp_all add: db_inv_def empty_board_db_def one_db_def one_ballot_def)

lemma example_boards [simp]:
  "Board_New (\<lambda>_. 0) False empty_board_db = Inr (board_of empty_board_db)"
  "Board_New (\<lambda>_. 0) False one_db = Inr (board_of one_db)"
  using Board_New_eq [OF example_dbs(1), of "\<lambda>_. 0"] Board_New_eq [OF example_dbs(2), of "\<lambda>_. 0"]
  by (simp_all add: board_of_def stored_seal_def GetBoardState_def empty_board_db_def one_db_def)

lemma calm_simps [simp]: "alone calm" "\<not> append_fails calm" "jsonb calm = Some" "one_writer Some calm" "\<not> insert_lost calm"
  by (simp_all add: alone_def append_fails_def calm_def one_writer_def insert_lost_def)

lemma example_ok: "board_ok (\<lambda>_. 0) (board_of empty_board_db, empty_board_db)" "board_ok (\<lambda>_. 0) (board_of one_db, one_db)"
  by (rule Board_New_ok(1) [of _ _ False]; simp)+

lemma example_inv: "board_inv (\<lambda>_. 0) [] (board_of empty_board_db, empty_board_db)"
  "board_inv (\<lambda>_. 0) [record_leaf one_ballot] (board_of one_db, one_db)"
  using example_ok by (simp_all add: board_ok_def) (simp_all add: board_leaves_def empty_board_db_def one_db_def)

lemma text_ok_x: "text_ok ''x''"
  by (simp add: text_ok_def)

lemma example_append:
  "AppendBallot (\<lambda>_. 0) calm ''x'' [1] [2] (board_of empty_board_db, empty_board_db)
    = (Inr \<lparr>res_Position = 1, res_MerkleRoot = hex_hash 0\<rparr>, board_of one_db, one_db)"
  using AppendBallot_alone [OF calm_simps(1) example_inv(1), of "''x''" "[1]" "[2]"]
  by (simp add: storable_def text_ok_x with_row_def) (simp add: board_of_def board_leaves_def empty_board_db_def one_db_def one_ballot_def
      new_record_def calm_def MTH_def record_leaf_def LeafHash_def)

theorem board_append_only_witness:
  "consistent (\<lambda>_. 0) (board_tree (board_of empty_board_db)) (board_tree (board_of one_db))
    \<and> Root (\<lambda>_. 0) (board_tree (board_of one_db)) = Inr (MTH (\<lambda>_. 0) [record_leaf one_ballot])"
proof -
  have run: "(live_step (\<lambda>_. 0) (\<lambda>env. env = calm))\<^sup>*\<^sup>* (board_of empty_board_db, empty_board_db) (board_of one_db, one_db)"
    using live_step.append [OF refl example_append] by (rule r_into_rtranclp)
  have env: "\<forall>env. env = calm \<longrightarrow> one_writer Some env" "keeps_inserts (\<lambda>env. env = calm)" "canonical Some"
    by (simp_all add: keeps_inserts_def canonical_def)
  have "map record_leaf (ballots one_db) = [record_leaf one_ballot]" by (simp add: one_db_def)
  with board_append_only [OF example_dbs(1) example_boards(1) env(1) rtranclp.rtrancl_refl run] env(2,3) show ?thesis
    by (elim exE conjE) simp
qed

lemma Board_GetBallot_verifies:
  assumes "board_inv sha lv (b, db)" "k < length (ballots db)" "k < length lv" "text_ok (BallotID (ballots db ! k))"
  shows "\<exists>inc. Board_GetBallot sha False (BallotID (ballots db ! k)) (b, db) = Inr (Some (ballots db ! k, inc))
    \<and> TreeSize inc = length lv \<and> Root sha (board_tree b) = Inr (inc_Root inc)
    \<and> VerifyInclusion sha (LeafHash sha (lv ! k)) k (TreeSize inc) (inc_Proof inc) (inc_Root inc) = Inr ()"
proof -
  have tree: "board_tree b = tree_for sha (map (LeafHash sha) lv)" and inv: "db_inv db"
    using assms(1) by (simp_all add: board_inv_def)
  have found: "store_GetBallot db (BallotID (ballots db ! k)) = Some (ballots db ! k)"
    using assms(2) by (simp add: store_GetBallot_iff [OF inv])
  from inclusion_accepts [OF assms(3) order_refl, of sha] have
    "InclusionProof sha (board_tree b) k (length lv) = Inr (PATH sha k (map (LeafHash sha) lv))
     \<and> VerifyInclusion sha (LeafHash sha (lv ! k)) k (length lv) (PATH sha k (map (LeafHash sha) lv)) (MTH sha lv) = Inr ()"
    by (simp add: tree)
  moreover have "Root sha (board_tree b) = Inr (MTH sha lv)" "Size (board_tree b) = length lv"
    by (simp_all add: tree Root_tree_for MTH_def)
  ultimately show ?thesis
    using assms(3,4) db_inv_nth [OF inv assms(2)] by (simp add: Board_GetBallot_def found Let_def)
qed

text \<open>
  C26.  Recorded as cast.  Start the board and run it with no insert applied before its error.
  When \<open>AppendBallot\<close> then accepts a ballot, \<open>GetBallot\<close> gives it back after any further run of
  the board, lost inserts and restarts included: the JSON values submitted, in the normal form the
  database keeps them in, at the position of the receipt, with an inclusion proof that the public
  verifier accepts against the board's current root.  Until the process is restarted the proof is
  for exactly the submitted bytes, and after a restart for the bytes that \<open>GetBallot\<close> gives back;
  they are the same when the database keeps the JSON as it is.  One process writes to the database.
\<close>

theorem recorded_as_cast:
  assumes "db_inv db0" "Board_New sha db_fails db0 = Inr b0"
    and "(board_step sha (\<lambda>env. one_writer norm env \<and> \<not> insert_lost env))\<^sup>*\<^sup>* (b0, db0) s"
    and "one_writer norm env" "AppendBallot sha env i eb zk s = (Inr res, s')"
    and "(board_step sha (one_writer norm))\<^sup>*\<^sup>* s' (b, db)"
  shows "\<exists>rec inc. Board_GetBallot sha False i (b, db) = Inr (Some (rec, inc)) \<and> Position rec = res_Position res
    \<and> norm eb = Some (EncryptedBallot rec) \<and> norm zk = Some (ZKProofs rec)
    \<and> Root sha (board_tree b) = Inr (inc_Root inc) \<and> TreeSize inc = Size (board_tree b)
    \<and> VerifyInclusion sha
        (LeafHash sha (if (live_step sha (one_writer norm))\<^sup>*\<^sup>* s' (b, db) then EncodeLeaf i eb zk
                       else EncodeLeaf i (EncryptedBallot rec) (ZKProofs rec)))
        (nat (res_Position res - 1)) (TreeSize inc) (inc_Proof inc) (inc_Root inc) = Inr ()"
proof -
  have ok0: "board_ok sha (b0, db0)" and seal0: "sealed (fst (b0, db0)) \<longrightarrow> stored_seal (snd (b0, db0))"
    using Board_New_ok [OF assms(1,2)] by simp_all
  let ?kept = "\<lambda>env. one_writer norm env \<and> \<not> insert_lost env"
  have "keeps_inserts ?kept" "\<forall>env. ?kept env \<longrightarrow> one_writer norm env" by (simp_all add: keeps_inserts_def)
  with board_run_inv [OF assms(3) ok0 [unfolded board_ok_def] this(2) seal0] ok0 obtain lv where
    step: "board_inv sha lv s" "length lv = length (ballots (snd s))" "sealed (fst s) \<longrightarrow> stored_seal (snd s)"
    by (cases s) (auto simp: board_ok_def board_for_def board_leaves_def)
  obtain b1 db1 b2 db2 where s: "s = (b1, db1)" "s' = (b2, db2)" by fastforce
  have env: "alone env" "jsonb env = norm" using assms(4) by (auto simp: one_writer_def)
  let ?k = "length (ballots db1)" and ?rec = "new_record env i eb zk (length (ballots db1))" and ?leaf = "EncodeLeaf i eb zk"
  have "\<not> sealed b1 \<and> insertable env i eb zk db1 \<and> db2 = with_row env i eb zk db1 \<and> res_Position res = int ?k + 1
    \<and> board_inv sha (lv @ [?leaf]) (b2, db2) \<and> sealed b2 = sealed b1"
    by (cases rule: AppendBallot_cases [OF env(1) step(1) [unfolded s] assms(5) [unfolded s], case_names same lost added]) simp_all
  then have add: "\<not> sealed b1" "insertable env i eb zk db1" "db2 = with_row env i eb zk db1" "res_Position res = int ?k + 1"
    "board_inv sha (lv @ [?leaf]) (b2, db2)" "sealed b2 = sealed b1" by blast+
  then have json: "norm eb = Some (EncryptedBallot ?rec)" "norm zk = Some (ZKProofs ?rec)" and ok_id: "text_ok i"
    by (auto simp: insertable_def storable_def env(2))
  have all: "\<forall>env. one_writer norm env \<longrightarrow> one_writer norm env" and seal2: "sealed (fst (b2, db2)) \<longrightarrow> stored_seal (snd (b2, db2))"
    using add by simp_all
  have later: "\<exists>lv' rs. board_inv sha lv' u \<and> ballots (snd u) = ballots db2 @ rs" if "(board_step sha (one_writer norm))\<^sup>*\<^sup>* s' u" for u
    using board_run_inv [OF that [unfolded s(2)] add(5) all seal2] by auto
  have row: "ballots (snd u) ! ?k = ?rec" "?k < length (ballots (snd u))" if "(board_step sha (one_writer norm))\<^sup>*\<^sup>* s' u" for u
    using later [OF that] by (auto simp: add(3) nth_append)
  have "\<exists>lv'. board_inv sha lv' (b, db) \<and> ?k < length lv' \<and> lv' ! ?k =
      (if (live_step sha (one_writer norm))\<^sup>*\<^sup>* s' (b, db) then ?leaf else EncodeLeaf i (EncryptedBallot ?rec) (ZKProofs ?rec))"
  proof (cases "(live_step sha (one_writer norm))\<^sup>*\<^sup>* s' (b, db)")
    case True
    from live_run_grown [OF this [unfolded s(2)] add(5) all] obtain new where "board_inv sha ((lv @ [?leaf]) @ new) (b, db)" by blast
    with True step(2) s(1) show ?thesis by (intro exI [of _ "(lv @ [?leaf]) @ new"]) (simp add: nth_append)
  next
    case False
    with board_run_last_life [OF assms(6)] obtain b3 db3 b4 f where
      r: "(board_step sha (one_writer norm))\<^sup>*\<^sup>* s' (b3, db3)" "Board_New sha f db3 = Inr b4"
        "(live_step sha (one_writer norm))\<^sup>*\<^sup>* (b4, db3) (b, db)" by blast
    have "db_inv db3" using later [OF r(1)] by (auto simp: board_inv_def)
    with Board_New_ok(1) [OF this r(2)] live_run_grown [OF r(3) _ all] obtain new where
      inv: "board_inv sha (board_leaves db3 @ new) (b, db)" by (auto simp: board_ok_def)
    have "(board_leaves db3 @ new) ! ?k = record_leaf ?rec" "?k < length (board_leaves db3 @ new)"
      using row [OF r(1)] by (simp_all add: board_leaves_def nth_append)
    with inv False show ?thesis
      by (intro exI [of _ "board_leaves db3 @ new"]) (simp add: record_leaf_def EncodeLeaf_lp)
  qed
  then obtain lv' where lv': "board_inv sha lv' (b, db)" "?k < length lv'" "lv' ! ?k =
      (if (live_step sha (one_writer norm))\<^sup>*\<^sup>* s' (b, db) then ?leaf else EncodeLeaf i (EncryptedBallot ?rec) (ZKProofs ?rec))" by blast
  have size: "Size (board_tree b) = length lv'" using lv'(1) by (simp add: board_inv_def)
  from Board_GetBallot_verifies [OF lv'(1) _ lv'(2)] row [OF assms(6)] ok_id obtain inc where
    "Board_GetBallot sha False i (b, db) = Inr (Some (?rec, inc))" "TreeSize inc = length lv'" "Root sha (board_tree b) = Inr (inc_Root inc)"
    "VerifyInclusion sha (LeafHash sha (lv' ! ?k)) ?k (TreeSize inc) (inc_Proof inc) (inc_Root inc) = Inr ()"
    by auto
  with json add(4) size lv'(3) show ?thesis by (intro exI [of _ ?rec] exI [of _ inc]) simp
qed

theorem recorded_as_cast_witness:
  "\<exists>rec inc. Board_GetBallot (\<lambda>_. 0) False ''x'' (board_of one_db, one_db) = Inr (Some (rec, inc))
    \<and> EncryptedBallot rec = [1] \<and> TreeSize inc = Size (board_tree (board_of one_db))
    \<and> VerifyInclusion (\<lambda>_. 0) (LeafHash (\<lambda>_. 0) (EncodeLeaf ''x'' [1] [2])) 0 (TreeSize inc) (inc_Proof inc) (inc_Root inc) = Inr ()"
  using recorded_as_cast [OF example_dbs(1) example_boards(1) rtranclp.rtrancl_refl calm_simps(4) example_append rtranclp.rtrancl_refl]
  by auto

text \<open>
  What a public proof pins down: when \<open>VerifyInclusion\<close> accepts the leaf of a ballot against
  the board's root, the row at that position is that ballot, byte for byte; otherwise two of the
  hashed inputs collide.
\<close>

theorem inclusion_pins_ballot:
  assumes "board_ok sha (b, db)" "Root sha (board_tree b) = Inr root"
    and "VerifyInclusion sha (LeafHash sha (EncodeLeaf i eb zk)) k (length (ballots db)) ps root = Inr ()"
    and "\<forall>r \<in> set (ballots db). length (BallotID r) < 2 ^ 32 \<and> length (EncryptedBallot r) < 2 ^ 32 \<and> length (ZKProofs r) < 2 ^ 32"
    and "length i < 2 ^ 32" "length eb < 2 ^ 32" "length zk < 2 ^ 32"
    and "zs = leaf_input (EncodeLeaf i eb zk) # map leaf_input (board_leaves db) @ root_inputs sha (map (LeafHash sha) (board_leaves db))
           @ inclusion_inputs sha k (length (ballots db) - 1) (LeafHash sha (EncodeLeaf i eb zk)) ps"
  shows "(k < length (ballots db) \<and> BallotID (ballots db ! k) = i \<and> EncryptedBallot (ballots db ! k) = eb \<and> ZKProofs (ballots db ! k) = zk)
    \<or> collides sha zs zs"
proof -
  have len: "length (board_leaves db) = length (ballots db)" by (simp add: board_leaves_def)
  have "root = MTH sha (board_leaves db)" using assms(2) board_ok_simps(3) [OF assms(1)] by simp
  then have "(k < length (ballots db) \<and> board_leaves db ! k = EncodeLeaf i eb zk) \<or> collides sha zs zs"
    using inclusion_binds [of sha "EncodeLeaf i eb zk" k "board_leaves db" ps zs] assms(3,8) len by auto
  moreover have "EncodeLeaf i eb zk = record_leaf r \<longleftrightarrow> i = BallotID r \<and> eb = EncryptedBallot r \<and> zk = ZKProofs r"
    if "r \<in> set (ballots db)" for r
    unfolding EncodeLeaf_lp record_leaf_def by (rule leaf_data_inject) (use assms(4-7) that in auto)
  ultimately show ?thesis by (metis board_leaves_def nth_map nth_mem)
qed

theorem inclusion_pins_ballot_witness:
  "BallotID (ballots one_db ! 0) = ''x'' \<or> collides (\<lambda>_. 0) [leaf_input (record_leaf one_ballot), leaf_input (record_leaf one_ballot)]
     [leaf_input (record_leaf one_ballot), leaf_input (record_leaf one_ballot)]"
  using inclusion_pins_ballot [OF example_ok(2) board_ok_simps(3) [OF example_ok(2)], of "''x''" "[1]" "[2]" 0 "[]"]
  by (auto simp: one_db_def one_ballot_def board_leaves_def record_leaf_def EncodeLeaf_lp VerifyInclusion_def MTH_def)

text \<open>
  Every outcome of \<open>AppendBallot\<close>.  An error leaves the board as it was, and the database too
  unless the server applied the insert before the error; it is \<open>ErrBoardSealed\<close> exactly on a sealed
  board, and \<open>ErrDuplicateBallot\<close> only for an ID that is on the board.  A success happens only for a
  fresh ID on an open board and gives the next position and the root of the tree with exactly
  this leaf added.
\<close>

theorem append_outcomes:
  assumes "board_ok sha (b, db)" "alone env"
  shows "case AppendBallot sha env i eb zk (b, db) of
      (Inl e, b', db') \<Rightarrow> b' = b \<and> (db' = db \<or> (e = DbFailed \<and> insert_lost env \<and> db' = with_row env i eb zk db))
        \<and> (e = ErrBoardSealed \<longleftrightarrow> sealed b) \<and> e \<noteq> ErrPositionConflict \<and> (e = ErrDuplicateBallot \<longrightarrow> i \<in> BallotID ` set (ballots db))
    | (Inr res, b', db') \<Rightarrow> \<not> sealed b \<and> i \<notin> BallotID ` set (ballots db)
        \<and> res_Position res = Board_Size b + 1 \<and> Board_Size b' = Board_Size b + 1
        \<and> Board_Root sha b' = Inr (res_MerkleRoot res)
        \<and> res_MerkleRoot res = hex_hash (MTH sha (map record_leaf (ballots db) @ [EncodeLeaf i eb zk]))"
proof -
  have inv: "board_inv sha (board_leaves db) (b, db)" using assms(1) by (simp add: board_ok_def)
  note tree = board_ok_simps [OF assms(1)]
  show ?thesis
    unfolding AppendBallot_alone [OF assms(2) inv]
    by (simp add: Board_Size_def Board_Root_def tree(2) Root_tree_for MTH_def EncodeLeaf_lp board_leaves_def)
qed

theorem append_outcomes_witness:
  "Board_Root (\<lambda>_. 0) (board_of one_db) = Inr (hex_hash (MTH (\<lambda>_. 0) [EncodeLeaf ''x'' [1] [2]]))"
  using append_outcomes [OF example_ok(1) calm_simps(1), of "''x''" "[1]" "[2]"]
  by (simp add: example_append) (simp add: empty_board_db_def)

text \<open>
  An insert that the server applied before its error leaves a row without a leaf.  From then on
  the positions are ahead of the tree: the next ballot is accepted, but its inclusion proof cannot
  be had (\<open>GetBallot\<close> says that it is not in the tree) until the process is restarted.
\<close>

lemma lost_insert_hides_next_ballot:
  assumes "board_for sha lv (b, db)" "alone env" "insert_lost env" "insertable env i eb zk db"
    and "AppendBallot sha env i eb zk (b, db) = (Inl DbFailed, b1, db1)"
    and "alone env'" "AppendBallot sha env' j eb' zk' (b1, db1) = (Inr res, b2, db2)"
  shows "res_Position res = Board_Size b2 + 1 \<and> Board_GetBallot sha False j (b2, db2) = Inl NotInTree"
proof -
  have inv: "board_inv sha lv (b, db)" "length lv = length (ballots db)" using assms(1) by (simp_all add: board_for_def)
  have "append_fails env" using assms(3) by (simp add: insert_lost_def append_fails_def)
  then have one: "b1 = b" "db1 = with_row env i eb zk db"
    using assms(3-5) by (auto simp: AppendBallot_alone [OF assms(2) inv(1)] split: if_splits)
  then have inv1: "board_inv sha lv (b1, db1)" using inv(1) assms(4) by (simp add: board_inv_def with_row_inv)
  have two: "insertable env' j eb' zk' db1" "db2 = with_row env' j eb' zk' db1" "board_tree b2 = tree_for sha (map (LeafHash sha) (lv @ [EncodeLeaf j eb' zk']))"
    "res_Position res = int (length (ballots db1)) + 1" "db_inv db2"
    by (cases rule: AppendBallot_cases [OF assms(6) inv1 assms(7), case_names same lost added]; simp add: board_inv_def)+
  let ?rec = "new_record env' j eb' zk' (length (ballots db1))"
  have "store_GetBallot db2 j = Some ?rec" unfolding store_GetBallot_iff [OF two(5)] by (simp add: two(2))
  moreover have "text_ok j" using two(1) by (simp add: insertable_def storable_def)
  ultimately show ?thesis
    using two(4) inv(2) by (simp add: Board_GetBallot_def Board_Size_def two(3) one(2) Let_def)
qed

text \<open>
  Two processes on one database: when another process takes the position between the two
  queries, \<open>InsertBallot\<close> takes the violation of the position's constraint for one of the ballot ID
  (both constraint names contain the table's name), so \<open>AppendBallot\<close> does not try again but
  refuses, as a duplicate, a ballot that is not on the board.
\<close>

theorem position_conflict_misreported:
  assumes "db_inv db" "\<not> sealed b" "validateFn b = None" "\<not> append_fails env"
    and "others_write env 0 db = db\<lparr>ballots := ballots db @ [other]\<rparr>" "Position other = GetMaxPosition db + 1"
    and "i \<notin> BallotID ` set (ballots db)" "BallotID other \<noteq> i" "storable env i eb zk"
  shows "AppendBallot sha env i eb zk (b, db) = (Inl ErrDuplicateBallot, b, others_write env 0 db)
    \<and> store_GetBallot (others_write env 0 db) i = None"
proof -
  have "[0..<maxRetries] = 0 # [1..<maxRetries]" by (simp add: maxRetries_def upt_rec)
  moreover have "store_GetBallot (others_write env 0 db) i = None"
    using assms(5,7,8) by (auto simp: store_GetBallot_def find_None_iff)
  ultimately show ?thesis
    using assms by (auto simp: AppendBallot_def InsertBallot_def insert_row_def storable_def append_fails_def unique_violation_def classify_violation_def
        constraint_names Let_def)
qed

definition rival :: BallotRecord where
  "rival = one_ballot\<lparr>BallotID := ''y''\<rparr>"

definition contended :: db_env where
  "contended = calm\<lparr>others_write := (\<lambda>_ db. db\<lparr>ballots := ballots db @ [rival]\<rparr>)\<rparr>"

theorem position_conflict_misreported_witness:
  "fst (AppendBallot (\<lambda>_. 0) contended ''x'' [1] [2] (board_of empty_board_db, empty_board_db)) = Inl ErrDuplicateBallot
    \<and> store_GetBallot (empty_board_db\<lparr>ballots := [rival]\<rparr>) ''x'' = None"
proof -
  have "GetMaxPosition empty_board_db = 0" by (simp add: GetMaxPosition_def empty_board_db_def)
  then show ?thesis
    using position_conflict_misreported [of empty_board_db "board_of empty_board_db" contended rival "''x''" "[1]" "[2]" "\<lambda>_. 0"]
    by (simp add: board_of_def contended_def rival_def one_ballot_def calm_def append_fails_def storable_def text_ok_x) (simp add: empty_board_db_def)
qed

text \<open>
  C27.  A restart does not keep the tree when the database normalises the JSON of a ballot: the
  leaf was hashed from the bytes that came in, the rebuilt tree hashes the bytes that come out of
  the \<open>jsonb\<close> column, and the two roots differ (or two of the hashed inputs collide).
\<close>

theorem restart_changes_root:
  assumes "board_ok sha (b, db)" "alone env" "AppendBallot sha env i eb zk (b, db) = (Inr res, b1, db1)"
    and "jsonb env eb = Some eb'" "eb' \<noteq> eb" "jsonb env zk = Some zk'"
    and "length i < 2 ^ 32" "length eb < 2 ^ 32" "length eb' < 2 ^ 32" "length zk < 2 ^ 32" "length zk' < 2 ^ 32"
    and "Board_New sha False db1 = Inr b2"
    and "zs = map leaf_input (before @ after) @ root_inputs sha (map (LeafHash sha) before) @ root_inputs sha (map (LeafHash sha) after)"
    and "before = board_leaves db @ [EncodeLeaf i eb zk]" "after = board_leaves db @ [EncodeLeaf i eb' zk']"
  shows "Root sha (board_tree b1) \<noteq> Root sha (board_tree b2) \<or> collides sha zs zs"
proof -
  have inv: "board_inv sha (board_leaves db) (b, db)" using assms(1) by (simp add: board_ok_def)
  have "db1 = with_row env i eb zk db \<and> db_inv db1
      \<and> board_tree b1 = tree_for sha (map (LeafHash sha) (board_leaves db @ [EncodeLeaf i eb zk]))"
    by (cases rule: AppendBallot_cases [OF assms(2) inv assms(3), case_names same lost added]) (simp_all add: board_inv_def)
  then have db1: "db1 = with_row env i eb zk db" and "db_inv db1"
    and b1: "board_tree b1 = tree_for sha (map (LeafHash sha) before)" unfolding assms(14) by blast+
  from Board_New_ok(1) [OF \<open>db_inv db1\<close> assms(12)] have "Root sha (board_tree b2) = Inr (MTH sha (board_leaves db1))"
    by (rule board_ok_simps)
  moreover have "board_leaves db1 = after"
    using assms(4,6,15) by (simp add: db1 board_leaves_def record_leaf_def EncodeLeaf_lp)
  moreover have "Root sha (board_tree b1) = Inr (MTH sha before)"
    by (simp add: b1 Root_tree_for MTH_def)
  moreover have "before \<noteq> after"
    using leaf_data_inject [of i i eb eb' zk zk'] assms(5,7-11) by (simp add: assms(14,15) EncodeLeaf_lp)
  moreover have "length before = length after" by (simp add: assms(14,15))
  ultimately show ?thesis using MTH_binds [of sha before after zs] assms(13) by auto
qed

definition normalising :: db_env where
  "normalising = calm\<lparr>jsonb := (\<lambda>x. Some [3])\<rparr>"

theorem restart_changes_root_witness:
  "\<exists>b1 db1 b2. AppendBallot (\<lambda>_. 0) normalising ''x'' [1] [2] (board_of empty_board_db, empty_board_db) = (Inr \<lparr>res_Position = 1, res_MerkleRoot = hex_hash 0\<rparr>, b1, db1)
    \<and> Board_New (\<lambda>_. 0) False db1 = Inr b2
    \<and> (Root (\<lambda>_. 0) (board_tree b1) \<noteq> Root (\<lambda>_. 0) (board_tree b2)
       \<or> (\<exists>zs. collides (\<lambda>_. 0) zs zs))"
proof -
  have alone: "alone normalising" "\<not> append_fails normalising"
    by (simp_all add: normalising_def alone_def append_fails_def calm_def)
  have "\<exists>b1 db1. AppendBallot (\<lambda>_. 0) normalising ''x'' [1] [2] (board_of empty_board_db, empty_board_db) = (Inr \<lparr>res_Position = 1, res_MerkleRoot = hex_hash 0\<rparr>, b1, db1) \<and> db_inv db1"
    using AppendBallot_alone [OF alone(1) example_inv(1), of "''x''" "[1]" "[2]"] alone(2)
    by (simp add: storable_def text_ok_x with_row_def)
      (simp add: board_of_def board_leaves_def empty_board_db_def new_record_def normalising_def MTH_def LeafHash_def db_inv_def)
  then obtain b1 db1 where run: "AppendBallot (\<lambda>_. 0) normalising ''x'' [1] [2] (board_of empty_board_db, empty_board_db) = (Inr \<lparr>res_Position = 1, res_MerkleRoot = hex_hash 0\<rparr>, b1, db1)"
    and inv: "db_inv db1" by blast
  from Board_New_eq [OF inv, of "\<lambda>_. 0"] obtain b2 where new: "Board_New (\<lambda>_. 0) False db1 = Inr b2" by simp
  from restart_changes_root [OF example_ok(1) alone(1) run _ _ _ _ _ _ _ _ new refl refl refl, of "[3]" "[3]"] run new
  show ?thesis by (auto simp: normalising_def)
qed

section \<open>Reading the whole board\<close>

text \<open>The board as the server of its client; \<open>encode\<close> writes a page as JSON.\<close>

definition list_request :: "(string \<times> string) list \<Rightarrow> http_request" where
  "list_request q = \<lparr>req_method = ''GET'', req_path = ''/api/v1/board'', req_header = (\<lambda>_. ''''), req_cookie = (\<lambda>_. None),
     req_query = (\<lambda>k. case map_of q k of None \<Rightarrow> '''' | Some v \<Rightarrow> v), req_body = []\<rparr>"

definition board_server :: "(page \<Rightarrow> bytes) \<Rightarrow> Board \<times> board_db \<Rightarrow> server" where
  "board_server encode s u q =
     (case handleListBallots False (list_request q) s of Failure n _ \<Rightarrow> Reply n [] | Success n p \<Rightarrow> Reply n (encode p))"

definition page_after :: "Board \<times> board_db \<Rightarrow> nat \<Rightarrow> nat \<Rightarrow> page" where
  "page_after s limit k = (let records = ListBallots (snd s) (int k) limit in
     \<lparr>page_records = records, page_cursor = next_cursor records limit, page_total = Board_Size (fst s)\<rparr>)"

definition cursor_at :: "nat \<Rightarrow> string" where
  "cursor_at k = (if k = 0 then '''' else cursor_for (int k))"

lemma handleListBallots_page:
  assumes "0 < limit" "limit \<le> 1000" "k < 2 ^ 63"
  shows "handleListBallots False (list_request ((''limit'', itoa (int limit)) # (if cursor_at k \<noteq> '''' then [(''cursor'', cursor_at k)] else []))) s
    = Success StatusOK (page_after s limit k)"
proof (cases "k = 0")
  case True
  with assms show ?thesis
    by (cases s) (simp add: handleListBallots_def list_request_def cursor_at_def page_limit_itoa page_after_def next_cursor_def Let_def)
next
  case False
  have "0 \<le> int k" "int k < 2 ^ 63" using assms(3) by simp_all
  from cursor_for_decode [OF this] False assms show ?thesis
    by (cases s) (simp add: handleListBallots_def list_request_def cursor_at_def page_limit_itoa page_after_def next_cursor_def Let_def)
qed

lemma FetchAllBallots_board:
  assumes "db_inv db" "length (ballots db) < 2 ^ 63" "url_ok (baseURL c @ ''/api/v1/board'')"
    and "0 < pageLimit c" "pageLimit c \<le> 1000"
    and decode: "\<And>k. k \<le> length (ballots db) \<Longrightarrow>
      decode (take maxResponseBytes (encode (page_after (b, db) (pageLimit c) k)))
        = Some (map (serialize wire) (page_records (page_after (b, db) (pageLimit c) k)), page_cursor (page_after (b, db) (pageLimit c) k))"
  shows "FetchAllBallots url_ok (board_server encode (b, db)) decode c = Some (Inr (map (serialize wire) (ballots db)))"
proof -
  let ?fetch = "fetchPage url_ok (board_server encode (b, db)) decode c"
  have page: "?fetch (cursor_at k) = board_pages wire db (pageLimit c) (int k)" if k: "k \<le> length (ballots db)" for k
  proof -
    have "k < 2 ^ 63" using k assms(2) by linarith
    note handleListBallots_page [OF assms(4,5) this, of "(b, db)"]
    then show ?thesis
      using assms(3) decode [OF k]
      by (simp add: fetchPage_def buildPageURL_def board_server_def board_pages_def Let_def StatusOK_def)
         (simp add: page_after_def Let_def)
  qed
  have "?fetch (cursor_for p) = board_pages wire db (pageLimit c) p" if "0 < p" "p \<le> int (length (ballots db))" for p
    using page [of "nat p"] that by (simp add: cursor_at_def)
  moreover have "?fetch '''' = board_pages wire db (pageLimit c) (int 0)"
    using page [of 0] by (simp add: cursor_at_def)
  ultimately show ?thesis
    using fetch_loop_pages [of db "pageLimit c" 0 ?fetch "''''" wire "[]"] assms(1,4)
    by (simp add: FetchAllBallots_def)
qed

lemma example_pages:
  "k \<le> 1 \<Longrightarrow> page_after (board_of one_db, one_db) 1000 k =
      \<lparr>page_records = (if k = 0 then [one_ballot] else []), page_cursor = '''', page_total = Board_Size (board_of one_db)\<rparr>"
  using ListBallots_eq [OF example_dbs(2), of k 1000]
  by (cases k) (auto simp: page_after_def next_cursor_def one_db_def Let_def)

text \<open>
  C28.  Reading the whole board.  With a page limit the board accepts, the client's loop over the
  cursors ends and returns every ballot of the board exactly once, in board order, from the
  handler's pages, its JSON in the bytes that \<open>wire\<close> makes of it; what is assumed of JSON is that
  a page the board writes reads back as its ballots and cursor within the client's limit of the
  body.
\<close>

theorem fetch_all_ballots:
  assumes "db_inv db" "length (ballots db) < 2 ^ 63" "url_ok (baseURL c @ ''/api/v1/board'')"
    and "0 < pageLimit c" "pageLimit c \<le> 1000"
    and decode: "\<And>k. k \<le> length (ballots db) \<Longrightarrow>
      decode (take maxResponseBytes (encode (page_after (b, db) (pageLimit c) k)))
        = Some (map (serialize wire) (page_records (page_after (b, db) (pageLimit c) k)), page_cursor (page_after (b, db) (pageLimit c) k))"
  shows "FetchAllBallots url_ok (board_server encode (b, db)) decode c = Some (Inr (map (serialize wire) (ballots db)))"
  using assms by (rule FetchAllBallots_board)

text \<open>A writer of pages that drops the blanks.\<close>

definition no_blanks :: "bytes \<Rightarrow> bytes" where
  "no_blanks = filter (\<lambda>x. x \<noteq> 32)"

theorem fetch_all_ballots_witness:
  "FetchAllBallots (\<lambda>_. True) (board_server (\<lambda>p. if page_records p = [] then [] else [1]) (board_of one_db, one_db))
     (\<lambda>bs. Some (if bs = [] then [] else [serialize no_blanks one_ballot], '''')) (NewBBClient ''http://b'') = Some (Inr [serialize no_blanks one_ballot])"
proof -
  from example_pages show ?thesis
    using fetch_all_ballots [OF example_dbs(2), of "\<lambda>_. True" "NewBBClient ''http://b''"
        "\<lambda>bs. Some (if bs = [] then [] else [serialize no_blanks one_ballot], '''')" "\<lambda>p. if page_records p = [] then [] else [1]"]
    by (simp add: NewBBClient_def defaultPageLimit_def maxResponseBytes_def one_db_def)
qed

end
