(* ===== verification/Tally_Ceremony.thy ===== *)
theory Tally_Ceremony
  imports Threshold Board_Api
begin

text \<open>
  The computations of the decryption ceremony (\<open>tally/ceremony\<close>, \<open>tally/trustee.go\<close>): the
  homomorphic tally of the ballots of the board, its threshold decryption slot by slot, the
  placeholder of the deduplication proof and the trustees' keys.  The JSON decoder that gives the
  party vector of an encrypted ballot is a parameter.
\<close>

section \<open>The tally\<close>

datatype tally_error =
    NoBallotsToTally | ParseBallot nat | WrongPartyCount nat | HexError | BallotSlot nat nat tally_error | TallyCrypto crypto_error
  | NilTally | ContextCount | TrusteeCount | ContextSlot nat | MissingPartial int nat | ForeignPartial int int | CombineSlot nat crypto_error
  | NoElectionID | TallyUnavailable | SlotCount | SlotNotDecoded nat | TooFewTrustees | SaveFailed
  | KeyFileUnreadable | KeyFileEmpty | KeyIndex int | DuplicateKey int | KeyHex int | KeyPoint int crypto_error

definition tally_crypto :: "crypto_error + 'a \<Rightarrow> tally_error + 'a" where
  "tally_crypto r = (case r of Inl e \<Rightarrow> Inl (TallyCrypto e) | Inr x \<Rightarrow> Inr x)"

lemma tally_crypto_simps [simp]: "tally_crypto (Inr x) = Inr x" "tally_crypto (Inl e) = Inl (TallyCrypto e)"
  by (simp_all add: tally_crypto_def)

lemma tally_crypto_Inr [simp]: "tally_crypto r = Inr x \<longleftrightarrow> r = Inr x"
  by (cases r) simp_all

record 'e TallyResult =
  EncryptedSums :: "'e Ciphertext ptr list"
  NumBallots :: nat
  tr_NumParties :: nat

definition ciphertextFromHex :: "('s, 'e::zero) prims \<Rightarrow> string \<Rightarrow> tally_error + 'e Ciphertext" where
  "ciphertextFromHex R s =
     (case hex_decode s of None \<Rightarrow> Inl HexError | Some data \<Rightarrow> tally_crypto (CiphertextFromBytes R data))"

text \<open>The loop over the party vector of ballot \<open>i\<close>; \<open>sums\<close> has a slot for every party.\<close>

fun party_loop ::
  "('s, 'e::ab_group_add) prims \<Rightarrow> nat \<Rightarrow> nat \<Rightarrow> string list \<Rightarrow> 'e Ciphertext ptr list \<Rightarrow> tally_error + 'e Ciphertext ptr list" where
  "party_loop R i j [] sums = Inr sums"
| "party_loop R i j (ctHex # rest) sums =
     (case ciphertextFromHex R ctHex of
        Inl e \<Rightarrow> Inl (BallotSlot i j e)
      | Inr ct \<Rightarrow>
          if sums ! j = None then party_loop R i (Suc j) rest (sums[j := Some ct])
          else bindE (tally_crypto (HomomorphicAdd [sums ! j, Some ct])) (\<lambda>s.
            party_loop R i (Suc j) rest (sums[j := s])))"

fun ballot_loop ::
  "('s, 'e::ab_group_add) prims \<Rightarrow> (bytes \<Rightarrow> string list option) \<Rightarrow> nat \<Rightarrow> nat \<Rightarrow> SerializedBallot list \<Rightarrow> 'e Ciphertext ptr list
     \<Rightarrow> tally_error + 'e Ciphertext ptr list" where
  "ballot_loop R parse numParties i [] sums = Inr sums"
| "ballot_loop R parse numParties i (sb # rest) sums =
     (case parse (sb_EncryptedBallot sb) of
        None \<Rightarrow> Inl (ParseBallot i)
      | Some partyVector \<Rightarrow>
          if length partyVector \<noteq> numParties then Inl (WrongPartyCount i)
          else bindE (party_loop R i 0 partyVector sums) (ballot_loop R parse numParties (Suc i) rest))"

definition ComputeTally ::
  "('s, 'e::ab_group_add) prims \<Rightarrow> (bytes \<Rightarrow> string list option) \<Rightarrow> SerializedBallot list \<Rightarrow> tally_error + 'e TallyResult" where
  "ComputeTally R parse bs =
     (case bs of
        [] \<Rightarrow> Inl NoBallotsToTally
      | b # _ \<Rightarrow>
          (case parse (sb_EncryptedBallot b) of
             None \<Rightarrow> Inl (ParseBallot 0)
           | Some partyVector \<Rightarrow>
               let numParties = length partyVector in
               bindE (ballot_loop R parse numParties 0 bs (replicate numParties None)) (\<lambda>sums.
               Inr \<lparr>EncryptedSums = sums, NumBallots = length bs, tr_NumParties = numParties\<rparr>)))"

section \<open>Decryption\<close>

text \<open>\<open>partials\<close> and \<open>keys\<close> are Go maps; a missing entry of \<open>partials\<close> reads as the nil slice.\<close>

definition slot_partial ::
  "(int \<rightharpoonup> ('s, 'e) Partial ptr list) \<Rightarrow> nat \<Rightarrow> int \<Rightarrow> tally_error + ('s, 'e) Partial ptr" where
  "slot_partial partials slot tidx =
     (let tp = (case partials tidx of None \<Rightarrow> [] | Some tp \<Rightarrow> tp) in
      if length tp \<le> slot then Inl (MissingPartial tidx slot)
      else case tp ! slot of
        None \<Rightarrow> Inl (MissingPartial tidx slot)
      | Some p \<Rightarrow> if TrusteeIndex p \<noteq> tidx then Inl (ForeignPartial tidx (TrusteeIndex p)) else Inr (Some p))"

definition decrypt_slot ::
  "('s::field, 'e::ab_group_add) prims \<Rightarrow> SlotContext list \<Rightarrow> 'e Ciphertext ptr list \<Rightarrow> (int \<rightharpoonup> ('s, 'e) Partial ptr list)
     \<Rightarrow> int list \<Rightarrow> (int \<rightharpoonup> 'e ptr) \<Rightarrow> int \<Rightarrow> nat \<Rightarrow> tally_error + int" where
  "decrypt_slot R contexts sums partials trustees keys quorum slot =
     (if SlotIndex (contexts ! slot) \<noteq> of_nat slot then Inl (ContextSlot slot)
      else bindE (mapE (slot_partial partials slot) trustees) (\<lambda>slotPartials.
        case Combine R (contexts ! slot) (sums ! slot) slotPartials keys quorum MaxDecrypt of
          Inl e \<Rightarrow> Inl (CombineSlot slot e)
        | Inr m \<Rightarrow> Inr m))"

definition DecryptTally ::
  "('s::field, 'e::ab_group_add) prims \<Rightarrow> 'e TallyResult ptr \<Rightarrow> SlotContext list \<Rightarrow> (int \<rightharpoonup> ('s, 'e) Partial ptr list)
     \<Rightarrow> int list \<Rightarrow> (int \<rightharpoonup> 'e ptr) \<Rightarrow> int \<Rightarrow> tally_error + int list" where
  "DecryptTally R tally contexts partials trustees keys quorum =
     (case tally of
        None \<Rightarrow> Inl NilTally
      | Some tally \<Rightarrow>
          if length contexts \<noteq> length (EncryptedSums tally) then Inl ContextCount
          else if int (length trustees) \<noteq> quorum then Inl TrusteeCount
          else mapE (decrypt_slot R contexts (EncryptedSums tally) partials trustees keys quorum) [0..<length (EncryptedSums tally)])"

section \<open>The deduplication proof\<close>

text \<open>The code is a placeholder so far, and so is this.\<close>

record DedupProof =
  ProofBytes :: bytes
  BoardMerkleRoot :: string
  ActiveSetCommitment :: string
  FilteredSetRoot :: string
  ActiveSetSize :: int

definition GenerateDedupProof :: "string list \<Rightarrow> string \<Rightarrow> DedupProof" where
  "GenerateDedupProof activeSetIDs boardRoot =
     \<lparr>ProofBytes = bytes_of ''placeholder-proof'', BoardMerkleRoot = boardRoot, ActiveSetCommitment = ''placeholder-commitment'',
      FilteredSetRoot = ''placeholder-filtered-root'', ActiveSetSize = int (length activeSetIDs)\<rparr>"

section \<open>Trustee keys\<close>

record TrusteeKey =
  key_Index :: int
  key_Key :: string

fun key_loop :: "('s, 'e::zero) prims \<Rightarrow> TrusteeKey list \<Rightarrow> (int \<rightharpoonup> 'e ptr) \<Rightarrow> tally_error + (int \<rightharpoonup> 'e ptr)" where
  "key_loop R [] keys = Inr keys"
| "key_loop R (e # rest) keys =
     (if key_Index e < 1 then Inl (KeyIndex (key_Index e))
      else if keys (key_Index e) \<noteq> None then Inl (DuplicateKey (key_Index e))
      else case hex_decode (key_Key e) of
        None \<Rightarrow> Inl (KeyHex (key_Index e))
      | Some pointBytes \<Rightarrow>
          (case DecodeElement R pointBytes of
             Inl err \<Rightarrow> Inl (KeyPoint (key_Index e) err)
           | Inr point \<Rightarrow> key_loop R rest (keys(key_Index e \<mapsto> Some point))))"

definition LoadTrusteeKeys :: "('s, 'e::zero) prims \<Rightarrow> TrusteeKey list option \<Rightarrow> tally_error + (int \<rightharpoonup> 'e ptr)" where
  "LoadTrusteeKeys R file =
     (case file of
        None \<Rightarrow> Inl KeyFileUnreadable
      | Some entries \<Rightarrow> if entries = [] then Inl KeyFileEmpty else key_loop R entries Map.empty)"

text \<open>The keys that load are exactly the entries of the file, with indices from one and no identity.\<close>

lemma key_loop_spec:
  assumes "ristretto R" "key_loop R es keys0 = Inr keys"
  shows "distinct (map key_Index es) \<and> (\<forall>e \<in> set es. 1 \<le> key_Index e \<and> keys0 (key_Index e) = None)
    \<and> (\<forall>e \<in> set es. \<exists>P. P \<noteq> 0 \<and> hex_decode (key_Key e) = Some (e_bytes R P) \<and> keys (key_Index e) = Some (Some P))
    \<and> (\<forall>i. i \<notin> key_Index ` set es \<longrightarrow> keys i = keys0 i)"
  using assms(2)
proof (induction es arbitrary: keys0)
  case (Cons e es)
  from Cons.prems obtain P where P: "1 \<le> key_Index e" "keys0 (key_Index e) = None" "P \<noteq> 0"
    "hex_decode (key_Key e) = Some (e_bytes R P)" and rest: "key_loop R es (keys0(key_Index e \<mapsto> Some P)) = Inr keys"
    by (auto simp: DecodeElement_iff [OF assms(1)] split: if_splits option.splits sum.splits)
  have fresh: "key_Index e \<notin> key_Index ` set es" using Cons.IH [OF rest] by auto
  with Cons.IH [OF rest] have other: "key_Index e \<notin> key_Index ` set es" "keys (key_Index e) = Some (Some P)"
    by simp_all
  show ?case
    using Cons.IH [OF rest] P(1-3) other P(4) by (auto split: if_splits)
qed simp

section \<open>The tally adds up columns\<close>

definition decoded_ct :: "'e Ciphertext \<Rightarrow> bool" where
  "decoded_ct ct \<longleftrightarrow> C1 ct \<noteq> None \<and> C2 ct \<noteq> None"

definition ct_add :: "'e::plus Ciphertext \<Rightarrow> 'e Ciphertext \<Rightarrow> 'e Ciphertext" where
  "ct_add a b = \<lparr>C1 = Some (the (C1 a) + the (C1 b)), C2 = Some (the (C2 a) + the (C2 b))\<rparr>"

definition add_slot :: "'e::plus Ciphertext ptr \<Rightarrow> 'e Ciphertext \<Rightarrow> 'e Ciphertext ptr" where
  "add_slot p ct = Some (case p of None \<Rightarrow> ct | Some s \<Rightarrow> ct_add s ct)"

definition slot_decoded :: "'e Ciphertext ptr \<Rightarrow> bool" where
  "slot_decoded p \<longleftrightarrow> (case p of None \<Rightarrow> True | Some ct \<Rightarrow> decoded_ct ct)"

lemma ct_add_decoded [simp]: "decoded_ct (ct_add a b)"
  by (simp add: decoded_ct_def ct_add_def)

lemma add_slot_decoded: "decoded_ct ct \<Longrightarrow> slot_decoded (add_slot p ct)"
  by (cases p) (simp_all add: slot_decoded_def add_slot_def)

lemma slot_decoded_Some [simp]: "slot_decoded (Some ct) = decoded_ct ct"
  by (simp add: slot_decoded_def)

lemma slot_decoded_None [simp]: "slot_decoded None"
  by (simp add: slot_decoded_def)

lemma ciphertextFromHex_decoded: "ciphertextFromHex R s = Inr ct \<Longrightarrow> decoded_ct ct"
  by (auto simp: ciphertextFromHex_def CiphertextFromBytes_def decoded_ct_def split: option.splits if_splits)

lemma HomomorphicAdd_two: "decoded_ct a \<Longrightarrow> decoded_ct b \<Longrightarrow> HomomorphicAdd [Some a, Some b] = Inr (Some (ct_add a b))"
  by (auto simp: HomomorphicAdd_def decoded_ct_def ct_add_def)

lemma add_loop_decoded:
  "\<forall>ct \<in> set cts. decoded_ct ct \<Longrightarrow>
    add_loop a b (map Some cts) = (let s = foldl ct_add \<lparr>C1 = Some a, C2 = Some b\<rparr> cts in Inr (the (C1 s), the (C2 s)))"
proof (induction cts arbitrary: a b)
  case (Cons ct cts)
  then obtain x y where "C1 ct = Some x" "C2 ct = Some y" by (auto simp: decoded_ct_def)
  with Cons show ?case by (simp add: ct_add_def)
qed simp

lemma foldl_ct_add_decoded: "decoded_ct a \<Longrightarrow> decoded_ct (foldl ct_add a cts)"
  by (induction cts arbitrary: a) simp_all

lemma HomomorphicAdd_fold:
  assumes "decoded_ct ct" "\<forall>ct \<in> set cts. decoded_ct ct"
  shows "HomomorphicAdd (map Some (ct # cts)) = Inr (Some (foldl ct_add ct cts))"
proof -
  obtain x y where xy: "C1 ct = Some x" "C2 ct = Some y" using assms(1) by (auto simp: decoded_ct_def)
  then have ct: "\<lparr>C1 = Some x, C2 = Some y\<rparr> = ct" by simp
  have "decoded_ct (foldl ct_add ct cts)" by (rule foldl_ct_add_decoded [OF assms(1)])
  then have "\<lparr>C1 = Some (the (C1 (foldl ct_add ct cts))), C2 = Some (the (C2 (foldl ct_add ct cts)))\<rparr> = foldl ct_add ct cts"
    by (auto simp: decoded_ct_def)
  then show ?thesis by (simp add: HomomorphicAdd_def xy add_loop_decoded [OF assms(2)] ct Let_def)
qed

lemma foldl_add_slot: "foldl add_slot None (ct # cts) = Some (foldl ct_add ct cts)"
proof -
  have "foldl add_slot (Some a) cts = Some (foldl ct_add a cts)" for a :: "'a Ciphertext"
    by (induction cts arbitrary: a) (simp_all add: add_slot_def)
  then show ?thesis by (simp add: add_slot_def)
qed

lemma party_loop_iff:
  assumes "j + length vec = length sums" "\<forall>p \<in> set sums. slot_decoded p"
  shows "party_loop R i j vec sums = Inr sums' \<longleftrightarrow>
    (\<exists>cts. mapE (ciphertextFromHex R) vec = Inr cts \<and> sums' = take j sums @ map2 add_slot (drop j sums) cts)"
  using assms
proof (induction vec arbitrary: j sums)
  case Nil
  then show ?case by auto
next
  case (Cons s vec)
  then have j: "j < length sums" by simp
  show ?case
  proof (cases "ciphertextFromHex R s")
    case (Inr ct)
    have ct: "decoded_ct ct" by (rule ciphertextFromHex_decoded [OF Inr])
    let ?sums = "sums[j := add_slot (sums ! j) ct]"
    have "party_loop R i j (s # vec) sums = party_loop R i (Suc j) vec ?sums"
    proof (cases "sums ! j")
      case (Some a)
      then have "decoded_ct a" using Cons.prems(2) j by (metis nth_mem slot_decoded_Some)
      with Some Inr ct show ?thesis by (simp add: HomomorphicAdd_two add_slot_def)
    qed (simp add: Inr add_slot_def)
    moreover have "\<forall>p \<in> set ?sums. slot_decoded p"
      using Cons.prems(2) add_slot_decoded [OF ct] set_update_subset_insert [of sums j] by blast
    ultimately have "party_loop R i j (s # vec) sums = Inr sums' \<longleftrightarrow>
        (\<exists>cts. mapE (ciphertextFromHex R) vec = Inr cts \<and> sums' = take (Suc j) ?sums @ map2 add_slot (drop (Suc j) ?sums) cts)"
      using Cons.IH [of "Suc j" ?sums] Cons.prems(1) by simp
    moreover have "take (Suc j) ?sums @ map2 add_slot (drop (Suc j) ?sums) cts
        = take j sums @ map2 add_slot (drop j sums) (ct # cts)" for cts
      using j by (simp add: take_Suc_conv_app_nth Cons_nth_drop_Suc [symmetric])
    ultimately show ?thesis using Inr by (cases "mapE (ciphertextFromHex R) vec") auto
  qed simp
qed

definition decodes :: "('s, 'e::zero) prims \<Rightarrow> (bytes \<Rightarrow> string list option) \<Rightarrow> nat \<Rightarrow> SerializedBallot \<Rightarrow> 'e Ciphertext list \<Rightarrow> bool" where
  "decodes R parse n b cts \<longleftrightarrow> length cts = n \<and>
     (case parse (sb_EncryptedBallot b) of None \<Rightarrow> False | Some vec \<Rightarrow> mapE (ciphertextFromHex R) vec = Inr cts)"

lemma mapE_length: "mapE f xs = Inr ys \<Longrightarrow> length ys = length xs"
  by (simp add: mapE_Inr_iff list_all2_lengthD)

lemma decodes_decoded: "decodes R parse n b cts \<Longrightarrow> \<forall>ct \<in> set cts. decoded_ct ct"
proof -
  assume "decodes R parse n b cts"
  then obtain vec where "list_all2 (\<lambda>s ct. ciphertextFromHex R s = Inr ct) vec cts"
    by (auto simp: decodes_def mapE_Inr_iff split: option.splits)
  then show ?thesis
    by (auto simp: list_all2_conv_all_nth in_set_conv_nth) (metis ciphertextFromHex_decoded)
qed

lemma ballot_loop_iff:
  assumes "length sums = n" "\<forall>p \<in> set sums. slot_decoded p"
  shows "ballot_loop R parse n i bs sums = Inr sums' \<longleftrightarrow>
    (\<exists>ctss. list_all2 (decodes R parse n) bs ctss \<and> sums' = foldl (map2 add_slot) sums ctss)"
  using assms
proof (induction bs arbitrary: i sums)
  case Nil
  then show ?case by auto
next
  case (Cons b bs)
  have step: "ballot_loop R parse n i (b # bs) sums = Inr sums' \<longleftrightarrow>
      (\<exists>cts. decodes R parse n b cts \<and> ballot_loop R parse n (Suc i) bs (map2 add_slot sums cts) = Inr sums')"
  proof (cases "parse (sb_EncryptedBallot b)")
    case (Some vec)
    show ?thesis
    proof (cases "length vec = n")
      case True
      have loop: "party_loop R i 0 vec sums = Inr s \<longleftrightarrow> (\<exists>cts. mapE (ciphertextFromHex R) vec = Inr cts \<and> s = map2 add_slot sums cts)" for s
        using party_loop_iff [of 0 vec sums R i s] Cons.prems True by simp
      have "bindE (party_loop R i 0 vec sums) (ballot_loop R parse n (Suc i) bs) = Inr sums' \<longleftrightarrow>
          (\<exists>cts. mapE (ciphertextFromHex R) vec = Inr cts \<and> ballot_loop R parse n (Suc i) bs (map2 add_slot sums cts) = Inr sums')"
        by (simp only: bindE_eq_Inr_iff loop) auto
      then show ?thesis using Some True by (auto simp: decodes_def dest: mapE_length)
    qed (auto simp: Some decodes_def dest: mapE_length)
  qed (simp add: decodes_def)
  have "ballot_loop R parse n (Suc i) bs (map2 add_slot sums cts) = Inr sums' \<longleftrightarrow>
      (\<exists>ctss. list_all2 (decodes R parse n) bs ctss \<and> sums' = foldl (map2 add_slot) (map2 add_slot sums cts) ctss)"
    if cts: "decodes R parse n b cts" for cts
  proof (rule Cons.IH)
    show "length (map2 add_slot sums cts) = n" using Cons.prems(1) cts by (simp add: decodes_def)
    show "\<forall>p \<in> set (map2 add_slot sums cts). slot_decoded p"
      using decodes_decoded [OF cts] by (auto simp: set_zip intro!: add_slot_decoded)
  qed
  then have "ballot_loop R parse n i (b # bs) sums = Inr sums' \<longleftrightarrow>
      (\<exists>cts ctss. decodes R parse n b cts \<and> list_all2 (decodes R parse n) bs ctss \<and> sums' = foldl (map2 add_slot) (map2 add_slot sums cts) ctss)"
    unfolding step by blast
  also have "\<dots> \<longleftrightarrow> (\<exists>ctss. list_all2 (decodes R parse n) (b # bs) ctss \<and> sums' = foldl (map2 add_slot) sums ctss)"
    (is "?l \<longleftrightarrow> ?r")
  proof
    assume ?l
    then obtain cts ctss where "decodes R parse n b cts" "list_all2 (decodes R parse n) bs ctss"
      "sums' = foldl (map2 add_slot) (map2 add_slot sums cts) ctss" by blast
    then show ?r by (intro exI [of _ "cts # ctss"]) simp
  next
    assume ?r
    then obtain cts ctss where "decodes R parse n b cts" "list_all2 (decodes R parse n) bs ctss"
      "sums' = foldl (map2 add_slot) sums (cts # ctss)" unfolding list_all2_Cons1 by blast
    then show ?l by (intro exI [of _ cts] exI [of _ ctss]) simp
  qed
  finally show ?case .
qed

lemma foldl_map2_nth:
  assumes "j < n" "length sums = n" "\<forall>cts \<in> set ctss. length cts = n"
  shows "length (foldl (map2 add_slot) sums ctss) = n
    \<and> foldl (map2 add_slot) sums ctss ! j = foldl add_slot (sums ! j) (map (\<lambda>cts. cts ! j) ctss)"
  using assms(2,3)
proof (induction ctss arbitrary: sums)
  case (Cons cts ctss)
  then show ?case using assms(1) by simp
qed simp

text \<open>
  The tally of decoded ballots is, slot by slot, the homomorphic sum of the column, and there is
  a tally exactly when every ballot decodes, with as many parties as the first.
\<close>

lemma ComputeTally_iff:
  "ComputeTally R parse bs = Inr t \<longleftrightarrow> bs \<noteq> [] \<and> NumBallots t = length bs \<and> length (EncryptedSums t) = tr_NumParties t
    \<and> (\<exists>ctss. list_all2 (decodes R parse (tr_NumParties t)) bs ctss
        \<and> (\<forall>j < tr_NumParties t. HomomorphicAdd (map (\<lambda>cts. Some (cts ! j)) ctss) = Inr (EncryptedSums t ! j)))"
proof (cases bs)
  case (Cons b bs')
  let ?sums = "\<lambda>n ctss. foldl (map2 add_slot) (replicate n None) ctss"
  have column: "j < n \<Longrightarrow> HomomorphicAdd (map (\<lambda>cts. Some (cts ! j)) ctss) = Inr (?sums n ctss ! j)"
    and len: "length (?sums n ctss) = n"
    if all: "list_all2 (decodes R parse n) bs ctss" for n j ctss
  proof -
    have each: "length cts = n \<and> (\<forall>ct \<in> set cts. decoded_ct ct)" if "cts \<in> set ctss" for cts
    proof -
      from all that obtain x where "decodes R parse n x cts" by (auto simp: list_all2_conv_all_nth in_set_conv_nth)
      then show ?thesis using decodes_decoded [of R parse n x cts] by (simp add: decodes_def)
    qed
    from all Cons have "ctss \<noteq> []" by auto
    then obtain cts ctss' where c: "ctss = cts # ctss'" by (cases ctss) auto
    show "HomomorphicAdd (map (\<lambda>cts. Some (cts ! j)) ctss) = Inr (?sums n ctss ! j)" if j: "j < n"
    proof -
      have "decoded_ct (x ! j)" if "x \<in> set ctss" for x using each [OF that] j by (auto dest: nth_mem)
      then have "decoded_ct (cts ! j)" "\<forall>ct \<in> set (map (\<lambda>cts. cts ! j) ctss'). decoded_ct ct" by (auto simp: c)
      from HomomorphicAdd_fold [OF this] foldl_add_slot [of "cts ! j" "map (\<lambda>cts. cts ! j) ctss'"]
      have "HomomorphicAdd (map (\<lambda>cts. Some (cts ! j)) ctss) = Inr (foldl add_slot None (map (\<lambda>cts. cts ! j) ctss))"
        by (simp add: c comp_def)
      then show ?thesis using foldl_map2_nth [OF j, of "replicate n None" ctss] each j by simp
    qed
    have "\<forall>cts \<in> set ctss. length cts = length sums \<Longrightarrow> length (foldl (map2 add_slot) sums ctss) = length sums" for sums
      by (induction ctss arbitrary: sums) auto
    then show "length (?sums n ctss) = n" using each by simp
  qed
  have run: "ComputeTally R parse bs = Inr t \<longleftrightarrow> (\<exists>v ctss. parse (sb_EncryptedBallot b) = Some v
      \<and> list_all2 (decodes R parse (length v)) bs ctss
      \<and> t = \<lparr>EncryptedSums = ?sums (length v) ctss, NumBallots = length bs, tr_NumParties = length v\<rparr>)"
    using ballot_loop_iff [of "replicate (length v) None" "length v" R parse 0 bs for v]
    by (auto simp: ComputeTally_def Cons bindE_eq_Inr_iff Let_def simp del: ballot_loop.simps split: option.splits)
  have first: "parse (sb_EncryptedBallot b) = Some v \<Longrightarrow> length v = n" if "list_all2 (decodes R parse n) bs ctss" for n ctss v
    using that by (auto simp: Cons list_all2_Cons1 decodes_def dest: mapE_length)
  have some: "\<exists>v. parse (sb_EncryptedBallot b) = Some v" if "list_all2 (decodes R parse n) bs ctss" for n ctss
    using that by (auto simp: Cons list_all2_Cons1 decodes_def split: option.splits)
  show ?thesis
  proof
    assume "ComputeTally R parse bs = Inr t"
    then show "bs \<noteq> [] \<and> NumBallots t = length bs \<and> length (EncryptedSums t) = tr_NumParties t
        \<and> (\<exists>ctss. list_all2 (decodes R parse (tr_NumParties t)) bs ctss
            \<and> (\<forall>j < tr_NumParties t. HomomorphicAdd (map (\<lambda>cts. Some (cts ! j)) ctss) = Inr (EncryptedSums t ! j)))"
      unfolding run using column len by (auto simp: Cons)
  next
    assume "bs \<noteq> [] \<and> NumBallots t = length bs \<and> length (EncryptedSums t) = tr_NumParties t
        \<and> (\<exists>ctss. list_all2 (decodes R parse (tr_NumParties t)) bs ctss
            \<and> (\<forall>j < tr_NumParties t. HomomorphicAdd (map (\<lambda>cts. Some (cts ! j)) ctss) = Inr (EncryptedSums t ! j)))"
    then obtain ctss where t: "NumBallots t = length bs" "length (EncryptedSums t) = tr_NumParties t"
      and all: "list_all2 (decodes R parse (tr_NumParties t)) bs ctss"
      and cols: "\<forall>j < tr_NumParties t. HomomorphicAdd (map (\<lambda>cts. Some (cts ! j)) ctss) = Inr (EncryptedSums t ! j)" by blast
    from some [OF all] obtain v where v: "parse (sb_EncryptedBallot b) = Some v" by blast
    have "EncryptedSums t = ?sums (tr_NumParties t) ctss"
      using column [OF all] cols len [OF all] t(2) by (intro nth_equalityI) auto
    moreover note first [OF all v]
    ultimately show "ComputeTally R parse bs = Inr t"
      unfolding run using v all t(1) by (intro exI [of _ v] exI [of _ ctss]) simp
  qed
qed (simp add: ComputeTally_def)

end
