(* ===== verification/Tally_State.thy ===== *)
theory Tally_State
  imports Tally_Ceremony
begin

text \<open>
  The state of a decryption ceremony and its crash journal (\<open>tally/state.go\<close>).  A Go map is the
  list of its entries in the order in which \<open>range\<close> visits them, and \<open>None\<close> is the nil map.  JSON
  text, time formats and failures of the disk are parameters.
\<close>

section \<open>Phases and state\<close>

definition PhaseFetching :: string where "PhaseFetching = ''fetching''"
definition PhaseTallying :: string where "PhaseTallying = ''tallying''"
definition PhaseAwaitingTrustees :: string where "PhaseAwaitingTrustees = ''awaiting_trustees''"
definition PhaseDecrypted :: string where "PhaseDecrypted = ''decrypted''"
definition PhaseFinalized :: string where "PhaseFinalized = ''finalized''"
definition PhaseError :: string where "PhaseError = ''error''"

lemmas phase_defs = PhaseFetching_def PhaseTallying_def PhaseAwaitingTrustees_def PhaseDecrypted_def PhaseFinalized_def PhaseError_def

record ('s, 'e) CeremonyState =
  cs_ID :: string
  Phase :: string
  cs_ElectionID :: string
  ActiveSet :: "string list"
  cs_BallotCount :: int
  PartyCount :: int
  cs_DedupProof :: "DedupProof option"
  Partials :: "(int \<times> ('s, 'e) Partial ptr list) list option"
  TrusteeOrder :: "int list"
  Results :: "int list"
  StartedAt :: int
  DecryptedAt :: "int option"
  encryptedSums :: "'e Ciphertext ptr list"
  tallyResult :: "'e TallyResult option"
  stateDir :: string

definition partials_of :: "('s, 'e) CeremonyState \<Rightarrow> (int \<times> ('s, 'e) Partial ptr list) list" where
  "partials_of cs = (case Partials cs of None \<Rightarrow> [] | Some m \<Rightarrow> m)"

text \<open>The JSON mirror of the state.  An omitted time is the empty string.\<close>

record partialJSON =
  pj_D :: string
  pj_U :: string
  pj_V :: string
  pj_Z :: string

record ceremonyStateJSON =
  j_ID :: string
  j_Phase :: string
  j_ElectionID :: string
  j_ActiveSet :: "string list"
  j_BallotCount :: int
  j_PartyCount :: int
  j_DedupProof :: "DedupProof option"
  j_Partials :: "(string \<times> partialJSON list) list"
  j_TrusteeOrder :: "int list"
  j_Results :: "int list"
  j_StartedAt :: string
  j_DecryptedAt :: string

datatype state_error =
    MissingField | InvalidHex | Undecodable crypto_error | ProofU state_error | ProofV state_error | ProofZ state_error
  | MissingPart int nat | JournalUnreadable | JournalSyntax | BadStartedAt | BadDecryptedAt
  | BadTrusteeIndex string | BadPartialCount int | BadPartial int nat state_error | NoStateDir | DiskFailed

text \<open>What the service gets from outside: primitives, JSON, time formats and its configuration.\<close>

record ('s, 'e) tally_env =
  te_prims :: "('s, 'e) prims"
  te_sbytes :: "'s \<Rightarrow> bytes"
  te_sha :: sha
  te_json :: "ceremonyStateJSON \<Rightarrow> bytes"
  te_unjson :: "bytes \<Rightarrow> ceremonyStateJSON option"
  te_fmt :: "int \<Rightarrow> string"
  te_parse_time :: "string \<Rightarrow> int option"
  te_ballot :: "bytes \<Rightarrow> string list option"
  te_keys :: "int \<rightharpoonup> 'e ptr"
  te_electionID :: string
  te_stateDir :: string

section \<open>Encoding the partial decryptions\<close>

definition decodeHexElement :: "('s, 'e::zero) prims \<Rightarrow> string \<Rightarrow> state_error + 'e" where
  "decodeHexElement R s =
     (if s = '''' then Inl MissingField
      else case hex_decode s of
        None \<Rightarrow> Inl InvalidHex
      | Some b \<Rightarrow> (case DecodeElement R b of Inl e \<Rightarrow> Inl (Undecodable e) | Inr x \<Rightarrow> Inr x))"

definition decodeHexScalar :: "('s, 'e) prims \<Rightarrow> string \<Rightarrow> state_error + 's" where
  "decodeHexScalar R s =
     (if s = '''' then Inl MissingField
      else case hex_decode s of
        None \<Rightarrow> Inl InvalidHex
      | Some b \<Rightarrow> (case DecodeScalar R b of Inl e \<Rightarrow> Inl (Undecodable e) | Inr x \<Rightarrow> Inr x))"

definition wrap_error :: "('e \<Rightarrow> 'f) \<Rightarrow> 'e + 'a \<Rightarrow> 'f + 'a" where
  "wrap_error f r = (case r of Inl e \<Rightarrow> Inl (f e) | Inr x \<Rightarrow> Inr x)"

lemma wrap_error_simps [simp]: "wrap_error f (Inr x) = Inr x" "wrap_error f (Inl e) = Inl (f e)" "wrap_error f r = Inr x \<longleftrightarrow> r = Inr x"
  by (cases r; simp add: wrap_error_def)+

definition decodeProofHex :: "('s, 'e::zero) prims \<Rightarrow> string \<Rightarrow> string \<Rightarrow> string \<Rightarrow> state_error + ('s, 'e) ChaumPedersenProof" where
  "decodeProofHex R u v z =
     bindE (wrap_error ProofU (decodeHexElement R u)) (\<lambda>ue.
     bindE (wrap_error ProofV (decodeHexElement R v)) (\<lambda>ve.
     bindE (wrap_error ProofZ (decodeHexScalar R z)) (\<lambda>zs.
     Inr \<lparr>cpU = Some ue, cpV = Some ve, cpZ = Some zs\<rparr>)))"

text \<open>\<open>s_bytes\<close> is \<open>Scalar.Bytes\<close> of the library.\<close>

definition encode_partial :: "('s, 'e) prims \<Rightarrow> ('s \<Rightarrow> bytes) \<Rightarrow> int \<Rightarrow> nat \<Rightarrow> ('s, 'e) Partial ptr \<Rightarrow> state_error + partialJSON" where
  "encode_partial R s_bytes idx i p =
     (case p of
        None \<Rightarrow> Inl (MissingPart idx i)
      | Some pd \<Rightarrow>
          (case (D pd, Proof pd) of
             (Some d, Some pf) \<Rightarrow>
               (case (cpU pf, cpV pf, cpZ pf) of
                  (Some u, Some v, Some z) \<Rightarrow>
                    Inr \<lparr>pj_D = hex_encode (e_bytes R d), pj_U = hex_encode (e_bytes R u), pj_V = hex_encode (e_bytes R v),
                         pj_Z = hex_encode (s_bytes z)\<rparr>
                | _ \<Rightarrow> Inl (MissingPart idx i))
           | _ \<Rightarrow> Inl (MissingPart idx i)))"

definition encode_partials ::
  "('s, 'e) prims \<Rightarrow> ('s \<Rightarrow> bytes) \<Rightarrow> (int \<times> ('s, 'e) Partial ptr list) list \<Rightarrow> state_error + (string \<times> partialJSON list) list" where
  "encode_partials R s_bytes =
     mapE (\<lambda>(idx, pds). bindE (mapE (\<lambda>i. encode_partial R s_bytes idx i (pds ! i)) [0..<length pds]) (\<lambda>encoded. Inr (itoa idx, encoded)))"

definition decode_partial :: "('s, 'e::zero) prims \<Rightarrow> int \<Rightarrow> nat \<Rightarrow> partialJSON \<Rightarrow> state_error + ('s, 'e) Partial ptr" where
  "decode_partial R idx i pj =
     bindE (wrap_error (BadPartial idx i) (decodeHexElement R (pj_D pj))) (\<lambda>d.
     bindE (wrap_error (BadPartial idx i) (decodeProofHex R (pj_U pj) (pj_V pj) (pj_Z pj))) (\<lambda>pf.
     Inr (Some \<lparr>TrusteeIndex = idx, D = Some d, Proof = Some pf\<rparr>)))"

definition decode_partials ::
  "('s, 'e::zero) prims \<Rightarrow> int \<Rightarrow> (string \<times> partialJSON list) list \<Rightarrow> state_error + (int \<times> ('s, 'e) Partial ptr list) list" where
  "decode_partials R partyCount entries =
     foldE (\<lambda>(key, pds) m.
       let (idx, ok) = ParseInt64 key in
       if \<not> ok then Inl (BadTrusteeIndex key)
       else if int (length pds) \<noteq> partyCount then Inl (BadPartialCount idx)
       else bindE (mapE (\<lambda>i. decode_partial R idx i (pds ! i)) [0..<length pds]) (\<lambda>decoded.
         Inr (AList.update idx decoded m))) entries []"

section \<open>The journal\<close>

definition MarshalJSON :: "('s, 'e) tally_env \<Rightarrow> ('s, 'e) CeremonyState \<Rightarrow> state_error + ceremonyStateJSON" where
  "MarshalJSON te cs =
     bindE (encode_partials (te_prims te) (te_sbytes te) (partials_of cs)) (\<lambda>parts.
     Inr \<lparr>j_ID = cs_ID cs, j_Phase = Phase cs, j_ElectionID = cs_ElectionID cs, j_ActiveSet = ActiveSet cs,
          j_BallotCount = cs_BallotCount cs, j_PartyCount = PartyCount cs, j_DedupProof = cs_DedupProof cs, j_Partials = parts,
          j_TrusteeOrder = TrusteeOrder cs, j_Results = Results cs, j_StartedAt = te_fmt te (StartedAt cs),
          j_DecryptedAt = (case DecryptedAt cs of None \<Rightarrow> '''' | Some t \<Rightarrow> te_fmt te t)\<rparr>)"

definition UnmarshalJSON :: "('s, 'e::zero) tally_env \<Rightarrow> ceremonyStateJSON \<Rightarrow> state_error + ('s, 'e) CeremonyState" where
  "UnmarshalJSON te j =
     (case te_parse_time te (j_StartedAt j) of
        None \<Rightarrow> Inl BadStartedAt
      | Some t \<Rightarrow>
          bindE (if j_DecryptedAt j \<noteq> '''' then
                   (case te_parse_time te (j_DecryptedAt j) of None \<Rightarrow> Inl BadDecryptedAt | Some dt \<Rightarrow> Inr (Some dt))
                 else Inr None) (\<lambda>dec.
          bindE (if j_Partials j \<noteq> [] then bindE (decode_partials (te_prims te) (j_PartyCount j) (j_Partials j)) (\<lambda>m. Inr (Some m))
                 else Inr None) (\<lambda>parts.
          Inr \<lparr>cs_ID = j_ID j, Phase = j_Phase j, cs_ElectionID = j_ElectionID j, ActiveSet = j_ActiveSet j,
               cs_BallotCount = j_BallotCount j, PartyCount = j_PartyCount j, cs_DedupProof = j_DedupProof j, Partials = parts,
               TrusteeOrder = j_TrusteeOrder j, Results = j_Results j, StartedAt = t, DecryptedAt = dec,
               encryptedSums = [], tallyResult = None, stateDir = ''''\<rparr>)))"

text \<open>The temporary file is renamed over the journal, so a failure leaves the old journal.\<close>

definition Save ::
  "('s, 'e) tally_env \<Rightarrow> bool \<Rightarrow> ('s, 'e) CeremonyState \<Rightarrow> bytes option \<Rightarrow> (state_error + unit) \<times> bytes option" where
  "Save te disk_fails cs journal =
     (if stateDir cs = '''' then (Inl NoStateDir, journal)
      else case MarshalJSON te cs of
        Inl e \<Rightarrow> (Inl e, journal)
      | Inr j \<Rightarrow> if disk_fails then (Inl DiskFailed, journal) else (Inr (), Some (te_json te j)))"

definition SetPhase ::
  "('s, 'e) tally_env \<Rightarrow> bool \<Rightarrow> string \<Rightarrow> ('s, 'e) CeremonyState \<Rightarrow> bytes option
    \<Rightarrow> (state_error + unit) \<times> ('s, 'e) CeremonyState \<times> bytes option" where
  "SetPhase te disk_fails phase cs journal =
     (let cs' = cs\<lparr>Phase := phase\<rparr> in case Save te disk_fails cs' journal of (r, journal') \<Rightarrow> (r, cs', journal'))"

definition LoadCeremonyState ::
  "('s, 'e::zero) tally_env \<Rightarrow> bool \<Rightarrow> bytes option \<Rightarrow> state_error + ('s, 'e) CeremonyState option" where
  "LoadCeremonyState te read_fails journal =
     (case journal of
        None \<Rightarrow> Inr None
      | Some data \<Rightarrow>
          if read_fails then Inl JournalUnreadable
          else case te_unjson te data of
            None \<Rightarrow> Inl JournalSyntax
          | Some j \<Rightarrow> bindE (UnmarshalJSON te j) (\<lambda>cs. Inr (Some (cs\<lparr>stateDir := te_stateDir te\<rparr>))))"

definition NewCeremonyState ::
  "('s, 'e) tally_env \<Rightarrow> bool \<Rightarrow> bool \<Rightarrow> string \<Rightarrow> int \<Rightarrow> bytes option
    \<Rightarrow> (state_error + ('s, 'e) CeremonyState) \<times> bytes option" where
  "NewCeremonyState te mkdir_fails disk_fails ident now journal =
     (let cs = \<lparr>cs_ID = ident, Phase = PhaseFetching, cs_ElectionID = te_electionID te, ActiveSet = [], cs_BallotCount = 0, PartyCount = 0,
                cs_DedupProof = None, Partials = None, TrusteeOrder = [], Results = [], StartedAt = now, DecryptedAt = None,
                encryptedSums = [], tallyResult = None, stateDir = te_stateDir te\<rparr>
      in if mkdir_fails then (Inl DiskFailed, journal)
         else case Save te disk_fails cs journal of
           (Inl e, journal') \<Rightarrow> (Inl e, journal')
         | (Inr _, journal') \<Rightarrow> (Inr cs, journal'))"

section \<open>Reading back what was written\<close>

text \<open>The elements and scalars of a partial that the decoders accept.\<close>

definition partial_ok :: "int \<Rightarrow> ('s, 'e::zero) Partial ptr \<Rightarrow> bool" where
  "partial_ok idx p \<longleftrightarrow> (\<exists>d u v z. p = Some \<lparr>TrusteeIndex = idx, D = Some d, Proof = Some \<lparr>cpU = Some u, cpV = Some v, cpZ = Some z\<rparr>\<rparr>
     \<and> d \<noteq> 0 \<and> u \<noteq> 0 \<and> v \<noteq> 0)"

definition partials_ok :: "int \<Rightarrow> (int \<times> ('s, 'e::zero) Partial ptr list) list \<Rightarrow> bool" where
  "partials_ok n m \<longleftrightarrow> distinct (map fst m) \<and>
     (\<forall>(idx, pds) \<in> set m. 1 \<le> idx \<and> idx < 2 ^ 63 \<and> int (length pds) = n \<and> (\<forall>p \<in> set pds. partial_ok idx p))"

definition codec_ok :: "('s::field, 'e::ab_group_add) tally_env \<Rightarrow> bool" where
  "codec_ok te \<longleftrightarrow> ristretto (te_prims te) \<and> (\<forall>z. DecodeScalar (te_prims te) (te_sbytes te z) = Inr z)
     \<and> (\<forall>t. te_parse_time te (te_fmt te t) = Some t \<and> te_fmt te t \<noteq> '''')"

lemma hex_encode_nonempty: "bs \<noteq> [] \<Longrightarrow> hex_encode bs \<noteq> []"
  using length_hex_encode [of bs] by auto

lemma decodeHexElement_encode:
  assumes "ristretto R" "e \<noteq> 0"
  shows "decodeHexElement R (hex_encode (e_bytes R e)) = Inr e"
proof -
  have "e_bytes R e \<noteq> []" using e_bytes_length [OF assms(1), of e] by auto
  moreover have "DecodeElement R (e_bytes R e) = Inr e" using assms by (simp add: DecodeElement_iff)
  ultimately show ?thesis by (simp add: decodeHexElement_def hex_encode_nonempty)
qed

lemma decodeHexScalar_encode:
  assumes "DecodeScalar R bs = Inr z"
  shows "decodeHexScalar R (hex_encode bs) = Inr z"
proof -
  have "bs \<noteq> []" using assms by (auto simp: DecodeScalar_def)
  with assms show ?thesis by (simp add: decodeHexScalar_def hex_encode_nonempty)
qed

lemma decode_encode_partial:
  assumes "codec_ok te" "partial_ok idx p"
  shows "\<exists>pj. encode_partial (te_prims te) (te_sbytes te) idx i p = Inr pj \<and> decode_partial (te_prims te) idx i pj = Inr p"
  using assms
  by (auto simp: codec_ok_def partial_ok_def encode_partial_def decode_partial_def decodeProofHex_def
      decodeHexElement_encode decodeHexScalar_encode)

lemma decode_encode_entry:
  assumes "codec_ok te" "\<forall>p \<in> set pds. partial_ok idx p"
  shows "\<exists>pjs. mapE (\<lambda>i. encode_partial (te_prims te) (te_sbytes te) idx i (pds ! i)) [0..<length pds] = Inr pjs
    \<and> length pjs = length pds \<and> mapE (\<lambda>i. decode_partial (te_prims te) idx i (pjs ! i)) [0..<length pjs] = Inr pds"
proof -
  from assms have "\<exists>pj. encode_partial (te_prims te) (te_sbytes te) idx i (pds ! i) = Inr pj
      \<and> decode_partial (te_prims te) idx i pj = Inr (pds ! i)" if "i < length pds" for i
    using decode_encode_partial [OF assms(1), of idx "pds ! i" i] that by auto
  then have "\<exists>pjs. mapE (\<lambda>i. encode_partial (te_prims te) (te_sbytes te) idx i (pds ! i)) [0..<length pds] = Inr pjs
      \<and> length pjs = length pds \<and> (\<forall>i<length pds. decode_partial (te_prims te) idx i (pjs ! i) = Inr (pds ! i))"
    by (rule mapE_range)
  then obtain pjs where pjs: "mapE (\<lambda>i. encode_partial (te_prims te) (te_sbytes te) idx i (pds ! i)) [0..<length pds] = Inr pjs"
    "length pjs = length pds" "\<forall>i<length pds. decode_partial (te_prims te) idx i (pjs ! i) = Inr (pds ! i)" by blast
  have "mapE (\<lambda>i. decode_partial (te_prims te) idx i (pjs ! i)) [0..<length pds] = Inr (map (\<lambda>i. pds ! i) [0..<length pds])"
    using pjs(3) by (intro mapE_total) simp
  then show ?thesis using pjs(1,2) by (simp add: map_nth)
qed

lemma update_fresh: "k \<notin> fst ` set m \<Longrightarrow> AList.update k v m = m @ [(k, v)]"
  by (induction m) auto

lemma decode_encode_partials:
  assumes "codec_ok te" "partials_ok n (m0 @ m)"
  shows "\<exists>es. encode_partials (te_prims te) (te_sbytes te) m = Inr es \<and> length es = length m
    \<and> foldE (\<lambda>(key, pds) m.
       let (idx, ok) = ParseInt64 key in
       if \<not> ok then Inl (BadTrusteeIndex key)
       else if int (length pds) \<noteq> n then Inl (BadPartialCount idx)
       else bindE (mapE (\<lambda>i. decode_partial (te_prims te) idx i (pds ! i)) [0..<length pds]) (\<lambda>decoded.
         Inr (AList.update idx decoded m))) es m0 = Inr (m0 @ m)"
  using assms(2)
proof (induction m arbitrary: m0)
  case Nil
  then show ?case by (simp add: encode_partials_def)
next
  case (Cons e m)
  obtain idx pds where e: "e = (idx, pds)" by fastforce
  have ok: "\<forall>p \<in> set pds. partial_ok idx p" "1 \<le> idx" "idx < 2 ^ 63" "int (length pds) = n" "idx \<notin> fst ` set m0"
    using Cons.prems by (auto simp: e partials_ok_def)
  from Cons.IH [of "m0 @ [(idx, pds)]"] Cons.prems obtain es where
    es: "encode_partials (te_prims te) (te_sbytes te) m = Inr es" "length es = length m"
    "foldE (\<lambda>(key, pds) m.
       let (idx, ok) = ParseInt64 key in
       if \<not> ok then Inl (BadTrusteeIndex key)
       else if int (length pds) \<noteq> n then Inl (BadPartialCount idx)
       else bindE (mapE (\<lambda>i. decode_partial (te_prims te) idx i (pds ! i)) [0..<length pds]) (\<lambda>decoded.
         Inr (AList.update idx decoded m))) es (m0 @ [(idx, pds)]) = Inr (m0 @ e # m)"
    by (auto simp: e)
  from decode_encode_entry [OF assms(1) ok(1)] obtain pjs where
    pjs: "mapE (\<lambda>i. encode_partial (te_prims te) (te_sbytes te) idx i (pds ! i)) [0..<length pds] = Inr pjs"
    "length pjs = length pds" "mapE (\<lambda>i. decode_partial (te_prims te) idx i (pjs ! i)) [0..<length pjs] = Inr pds" by blast
  have "encode_partials (te_prims te) (te_sbytes te) (e # m) = Inr ((itoa idx, pjs) # es)"
    using es(1) pjs(1) by (simp add: encode_partials_def e)
  moreover have "ParseInt64 (itoa idx) = (idx, True)" using ok(2,3) by (simp add: ParseInt64_itoa)
  ultimately show ?case
    using es(2,3) pjs(2,3) ok(4) by (simp add: update_fresh [OF ok(5)])
qed

definition recovered :: "('s, 'e) CeremonyState \<Rightarrow> ('s, 'e) CeremonyState" where
  "recovered cs = cs\<lparr>Partials := (if partials_of cs = [] then None else Partials cs), encryptedSums := [], tallyResult := None\<rparr>"

lemma Save_Load:
  assumes "codec_ok te" "partials_ok (PartyCount cs) (partials_of cs)" "stateDir cs = te_stateDir te" "te_stateDir te \<noteq> ''''"
  shows "\<exists>j. MarshalJSON te cs = Inr j \<and> Save te False cs journal = (Inr (), Some (te_json te j))
    \<and> (te_unjson te (te_json te j) = Some j \<longrightarrow> LoadCeremonyState te False (Some (te_json te j)) = Inr (Some (recovered cs)))"
proof -
  from decode_encode_partials [OF assms(1), of "PartyCount cs" "[]" "partials_of cs"] assms(2) obtain es where
    es: "encode_partials (te_prims te) (te_sbytes te) (partials_of cs) = Inr es" "length es = length (partials_of cs)"
    "decode_partials (te_prims te) (PartyCount cs) es = Inr (partials_of cs)"
    by (auto simp: decode_partials_def)
  have "Partials cs = Some (partials_of cs)" if "partials_of cs \<noteq> []"
    using that by (auto simp: partials_of_def split: option.splits)
  moreover have "es = [] \<longleftrightarrow> partials_of cs = []" using es(2) by auto
  ultimately show ?thesis
    using assms(1,3,4) es(1,3)
    by (auto simp: MarshalJSON_def Save_def LoadCeremonyState_def UnmarshalJSON_def codec_ok_def recovered_def split: option.splits)
qed

end
