(* ===== verification/Tally_Handler.thy ===== *)
theory Tally_Handler
  imports Tally_State
begin

text \<open>
  The endpoints of the decryption ceremony (\<open>tally/handler.go\<close>) over one service state.  What runs
  under the mutex is one step: a handler, and the two critical sections of the background
  goroutine \<open>runTally\<close>, with what it still has to do in \<open>job\<close>.  Failures of the disk, the clock and
  the replies of the board are arguments.
\<close>

section \<open>The service\<close>

definition decryptionThreshold :: int where "decryptionThreshold = 5"
definition maxStartBodyBytes :: nat where "maxStartBodyBytes = 256 * 1024 * 1024"

datatype job = Idle | Fetching | Tallying "SerializedBallot list"

record ('s, 'e) Service =
  ceremony :: "('s, 'e) CeremonyState option"
  journal :: "bytes option"
  job :: job

definition NewCeremonyHandler :: "('s, 'e::zero) tally_env \<Rightarrow> bool \<Rightarrow> bytes option \<Rightarrow> state_error + ('s, 'e) Service" where
  "NewCeremonyHandler te read_fails file =
     bindE (LoadCeremonyState te read_fails file) (\<lambda>cs. Inr \<lparr>ceremony = cs, journal = file, job = Idle\<rparr>)"

record startRequest =
  sr_ActiveSet :: "string list"
  sr_ActiveSetSignature :: string

record startResponse =
  CeremonyID :: string
  Status :: string

definition handleStart ::
  "('s, 'e) tally_env \<Rightarrow> (bytes \<Rightarrow> startRequest option) \<Rightarrow> bool \<Rightarrow> (nat \<Rightarrow> bool) \<Rightarrow> int \<Rightarrow> client_error + bool \<Rightarrow> bytes
    \<Rightarrow> ('s, 'e) Service \<Rightarrow> startResponse response \<times> ('s, 'e) Service" where
  "handleStart te decode mkdir_fails disk_fails now seal_reply body sv =
     (case decode (take maxStartBodyBytes body) of
        None \<Rightarrow> (Failure 400 ''invalid_body'', sv)
      | Some req \<Rightarrow>
          if sr_ActiveSet req = [] then (Failure 400 ''empty_active_set'', sv)
          else if (case ceremony sv of None \<Rightarrow> False | Some cs \<Rightarrow> Phase cs \<noteq> PhaseError \<and> Phase cs \<noteq> PhaseFinalized)
          then (Failure 409 ''ceremony_in_progress'', sv)
          else
            (case seal_reply of
               Inl _ \<Rightarrow> (Failure 502 ''bb_unavailable'', sv)
             | Inr False \<Rightarrow> (Failure 409 ''board_not_sealed'', sv)
             | Inr True \<Rightarrow>
                 let ceremonyID = ''ceremony-'' @ itoa now in
                 (case NewCeremonyState te mkdir_fails (disk_fails 0) ceremonyID now (journal sv) of
                    (Inl _, file) \<Rightarrow> (Failure 500 ''state_error'', sv\<lparr>journal := file\<rparr>)
                  | (Inr cs, file) \<Rightarrow>
                      let cs = cs\<lparr>ActiveSet := sr_ActiveSet req\<rparr> in
                      (case Save te (disk_fails 1) cs file of
                         (Inl _, file) \<Rightarrow> (Failure 500 ''state_error'', sv\<lparr>journal := file\<rparr>)
                       | (Inr _, file) \<Rightarrow>
                           (Success 202 \<lparr>CeremonyID = ceremonyID, Status = PhaseFetching\<rparr>,
                            \<lparr>ceremony = Some cs, journal = file, job = Fetching\<rparr>)))))"

section \<open>The background tally\<close>

text \<open>\<open>runTally\<close> up to the end of its critical section: errors of saving the phase are dropped.\<close>

definition fail_ceremony :: "('s, 'e) tally_env \<Rightarrow> bool \<Rightarrow> ('s, 'e) CeremonyState \<Rightarrow> ('s, 'e) Service \<Rightarrow> ('s, 'e) Service" where
  "fail_ceremony te disk_fails cs sv =
     (case SetPhase te disk_fails PhaseError cs (journal sv) of
        (_, cs', file) \<Rightarrow> \<lparr>ceremony = Some cs', journal = file, job = Idle\<rparr>)"

definition filter_active :: "('s, 'e) CeremonyState \<Rightarrow> SerializedBallot list \<Rightarrow> SerializedBallot list" where
  "filter_active cs allBallots =
     (if ActiveSet cs \<noteq> [] then filter (\<lambda>b. sb_BallotID b \<in> set (ActiveSet cs)) allBallots else allBallots)"

definition runTally_fetch ::
  "('s, 'e) tally_env \<Rightarrow> bool \<Rightarrow> client_error + SerializedBallot list \<Rightarrow> ('s, 'e) Service \<Rightarrow> ('s, 'e) Service" where
  "runTally_fetch te disk_fails fetched sv =
     (case (job sv, ceremony sv) of
        (Fetching, Some cs) \<Rightarrow>
          (case fetched of
             Inl _ \<Rightarrow> fail_ceremony te disk_fails cs sv
           | Inr allBallots \<Rightarrow>
               let bs = filter_active cs allBallots in
               if bs = [] then fail_ceremony te disk_fails cs sv
               else let cs' = cs\<lparr>cs_BallotCount := int (length bs), Phase := PhaseTallying\<rparr>
                    in \<lparr>ceremony = Some cs', journal = snd (Save te disk_fails cs' (journal sv)), job = Tallying bs\<rparr>)
      | _ \<Rightarrow> sv)"

definition runTally_compute :: "('s, 'e::ab_group_add) tally_env \<Rightarrow> bool \<Rightarrow> ('s, 'e) Service \<Rightarrow> ('s, 'e) Service" where
  "runTally_compute te disk_fails sv =
     (case (job sv, ceremony sv) of
        (Tallying bs, Some cs) \<Rightarrow>
          (case ComputeTally (te_prims te) (te_ballot te) bs of
             Inl _ \<Rightarrow> fail_ceremony te disk_fails cs sv
           | Inr tr \<Rightarrow>
               let cs' = cs\<lparr>tallyResult := Some tr, encryptedSums := EncryptedSums tr, PartyCount := int (tr_NumParties tr),
                            Partials := Some [], TrusteeOrder := []\<rparr>
               in (case SetPhase te disk_fails PhaseAwaitingTrustees cs' (journal sv) of
                     (_, cs'', file) \<Rightarrow> \<lparr>ceremony = Some cs'', journal = file, job = Idle\<rparr>))
      | _ \<Rightarrow> sv)"

section \<open>Partial decryptions\<close>

record partialDecryptionElement =
  PartyIndex :: int
  Point :: string
  pde_Proof :: "(string \<times> string \<times> string) option"

record partialDecryptionRequest =
  pdr_TrusteeIndex :: int
  pdr_Partials :: "partialDecryptionElement list"

definition slotContexts :: "('s, 'e) tally_env \<Rightarrow> ('s, 'e) CeremonyState \<Rightarrow> tally_error + SlotContext list" where
  "slotContexts te cs =
     (if cs_ElectionID cs = '''' then Inl NoElectionID
      else case tallyResult cs of
        None \<Rightarrow> Inl TallyUnavailable
      | Some tr \<Rightarrow>
          if int (length (EncryptedSums tr)) \<noteq> PartyCount cs then Inl SlotCount
          else
            bindE (checkE (\<lambda>slot. case EncryptedSums tr ! slot of
                     None \<Rightarrow> Inl (SlotNotDecoded slot)
                   | Some ct \<Rightarrow> if C1 ct = None \<or> C2 ct = None then Inl (SlotNotDecoded slot) else Inr ())
                   [0..<length (EncryptedSums tr)]) (\<lambda>_.
            bindE (tally_crypto (TallyDigest (te_prims te) (te_sha te) (EncryptedSums tr))) (\<lambda>digest.
            Inr (map (\<lambda>slot. \<lparr>slot_ElectionID = cs_ElectionID cs, SlotIndex = of_nat slot, slot_TallyDigest = digest,
                               SetCommitment = 0, SealedHead = 0\<rparr>) [0..<length (EncryptedSums tr)]))))"

definition decryptLocked ::
  "('s::field, 'e::ab_group_add) tally_env \<Rightarrow> bool \<Rightarrow> int \<Rightarrow> ('s, 'e) CeremonyState \<Rightarrow> bytes option
    \<Rightarrow> bool \<times> ('s, 'e) CeremonyState \<times> bytes option" where
  "decryptLocked te disk_fails now cs file =
     (case slotContexts te cs of
        Inl _ \<Rightarrow> (False, cs, file)
      | Inr contexts \<Rightarrow>
          if int (length (TrusteeOrder cs)) < decryptionThreshold then (False, cs, file)
          else
            let trustees = take (nat decryptionThreshold) (TrusteeOrder cs) in
            (case DecryptTally (te_prims te) (tallyResult cs) contexts (map_of (partials_of cs)) trustees (te_keys te) decryptionThreshold of
               Inl _ \<Rightarrow> (False, cs, file)
             | Inr results \<Rightarrow>
                 (case SetPhase te disk_fails PhaseDecrypted (cs\<lparr>Results := results, DecryptedAt := Some now\<rparr>) file of
                    (r, cs', file') \<Rightarrow> (is_ok r, cs', file'))))"

text \<open>The decoding loop: \<open>pds\<close> has a place for every party, an error is the code of the reply.\<close>

fun decode_elements ::
  "('s, 'e::zero) prims \<Rightarrow> int \<Rightarrow> int \<Rightarrow> partialDecryptionElement list \<Rightarrow> ('s, 'e) Partial ptr list \<Rightarrow> string + ('s, 'e) Partial ptr list" where
  "decode_elements R partyCount trustee [] pds = Inr pds"
| "decode_elements R partyCount trustee (p # rest) pds =
     (if PartyIndex p < 0 \<or> partyCount \<le> PartyIndex p then Inl ''invalid_party_index''
      else if pds ! nat (PartyIndex p) \<noteq> None then Inl ''duplicate_party_index''
      else case hex_decode (Point p) of
        None \<Rightarrow> Inl ''invalid_hex''
      | Some pointBytes \<Rightarrow>
          (case DecodeElement R pointBytes of
             Inl e \<Rightarrow> Inl (if e = ErrLength then ''invalid_point_length'' else ''invalid_point'')
           | Inr d \<Rightarrow>
               (case pde_Proof p of
                  None \<Rightarrow> Inl ''invalid_proof_encoding''
                | Some (u, v, z) \<Rightarrow>
                    (case decodeProofHex R u v z of
                       Inl _ \<Rightarrow> Inl ''invalid_proof_encoding''
                     | Inr pf \<Rightarrow>
                         decode_elements R partyCount trustee rest
                           (pds[nat (PartyIndex p) := Some \<lparr>TrusteeIndex = trustee, D = Some d, Proof = Some pf\<rparr>])))))"

text \<open>
  The first half of \<open>handlePartialDecryption\<close> on the ceremony: every test up to the verification
  of the proofs, with the reply that ends the request or the decoded partials.
\<close>

definition check_submission ::
  "('s::field, 'e::ab_group_add) tally_env \<Rightarrow> partialDecryptionRequest \<Rightarrow> ('s, 'e) CeremonyState \<Rightarrow> string response + ('s, 'e) Partial ptr list" where
  "check_submission te req cs =
     (if Phase cs \<noteq> PhaseAwaitingTrustees then Inl (Failure 409 ''wrong_phase'')
      else case te_keys te (pdr_TrusteeIndex req) of
        None \<Rightarrow> Inl (Failure 400 ''unknown_trustee'')
      | Some key \<Rightarrow>
          if map_of (partials_of cs) (pdr_TrusteeIndex req) \<noteq> None then Inl (Success StatusOK ''already_submitted'')
          else if int (length (pdr_Partials req)) \<noteq> PartyCount cs then Inl (Failure 400 ''wrong_party_count'')
          else
            (case decode_elements (te_prims te) (PartyCount cs) (pdr_TrusteeIndex req) (pdr_Partials req) (replicate (nat (PartyCount cs)) None) of
               Inl code \<Rightarrow> Inl (Failure 400 code)
             | Inr pds \<Rightarrow>
                 (case slotContexts te cs of
                    Inl _ \<Rightarrow> Inl (Failure 503 ''tally_unavailable'')
                  | Inr contexts \<Rightarrow>
                      let sums = EncryptedSums (the (tallyResult cs)) in
                      if is_ok (checkE (\<lambda>slot. VerifyPartial (te_prims te) (contexts ! slot) (sums ! slot) (pds ! slot) key) [0..<length pds])
                      then Inr pds
                      else Inl (Failure 422 ''invalid_partial_proof''))))"

text \<open>
  The second half: storing, saving and decrypting at the threshold.  The write to \<open>cs.Partials\<close>
  panics on a nil map, which the server turns into a broken connection (status 0); the deferred
  unlock runs.
\<close>

definition store_submission ::
  "('s::field, 'e::ab_group_add) tally_env \<Rightarrow> (nat \<Rightarrow> bool) \<Rightarrow> int \<Rightarrow> int \<Rightarrow> ('s, 'e) Partial ptr list \<Rightarrow> ('s, 'e) CeremonyState
    \<Rightarrow> ('s, 'e) Service \<Rightarrow> string response \<times> ('s, 'e) Service" where
  "store_submission te disk_fails now trustee pds cs sv =
     (case Partials cs of
        None \<Rightarrow> (Failure 0 ''panic'', sv)
      | Some m \<Rightarrow>
          let cs = cs\<lparr>Partials := Some (m @ [(trustee, pds)]), TrusteeOrder := TrusteeOrder cs @ [trustee]\<rparr> in
          (case Save te (disk_fails 0) cs (journal sv) of
             (Inl _, file) \<Rightarrow> (Failure 500 ''state_error'', sv\<lparr>ceremony := Some cs, journal := file\<rparr>)
           | (Inr _, file) \<Rightarrow>
               if decryptionThreshold \<le> int (length (partials_of cs)) then
                 (case decryptLocked te (disk_fails 1) now cs file of
                    (ok, cs, file) \<Rightarrow>
                      (if ok then Success StatusOK ''accepted'' else Failure 500 ''decrypt_error'',
                       sv\<lparr>ceremony := Some cs, journal := file\<rparr>))
               else (Success StatusOK ''accepted'', sv\<lparr>ceremony := Some cs, journal := file\<rparr>)))"

definition handlePartialDecryption ::
  "('s::field, 'e::ab_group_add) tally_env \<Rightarrow> (bytes \<Rightarrow> partialDecryptionRequest option) \<Rightarrow> (nat \<Rightarrow> bool) \<Rightarrow> int \<Rightarrow> string \<Rightarrow> bytes
    \<Rightarrow> ('s, 'e) Service \<Rightarrow> string response \<times> ('s, 'e) Service" where
  "handlePartialDecryption te decode disk_fails now ident body sv =
     (case decode (take (2 ^ 20) body) of
        None \<Rightarrow> (Failure 400 ''invalid_body'', sv)
      | Some req \<Rightarrow>
          (case ceremony sv of
             None \<Rightarrow> (Failure 404 ''not_found'', sv)
           | Some cs \<Rightarrow>
               if cs_ID cs \<noteq> ident then (Failure 404 ''not_found'', sv)
               else case check_submission te req cs of
                 Inl resp \<Rightarrow> (resp, sv)
               | Inr pds \<Rightarrow> store_submission te disk_fails now (pdr_TrusteeIndex req) pds cs sv))"

section \<open>Status, results and the end\<close>

record statusResponse =
  st_ID :: string
  st_Phase :: string
  st_ElectionID :: string
  st_BallotCount :: int
  st_PartyCount :: int
  st_TrusteeCount :: nat
  st_StartedAt :: int
  st_DecryptedAt :: "int option"
  st_Results :: "int list"

definition handleStatus :: "string \<Rightarrow> ('s, 'e) Service \<Rightarrow> statusResponse response" where
  "handleStatus ident sv =
     (case ceremony sv of
        None \<Rightarrow> Failure 404 ''not_found''
      | Some cs \<Rightarrow>
          if cs_ID cs \<noteq> ident then Failure 404 ''not_found''
          else Success StatusOK \<lparr>st_ID = cs_ID cs, st_Phase = Phase cs, st_ElectionID = cs_ElectionID cs,
                 st_BallotCount = cs_BallotCount cs, st_PartyCount = PartyCount cs, st_TrusteeCount = length (partials_of cs),
                 st_StartedAt = StartedAt cs, st_DecryptedAt = DecryptedAt cs, st_Results = Results cs\<rparr>)"

record resultsResponse =
  rr_CeremonyID :: string
  rr_ElectionID :: string
  rr_Phase :: string
  rr_BallotCount :: int
  rr_Results :: "int list"

definition handleResults :: "string \<Rightarrow> ('s, 'e) Service \<Rightarrow> resultsResponse response" where
  "handleResults ident sv =
     (case ceremony sv of
        None \<Rightarrow> Failure 404 ''not_found''
      | Some cs \<Rightarrow>
          if cs_ID cs \<noteq> ident then Failure 404 ''not_found''
          else if Phase cs \<noteq> PhaseDecrypted \<and> Phase cs \<noteq> PhaseFinalized then Failure 409 ''not_decrypted''
          else Success StatusOK \<lparr>rr_CeremonyID = cs_ID cs, rr_ElectionID = cs_ElectionID cs, rr_Phase = Phase cs,
                 rr_BallotCount = cs_BallotCount cs, rr_Results = Results cs\<rparr>)"

definition handleFinalize ::
  "('s, 'e) tally_env \<Rightarrow> bool \<Rightarrow> string \<Rightarrow> ('s, 'e) Service \<Rightarrow> string response \<times> ('s, 'e) Service" where
  "handleFinalize te disk_fails ident sv =
     (case ceremony sv of
        None \<Rightarrow> (Failure 404 ''not_found'', sv)
      | Some cs \<Rightarrow>
          if cs_ID cs \<noteq> ident then (Failure 404 ''not_found'', sv)
          else if Phase cs \<noteq> PhaseDecrypted then (Failure 409 ''wrong_phase'', sv)
          else case SetPhase te disk_fails PhaseFinalized cs (journal sv) of
            (r, cs', file) \<Rightarrow>
              (if is_ok r then Success StatusOK ''finalized'' else Failure 500 ''state_error'',
               sv\<lparr>ceremony := Some cs', journal := file\<rparr>))"

end
