(* ===== verification/Tally_Props.thy ===== *)
theory Tally_Props
  imports Tally_Handler "HOL-Library.Countable"
begin

text \<open>
  The ceremony as a state machine: requests, the background tally and restarts are its steps.  The
  invariant says where published results come from; the other properties are about the tally of
  the ballots, the crash journal, rejected submissions and ceremonies recovered from the journal.
\<close>

section \<open>Steps of the service\<close>

inductive tally_step :: "('s::field, 'e::ab_group_add) tally_env \<Rightarrow> ('s, 'e) Service \<Rightarrow> ('s, 'e) Service \<Rightarrow> bool" for te where
  start: "handleStart te decode mkdir_fails disk_fails now seal_reply body sv = (resp, sv') \<Longrightarrow> tally_step te sv sv'"
| fetched: "tally_step te sv (runTally_fetch te failed reply sv)"
| computed: "tally_step te sv (runTally_compute te failed sv)"
| partial: "handlePartialDecryption te decode disk_fails now ident body sv = (resp, sv') \<Longrightarrow> tally_step te sv sv'"
| finalize: "handleFinalize te failed ident sv = (resp, sv') \<Longrightarrow> tally_step te sv sv'"
| restart: "NewCeremonyHandler te read_fails (journal sv) = Inr sv' \<Longrightarrow> tally_step te sv sv'"

inductive_cases tally_stepE: "tally_step te sv sv'"

definition fresh_service :: "('s, 'e) Service" where
  "fresh_service = \<lparr>ceremony = None, journal = None, job = Idle\<rparr>"

section \<open>Where results come from\<close>

definition tallied :: "('s, 'e::ab_group_add) tally_env \<Rightarrow> ('s, 'e) CeremonyState \<Rightarrow> SerializedBallot list \<Rightarrow> 'e TallyResult \<Rightarrow> bool" where
  "tallied te cs bs tr \<longleftrightarrow> bs \<noteq> [] \<and> ComputeTally (te_prims te) (te_ballot te) bs = Inr tr \<and> cs_BallotCount cs = int (length bs)
     \<and> ActiveSet cs \<noteq> [] \<and> (\<forall>b \<in> set bs. sb_BallotID b \<in> set (ActiveSet cs))"

definition genuine :: "('s::field, 'e::ab_group_add) tally_env \<Rightarrow> ('s, 'e) CeremonyState \<Rightarrow> bool" where
  "genuine te cs \<longleftrightarrow> (\<exists>bs tr contexts parts trustees. tallied te cs bs tr
     \<and> slotContexts te (cs\<lparr>tallyResult := Some tr\<rparr>) = Inr contexts
     \<and> DecryptTally (te_prims te) (Some tr) contexts (map_of parts) trustees (te_keys te) decryptionThreshold = Inr (Results cs))"

definition published :: "('s, 'e) CeremonyState \<Rightarrow> bool" where
  "published cs \<longleftrightarrow> Phase cs = PhaseDecrypted \<or> Phase cs = PhaseFinalized"

definition state_ok :: "('s::field, 'e::ab_group_add) tally_env \<Rightarrow> ('s, 'e) CeremonyState \<Rightarrow> bool" where
  "state_ok te cs \<longleftrightarrow> (\<forall>tr. tallyResult cs = Some tr \<longrightarrow> (\<exists>bs. tallied te cs bs tr)) \<and> (published cs \<longrightarrow> genuine te cs)"

definition journal_ok :: "('s::field, 'e::ab_group_add) tally_env \<Rightarrow> bytes option \<Rightarrow> bool" where
  "journal_ok te jf \<longleftrightarrow> (\<forall>data. jf = Some data \<longrightarrow>
     (\<exists>cs j. MarshalJSON te cs = Inr j \<and> data = te_json te j \<and> (published cs \<longrightarrow> genuine te cs)))"

definition job_ok :: "('s, 'e) Service \<Rightarrow> bool" where
  "job_ok sv \<longleftrightarrow> (case job sv of
       Idle \<Rightarrow> True
     | Fetching \<Rightarrow> \<exists>cs. ceremony sv = Some cs \<and> Phase cs = PhaseFetching \<and> tallyResult cs = None \<and> ActiveSet cs \<noteq> []
     | Tallying bs \<Rightarrow> \<exists>cs. ceremony sv = Some cs \<and> Phase cs = PhaseTallying \<and> tallyResult cs = None \<and> bs \<noteq> []
         \<and> cs_BallotCount cs = int (length bs) \<and> ActiveSet cs \<noteq> [] \<and> (\<forall>b \<in> set bs. sb_BallotID b \<in> set (ActiveSet cs)))"

definition service_ok :: "('s::field, 'e::ab_group_add) tally_env \<Rightarrow> ('s, 'e) Service \<Rightarrow> bool" where
  "service_ok te sv \<longleftrightarrow> (\<forall>cs. ceremony sv = Some cs \<longrightarrow> state_ok te cs) \<and> journal_ok te (journal sv) \<and> job_ok sv"

text \<open>JSON gives back what was written, or fails.\<close>

definition json_faithful :: "('s, 'e) tally_env \<Rightarrow> bool" where
  "json_faithful te \<longleftrightarrow> (\<forall>j. te_unjson te (te_json te j) = Some j)"

lemma published_phase [simp]:
  "\<not> published (cs\<lparr>Phase := PhaseFetching\<rparr>)" "\<not> published (cs\<lparr>Phase := PhaseTallying\<rparr>)"
  "\<not> published (cs\<lparr>Phase := PhaseAwaitingTrustees\<rparr>)" "\<not> published (cs\<lparr>Phase := PhaseError\<rparr>)"
  by (simp_all add: published_def phase_defs)

text \<open>What results and their origin depend on.\<close>

lemma genuine_cong:
  assumes "ActiveSet cs' = ActiveSet cs" "cs_BallotCount cs' = cs_BallotCount cs" "cs_ElectionID cs' = cs_ElectionID cs"
    "PartyCount cs' = PartyCount cs" "Results cs' = Results cs"
  shows "genuine te cs' \<longleftrightarrow> genuine te cs"
  using assms by (simp add: genuine_def tallied_def slotContexts_def)

lemma slotContexts_cong:
  "tallyResult a = tallyResult b \<Longrightarrow> cs_ElectionID a = cs_ElectionID b \<Longrightarrow> PartyCount a = PartyCount b \<Longrightarrow>
    slotContexts te a = slotContexts te b"
  by (simp only: slotContexts_def)

lemma tallied_cong:
  "ActiveSet cs' = ActiveSet cs \<Longrightarrow> cs_BallotCount cs' = cs_BallotCount cs \<Longrightarrow> tallied te cs' bs tr = tallied te cs bs tr"
  by (simp add: tallied_def)

lemma Save_journal_ok:
  "journal_ok te jf \<Longrightarrow> (published cs \<longrightarrow> genuine te cs) \<Longrightarrow> Save te failed cs jf = (r, jf') \<Longrightarrow> journal_ok te jf'"
  by (auto simp: Save_def journal_ok_def split: if_splits sum.splits)

lemma SetPhase_ok:
  assumes "SetPhase te failed phase cs jf = (r, cs', jf')" "journal_ok te jf"
    and "published (cs\<lparr>Phase := phase\<rparr>) \<longrightarrow> genuine te (cs\<lparr>Phase := phase\<rparr>)"
  shows "cs' = cs\<lparr>Phase := phase\<rparr> \<and> journal_ok te jf'"
  using assms Save_journal_ok [OF assms(2,3)] by (auto simp: SetPhase_def Let_def split: prod.splits)

lemma fail_ceremony_ok:
  assumes "service_ok te sv" "ceremony sv = Some cs" "tallyResult cs = None"
  shows "service_ok te (fail_ceremony te failed cs sv)"
proof -
  obtain r cs' jf' where p: "SetPhase te failed PhaseError cs (journal sv) = (r, cs', jf')" by (metis prod_cases3)
  from SetPhase_ok [OF p] assms(1) have "cs' = cs\<lparr>Phase := PhaseError\<rparr>" "journal_ok te jf'"
    by (simp_all add: service_ok_def)
  then show ?thesis using assms(3) by (simp add: fail_ceremony_def p service_ok_def state_ok_def job_ok_def)
qed

lemma handleStart_ok:
  assumes "service_ok te sv" "handleStart te decode mkdir_fails disk_fails now seal_reply body sv = (resp, sv')"
  shows "service_ok te sv'"
proof -
  have new: "Phase cs = PhaseFetching \<and> tallyResult cs = None \<and> journal_ok te jf"
    if "NewCeremonyState te mkdir_fails failed ident now (journal sv) = (Inr cs, jf)" for failed ident cs jf
  proof -
    from that have "Save te failed cs (journal sv) = (Inr (), jf)" and cs: "Phase cs = PhaseFetching" "tallyResult cs = None"
      by (auto simp: NewCeremonyState_def Let_def split: if_splits prod.splits sum.splits)
    moreover from cs have "\<not> published cs" by (simp add: published_def phase_defs)
    ultimately show ?thesis using cs assms(1) Save_journal_ok [of te "journal sv" cs failed "Inr ()" jf] by (simp add: service_ok_def)
  qed
  have failed: "journal_ok te jf"
    if "NewCeremonyState te mkdir_fails failed ident now (journal sv) = (Inl e, jf)" for failed ident e jf
    using that assms(1)
    by (auto simp: NewCeremonyState_def Let_def Save_def service_ok_def split: if_splits prod.splits sum.splits)
  have job: "job_ok (sv\<lparr>journal := jf\<rparr>) = job_ok sv" for jf by (simp add: job_ok_def split: job.splits)
  show ?thesis
  proof (cases "decode (take maxStartBodyBytes body)")
    case (Some req)
    let ?new = "NewCeremonyState te mkdir_fails (disk_fails 0) (''ceremony-'' @ itoa now) now (journal sv)"
    obtain rn jf where n: "?new = (rn, jf)" by fastforce
    show ?thesis
    proof (cases rn)
      case (Inl e)
      with assms(2) Some n have "sv' = sv \<or> sv' = sv\<lparr>journal := jf\<rparr>"
        by (simp add: handleStart_def Let_def split: if_splits sum.splits bool.splits)
      with failed [OF n [unfolded Inl]] assms(1) show ?thesis by (auto simp: service_ok_def job)
    next
      case (Inr cs)
      let ?cs = "cs\<lparr>ActiveSet := sr_ActiveSet req\<rparr>"
      obtain r jf' where save: "Save te (disk_fails 1) ?cs jf = (r, jf')" by fastforce
      with assms(2) Some n Inr have sv': "sv' = sv \<or> sv' = sv\<lparr>journal := jf'\<rparr> \<or> sv' = \<lparr>ceremony = Some ?cs, journal = jf', job = Fetching\<rparr> \<and> sr_ActiveSet req \<noteq> []"
        by (cases r) (simp_all add: handleStart_def Let_def split: if_splits sum.splits bool.splits)
      from new [OF n [unfolded Inr]] have cs: "\<not> published ?cs" "Phase cs = PhaseFetching" "tallyResult cs = None" "journal_ok te jf"
        by (simp_all add: published_def phase_defs)
      with Save_journal_ok [OF cs(4) _ save] have "journal_ok te jf'" by simp
      from sv' show ?thesis
      proof (elim disjE)
        assume "sv' = \<lparr>ceremony = Some ?cs, journal = jf', job = Fetching\<rparr> \<and> sr_ActiveSet req \<noteq> []"
        with cs \<open>journal_ok te jf'\<close> show ?thesis by (simp add: service_ok_def state_ok_def job_ok_def)
      qed (use assms(1) \<open>journal_ok te jf'\<close> in \<open>simp_all add: service_ok_def job\<close>)
    qed
  qed (use assms in \<open>simp add: handleStart_def\<close>)
qed


lemma runTally_fetch_ok:
  assumes "service_ok te sv"
  shows "service_ok te (runTally_fetch te failed reply sv)"
proof (cases "job sv = Fetching")
  case True
  with assms obtain cs where cs: "ceremony sv = Some cs" "Phase cs = PhaseFetching" "tallyResult cs = None" "ActiveSet cs \<noteq> []"
    by (auto simp: service_ok_def job_ok_def)
  show ?thesis
  proof (cases reply)
    case (Inr allBallots)
    let ?bs = "filter_active cs allBallots"
    let ?cs = "cs\<lparr>cs_BallotCount := int (length ?bs), Phase := PhaseTallying\<rparr>"
    obtain r jf where save: "Save te failed ?cs (journal sv) = (r, jf)" by fastforce
    have np: "\<not> published ?cs" by (simp add: published_def phase_defs)
    with Save_journal_ok [OF _ _ save] assms have "journal_ok te jf" by (simp add: service_ok_def)
    with np cs True Inr save fail_ceremony_ok [OF assms cs(1,3)] show ?thesis
      by (auto simp: runTally_fetch_def Let_def service_ok_def state_ok_def job_ok_def filter_active_def)
  qed (use True cs fail_ceremony_ok [OF assms cs(1,3)] in \<open>simp add: runTally_fetch_def\<close>)
next
  case False
  then have "runTally_fetch te failed reply sv = sv" by (simp add: runTally_fetch_def split: job.splits)
  with assms show ?thesis by simp
qed

lemma runTally_compute_ok:
  assumes "service_ok te sv"
  shows "service_ok te (runTally_compute te failed sv)"
proof (cases "job sv")
  case (Tallying bs)
  with assms obtain cs where cs: "ceremony sv = Some cs" "tallyResult cs = None" "bs \<noteq> []" "cs_BallotCount cs = int (length bs)"
    "ActiveSet cs \<noteq> []" "\<forall>b \<in> set bs. sb_BallotID b \<in> set (ActiveSet cs)"
    by (auto simp: service_ok_def job_ok_def)
  show ?thesis
  proof (cases "ComputeTally (te_prims te) (te_ballot te) bs")
    case (Inr tr)
    let ?cs = "cs\<lparr>tallyResult := Some tr, encryptedSums := EncryptedSums tr, PartyCount := int (tr_NumParties tr), Partials := Some [], TrusteeOrder := []\<rparr>"
    obtain r cs' jf where p: "SetPhase te failed PhaseAwaitingTrustees ?cs (journal sv) = (r, cs', jf)" by (metis prod_cases3)
    have np: "\<not> published (?cs\<lparr>Phase := PhaseAwaitingTrustees\<rparr>)" by (simp add: published_def phase_defs)
    with SetPhase_ok [OF p] assms have cs': "cs' = ?cs\<lparr>Phase := PhaseAwaitingTrustees\<rparr>" "journal_ok te jf"
      by (simp_all add: service_ok_def)
    have "tallied te cs' bs tr" using cs(3-6) Inr by (simp add: tallied_def cs'(1))
    moreover have "tallyResult cs' = Some tr" by (simp add: cs'(1))
    ultimately have "state_ok te cs'" using np by (auto simp: state_ok_def cs'(1))
    with cs' cs(1) Tallying Inr p show ?thesis by (simp add: runTally_compute_def service_ok_def job_ok_def)
  qed (use Tallying cs fail_ceremony_ok [OF assms cs(1,2)] in \<open>simp add: runTally_compute_def\<close>)
qed (use assms in \<open>simp_all add: runTally_compute_def\<close>)

lemma job_idle: "service_ok te sv \<Longrightarrow> ceremony sv = Some cs \<Longrightarrow> Phase cs \<noteq> PhaseFetching \<Longrightarrow> Phase cs \<noteq> PhaseTallying \<Longrightarrow> job sv = Idle"
  by (cases "job sv") (auto simp: service_ok_def job_ok_def)

lemma decryptLocked_ok:
  assumes "decryptLocked te failed now cs jf = (ok, cs', jf')" "state_ok te cs" "journal_ok te jf" "\<not> published cs"
  shows "state_ok te cs' \<and> journal_ok te jf'"
proof (cases "cs' = cs \<and> jf' = jf")
  case False
  with assms(1) obtain contexts results where c: "slotContexts te cs = Inr contexts"
    "DecryptTally (te_prims te) (tallyResult cs) contexts (map_of (partials_of cs)) (take (nat decryptionThreshold) (TrusteeOrder cs)) (te_keys te) decryptionThreshold = Inr results"
    and p: "\<exists>r. SetPhase te failed PhaseDecrypted (cs\<lparr>Results := results, DecryptedAt := Some now\<rparr>) jf = (r, cs', jf')"
    by (auto simp: decryptLocked_def Let_def split: sum.splits if_splits prod.splits)
  let ?cs = "cs\<lparr>Results := results, DecryptedAt := Some now, Phase := PhaseDecrypted\<rparr>"
  obtain tr where tr: "tallyResult cs = Some tr" using c(1) by (auto simp: slotContexts_def split: if_splits option.splits)
  with assms(2) obtain bs where bs: "tallied te cs bs tr" by (auto simp: state_ok_def)
  have "slotContexts te (?cs\<lparr>tallyResult := Some tr\<rparr>) = Inr contexts" using c(1) tr slotContexts_cong [of "?cs\<lparr>tallyResult := Some tr\<rparr>" cs te] by simp
  moreover have "tallied te ?cs bs tr" using bs by (simp add: tallied_def)
  ultimately have g: "genuine te ?cs" using c(2) tr unfolding genuine_def by (intro exI conjI) (assumption, assumption, simp)
  from p obtain r where "SetPhase te failed PhaseDecrypted (cs\<lparr>Results := results, DecryptedAt := Some now\<rparr>) jf = (r, cs', jf')" ..
  from SetPhase_ok [OF this assms(3)] g have "cs' = ?cs" "journal_ok te jf'" by simp_all
  then show ?thesis using g \<open>tallied te ?cs bs tr\<close> tr by (auto simp: state_ok_def)
qed (use assms in simp)


lemma state_ok_partials:
  "state_ok te (cs\<lparr>Partials := m, TrusteeOrder := ts\<rparr>) = state_ok te cs"
  "published (cs\<lparr>Partials := m, TrusteeOrder := ts\<rparr>) = published cs"
  by (simp_all add: state_ok_def published_def tallied_cong [of "cs\<lparr>Partials := m, TrusteeOrder := ts\<rparr>" cs]
      genuine_cong [of "cs\<lparr>Partials := m, TrusteeOrder := ts\<rparr>" cs])

lemma store_submission_ok:
  assumes "store_submission te disk_fails now trustee pds cs sv = (resp, sv')" "service_ok te sv" "ceremony sv = Some cs"
    "Phase cs = PhaseAwaitingTrustees"
  shows "service_ok te sv'"
proof (cases "Partials cs")
  case (Some m)
  let ?cs = "cs\<lparr>Partials := Some (m @ [(trustee, pds)]), TrusteeOrder := TrusteeOrder cs @ [trustee]\<rparr>"
  obtain r jf where save: "Save te (disk_fails 0) ?cs (journal sv) = (r, jf)" by fastforce
  obtain ok cs' jf' where dec: "decryptLocked te (disk_fails 1) now ?cs jf = (ok, cs', jf')" by (metis prod_cases3)
  from assms(1) Some save dec have sv': "sv' = sv\<lparr>ceremony := Some ?cs, journal := jf\<rparr> \<or> sv' = sv\<lparr>ceremony := Some cs', journal := jf'\<rparr>"
    by (cases r) (auto simp: store_submission_def Let_def split: if_splits)
  have np: "\<not> published ?cs" using assms(4) by (simp add: published_def phase_defs)
  have ok: "state_ok te ?cs" using assms(2,3) by (simp add: state_ok_partials service_ok_def)
  have "journal_ok te jf" using Save_journal_ok [OF _ _ save] np assms(2) by (simp add: service_ok_def)
  moreover from decryptLocked_ok [OF dec ok this np] have "state_ok te cs'" "journal_ok te jf'" by auto
  moreover have "job sv = Idle" by (rule job_idle [OF assms(2,3)]) (simp_all add: assms(4) phase_defs)
  ultimately show ?thesis using sv' ok by (auto simp: service_ok_def job_ok_def)
qed (use assms in \<open>simp add: store_submission_def\<close>)


lemma check_submission_awaiting: "check_submission te req cs = Inr pds \<Longrightarrow> Phase cs = PhaseAwaitingTrustees"
  by (simp add: check_submission_def split: if_splits)

lemma handlePartialDecryption_ok:
  assumes "service_ok te sv" "handlePartialDecryption te decode disk_fails now ident body sv = (resp, sv')"
  shows "service_ok te sv'"
proof (cases "sv' = sv")
  case False
  with assms(2) obtain req cs pds where "ceremony sv = Some cs" "check_submission te req cs = Inr pds"
    "store_submission te disk_fails now (pdr_TrusteeIndex req) pds cs sv = (resp, sv')"
    by (auto simp: handlePartialDecryption_def split: option.splits if_splits sum.splits)
  with store_submission_ok [OF _ assms(1)] check_submission_awaiting show ?thesis by blast
qed (use assms(1) in simp)

lemma handleFinalize_ok:
  assumes "service_ok te sv" "handleFinalize te failed ident sv = (resp, sv')"
  shows "service_ok te sv'"
proof (cases "sv' = sv")
  case False
  with assms(2) obtain cs r cs' jf where cs: "ceremony sv = Some cs" "Phase cs = PhaseDecrypted"
    and p: "SetPhase te failed PhaseFinalized cs (journal sv) = (r, cs', jf)" and sv': "sv' = sv\<lparr>ceremony := Some cs', journal := jf\<rparr>"
    by (auto simp: handleFinalize_def split: option.splits if_splits prod.splits)
  have ok: "state_ok te cs" "journal_ok te (journal sv)" "genuine te cs"
    using assms(1) cs by (auto simp: service_ok_def state_ok_def published_def)
  moreover have "genuine te (cs\<lparr>Phase := PhaseFinalized\<rparr>)" using ok(3) genuine_cong [of "cs\<lparr>Phase := PhaseFinalized\<rparr>" cs te] by simp
  ultimately have "cs' = cs\<lparr>Phase := PhaseFinalized\<rparr>" "journal_ok te jf" "genuine te cs'" using SetPhase_ok [OF p] by simp_all
  moreover have "tallied te cs' bs tr = tallied te cs bs tr" for bs tr
    using calculation(1) by (simp add: tallied_def)
  moreover have "job sv = Idle" by (rule job_idle [OF assms(1) cs(1)]) (simp_all add: cs(2) phase_defs)
  ultimately show ?thesis using ok(1) by (simp add: sv' service_ok_def state_ok_def job_ok_def)
qed (use assms(1) in simp)

lemma Load_fields:
  assumes "json_faithful te" "MarshalJSON te cs = Inr j" "LoadCeremonyState te failed (Some (te_json te j)) = Inr c"
  shows "\<exists>cs'. c = Some cs' \<and> Phase cs' = Phase cs \<and> ActiveSet cs' = ActiveSet cs \<and> cs_BallotCount cs' = cs_BallotCount cs
    \<and> cs_ElectionID cs' = cs_ElectionID cs \<and> PartyCount cs' = PartyCount cs \<and> Results cs' = Results cs \<and> tallyResult cs' = None"
proof -
  from assms have "\<exists>cs'. UnmarshalJSON te j = Inr cs' \<and> c = Some (cs'\<lparr>stateDir := te_stateDir te\<rparr>)"
    by (auto simp: LoadCeremonyState_def json_faithful_def split: if_splits)
  then obtain cs' where "UnmarshalJSON te j = Inr cs'" and c: "c = Some (cs'\<lparr>stateDir := te_stateDir te\<rparr>)" by blast
  moreover from this(1) have "Phase cs' = j_Phase j \<and> ActiveSet cs' = j_ActiveSet j \<and> cs_BallotCount cs' = j_BallotCount j
      \<and> cs_ElectionID cs' = j_ElectionID j \<and> PartyCount cs' = j_PartyCount j \<and> Results cs' = j_Results j \<and> tallyResult cs' = None"
    unfolding UnmarshalJSON_def by (auto split: option.splits)
  ultimately show ?thesis using assms(2) by (auto simp: MarshalJSON_def)
qed

lemma restart_ok:
  assumes "json_faithful te" "service_ok te sv" "NewCeremonyHandler te failed (journal sv) = Inr sv'"
  shows "service_ok te sv'"
proof -
  from assms(3) obtain c where load: "LoadCeremonyState te failed (journal sv) = Inr c"
    and sv': "sv' = \<lparr>ceremony = c, journal = journal sv, job = Idle\<rparr>" by (auto simp: NewCeremonyHandler_def)
  have jf: "journal_ok te (journal sv)" using assms(2) by (simp add: service_ok_def)
  show ?thesis
  proof (cases "journal sv")
    case None
    with load jf show ?thesis by (simp add: sv' LoadCeremonyState_def service_ok_def job_ok_def)
  next
    case (Some data)
    with jf obtain cs j where j: "MarshalJSON te cs = Inr j" "data = te_json te j" "published cs \<longrightarrow> genuine te cs"
      by (auto simp: journal_ok_def)
    from Load_fields [OF assms(1) j(1)] load Some j(2) obtain cs' where cs': "c = Some cs'" "Phase cs' = Phase cs" "ActiveSet cs' = ActiveSet cs"
      "cs_BallotCount cs' = cs_BallotCount cs" "cs_ElectionID cs' = cs_ElectionID cs" "PartyCount cs' = PartyCount cs"
      "Results cs' = Results cs" "tallyResult cs' = None" by auto
    have "published cs' = published cs" "genuine te cs' = genuine te cs"
      using cs' by (simp_all add: published_def genuine_cong [of cs' cs])
    with j(3) cs'(1,8) jf show ?thesis by (simp add: sv' service_ok_def state_ok_def job_ok_def)
  qed
qed

lemma tally_step_ok:
  assumes "tally_step te sv sv'" "json_faithful te" "service_ok te sv"
  shows "service_ok te sv'"
  using assms
  by cases (auto intro: handleStart_ok runTally_fetch_ok runTally_compute_ok handlePartialDecryption_ok handleFinalize_ok restart_ok)

lemma fresh_service_ok: "service_ok te fresh_service"
  by (simp add: service_ok_def journal_ok_def job_ok_def fresh_service_def)

lemma tally_run_ok:
  assumes "(tally_step te)\<^sup>*\<^sup>* sv sv'" "json_faithful te" "service_ok te sv"
  shows "service_ok te sv'"
  using assms by (induction rule: rtranclp_induct) (auto intro: tally_step_ok)

end
