(* ===== verification/Tally_Run.thy ===== *)
theory Tally_Run
  imports Tally_Props
begin

text \<open>
  A ceremony with honest trustees: what a trustee sends, what the service stores, and the
  decryption at the threshold.
\<close>

section \<open>A trustee's request\<close>

definition slot_partials ::
  "('s::field, 'e::ab_group_add) prims \<Rightarrow> SlotContext list \<Rightarrow> 'e Ciphertext ptr list \<Rightarrow> int \<Rightarrow> 's \<Rightarrow> ('s, 'e) Partial list \<Rightarrow> bool" where
  "slot_partials R contexts sums i share ps \<longleftrightarrow> length ps = length sums \<and>
     (\<forall>j < length sums. \<exists>tape tape'. tape 0 \<noteq> 0 \<and> PartialDecrypt R (contexts ! j) i (Some share) (sums ! j) tape = Inr (ps ! j, tape'))"

definition element_of :: "('s, 'e) tally_env \<Rightarrow> nat \<Rightarrow> ('s, 'e) Partial \<Rightarrow> partialDecryptionElement" where
  "element_of te j p = \<lparr>PartyIndex = int j, Point = hex_encode (e_bytes (te_prims te) (the (D p))),
     pde_Proof = Some (hex_encode (e_bytes (te_prims te) (the (cpU (the (Proof p))))), hex_encode (e_bytes (te_prims te) (the (cpV (the (Proof p))))),
       hex_encode (te_sbytes te (the (cpZ (the (Proof p))))))\<rparr>"

definition request_of :: "('s, 'e) tally_env \<Rightarrow> int \<Rightarrow> ('s, 'e) Partial list \<Rightarrow> partialDecryptionRequest" where
  "request_of te i ps = \<lparr>pdr_TrusteeIndex = i, pdr_Partials = map (\<lambda>j. element_of te j (ps ! j)) [0..<length ps]\<rparr>"

lemma PartialDecrypt_shape:
  assumes R: "ristretto R" and p: "PartialDecrypt R sc i (Some s) (Some ct) tape = Inr (p, tape')"
    and "s \<noteq> 0" "tape 0 \<noteq> 0" "C1 ct = Some c" "c \<noteq> 0"
  shows "partial_ok i (Some p)"
proof -
  from p have "\<exists>z. p = \<lparr>TrusteeIndex = i, D = Some (smul R s c),
      Proof = Some \<lparr>cpU = Some (smul R (tape 0) (gen R)), cpV = Some (smul R (tape 0) c), cpZ = Some z\<rparr>\<rparr>"
    using assms(5) by (auto simp: PartialDecrypt_def ProveChaumPedersen_def RandomScalar_def Let_def split: if_splits)
  moreover have "smul R a x \<noteq> 0" if "a \<noteq> 0" "x \<noteq> 0" for a x
  proof
    assume "smul R a x = 0"
    then have "smul R (inverse a * a) x = 0" by (simp add: smul_mult [OF R] smul_zero_right [OF R])
    with that show False by (simp add: smul_one [OF R])
  qed
  moreover have "gen R \<noteq> 0" using smul_gen_0 [OF R, of 1] smul_one [OF R, of "gen R"] by auto
  ultimately show ?thesis
    using assms(3,4,6) by (auto simp: partial_ok_def)
qed

lemma replicate_diff: "k < n \<Longrightarrow> replicate (n - k) x = x # replicate (n - Suc k) x"
  by (metis Suc_diff_Suc replicate_Suc)

lemma decode_elements_append:
  assumes "codec_ok te" "\<forall>j < length ps. partial_ok i (Some (ps ! j))" "k \<le> length ps"
  shows "decode_elements (te_prims te) (int (length ps)) i (map (\<lambda>j. element_of te j (ps ! j)) [k..<length ps])
      (map Some (take k ps) @ replicate (length ps - k) None) = Inr (map Some ps)"
  using assms(3)
proof (induction "length ps - k" arbitrary: k)
  case 0
  then show ?case by simp
next
  case (Suc m)
  then have k: "k < length ps" by simp
  from assms(2) k obtain d u v z where p: "ps ! k = \<lparr>TrusteeIndex = i, D = Some d, Proof = Some \<lparr>cpU = Some u, cpV = Some v, cpZ = Some z\<rparr>\<rparr>"
    "d \<noteq> 0" "u \<noteq> 0" "v \<noteq> 0" by (auto simp: partial_ok_def)
  have R: "ristretto (te_prims te)" and z: "DecodeScalar (te_prims te) (te_sbytes te z) = Inr z" using assms(1) by (simp_all add: codec_ok_def)
  have dec: "DecodeElement (te_prims te) (e_bytes (te_prims te) d) = Inr d" using p(2) R by (simp add: DecodeElement_iff)
  have pf: "decodeProofHex (te_prims te) (hex_encode (e_bytes (te_prims te) u)) (hex_encode (e_bytes (te_prims te) v)) (hex_encode (te_sbytes te z))
      = Inr \<lparr>cpU = Some u, cpV = Some v, cpZ = Some z\<rparr>"
    using p(3,4) R z by (simp add: decodeProofHex_def decodeHexElement_encode decodeHexScalar_encode)
  let ?pds = "map Some (take k ps) @ replicate (length ps - k) None"
  have "?pds ! k = None" using k by (simp add: nth_append)
  moreover have "?pds[k := Some (ps ! k)] = map Some (take (Suc k) ps) @ replicate (length ps - Suc k) None"
    using k by (simp add: list_update_append take_Suc_conv_app_nth replicate_diff)
  moreover have "[k..<length ps] = k # [Suc k..<length ps]" using k by (simp add: upt_conv_Cons)
  moreover have "decode_elements (te_prims te) (int (length ps)) i (map (\<lambda>j. element_of te j (ps ! j)) [Suc k..<length ps])
      (map Some (take (Suc k) ps) @ replicate (length ps - Suc k) None) = Inr (map Some ps)"
    by (rule Suc.hyps(1)) (use Suc.hyps(2) k in auto)
  ultimately show ?case using k dec pf by (simp add: element_of_def p(1))
qed

section \<open>Five honest trustees\<close>

text \<open>
  A tally that waits for the trustees: the slots encrypt \<open>ms\<close> under the key shared by the
  polynomial \<open>F\<close>.  A trustee is honest when its key is in the key set and its partials were made
  with its share.
\<close>

definition awaiting ::
  "('s::field, 'e::ab_group_add) tally_env \<Rightarrow> 's list \<Rightarrow> nat list \<Rightarrow> ('s, 'e) CeremonyState \<Rightarrow> 'e TallyResult \<Rightarrow> SlotContext list \<Rightarrow> bool" where
  "awaiting te F ms cs tr contexts \<longleftrightarrow> codec_ok te \<and> Phase cs = PhaseAwaitingTrustees \<and> tallyResult cs = Some tr
     \<and> slotContexts te cs = Inr contexts \<and> stateDir cs \<noteq> '''' \<and> length ms = length (EncryptedSums tr)
     \<and> (\<forall>j < length ms. int (ms ! j) \<le> MaxDecrypt \<and> (\<exists>r. r \<noteq> 0 \<and>
          EncryptedSums tr ! j = Some (enc (te_prims te) (smul (te_prims te) (peval F 0) (gen (te_prims te))) r (of_nat (ms ! j)))))"

definition honest_trustee ::
  "('s::field, 'e::ab_group_add) tally_env \<Rightarrow> 's list \<Rightarrow> 'e TallyResult \<Rightarrow> SlotContext list \<Rightarrow> int \<Rightarrow> ('s, 'e) Partial list \<Rightarrow> bool" where
  "honest_trustee te F tr contexts i ps \<longleftrightarrow> valid_index i \<and> peval F (of_int i) \<noteq> 0
     \<and> te_keys te i = Some (Some (smul (te_prims te) (peval F (of_int i)) (gen (te_prims te))))
     \<and> slot_partials (te_prims te) contexts (EncryptedSums tr) i (peval F (of_int i)) ps"

lemma slotContexts_Inr:
  assumes "slotContexts te cs = Inr contexts" "tallyResult cs = Some tr"
  shows "length contexts = length (EncryptedSums tr)" "PartyCount cs = int (length (EncryptedSums tr))"
    "\<And>j. j < length (EncryptedSums tr) \<Longrightarrow> slot_ok (contexts ! j) \<and> SlotIndex (contexts ! j) = of_nat j"
  using assms by (auto simp: slotContexts_def slot_ok_def split: if_splits)

lemma honest_partial:
  assumes "awaiting te F ms cs tr contexts" "honest_trustee te F tr contexts i ps" "j < length ms"
  shows "partial_ok i (Some (ps ! j))"
    and "VerifyPartial (te_prims te) (contexts ! j) (EncryptedSums tr ! j) (Some (ps ! j))
      (Some (smul (te_prims te) (peval F (of_int i)) (gen (te_prims te)))) = Inr ()"
proof -
  let ?R = "te_prims te"
  have R: "ristretto ?R" using assms(1) by (simp add: awaiting_def codec_ok_def)
  from assms(1,3) obtain r where ct: "r \<noteq> 0" "EncryptedSums tr ! j = Some (enc ?R (smul ?R (peval F 0) (gen ?R)) r (of_nat (ms ! j)))"
    by (auto simp: awaiting_def)
  have n: "j < length (EncryptedSums tr)" using assms(1,3) by (simp add: awaiting_def)
  with assms(2) obtain tape tape' where p: "tape 0 \<noteq> 0"
    "PartialDecrypt ?R (contexts ! j) i (Some (peval F (of_int i))) (EncryptedSums tr ! j) tape = Inr (ps ! j, tape')"
    by (auto simp: honest_trustee_def slot_partials_def)
  have ok: "slot_ok (contexts ! j)" "valid_index i" using slotContexts_Inr(3) [of te cs contexts tr j] assms(1,2) n
    by (auto simp: awaiting_def honest_trustee_def)
  have "smul ?R r (gen ?R) \<noteq> 0" using smul_gen_0 [OF R] ct(1) by blast
  then show "partial_ok i (Some (ps ! j))"
    using PartialDecrypt_shape [OF R p(2) [unfolded ct(2)] _ p(1)] assms(2) by (simp add: enc_def honest_trustee_def)
  show "VerifyPartial ?R (contexts ! j) (EncryptedSums tr ! j) (Some (ps ! j)) (Some (smul ?R (peval F (of_int i)) (gen ?R))) = Inr ()"
    using PartialDecrypt_verifies [OF R ok refl p(2) [unfolded ct(2)]] by (simp add: ct(2))
qed

lemma check_submission_honest:
  assumes "awaiting te F ms cs tr contexts" "honest_trustee te F tr contexts i ps" "map_of (partials_of cs) i = None"
  shows "check_submission te (request_of te i ps) cs = Inr (map Some ps)"
proof -
  have len: "length ps = length ms" "length (EncryptedSums tr) = length ms"
    using assms(1,2) by (simp_all add: awaiting_def honest_trustee_def slot_partials_def)
  have ctx: "slotContexts te cs = Inr contexts" "tallyResult cs = Some tr" using assms(1) by (simp_all add: awaiting_def)
  have n: "PartyCount cs = int (length ps)" using slotContexts_Inr(2) [OF ctx] len by simp
  have "\<forall>j < length ps. partial_ok i (Some (ps ! j))" using honest_partial(1) [OF assms(1,2)] len by simp
  from decode_elements_append [OF _ this, of te 0] assms(1)
  have "decode_elements (te_prims te) (PartyCount cs) i (pdr_Partials (request_of te i ps)) (replicate (nat (PartyCount cs)) None) = Inr (map Some ps)"
    by (simp add: awaiting_def request_of_def n)
  moreover have "checkE (\<lambda>slot. VerifyPartial (te_prims te) (contexts ! slot) (EncryptedSums tr ! slot) (map Some ps ! slot)
      (Some (smul (te_prims te) (peval F (of_int i)) (gen (te_prims te))))) [0..<length ps] = Inr ()"
    using honest_partial(2) [OF assms(1,2)] len by simp
  ultimately show ?thesis
    using assms ctx n
    by (simp add: check_submission_def awaiting_def honest_trustee_def request_of_def Let_def is_ok_def del: checkE_Inr_iff)
qed

lemma partials_ok_honest:
  assumes "awaiting te F ms cs tr contexts" "\<forall>k < m. honest_trustee te F tr contexts (idxs ! k) (pss ! k)"
    "distinct idxs" "m \<le> length idxs"
  shows "partials_ok (PartyCount cs) (map (\<lambda>k. (idxs ! k, map Some (pss ! k))) [0..<m])"
proof -
  have "PartyCount cs = int (length ms)" using slotContexts_Inr(2) [of te cs contexts tr] assms(1) by (simp add: awaiting_def)
  moreover have "length (pss ! k) = length ms \<and> valid_index (idxs ! k)" if "k < m" for k
    using assms(1,2) that by (auto simp: awaiting_def honest_trustee_def slot_partials_def)
  moreover have "partial_ok (idxs ! k) p" if "k < m" "p \<in> Some ` set (pss ! k)" for k p
    using honest_partial(1) [OF assms(1) assms(2) [rule_format, OF that(1)]] that calculation(2) [OF that(1)]
    by (auto simp: in_set_conv_nth)
  moreover have "distinct (map (\<lambda>k. idxs ! k) [0..<m])"
    using assms(3,4) by (simp add: distinct_map inj_on_def nth_eq_iff_index_eq)
  ultimately show ?thesis by (auto simp: partials_ok_def comp_def valid_index_def) force+
qed

text \<open>The ceremony after \<open>k\<close> submissions.\<close>

definition after_submissions :: "int list \<Rightarrow> ('s, 'e) Partial list list \<Rightarrow> nat \<Rightarrow> ('s, 'e) CeremonyState \<Rightarrow> ('s, 'e) CeremonyState" where
  "after_submissions idxs pss k cs =
     cs\<lparr>Partials := Some (map (\<lambda>k. (idxs ! k, map Some (pss ! k))) [0..<k]), TrusteeOrder := take k idxs\<rparr>"

lemma awaiting_after: "awaiting te F ms (after_submissions idxs pss k cs) tr contexts = awaiting te F ms cs tr contexts"
  by (simp add: awaiting_def after_submissions_def
      slotContexts_cong [of "cs\<lparr>Partials := Some (map (\<lambda>k. (idxs ! k, map Some (pss ! k))) [0..<k]), TrusteeOrder := take k idxs\<rparr>" cs])

lemma Save_after:
  assumes "awaiting te F ms cs tr contexts" "\<forall>k < m. honest_trustee te F tr contexts (idxs ! k) (pss ! k)"
    "distinct idxs" "m \<le> length idxs"
    and "Partials cs' = Partials (after_submissions idxs pss m cs)" "PartyCount cs' = PartyCount cs" "stateDir cs' = stateDir cs"
  shows "\<exists>jf'. Save te False cs' jf = (Inr (), jf')"
proof -
  have "partials_of cs' = map (\<lambda>k. (idxs ! k, map Some (pss ! k))) [0..<m]"
    using assms(5) by (simp add: partials_of_def after_submissions_def)
  then have "partials_ok (PartyCount cs) ([] @ partials_of cs')" using partials_ok_honest [OF assms(1-4)] by simp
  from decode_encode_partials [OF _ this, of te] assms(1) obtain es where
    "encode_partials (te_prims te) (te_sbytes te) (partials_of cs') = Inr es" by (auto simp: awaiting_def)
  then show ?thesis using assms(1,7) by (simp add: Save_def MarshalJSON_def awaiting_def)
qed

lemma DecryptTally_honest:
  assumes a: "awaiting te F ms cs tr contexts" and h: "\<forall>k < length idxs. honest_trustee te F tr contexts (idxs ! k) (pss ! k)"
    and idxs: "distinct idxs" "int (length idxs) = decryptionThreshold" "length F \<le> length idxs"
  shows "DecryptTally (te_prims te) (Some tr) contexts (map_of (map (\<lambda>k. (idxs ! k, map Some (pss ! k))) [0..<length idxs])) idxs
    (te_keys te) decryptionThreshold = Inr (map int ms)"
proof -
  let ?R = "te_prims te" and ?parts = "map_of (map (\<lambda>k. (idxs ! k, map Some (pss ! k))) [0..<length idxs])"
  have R: "ristretto ?R" and n: "length (EncryptedSums tr) = length ms" using a by (simp_all add: awaiting_def codec_ok_def)
  have ctx: "slotContexts te cs = Inr contexts" "tallyResult cs = Some tr" using a by (simp_all add: awaiting_def)
  have lookup: "?parts (idxs ! k) = Some (map Some (pss ! k))" if "k < length idxs" for k
  proof (rule map_of_is_SomeI)
    show "distinct (map fst (map (\<lambda>k. (idxs ! k, map Some (pss ! k))) [0..<length idxs]))"
      using idxs(1) by (simp add: comp_def map_nth)
  qed (use that in auto)
  have slot: "decrypt_slot ?R contexts (EncryptedSums tr) ?parts idxs (te_keys te) decryptionThreshold j = Inr (int (ms ! j))"
    if j: "j < length ms" for j
  proof -
    let ?ps = "map (\<lambda>k. pss ! k ! j) [0..<length idxs]"
    have "slot_partial ?parts j (idxs ! k) = Inr (Some (pss ! k ! j))" if k: "k < length idxs" for k
      using honest_partial(1) [OF a h [rule_format, OF k] j] lookup [OF k] h k j n
      by (auto simp: slot_partial_def Let_def honest_trustee_def slot_partials_def partial_ok_def)
    then have "mapE (slot_partial ?parts j) idxs = Inr (map Some ?ps)"
      by (auto simp: mapE_Inr_iff list_all2_conv_all_nth)
    moreover obtain r where ct: "EncryptedSums tr ! j = Some (enc ?R (smul ?R (peval F 0) (gen ?R)) r (of_nat (ms ! j)))" "int (ms ! j) \<le> MaxDecrypt"
      using a j by (auto simp: awaiting_def)
    have "Combine ?R (contexts ! j) (EncryptedSums tr ! j) (map Some ?ps) (te_keys te) (int (length idxs)) MaxDecrypt = Inr (int (ms ! j))"
      unfolding ct(1)
    proof (rule Combine_correct [OF R _ idxs(1) _ idxs(3) _ ct(2) _ refl])
      show "\<forall>i \<in> set idxs. valid_index i" "\<forall>i \<in> set idxs. te_keys te i = Some (Some (smul ?R (peval F (of_int i)) (gen ?R)))"
        using h by (auto simp: in_set_conv_nth honest_trustee_def)
      show "idxs \<noteq> []" using idxs(2) by (auto simp: decryptionThreshold_def)
      show "slot_ok (contexts ! j)" using slotContexts_Inr(3) [OF ctx] j n by simp
      show "MaxDecrypt < 2 ^ 62" by (simp add: MaxDecrypt_def)
      show "list_all2 (\<lambda>i p. \<exists>tape tape'. PartialDecrypt ?R (contexts ! j) i (Some (peval F (of_int i)))
          (Some (enc ?R (smul ?R (peval F 0) (gen ?R)) r (of_nat (ms ! j)))) tape = Inr (p, tape')) idxs ?ps"
        using h j n ct(1) by (fastforce simp: list_all2_conv_all_nth honest_trustee_def slot_partials_def)
    qed
    moreover have "SlotIndex (contexts ! j) = of_nat j" using slotContexts_Inr(3) [OF ctx] j n by simp
    ultimately show ?thesis using idxs(2) by (simp add: decrypt_slot_def)
  qed
  have "mapE (decrypt_slot ?R contexts (EncryptedSums tr) ?parts idxs (te_keys te) decryptionThreshold) [0..<length ms]
      = Inr (map (\<lambda>j. int (ms ! j)) [0..<length ms])"
    using slot by (intro mapE_total) simp
  moreover have "map (\<lambda>j. int (ms ! j)) [0..<length ms] = map int ms" by (rule nth_equalityI) simp_all
  ultimately show ?thesis using slotContexts_Inr(1) [OF ctx] idxs(2) n by (simp add: DecryptTally_def)
qed

definition honest_quorum ::
  "('s::field, 'e::ab_group_add) tally_env \<Rightarrow> 's list \<Rightarrow> 'e TallyResult \<Rightarrow> SlotContext list \<Rightarrow> int list \<Rightarrow> ('s, 'e) Partial list list
    \<Rightarrow> (bytes \<Rightarrow> partialDecryptionRequest option) \<Rightarrow> bytes list \<Rightarrow> bool" where
  "honest_quorum te F tr contexts idxs pss decode bodies \<longleftrightarrow> distinct idxs \<and> int (length idxs) = decryptionThreshold
     \<and> length F \<le> length idxs \<and> length bodies = length idxs
     \<and> (\<forall>k < length idxs. honest_trustee te F tr contexts (idxs ! k) (pss ! k)
          \<and> decode (take (2 ^ 20) (bodies ! k)) = Some (request_of te (idxs ! k) (pss ! k)))"

definition decrypted_state :: "int list \<Rightarrow> ('s, 'e) Partial list list \<Rightarrow> nat list \<Rightarrow> int \<Rightarrow> ('s, 'e) CeremonyState \<Rightarrow> ('s, 'e) CeremonyState" where
  "decrypted_state idxs pss ms now cs = (after_submissions idxs pss (length idxs) cs)\<lparr>Results := map int ms, DecryptedAt := Some now, Phase := PhaseDecrypted\<rparr>"

lemma submit_honest:
  assumes a: "awaiting te F ms cs tr contexts" and q: "honest_quorum te F tr contexts idxs pss decode bodies" and k: "k < length idxs"
    and sv: "ceremony sv = Some (after_submissions idxs pss k cs)"
  shows "\<exists>jf. handlePartialDecryption te decode (\<lambda>_. False) now (cs_ID cs) (bodies ! k) sv =
    (Success StatusOK ''accepted'',
     sv\<lparr>ceremony := Some (if Suc k = length idxs then decrypted_state idxs pss ms now cs else after_submissions idxs pss (Suc k) cs),
        journal := jf\<rparr>)"
proof -
  let ?cs = "after_submissions idxs pss k cs" and ?cs' = "after_submissions idxs pss (Suc k) cs"
  note q = q [unfolded honest_quorum_def]
  have h: "\<forall>k < length idxs. honest_trustee te F tr contexts (idxs ! k) (pss ! k)" using q by blast
  have body: "decode (take (2 ^ 20) (bodies ! k)) = Some (request_of te (idxs ! k) (pss ! k))" using q k by blast
  have parts: "partials_of ?cs = map (\<lambda>k. (idxs ! k, map Some (pss ! k))) [0..<k]"
    by (simp add: partials_of_def after_submissions_def)
  have "idxs ! k \<notin> fst ` set (partials_of ?cs)"
    using q k by (auto simp: parts nth_eq_iff_index_eq)
  then have "map_of (partials_of ?cs) (idxs ! k) = None" by (simp add: map_of_eq_None_iff)
  with check_submission_honest [of te F ms ?cs tr contexts "idxs ! k" "pss ! k"] a h k
  have check: "check_submission te (request_of te (idxs ! k) (pss ! k)) ?cs = Inr (map Some (pss ! k))"
    by (simp add: awaiting_after)
  have next_state: "?cs\<lparr>Partials := Some (partials_of ?cs @ [(idxs ! k, map Some (pss ! k))]), TrusteeOrder := TrusteeOrder ?cs @ [idxs ! k]\<rparr> = ?cs'"
    using k unfolding parts by (simp add: after_submissions_def take_Suc_conv_app_nth)
  have le: "Suc k \<le> length idxs" using k by simp
  have honest: "\<forall>j < Suc k. honest_trustee te F tr contexts (idxs ! j) (pss ! j)" using h k by simp
  obtain jf where save: "Save te False ?cs' (journal sv) = (Inr (), jf)"
    using Save_after [OF a honest _ le, of ?cs'] q by (auto simp: after_submissions_def)
  have some: "Partials ?cs = Some (partials_of ?cs)" unfolding parts by (simp add: after_submissions_def)
  have req: "pdr_TrusteeIndex (request_of te (idxs ! k) (pss ! k)) = idxs ! k" by (simp add: request_of_def)
  have ident: "cs_ID ?cs = cs_ID cs" by (simp add: after_submissions_def)
  have stored: "handlePartialDecryption te decode (\<lambda>_. False) now (cs_ID cs) (bodies ! k) sv =
      (if decryptionThreshold \<le> int (Suc k) then
         (case decryptLocked te False now ?cs' jf of
            (ok, cs, jf) \<Rightarrow> (if ok then Success StatusOK ''accepted'' else Failure 500 ''decrypt_error'', sv\<lparr>ceremony := Some cs, journal := jf\<rparr>))
       else (Success StatusOK ''accepted'', sv\<lparr>ceremony := Some ?cs', journal := jf\<rparr>))"
  proof -
    have "handlePartialDecryption te decode (\<lambda>_. False) now (cs_ID cs) (bodies ! k) sv
        = store_submission te (\<lambda>_. False) now (idxs ! k) (map Some (pss ! k)) ?cs sv"
      by (simp only: handlePartialDecryption_def body sv ident check req option.case sum.case simp_thms if_False)
    moreover have "length (partials_of ?cs') = Suc k" by (simp add: partials_of_def after_submissions_def)
    ultimately show ?thesis
      by (simp only: store_submission_def some option.case Let_def next_state save sum.case prod.case)
  qed
  show ?thesis
  proof (cases "Suc k = length idxs")
    case True
    have order: "take (nat decryptionThreshold) (TrusteeOrder ?cs') = idxs" "\<not> int (length (TrusteeOrder ?cs')) < decryptionThreshold"
      using q True by (auto simp: after_submissions_def)
    have "slotContexts te ?cs' = Inr contexts" "tallyResult ?cs' = Some tr"
      using a awaiting_after [of te F ms idxs pss "Suc k" cs tr contexts] by (simp_all add: awaiting_def)
    moreover have "partials_of ?cs' = map (\<lambda>k. (idxs ! k, map Some (pss ! k))) [0..<length idxs]"
      by (simp add: partials_of_def after_submissions_def True)
    moreover have "DecryptTally (te_prims te) (Some tr) contexts (map_of (map (\<lambda>k. (idxs ! k, map Some (pss ! k))) [0..<length idxs])) idxs
        (te_keys te) decryptionThreshold = Inr (map int ms)"
      by (rule DecryptTally_honest [OF a h]) (use q in auto)
    moreover obtain jf' where "Save te False (decrypted_state idxs pss ms now cs) jf = (Inr (), jf')"
      using Save_after [OF a honest _ le, of "decrypted_state idxs pss ms now cs"] q
      by (auto simp: after_submissions_def decrypted_state_def True)
    ultimately have "decryptLocked te False now ?cs' jf = (True, decrypted_state idxs pss ms now cs, jf')"
      using order by (simp add: decryptLocked_def SetPhase_def decrypted_state_def True is_ok_def)
    then show ?thesis using q True by (intro exI [of _ jf']) (simp add: stored)
  next
    case False
    then show ?thesis using q k by (intro exI [of _ jf]) (simp add: stored)
  qed
qed

text \<open>The requests of the quorum, one after the other.\<close>

definition submit_all ::
  "('s::field, 'e::ab_group_add) tally_env \<Rightarrow> (bytes \<Rightarrow> partialDecryptionRequest option) \<Rightarrow> int \<Rightarrow> string \<Rightarrow> bytes list \<Rightarrow> ('s, 'e) Service \<Rightarrow> ('s, 'e) Service" where
  "submit_all te decode now ident = fold (\<lambda>body sv. snd (handlePartialDecryption te decode (\<lambda>_. False) now ident body sv))"

lemma submit_prefix:
  assumes a: "awaiting te F ms cs tr contexts" and q: "honest_quorum te F tr contexts idxs pss decode bodies"
    and sv: "ceremony sv = Some (after_submissions idxs pss 0 cs)" and k: "k < length idxs"
  shows "\<exists>jf. submit_all te decode now (cs_ID cs) (take k bodies) sv = sv\<lparr>ceremony := Some (after_submissions idxs pss k cs), journal := jf\<rparr>"
  using k
proof (induction k)
  case 0
  then show ?case using sv by (intro exI [of _ "journal sv"]) (simp add: submit_all_def)
next
  case (Suc k)
  then obtain jf where jf: "submit_all te decode now (cs_ID cs) (take k bodies) sv = sv\<lparr>ceremony := Some (after_submissions idxs pss k cs), journal := jf\<rparr>" by auto
  have "k < length bodies" using q Suc.prems by (simp add: honest_quorum_def)
  then have "submit_all te decode now (cs_ID cs) (take (Suc k) bodies) sv
      = snd (handlePartialDecryption te decode (\<lambda>_. False) now (cs_ID cs) (bodies ! k) (sv\<lparr>ceremony := Some (after_submissions idxs pss k cs), journal := jf\<rparr>))"
    using jf by (simp add: submit_all_def take_Suc_conv_app_nth)
  moreover obtain jf' where "handlePartialDecryption te decode (\<lambda>_. False) now (cs_ID cs) (bodies ! k) (sv\<lparr>ceremony := Some (after_submissions idxs pss k cs), journal := jf\<rparr>)
      = (Success StatusOK ''accepted'', sv\<lparr>ceremony := Some (after_submissions idxs pss (Suc k) cs), journal := jf'\<rparr>)"
    using submit_honest [OF a q, of k "sv\<lparr>ceremony := Some (after_submissions idxs pss k cs), journal := jf\<rparr>" now] Suc.prems by auto
  ultimately show ?case by auto
qed

lemma submit_all_honest:
  assumes a: "awaiting te F ms cs tr contexts" and q: "honest_quorum te F tr contexts idxs pss decode bodies"
    and sv: "ceremony sv = Some (after_submissions idxs pss 0 cs)"
  shows "\<exists>jf. submit_all te decode now (cs_ID cs) bodies sv = sv\<lparr>ceremony := Some (decrypted_state idxs pss ms now cs), journal := jf\<rparr>"
proof -
  from q obtain k where k: "length idxs = Suc k" "length bodies = Suc k"
    by (cases "length idxs") (auto simp: honest_quorum_def decryptionThreshold_def)
  with submit_prefix [OF a q sv, of k] obtain jf where
    jf: "submit_all te decode now (cs_ID cs) (take k bodies) sv = sv\<lparr>ceremony := Some (after_submissions idxs pss k cs), journal := jf\<rparr>" by auto
  have "bodies = take k bodies @ [bodies ! k]" using k by (metis lessI take_Suc_conv_app_nth take_all_iff order_refl)
  then have "submit_all te decode now (cs_ID cs) bodies sv
      = snd (handlePartialDecryption te decode (\<lambda>_. False) now (cs_ID cs) (bodies ! k) (submit_all te decode now (cs_ID cs) (take k bodies) sv))"
    unfolding submit_all_def by (metis (no_types, lifting) comp_apply fold_Cons fold_Nil fold_append id_apply)
  then show ?thesis
    using submit_honest [OF a q, of k "sv\<lparr>ceremony := Some (after_submissions idxs pss k cs), journal := jf\<rparr>" now] k jf by auto
qed

end
