(* ===== verification/Tally_Claims.thy ===== *)
theory Tally_Claims
  imports Tally_Run Group_Instance
begin

text \<open>
  The properties of the tally service, with a ceremony over the concrete group as the example at
  which they apply: one ballot, five trustees whose shares are one, and JSON as a numbering of
  the journal's records.
\<close>

section \<open>An example\<close>

lemma quorum_exists:
  assumes a: "awaiting te F ms cs tr contexts" and F: "length F \<le> 5"
    and keys: "\<forall>i \<in> {1..5}. peval F (of_int i) \<noteq> 0 \<and> te_keys te i = Some (Some (smul (te_prims te) (peval F (of_int i)) (gen (te_prims te))))"
  shows "\<exists>pss decode bodies. honest_quorum te F tr contexts [1, 2, 3, 4, 5] pss decode bodies"
proof -
  let ?R = "te_prims te" and ?sums = "EncryptedSums tr" and ?idxs = "[1, 2, 3, 4, 5] :: int list"
  have R: "ristretto ?R" and n: "length ?sums = length ms" and ctx: "slotContexts te cs = Inr contexts" "tallyResult cs = Some tr"
    using a by (simp_all add: awaiting_def codec_ok_def)
  have "\<exists>ps. honest_trustee te F tr contexts i ps" if i: "1 \<le> i" "i \<le> 5" for i
  proof -
    have "\<exists>p tape'. PartialDecrypt ?R (contexts ! j) i (Some (peval F (of_int i))) (?sums ! j) (\<lambda>_. 1) = Inr (p, tape')"
      if j: "j < length ?sums" for j
    proof -
      obtain r where "?sums ! j = Some (enc ?R (smul ?R (peval F 0) (gen ?R)) r (of_nat (ms ! j)))"
        using a j by (auto simp: awaiting_def)
      moreover have "slot_ok (contexts ! j)" "valid_index i" using slotContexts_Inr(3) [OF ctx j] i by (simp_all add: valid_index_def)
      ultimately show ?thesis using PartialDecrypt_total [OF R] by simp
    qed
    then obtain f where f: "\<And>j. j < length ?sums \<Longrightarrow> \<exists>tape'. PartialDecrypt ?R (contexts ! j) i (Some (peval F (of_int i))) (?sums ! j) (\<lambda>_. 1) = Inr (f j, tape')"
      by metis
    have "slot_partials ?R contexts ?sums i (peval F (of_int i)) (map f [0..<length ?sums])"
      unfolding slot_partials_def
    proof (intro conjI allI impI)
      fix j assume "j < length ?sums"
      with f [OF this] show "\<exists>tape tape'. tape 0 \<noteq> 0 \<and> PartialDecrypt ?R (contexts ! j) i (Some (peval F (of_int i))) (?sums ! j) tape
          = Inr (map f [0..<length ?sums] ! j, tape')"
        by (metis (no_types, lifting) \<open>j < length ?sums\<close> add_0 diff_zero length_upt nth_map nth_upt zero_neq_one)
    qed simp
    moreover have "peval F (of_int i) \<noteq> 0" "te_keys te i = Some (Some (smul ?R (peval F (of_int i)) (gen ?R)))" using keys i by auto
    ultimately show ?thesis using i by (auto simp: honest_trustee_def valid_index_def)
  qed
  then obtain g where g: "\<And>i. 1 \<le> i \<Longrightarrow> i \<le> 5 \<Longrightarrow> honest_trustee te F tr contexts i (g i)" by metis
  let ?bodies = "map (\<lambda>i. [of_int i :: byte]) ?idxs"
  let ?decode = "map_of (zip ?bodies (map (\<lambda>i. request_of te i (g i)) ?idxs))"
  have "honest_quorum te F tr contexts ?idxs (map g ?idxs) ?decode ?bodies"
    unfolding honest_quorum_def
  proof (intro conjI allI impI)
    fix k assume "k < length ?idxs"
    then have "k \<in> {0, 1, 2, 3, 4}" by auto
    then show "honest_trustee te F tr contexts (?idxs ! k) (map g ?idxs ! k)" using g by auto
    show "?decode (take (2 ^ 20) (?bodies ! k)) = Some (request_of te (?idxs ! k) (map g ?idxs ! k))"
      using \<open>k \<in> {0, 1, 2, 3, 4}\<close> by auto
  qed (use F in \<open>simp_all add: decryptionThreshold_def\<close>)
  then show ?thesis by blast
qed

text \<open>JSON by numbering, and times as decimal numbers.\<close>

definition dedup_fields :: "DedupProof \<Rightarrow> nat list \<times> string \<times> string \<times> string \<times> int" where
  "dedup_fields p = (map unat (ProofBytes p), BoardMerkleRoot p, ActiveSetCommitment p, FilteredSetRoot p, ActiveSetSize p)"

definition json_fields where
  "json_fields j = (j_ID j, j_Phase j, j_ElectionID j, j_ActiveSet j, j_BallotCount j, j_PartyCount j, map_option dedup_fields (j_DedupProof j),
     map (\<lambda>(k, ps). (k, map (\<lambda>p :: partialJSON. (pj_D p, pj_U p, pj_V p, pj_Z p)) ps)) (j_Partials j),
     j_TrusteeOrder j, j_Results j, j_StartedAt j, j_DecryptedAt j)"

definition json_number :: "ceremonyStateJSON \<Rightarrow> bytes" where
  "json_number j = bytes_of (itoa (int (to_nat (json_fields j))))"

definition inverse_of :: "('a \<Rightarrow> 'b) \<Rightarrow> 'b \<Rightarrow> 'a option" where
  "inverse_of f y = (if y \<in> range f then Some (inv f y) else None)"

lemma inverse_of_inj: "inj f \<Longrightarrow> inverse_of f (f x) = Some x"
  by (simp add: inverse_of_def)

lemma inj_dedup_fields: "inj dedup_fields"
proof (rule injI)
  fix p q assume "dedup_fields p = dedup_fields q"
  moreover have "inj (unat :: byte \<Rightarrow> nat)" by (rule injI) (rule unsigned_word_eqI)
  ultimately show "p = q" by (cases p; cases q) (auto simp: dedup_fields_def inj_map_eq_map)
qed

lemma inj_partial_fields: "inj (\<lambda>(k :: string, ps). (k, map (\<lambda>p :: partialJSON. (pj_D p, pj_U p, pj_V p, pj_Z p)) ps))"
proof -
  have "inj (\<lambda>p :: partialJSON. (pj_D p, pj_U p, pj_V p, pj_Z p))"
  proof (rule injI)
    fix p q :: partialJSON
    assume "(pj_D p, pj_U p, pj_V p, pj_Z p) = (pj_D q, pj_U q, pj_V q, pj_Z q)"
    then show "p = q" by (cases p; cases q) simp
  qed
  from inj_map_eq_map [OF this] show ?thesis by (auto intro!: injI)
qed

lemma inj_json_number: "inj json_number"
proof (rule injI)
  fix j j' assume "json_number j = json_number j'"
  then have "json_fields j = json_fields j'" by (simp add: json_number_def bytes_of_inject itoa_inject)
  then show "j = j'"
    using inj_map_eq_map [OF inj_partial_fields] injD [OF option.inj_map [OF inj_dedup_fields]]
    by (cases j; cases j') (auto simp: json_fields_def)
qed

definition zp_te :: "(scalar, scalar) tally_env" where
  "zp_te = \<lparr>te_prims = Zp, te_sbytes = zp_encode, te_sha = (\<lambda>_. 0), te_json = json_number, te_unjson = inverse_of json_number,
     te_fmt = itoa, te_parse_time = inverse_of itoa,
     te_ballot = (\<lambda>_. Some [hex_encode (zp_encode 1 @ zp_encode 2)]),
     te_keys = (\<lambda>i. if 1 \<le> i \<and> i \<le> 5 then Some (Some 1) else None), te_electionID = ''e'', te_stateDir = ''d''\<rparr>"

lemma zp_te_faithful: "json_faithful zp_te"
  by (simp add: json_faithful_def zp_te_def inverse_of_inj inj_json_number)

lemma zp_te_codec: "codec_ok zp_te"
proof -
  have "inj itoa" by (simp add: inj_def itoa_inject)
  moreover have "DecodeScalar Zp (zp_encode z) = Inr z" for z
    by (simp add: DecodeScalar_def length_zp_encode Zp_def zp_decode_encode)
  moreover have "itoa t \<noteq> ''''" for t by (simp add: itoa_def)
  ultimately show ?thesis by (simp add: codec_ok_def zp_te_def ristretto_Zp inverse_of_inj)
qed

definition zp_ballot :: SerializedBallot where
  "zp_ballot = \<lparr>sb_BallotID = ''x'', sb_EncryptedBallot = []\<rparr>"

definition zp_sum :: "scalar Ciphertext" where
  "zp_sum = \<lparr>C1 = Some 1, C2 = Some 2\<rparr>"

definition zp_tally :: "scalar TallyResult" where
  "zp_tally = \<lparr>EncryptedSums = [Some zp_sum], NumBallots = 1, tr_NumParties = 1\<rparr>"

definition zp_start :: "(scalar, scalar) CeremonyState" where
  "zp_start = \<lparr>cs_ID = ''ceremony-7'', Phase = PhaseFetching, cs_ElectionID = ''e'', ActiveSet = [''x''], cs_BallotCount = 0, PartyCount = 0,
     cs_DedupProof = None, Partials = None, TrusteeOrder = [], Results = [], StartedAt = 7, DecryptedAt = None,
     encryptedSums = [], tallyResult = None, stateDir = ''d''\<rparr>"

definition zp_tallying :: "(scalar, scalar) CeremonyState" where
  "zp_tallying = zp_start\<lparr>cs_BallotCount := 1, Phase := PhaseTallying\<rparr>"

definition zp_awaiting :: "(scalar, scalar) CeremonyState" where
  "zp_awaiting = zp_tallying\<lparr>tallyResult := Some zp_tally, encryptedSums := [Some zp_sum], PartyCount := 1, Partials := Some [],
     TrusteeOrder := [], Phase := PhaseAwaitingTrustees\<rparr>"

lemma zp_2_neq_0: "(2 :: scalar) \<noteq> 0"
proof
  assume "(2 :: scalar) = 0"
  then have "(of_nat 2 :: scalar) = of_nat 0" by simp
  then show False unfolding of_nat_scalar_iff [OF ristretto_Zp] by (simp add: Zp_def zp_def)
qed

lemma zp_ComputeTally: "ComputeTally Zp (te_ballot zp_te) [zp_ballot] = Inr zp_tally"
proof -
  have "DecodeElement Zp (zp_encode 1) = Inr 1" "DecodeElement Zp (zp_encode 2) = Inr 2"
    using zp_2_neq_0 by (simp_all add: DecodeElement_def length_zp_encode Zp_def zp_decode_encode)
  then have "ciphertextFromHex Zp (hex_encode (zp_encode 1 @ zp_encode 2)) = Inr zp_sum"
    by (simp add: ciphertextFromHex_def CiphertextFromBytes_def length_zp_encode zp_sum_def)
  then show ?thesis by (simp add: ComputeTally_def zp_te_def zp_tally_def)
qed

lemma zp_Save: "partials_of cs = [] \<Longrightarrow> stateDir cs = ''d'' \<Longrightarrow> \<exists>jf. Save zp_te False cs file = (Inr (), Some jf)"
  by (simp add: Save_def MarshalJSON_def encode_partials_def)

lemma zp_started:
  "\<exists>jf. handleStart zp_te (\<lambda>_. Some \<lparr>sr_ActiveSet = [''x''], sr_ActiveSetSignature = ''''\<rparr>) False (\<lambda>_. False) 7 (Inr True) [] fresh_service
    = (Success 202 \<lparr>CeremonyID = ''ceremony-7'', Status = PhaseFetching\<rparr>, \<lparr>ceremony = Some zp_start, journal = Some jf, job = Fetching\<rparr>)"
proof -
  have parts: "partials_of zp_start = []" "stateDir zp_start = ''d''" by (simp_all add: partials_of_def zp_start_def)
  obtain jf0 where s0: "Save zp_te False (zp_start\<lparr>ActiveSet := []\<rparr>) None = (Inr (), Some jf0)"
    using zp_Save [of "zp_start\<lparr>ActiveSet := []\<rparr>"] parts by (auto simp: partials_of_def)
  obtain jf1 where s1: "Save zp_te False zp_start (Some jf0) = (Inr (), Some jf1)" using zp_Save parts by blast
  have "NewCeremonyState zp_te False False ''ceremony-7'' 7 None = (Inr (zp_start\<lparr>ActiveSet := []\<rparr>), Some jf0)"
    using s0 by (simp add: NewCeremonyState_def zp_start_def zp_te_def)
  moreover have "zp_start\<lparr>ActiveSet := [], ActiveSet := [''x'']\<rparr> = zp_start" by (simp add: zp_start_def)
  moreover have "itoa 7 = ''7''" by code_simp
  ultimately show ?thesis
    using s1 by (simp add: handleStart_def fresh_service_def Let_def)
qed

lemma zp_run:
  "\<exists>jf. (tally_step zp_te)\<^sup>*\<^sup>* fresh_service \<lparr>ceremony = Some zp_awaiting, journal = Some jf, job = Idle\<rparr>"
proof -
  let ?sv1 = "\<lambda>jf. \<lparr>ceremony = Some zp_start, journal = Some jf, job = Fetching\<rparr>"
  let ?sv2 = "\<lambda>jf. \<lparr>ceremony = Some zp_tallying, journal = Some jf, job = Tallying [zp_ballot]\<rparr>"
  let ?sv3 = "\<lambda>jf. \<lparr>ceremony = Some zp_awaiting, journal = Some jf, job = Idle\<rparr>"
  have parts: "partials_of zp_start = []" "partials_of zp_tallying = []" "partials_of zp_awaiting = []"
    and dirs: "stateDir zp_start = ''d''" "stateDir zp_tallying = ''d''" "stateDir zp_awaiting = ''d''"
    by (simp_all add: partials_of_def zp_start_def zp_tallying_def zp_awaiting_def)
  from zp_started obtain jf1 where s1: "handleStart zp_te (\<lambda>_. Some \<lparr>sr_ActiveSet = [''x''], sr_ActiveSetSignature = ''''\<rparr>) False (\<lambda>_. False) 7 (Inr True) [] fresh_service
      = (Success 202 \<lparr>CeremonyID = ''ceremony-7'', Status = PhaseFetching\<rparr>, ?sv1 jf1)" ..
  obtain jf2 where s2: "Save zp_te False zp_tallying (Some jf1) = (Inr (), Some jf2)" using zp_Save parts dirs by blast
  obtain jf3 where s3: "Save zp_te False zp_awaiting (Some jf2) = (Inr (), Some jf3)" using zp_Save parts dirs by blast
  from s1 have 1: "tally_step zp_te fresh_service (?sv1 jf1)" by (auto intro: start)
  have "filter_active zp_start [zp_ballot] = [zp_ballot]" by (simp add: filter_active_def zp_start_def zp_ballot_def)
  then have "runTally_fetch zp_te False (Inr [zp_ballot]) (?sv1 jf1) = ?sv2 jf2"
    using s2 by (simp add: runTally_fetch_def zp_tallying_def)
  then have 2: "tally_step zp_te (?sv1 jf1) (?sv2 jf2)" by (metis fetched)
  have "te_prims zp_te = Zp" by (simp add: zp_te_def)
  then have "runTally_compute zp_te False (?sv2 jf2) = ?sv3 jf3"
    using s3 zp_ComputeTally by (simp add: runTally_compute_def SetPhase_def zp_awaiting_def zp_tally_def)
  then have 3: "tally_step zp_te (?sv2 jf2) (?sv3 jf3)" by (metis computed)
  from 1 2 3 show ?thesis by (meson r_into_rtranclp rtranclp_trans)
qed

lemma zp_awaiting_ok:
  "\<exists>contexts. awaiting zp_te [1] [1] zp_awaiting zp_tally contexts"
proof -
  have "\<exists>digest. TallyDigest Zp (\<lambda>_. 0) [Some zp_sum] = Inr digest"
    by (simp add: TallyDigest_def Ciphertext_Bytes_def zp_sum_def)
  then have "\<exists>contexts. slotContexts zp_te zp_awaiting = Inr contexts"
    by (auto simp: slotContexts_def zp_awaiting_def zp_tallying_def zp_start_def zp_tally_def zp_te_def) (simp_all add: zp_sum_def)
  moreover have "zp_sum = enc Zp (smul Zp (peval [1] 0) (gen Zp)) 1 (of_nat 1)"
    by (simp add: zp_sum_def enc_def Zp_def)
  ultimately show ?thesis
    using zp_te_codec
    by (auto simp: awaiting_def zp_awaiting_def zp_tallying_def zp_start_def zp_tally_def MaxDecrypt_def)
       (auto simp: zp_te_def intro!: exI [of _ 1])
qed

section \<open>Properties\<close>

text \<open>
  The tally of the board's ballots is column addition: \<open>ComputeTally\<close> succeeds exactly when
  there is a ballot and every ballot parses, decodes strictly and has the first one's number of
  parties; then slot \<open>j\<close> is the \<open>HomomorphicAdd\<close> of the \<open>j\<close>-th ciphertexts of all ballots.  One bad
  ballot and there is no tally.
\<close>

theorem compute_tally_columns:
  "ComputeTally R parse bs = Inr t \<longleftrightarrow> bs \<noteq> [] \<and> NumBallots t = length bs \<and> length (EncryptedSums t) = tr_NumParties t
    \<and> (\<exists>ctss. list_all2 (decodes R parse (tr_NumParties t)) bs ctss
        \<and> (\<forall>j < tr_NumParties t. HomomorphicAdd (map (\<lambda>cts. Some (cts ! j)) ctss) = Inr (EncryptedSums t ! j)))"
  by (rule ComputeTally_iff)

theorem compute_tally_columns_witness:
  "ComputeTally Zp (te_ballot zp_te) [zp_ballot, zp_ballot]
    = Inr \<lparr>EncryptedSums = [Some \<lparr>C1 = Some 2, C2 = Some 4\<rparr>], NumBallots = 2, tr_NumParties = 1\<rparr>"
proof -
  have "DecodeElement Zp (zp_encode 1) = Inr 1" "DecodeElement Zp (zp_encode 2) = Inr 2"
    using zp_2_neq_0 by (simp_all add: DecodeElement_def length_zp_encode Zp_def zp_decode_encode)
  then have "ciphertextFromHex Zp (hex_encode (zp_encode 1 @ zp_encode 2)) = Inr zp_sum"
    by (simp add: ciphertextFromHex_def CiphertextFromBytes_def length_zp_encode zp_sum_def)
  then have "list_all2 (decodes Zp (te_ballot zp_te) 1) [zp_ballot, zp_ballot] [[zp_sum], [zp_sum]]"
    by (simp add: decodes_def zp_te_def)
  moreover have "HomomorphicAdd [Some zp_sum, Some zp_sum] = Inr (Some \<lparr>C1 = Some 2, C2 = Some 4\<rparr>)"
    by (simp add: HomomorphicAdd_def zp_sum_def)
  ultimately show ?thesis
    by (subst compute_tally_columns) (auto intro!: exI [of _ "[[zp_sum], [zp_sum]]"])
qed

text \<open>
  C2.  Where published results come from.  In every run of the service from a fresh start, with
  failing disks and restarts, a result the service gives out is the threshold decryption, by five
  trustees with re-verified proofs, of the homomorphic tally of ballots that are all in the
  ceremony's active set, and the reported number of ballots is the number tallied.
\<close>

theorem results_from_active_ballots:
  assumes "json_faithful te" "(tally_step te)\<^sup>*\<^sup>* fresh_service sv" "handleResults ident sv = Success st r"
  shows "\<exists>cs bs tr contexts parts trustees. ceremony sv = Some cs \<and> cs_ID cs = ident
    \<and> bs \<noteq> [] \<and> (\<forall>b \<in> set bs. sb_BallotID b \<in> set (ActiveSet cs)) \<and> rr_BallotCount r = int (length bs)
    \<and> ComputeTally (te_prims te) (te_ballot te) bs = Inr tr
    \<and> slotContexts te (cs\<lparr>tallyResult := Some tr\<rparr>) = Inr contexts \<and> int (length trustees) = decryptionThreshold
    \<and> DecryptTally (te_prims te) (Some tr) contexts (map_of parts) trustees (te_keys te) decryptionThreshold = Inr (rr_Results r)"
proof -
  have "service_ok te sv" by (rule tally_run_ok [OF assms(2,1) fresh_service_ok])
  moreover obtain cs where cs: "ceremony sv = Some cs" "cs_ID cs = ident" "published cs" "rr_BallotCount r = cs_BallotCount cs"
    "rr_Results r = Results cs"
    using assms(3) by (auto simp: handleResults_def published_def split: option.splits if_splits)
  ultimately have "genuine te cs" by (auto simp: service_ok_def state_ok_def)
  then obtain bs tr contexts parts trustees where g: "tallied te cs bs tr" "slotContexts te (cs\<lparr>tallyResult := Some tr\<rparr>) = Inr contexts"
    "DecryptTally (te_prims te) (Some tr) contexts (map_of parts) trustees (te_keys te) decryptionThreshold = Inr (Results cs)"
    unfolding genuine_def by blast
  moreover from g(3) have "int (length trustees) = decryptionThreshold" by (auto simp: DecryptTally_def split: if_splits)
  ultimately show ?thesis
    using cs unfolding tallied_def by (intro exI conjI) auto
qed

lemma zp_keys: "\<forall>i \<in> {1..5}. peval [1 :: scalar] (of_int i) \<noteq> 0
    \<and> te_keys zp_te i = Some (Some (smul (te_prims zp_te) (peval [1] (of_int i)) (gen (te_prims zp_te))))"
  by (simp add: zp_te_def Zp_def)

lemma submit_all_steps: "(tally_step te)\<^sup>*\<^sup>* sv (submit_all te decode now ident bodies sv)"
proof (induction bodies arbitrary: sv)
  case (Cons body bodies)
  have "tally_step te sv (snd (handlePartialDecryption te decode (\<lambda>_. False) now ident body sv))"
    by (rule partial [of te decode "\<lambda>_. False" now ident body sv "fst (handlePartialDecryption te decode (\<lambda>_. False) now ident body sv)"]) simp
  with Cons show ?case by (auto simp: submit_all_def intro: converse_rtranclp_into_rtranclp)
qed (simp add: submit_all_def)

lemma zp_results:
  "\<exists>sv st r. (tally_step zp_te)\<^sup>*\<^sup>* fresh_service sv \<and> handleResults ''ceremony-7'' sv = Success st r \<and> rr_Results r = [1]"
proof -
  from zp_run obtain jf where run: "(tally_step zp_te)\<^sup>*\<^sup>* fresh_service \<lparr>ceremony = Some zp_awaiting, journal = Some jf, job = Idle\<rparr>" ..
  from zp_awaiting_ok obtain contexts where a: "awaiting zp_te [1] [1] zp_awaiting zp_tally contexts" ..
  from quorum_exists [OF a _ zp_keys] obtain pss decode bodies where
    q: "honest_quorum zp_te [1] zp_tally contexts [1, 2, 3, 4, 5] pss decode bodies" by auto
  have zero: "zp_awaiting = after_submissions [1, 2, 3, 4, 5] pss 0 zp_awaiting" by (simp add: after_submissions_def zp_awaiting_def)
  have ident: "cs_ID zp_awaiting = ''ceremony-7''" by (simp add: zp_awaiting_def zp_tallying_def zp_start_def)
  obtain jf' where "submit_all zp_te decode 9 ''ceremony-7'' bodies \<lparr>ceremony = Some zp_awaiting, journal = Some jf, job = Idle\<rparr>
      = \<lparr>ceremony = Some (decrypted_state [1, 2, 3, 4, 5] pss [1] 9 zp_awaiting), journal = jf', job = Idle\<rparr>"
    using submit_all_honest [OF a q, of "\<lparr>ceremony = Some zp_awaiting, journal = Some jf, job = Idle\<rparr>" 9] zero ident by auto
  moreover from submit_all_steps [of zp_te "\<lparr>ceremony = Some zp_awaiting, journal = Some jf, job = Idle\<rparr>" decode 9 "''ceremony-7''" bodies]
  have "(tally_step zp_te)\<^sup>*\<^sup>* fresh_service (submit_all zp_te decode 9 ''ceremony-7'' bodies \<lparr>ceremony = Some zp_awaiting, journal = Some jf, job = Idle\<rparr>)"
    using run by (rule rtranclp_trans [rotated])
  ultimately show ?thesis
    using ident by (intro exI conjI) (assumption, auto simp: handleResults_def decrypted_state_def after_submissions_def)
qed

theorem results_from_active_ballots_witness:
  "\<exists>bs tr contexts parts trustees. bs \<noteq> [] \<and> ComputeTally Zp (te_ballot zp_te) bs = Inr tr \<and> int (length trustees) = decryptionThreshold
    \<and> DecryptTally Zp (Some tr) contexts (map_of parts) trustees (te_keys zp_te) decryptionThreshold = Inr [1]"
proof -
  have "te_prims zp_te = Zp" by (simp add: zp_te_def)
  with zp_results results_from_active_ballots [OF zp_te_faithful] show ?thesis by metis
qed

text \<open>
  C3.  Five honest trustees finish the ceremony.  While a tally waits for the trustees and the disk
  works, the requests of five trustees whose partials were made with their shares of the election
  key are accepted in turn, and after the fifth the results endpoint gives, for every party, the
  number its slot encrypts.
\<close>

theorem honest_trustees_decrypt:
  assumes "awaiting te F ms cs tr contexts" "honest_quorum te F tr contexts idxs pss decode bodies"
    and "ceremony sv = Some cs" "Partials cs = Some []" "TrusteeOrder cs = []"
  shows "handleResults (cs_ID cs) (submit_all te decode now (cs_ID cs) bodies sv)
    = Success StatusOK \<lparr>rr_CeremonyID = cs_ID cs, rr_ElectionID = cs_ElectionID cs, rr_Phase = PhaseDecrypted,
        rr_BallotCount = cs_BallotCount cs, rr_Results = map int ms\<rparr>"
proof -
  have "cs = after_submissions idxs pss 0 cs" using assms(4,5) by (simp add: after_submissions_def)
  with submit_all_honest [OF assms(1,2), of sv now] assms(3) obtain jf where
    "submit_all te decode now (cs_ID cs) bodies sv = sv\<lparr>ceremony := Some (decrypted_state idxs pss ms now cs), journal := jf\<rparr>" by auto
  then show ?thesis by (simp add: handleResults_def decrypted_state_def after_submissions_def)
qed

theorem honest_trustees_decrypt_witness:
  "\<exists>decode bodies. handleResults ''ceremony-7'' (submit_all zp_te decode 9 ''ceremony-7'' bodies \<lparr>ceremony = Some zp_awaiting, journal = None, job = Idle\<rparr>)
    = Success StatusOK \<lparr>rr_CeremonyID = ''ceremony-7'', rr_ElectionID = ''e'', rr_Phase = PhaseDecrypted, rr_BallotCount = 1, rr_Results = [1]\<rparr>"
proof -
  from zp_awaiting_ok obtain contexts where a: "awaiting zp_te [1] [1] zp_awaiting zp_tally contexts" ..
  from quorum_exists [OF a _ zp_keys] obtain pss decode bodies where
    q: "honest_quorum zp_te [1] zp_tally contexts [1, 2, 3, 4, 5] pss decode bodies" by auto
  from honest_trustees_decrypt [OF a q, of "\<lparr>ceremony = Some zp_awaiting, journal = None, job = Idle\<rparr>" 9] show ?thesis
    by (auto simp: zp_awaiting_def zp_tallying_def zp_start_def)
qed

text \<open>
  C31.  The crash journal round trip: what \<open>Save\<close> writes of a ceremony whose partials are complete,
  \<open>LoadCeremonyState\<close> reads back with every field as it was, except the tally, which is not in the
  journal, and an empty map of partials, which reads back as the nil map.
\<close>

theorem journal_roundtrip:
  assumes "codec_ok te" "json_faithful te" "partials_ok (PartyCount cs) (partials_of cs)"
    and "stateDir cs = te_stateDir te" "te_stateDir te \<noteq> ''''"
  shows "\<exists>data. Save te False cs old = (Inr (), Some data) \<and> LoadCeremonyState te False (Some data)
    = Inr (Some (cs\<lparr>Partials := (if partials_of cs = [] then None else Partials cs), encryptedSums := [], tallyResult := None\<rparr>))"
  using Save_Load [OF assms(1,3-5), of old] assms(2) by (auto simp: json_faithful_def recovered_def)

definition zp_stored :: "(scalar, scalar) CeremonyState" where
  "zp_stored = zp_awaiting\<lparr>Partials := Some [(3, [Some \<lparr>TrusteeIndex = 3, D = Some 1, Proof = Some \<lparr>cpU = Some 1, cpV = Some 1, cpZ = Some 2\<rparr>\<rparr>])],
     TrusteeOrder := [3]\<rparr>"

theorem journal_roundtrip_witness:
  "\<exists>data. Save zp_te False zp_stored None = (Inr (), Some data)
    \<and> LoadCeremonyState zp_te False (Some data) = Inr (Some (zp_stored\<lparr>encryptedSums := [], tallyResult := None\<rparr>))"
proof -
  have parts: "partials_of zp_stored = [(3, [Some \<lparr>TrusteeIndex = 3, D = Some 1, Proof = Some \<lparr>cpU = Some 1, cpV = Some 1, cpZ = Some 2\<rparr>\<rparr>])]"
    by (simp add: zp_stored_def partials_of_def)
  moreover have "PartyCount zp_stored = 1" "stateDir zp_stored = te_stateDir zp_te" "te_stateDir zp_te \<noteq> ''''"
    by (simp_all add: zp_stored_def zp_awaiting_def zp_tallying_def zp_start_def zp_te_def)
  moreover have "zp_stored\<lparr>Partials := Partials zp_stored, encryptedSums := [], tallyResult := None\<rparr>
      = zp_stored\<lparr>encryptedSums := [], tallyResult := None\<rparr>" by (cases zp_stored) simp
  ultimately show ?thesis
    using journal_roundtrip [OF zp_te_codec zp_te_faithful, of zp_stored None]
    by (simp add: partials_ok_def partial_ok_def)
qed

lemma decode_elements_length: "decode_elements R n i es pds = Inr pds' \<Longrightarrow> length pds' = length pds"
  by (induction R n i es pds rule: decode_elements.induct) (auto split: if_splits option.splits sum.splits)

lemma check_submission_Inr:
  assumes "check_submission te req cs = Inr pds"
  shows "\<exists>key contexts tr. Phase cs = PhaseAwaitingTrustees \<and> te_keys te (pdr_TrusteeIndex req) = Some key
    \<and> map_of (partials_of cs) (pdr_TrusteeIndex req) = None \<and> tallyResult cs = Some tr \<and> slotContexts te cs = Inr contexts
    \<and> int (length pds) = PartyCount cs
    \<and> (\<forall>slot < length pds. VerifyPartial (te_prims te) (contexts ! slot) (EncryptedSums tr ! slot) (pds ! slot) key = Inr ())"
proof -
  from assms obtain key contexts where c: "Phase cs = PhaseAwaitingTrustees" "te_keys te (pdr_TrusteeIndex req) = Some key"
    "map_of (partials_of cs) (pdr_TrusteeIndex req) = None" "int (length (pdr_Partials req)) = PartyCount cs"
    "decode_elements (te_prims te) (PartyCount cs) (pdr_TrusteeIndex req) (pdr_Partials req) (replicate (nat (PartyCount cs)) None) = Inr pds"
    "slotContexts te cs = Inr contexts"
    "is_ok (checkE (\<lambda>slot. VerifyPartial (te_prims te) (contexts ! slot) (EncryptedSums (the (tallyResult cs)) ! slot) (pds ! slot) key) [0..<length pds])"
    by (auto simp: check_submission_def Let_def split: if_splits option.splits sum.splits)
  moreover from c(6) obtain tr where "tallyResult cs = Some tr" by (auto simp: slotContexts_def split: if_splits option.splits)
  moreover from decode_elements_length [OF c(5)] c(4) have "int (length pds) = PartyCount cs" by simp
  moreover from c(7) have "\<forall>slot < length pds. VerifyPartial (te_prims te) (contexts ! slot) (EncryptedSums (the (tallyResult cs)) ! slot) (pds ! slot) key = Inr ()"
    by (auto simp: is_ok_def split: sum.splits)
  ultimately show ?thesis by auto
qed

lemma store_submission_adds:
  assumes "store_submission te disk_fails now trustee pds cs sv = (resp, sv')"
  shows "(sv' = sv \<or> (\<exists>cs'. ceremony sv' = Some cs' \<and> partials_of cs' = partials_of cs @ [(trustee, pds)]))
    \<and> status_of resp \<notin> {400, 404, 409, 422, 503}"
proof (cases "Partials cs")
  case (Some m)
  let ?cs = "cs\<lparr>Partials := Some (m @ [(trustee, pds)]), TrusteeOrder := TrusteeOrder cs @ [trustee]\<rparr>"
  obtain r jf where save: "Save te (disk_fails 0) ?cs (journal sv) = (r, jf)" by fastforce
  obtain ok cs' jf' where dec: "decryptLocked te (disk_fails 1) now ?cs jf = (ok, cs', jf')" by (metis prod_cases3)
  have "Partials cs' = Partials ?cs"
    using dec by (auto simp: decryptLocked_def SetPhase_def Let_def split: sum.splits if_splits prod.splits)
  then have "partials_of cs' = partials_of cs @ [(trustee, pds)]" "partials_of ?cs = partials_of cs @ [(trustee, pds)]"
    using Some by (simp_all add: partials_of_def)
  with assms Some save dec show ?thesis
    by (cases r) (auto simp: store_submission_def Let_def StatusOK_def split: if_splits)
qed (use assms in \<open>auto simp: store_submission_def\<close>)

text \<open>
  C29.  What a submission can do.  Either it changes nothing, or it stores, for a trustee of the
  key set that has not submitted, one partial for every party, each verified against that
  trustee's key, its slot's context and its slot's ciphertext.  A request refused with a client
  error or for want of a tally changes nothing, so the trustee can submit again.
\<close>

theorem submission_guard:
  assumes "handlePartialDecryption te decode disk_fails now ident body sv = (resp, sv')"
  shows "(sv' = sv \<or> (\<exists>cs cs' trustee key pds contexts tr. ceremony sv = Some cs \<and> ceremony sv' = Some cs'
      \<and> Phase cs = PhaseAwaitingTrustees \<and> te_keys te trustee = Some key \<and> map_of (partials_of cs) trustee = None
      \<and> tallyResult cs = Some tr \<and> slotContexts te cs = Inr contexts \<and> int (length pds) = PartyCount cs
      \<and> (\<forall>slot < length pds. VerifyPartial (te_prims te) (contexts ! slot) (EncryptedSums tr ! slot) (pds ! slot) key = Inr ())
      \<and> partials_of cs' = partials_of cs @ [(trustee, pds)]))
    \<and> (status_of resp \<in> {400, 404, 409, 422, 503} \<longrightarrow> sv' = sv)"
proof (cases "sv' = sv")
  case False
  with assms obtain req cs pds where c: "ceremony sv = Some cs" "check_submission te req cs = Inr pds"
    and "store_submission te disk_fails now (pdr_TrusteeIndex req) pds cs sv = (resp, sv')"
    by (auto simp: handlePartialDecryption_def split: option.splits if_splits sum.splits)
  from store_submission_adds [OF this(3)] False obtain cs' where
    "ceremony sv' = Some cs'" "partials_of cs' = partials_of cs @ [(pdr_TrusteeIndex req, pds)]"
    "status_of resp \<notin> {400, 404, 409, 422, 503}" by blast
  with c(1) check_submission_Inr [OF c(2)] show ?thesis by blast
qed simp

theorem submission_guard_witness:
  "\<exists>resp. handlePartialDecryption zp_te (\<lambda>_. None) (\<lambda>_. False) 9 ''ceremony-7'' [] fresh_service = (resp, fresh_service)
    \<and> status_of resp = 400"
  using submission_guard [of zp_te "\<lambda>_. None" "\<lambda>_. False" 9 "''ceremony-7''" "[]" fresh_service "Failure 400 ''invalid_body''"
      "snd (handlePartialDecryption zp_te (\<lambda>_. None) (\<lambda>_. False) 9 ''ceremony-7'' [] fresh_service)"]
  by (simp add: handlePartialDecryption_def)

lemma recovered_shape:
  assumes "NewCeremonyHandler te read_fails jf = Inr sv" "ceremony sv = Some cs"
  shows "tallyResult cs = None" "job sv = Idle" "journal sv = jf" "jf \<noteq> None"
  using assms by (auto simp: NewCeremonyHandler_def LoadCeremonyState_def UnmarshalJSON_def split: option.splits if_splits)

lemma recovered_step:
  assumes "NewCeremonyHandler te read_fails jf = Inr sv" "ceremony sv = Some cs"
    and "Phase cs \<in> {PhaseFetching, PhaseTallying, PhaseAwaitingTrustees}" "tally_step te sv sv'"
  shows "sv' = sv"
proof -
  note shape = recovered_shape [OF assms(1,2)]
  have phase: "Phase cs \<noteq> PhaseError" "Phase cs \<noteq> PhaseFinalized" "Phase cs \<noteq> PhaseDecrypted" using assms(3) by (auto simp: phase_defs)
  have refuse: "\<exists>resp. check_submission te req cs = Inl resp" for req
    using shape(1) by (auto simp: check_submission_def slotContexts_def split: option.splits sum.splits)
  from assms(4) show ?thesis
  proof cases
    case (start decode mkdir_fails disk_fails now seal_reply body resp)
    with phase assms(2) show ?thesis by (auto simp: handleStart_def split: option.splits if_splits)
  next
    case (partial decode disk_fails now ident body resp)
    with assms(2) refuse show ?thesis
      unfolding handlePartialDecryption_def by (auto split: option.splits if_splits sum.splits) (metis Inr_not_Inl)+
  next
    case (restart read_fails')
    with assms(1) shape(3,4) show ?thesis
      by (auto simp: NewCeremonyHandler_def LoadCeremonyState_def split: if_splits option.splits)
  qed (use shape phase assms(2) in \<open>auto simp: runTally_fetch_def runTally_compute_def handleFinalize_def split: if_splits\<close>)
qed

text \<open>
  C30.  A crash ends a ceremony that has not been decrypted.  The tally is not in the journal, so a
  ceremony recovered while fetching, tallying or waiting for the trustees never moves again: no
  request, no background step and no further restart changes the service, there are no
  results, and no other ceremony can be started (409).
\<close>

theorem recovered_ceremony_stuck:
  assumes "NewCeremonyHandler te read_fails jf = Inr sv" "ceremony sv = Some cs"
    and "Phase cs \<in> {PhaseFetching, PhaseTallying, PhaseAwaitingTrustees}" "(tally_step te)\<^sup>*\<^sup>* sv sv'"
  shows "sv' = sv \<and> handleResults (cs_ID cs) sv' = Failure 409 ''not_decrypted''
    \<and> (decode (take maxStartBodyBytes body) = Some req \<and> sr_ActiveSet req \<noteq> [] \<longrightarrow>
        handleStart te decode mkdir_fails disk_fails now seal_reply body sv' = (Failure 409 ''ceremony_in_progress'', sv'))"
proof -
  from assms(4) have "sv' = sv"
    using recovered_step [OF assms(1-3)] by (induction rule: rtranclp_induct) auto
  with assms(2,3) show ?thesis
    by (auto simp: handleResults_def handleStart_def phase_defs)
qed

theorem recovered_ceremony_stuck_witness:
  "\<exists>jf sv. NewCeremonyHandler zp_te False (Some jf) = Inr sv \<and> handleResults ''ceremony-7'' sv = Failure 409 ''not_decrypted''"
proof -
  obtain jf where jf: "Save zp_te False zp_awaiting None = (Inr (), Some jf)"
    using zp_Save [of zp_awaiting None] by (auto simp: partials_of_def zp_awaiting_def zp_tallying_def zp_start_def)
  moreover have "partials_ok (PartyCount zp_awaiting) (partials_of zp_awaiting)" "stateDir zp_awaiting = te_stateDir zp_te" "te_stateDir zp_te \<noteq> ''''"
    by (simp_all add: partials_ok_def partials_of_def zp_awaiting_def zp_tallying_def zp_start_def zp_te_def)
  ultimately have "LoadCeremonyState zp_te False (Some jf) = Inr (Some (recovered zp_awaiting))"
    using Save_Load [OF zp_te_codec, of zp_awaiting None] zp_te_faithful by (auto simp: json_faithful_def)
  then have sv: "NewCeremonyHandler zp_te False (Some jf) = Inr \<lparr>ceremony = Some (recovered zp_awaiting), journal = Some jf, job = Idle\<rparr>"
    by (simp add: NewCeremonyHandler_def)
  have "Phase (recovered zp_awaiting) \<in> {PhaseFetching, PhaseTallying, PhaseAwaitingTrustees}" "cs_ID (recovered zp_awaiting) = ''ceremony-7''"
    by (simp_all add: recovered_def zp_awaiting_def zp_tallying_def zp_start_def)
  with recovered_ceremony_stuck [OF sv _ _ rtranclp.rtrancl_refl, of "recovered zp_awaiting" "\<lambda>_. None" "[]"]
  have "handleResults ''ceremony-7'' \<lparr>ceremony = Some (recovered zp_awaiting), journal = Some jf, job = Idle\<rparr> = Failure 409 ''not_decrypted''"
    by simp
  with sv show ?thesis by blast
qed

end
