(* ===== verification/Election.thy ===== *)
theory Election
  imports Collection_Props Board_Props Tally_Claims
begin

text \<open>
  How the services meet: the ballots of the voter map's active set, found on the bulletin board by
  the tally service, add up to the votes of the voters' last ballots.
\<close>

section \<open>Adding up encrypted votes\<close>

lemma ct_add_enc:
  "ristretto R \<Longrightarrow> ct_add (enc R h r (of_nat m)) (enc R h r' (of_nat m')) = enc R h (r + r') (of_nat (m + m'))"
  by (simp add: ct_add_def enc_def smul_add_left add_ac)

lemma enc_decoded [simp]: "decoded_ct (enc R h r m)"
  by (simp add: decoded_ct_def enc_def)

lemma HomomorphicAdd_votes:
  assumes R: "ristretto R" and ne: "xs \<noteq> []"
  shows "HomomorphicAdd (map (\<lambda>x. Some (enc R h (f x) (of_nat (g x)))) xs)
    = Inr (Some (enc R h (sum_list (map f xs)) (of_nat (sum_list (map g xs)))))"
proof -
  obtain y ys where xs: "xs = y # ys" using ne by (cases xs) auto
  have "foldl ct_add (enc R h r (of_nat m)) (map (\<lambda>x. enc R h (f x) (of_nat (g x))) ys)
      = enc R h (r + sum_list (map f ys)) (of_nat (m + sum_list (map g ys)))" for r m
  proof (induction ys arbitrary: r m)
    case (Cons z zs)
    then show ?case by (simp add: ct_add_enc [OF R] add_ac del: of_nat_add)
  qed simp
  then show ?thesis
    using HomomorphicAdd_fold [of "enc R h (f y) (of_nat (g y))" "map (\<lambda>x. enc R h (f x) (of_nat (g x))) ys"]
    by (simp add: xs comp_def del: of_nat_add)
qed

text \<open>The vote of a ballot and the randomness of its ciphertexts, as functions of its ID.\<close>

definition vote_bit :: "(string \<Rightarrow> nat) \<Rightarrow> nat \<Rightarrow> string \<Rightarrow> nat" where
  "vote_bit vote j i = (if vote i = j then 1 else 0)"

definition encrypted_vote ::
  "('s::field, 'e::ab_group_add) tally_env \<Rightarrow> 'e \<Rightarrow> nat \<Rightarrow> (string \<Rightarrow> nat) \<Rightarrow> (string \<Rightarrow> nat \<Rightarrow> 's) \<Rightarrow> SerializedBallot \<Rightarrow> bool" where
  "encrypted_vote te h n vote rand b \<longleftrightarrow> (\<exists>vec. te_ballot te (sb_EncryptedBallot b) = Some vec \<and> length vec = n
     \<and> (\<forall>j < n. ciphertextFromHex (te_prims te) (vec ! j)
          = Inr (enc (te_prims te) h (rand (sb_BallotID b) j) (of_nat (vote_bit vote j (sb_BallotID b))))))"

lemma ComputeTally_votes:
  assumes R: "ristretto (te_prims te)" and bs: "bs \<noteq> []" "\<forall>b \<in> set bs. encrypted_vote te h n vote rand b"
  shows "ComputeTally (te_prims te) (te_ballot te) bs = Inr
    \<lparr>EncryptedSums = map (\<lambda>j. Some (enc (te_prims te) h (sum_list (map (\<lambda>b. rand (sb_BallotID b) j) bs))
        (of_nat (sum_list (map (\<lambda>b. vote_bit vote j (sb_BallotID b)) bs))))) [0..<n],
     NumBallots = length bs, tr_NumParties = n\<rparr>"
proof -
  let ?cts = "\<lambda>b. map (\<lambda>j. enc (te_prims te) h (rand (sb_BallotID b) j) (of_nat (vote_bit vote j (sb_BallotID b)))) [0..<n]"
  have "decodes (te_prims te) (te_ballot te) n b (?cts b)" if b: "b \<in> set bs" for b
  proof -
    from bs(2) b obtain vec where vec: "te_ballot te (sb_EncryptedBallot b) = Some vec" "length vec = n"
      "\<forall>j < n. ciphertextFromHex (te_prims te) (vec ! j)
          = Inr (enc (te_prims te) h (rand (sb_BallotID b) j) (of_nat (vote_bit vote j (sb_BallotID b))))"
      by (auto simp: encrypted_vote_def)
    have "mapE (ciphertextFromHex (te_prims te)) vec = Inr (?cts b)"
      unfolding mapE_Inr_iff list_all2_conv_all_nth using vec(2,3) by simp
    with vec(1) show ?thesis by (simp add: decodes_def)
  qed
  then have all: "list_all2 (decodes (te_prims te) (te_ballot te) n) bs (map ?cts bs)"
    by (simp add: list_all2_conv_all_nth)
  moreover have "HomomorphicAdd (map (\<lambda>cts. Some (cts ! j)) (map ?cts bs))
      = Inr (Some (enc (te_prims te) h (sum_list (map (\<lambda>b. rand (sb_BallotID b) j) bs))
        (of_nat (sum_list (map (\<lambda>b. vote_bit vote j (sb_BallotID b)) bs)))))" if "j < n" for j
    using HomomorphicAdd_votes [OF R bs(1), of h "\<lambda>b. rand (sb_BallotID b) j" "\<lambda>b. vote_bit vote j (sb_BallotID b)"] that
    by (simp add: comp_def)
  ultimately show ?thesis
    unfolding ComputeTally_iff using bs(1) by (intro conjI exI [of _ "map ?cts bs"]) simp_all
qed

section \<open>Counting the active set\<close>

text \<open>
  The rows of the board with an ID in the active set are as many as the active set, and a sum
  over them is a sum over the voters, when all submitted IDs differ and are on the board.
\<close>

definition last_vote :: "submission list \<Rightarrow> string \<Rightarrow> string" where
  "last_vote xs e = the (last_ballot xs e)"

lemma last_ballot_submitted:
  assumes "e \<in> fst ` set xs"
  shows "\<exists>c t. (e, last_vote xs e, c, t) \<in> set xs"
proof -
  have ne: "submissions_of xs e \<noteq> []" using assms by (auto simp: submissions_of_def filter_empty_conv)
  then have "last (submissions_of xs e) \<in> set (submissions_of xs e)" by simp
  moreover have "last_vote xs e = fst (last (submissions_of xs e))" using ne by (simp add: last_vote_def last_ballot_def Let_def)
  ultimately have "\<exists>x \<in> set xs. fst x = e \<and> fst (snd x) = last_vote xs e" by (auto simp: submissions_of_def)
  then show ?thesis by force
qed

lemma inj_last_vote:
  assumes "distinct (map (\<lambda>x. fst (snd x)) xs)"
  shows "inj_on (last_vote xs) (fst ` set xs)"
proof (rule inj_onI)
  fix e e' assume e: "e \<in> fst ` set xs" "e' \<in> fst ` set xs" and eq: "last_vote xs e = last_vote xs e'"
  from last_ballot_submitted [OF e(1)] last_ballot_submitted [OF e(2)] obtain c t c' t' where
    s: "(e, last_vote xs e, c, t) \<in> set xs" "(e', last_vote xs e', c', t') \<in> set xs" by blast
  have "inj_on (\<lambda>x. fst (snd x)) (set xs)" using assms by (simp add: distinct_map)
  from inj_onD [OF this _ s] eq show "e = e'" by simp
qed

lemma active_rows:
  assumes ids: "distinct (map sb_BallotID rows)" and xs: "distinct (map (\<lambda>x. fst (snd x)) xs)"
    and on_board: "(\<lambda>x. fst (snd x)) ` set xs \<subseteq> sb_BallotID ` set rows"
    and active: "mset act = image_mset (last_vote xs) (mset_set (fst ` set xs))"
  shows "mset (map sb_BallotID (filter (\<lambda>b. sb_BallotID b \<in> set act) rows)) = image_mset (last_vote xs) (mset_set (fst ` set xs))"
proof -
  let ?rows = "filter (\<lambda>b. sb_BallotID b \<in> set act) rows"
  have set_act: "set act = last_vote xs ` fst ` set xs" using arg_cong [OF active, of set_mset] by simp
  have sub: "last_vote xs ` fst ` set xs \<subseteq> sb_BallotID ` set rows"
  proof (intro subsetI, elim imageE)
    fix i e x assume "i = last_vote xs e" "e = fst x" "x \<in> set xs"
    then obtain c t where "(e, i, c, t) \<in> set xs" using last_ballot_submitted [of e xs] by auto
    then have "i \<in> (\<lambda>x. fst (snd x)) ` set xs" by (rule rev_image_eqI) simp
    with on_board show "i \<in> sb_BallotID ` set rows" by blast
  qed
  have "sb_BallotID ` set ?rows = sb_BallotID ` set rows \<inter> set act" by auto
  then have "sb_BallotID ` set ?rows = last_vote xs ` fst ` set xs" by (simp only: set_act inf.absorb2 [OF sub])
  moreover have "distinct (map sb_BallotID ?rows)" using ids by (rule distinct_map_filter)
  moreover have "mset (map sb_BallotID ?rows) = mset_set (set (map sb_BallotID ?rows))"
    by (rule mset_set_set [symmetric]) fact
  moreover have "set (map sb_BallotID ?rows) = sb_BallotID ` set ?rows" by (rule set_map)
  ultimately have "mset (map sb_BallotID ?rows) = mset_set (last_vote xs ` fst ` set xs)" by (simp only:)
  also have "\<dots> = image_mset (last_vote xs) (mset_set (fst ` set xs))"
    by (rule image_mset_mset_set [OF inj_last_vote [OF xs], symmetric])
  finally show ?thesis .
qed

lemma count_votes:
  assumes "finite A"
  shows "(\<Sum>e\<in>A. vote_bit vote j (f e)) = card {e \<in> A. vote (f e) = j}"
proof -
  have "(\<Sum>e\<in>A. vote_bit vote j (f e)) = (\<Sum>e\<in>{e \<in> A. vote (f e) = j}. 1)"
    unfolding vote_bit_def by (rule sum.mono_neutral_cong_right) (use assms in auto)
  then show ?thesis by simp
qed

lemma sum_over_voters:
  assumes "mset (map sb_BallotID rows) = image_mset (last_vote xs) (mset_set (fst ` set xs))"
  shows "sum_list (map (\<lambda>b. g (sb_BallotID b)) rows) = (\<Sum>e\<in>fst ` set xs. g (last_vote xs e))"
proof -
  have "sum_list (map (\<lambda>b. g (sb_BallotID b)) rows) = sum_list (map g (map sb_BallotID rows))" by (simp add: comp_def)
  also have "\<dots> = sum_mset (image_mset g (mset (map sb_BallotID rows)))" by (metis mset_map sum_mset_sum_list)
  also have "\<dots> = (\<Sum>e\<in>fst ` set xs. g (last_vote xs e))"
    unfolding assms by (simp add: sum_unfold_sum_mset image_mset.compositionality comp_def)
  finally show ?thesis .
qed

section \<open>From the start request to the trustees\<close>

lemma handleStart_started:
  assumes "handleStart te decode mkdir_fails disk_fails now seal_reply body sv = (Success st resp, sv')"
  shows "\<exists>cs req. ceremony sv' = Some cs \<and> job sv' = Fetching \<and> decode (take maxStartBodyBytes body) = Some req
    \<and> ActiveSet cs = sr_ActiveSet req \<and> ActiveSet cs \<noteq> [] \<and> cs_ElectionID cs = te_electionID te \<and> stateDir cs = te_stateDir te
    \<and> te_stateDir te \<noteq> '''' \<and> cs_ID cs = CeremonyID resp \<and> seal_reply = Inr True"
proof -
  from assms obtain req where req: "decode (take maxStartBodyBytes body) = Some req" "sr_ActiveSet req \<noteq> []" "seal_reply = Inr True"
    by (auto simp: handleStart_def split: option.splits if_splits sum.splits bool.splits)
  let ?ident = "''ceremony-'' @ itoa now"
  obtain rn jf where n: "NewCeremonyState te mkdir_fails (disk_fails 0) ?ident now (journal sv) = (rn, jf)" by fastforce
  with assms req obtain cs where cs: "rn = Inr cs"
    by (cases rn) (auto simp: handleStart_def Let_def split: if_splits)
  obtain r jf' where save: "Save te (disk_fails 1) (cs\<lparr>ActiveSet := sr_ActiveSet req\<rparr>) jf = (r, jf')" by fastforce
  with assms req n cs have sv': "sv' = \<lparr>ceremony = Some (cs\<lparr>ActiveSet := sr_ActiveSet req\<rparr>), journal = jf', job = Fetching\<rparr>"
    "CeremonyID resp = ?ident"
    by (cases r; auto simp: handleStart_def Let_def split: if_splits)+
  from n cs have "cs_ID cs = ?ident \<and> cs_ElectionID cs = te_electionID te \<and> stateDir cs = te_stateDir te \<and> te_stateDir te \<noteq> ''''"
    by (auto simp: NewCeremonyState_def Save_def Let_def split: if_splits prod.splits sum.splits)
  with req sv' show ?thesis by simp
qed

lemma tally_of_fetched:
  assumes codec: "codec_ok te" and start: "ceremony sv = Some cs" "job sv = Fetching" "cs_ElectionID cs \<noteq> ''''" "stateDir cs \<noteq> ''''"
    and bs: "filter_active cs fetched = bs" "bs \<noteq> []" "int (length bs) \<le> MaxDecrypt"
    and votes: "\<forall>b \<in> set bs. encrypted_vote te (smul (te_prims te) (peval F 0) (gen (te_prims te))) n vote rand b"
    and rand: "\<forall>j < n. sum_list (map (\<lambda>b. rand (sb_BallotID b) j) bs) \<noteq> 0"
  shows "\<exists>cs' tr contexts jf. runTally_compute te f2 (runTally_fetch te f1 (Inr fetched) sv) = \<lparr>ceremony = Some cs', journal = jf, job = Idle\<rparr>
    \<and> awaiting te F (map (\<lambda>j. sum_list (map (\<lambda>b. vote_bit vote j (sb_BallotID b)) bs)) [0..<n]) cs' tr contexts
    \<and> Partials cs' = Some [] \<and> TrusteeOrder cs' = [] \<and> cs_ID cs' = cs_ID cs \<and> cs_ElectionID cs' = cs_ElectionID cs
    \<and> cs_BallotCount cs' = int (length bs)"
proof -
  let ?R = "te_prims te" and ?h = "smul (te_prims te) (peval F 0) (gen (te_prims te))"
  let ?sums = "map (\<lambda>j. Some (enc ?R ?h (sum_list (map (\<lambda>b. rand (sb_BallotID b) j) bs))
      (of_nat (sum_list (map (\<lambda>b. vote_bit vote j (sb_BallotID b)) bs))))) [0..<n]"
  let ?tr = "\<lparr>EncryptedSums = ?sums, NumBallots = length bs, tr_NumParties = n\<rparr>"
  let ?cs = "cs\<lparr>cs_BallotCount := int (length bs), Phase := PhaseTallying\<rparr>"
  let ?cs' = "?cs\<lparr>tallyResult := Some ?tr, encryptedSums := ?sums, PartyCount := int n, Partials := Some [], TrusteeOrder := [], Phase := PhaseAwaitingTrustees\<rparr>"
  have R: "ristretto ?R" using codec by (simp add: codec_ok_def)
  have tally: "ComputeTally ?R (te_ballot te) bs = Inr ?tr" by (rule ComputeTally_votes [OF R bs(2) votes])
  obtain r jf where save: "Save te f1 ?cs (journal sv) = (r, jf)" by fastforce
  obtain r' jf' where save': "Save te f2 ?cs' jf = (r', jf')" by fastforce
  have fetch: "runTally_fetch te f1 (Inr fetched) sv = \<lparr>ceremony = Some ?cs, journal = jf, job = Tallying bs\<rparr>"
    using start bs save by (simp add: runTally_fetch_def Let_def)
  have compute: "runTally_compute te f2 (runTally_fetch te f1 (Inr fetched) sv) = \<lparr>ceremony = Some ?cs', journal = jf', job = Idle\<rparr>"
    using tally save' by (simp add: fetch runTally_compute_def SetPhase_def)
  have "mapE (\<lambda>p. bindE (deref p) (Ciphertext_Bytes ?R)) ?sums = Inr (map (\<lambda>j. copy32 (e_bytes ?R (the (C1 (the (?sums ! j))))) @ copy32 (e_bytes ?R (the (C2 (the (?sums ! j)))))) [0..<n])"
    unfolding mapE_Inr_iff list_all2_conv_all_nth by (simp add: Ciphertext_Bytes_def enc_def)
  then obtain digest where "TallyDigest ?R (te_sha te) ?sums = Inr digest" by (simp add: TallyDigest_def del: mapE.simps)
  then obtain contexts where ctx: "slotContexts te ?cs' = Inr contexts"
    using start(3) by (auto simp: slotContexts_def)
  have "sum_list (map (\<lambda>b. vote_bit vote j (sb_BallotID b)) bs) \<le> length bs" for j
    by (induction bs) (simp_all add: vote_bit_def)
  then have "int (sum_list (map (\<lambda>b. vote_bit vote j (sb_BallotID b)) bs)) \<le> MaxDecrypt" for j
    using bs(3) by (meson of_nat_mono order_trans)
  with ctx codec start(4) rand have "awaiting te F (map (\<lambda>j. sum_list (map (\<lambda>b. vote_bit vote j (sb_BallotID b)) bs)) [0..<n]) ?cs' ?tr contexts"
    by (auto simp: awaiting_def)
  with compute show ?thesis by (intro exI conjI) (assumption, assumption, simp_all)
qed

end
