(* ===== verification/Return_Codes.thy ===== *)
theory Return_Codes
  imports Threshold Voter_Map
begin

text \<open>
  The verification codes of the second channel (\<open>verification/codes/codes.go\<close>): the code of every
  party in a session and the return code of an encrypted ballot, both eight digits of an HMAC
  under the master secret.  HMAC-SHA256 and the scalar encoding are parameters.
\<close>

section \<open>Eight digits\<close>

text \<open>\<open>binary.BigEndian.Uint64\<close>, and \<open>%08d\<close> of a number.\<close>

definition Uint64 :: "bytes \<Rightarrow> nat" where
  "Uint64 bs = foldl (\<lambda>a b. 256 * a + unat b) 0 bs"

definition digits8 :: "nat \<Rightarrow> string" where
  "digits8 n = replicate (8 - length (utoa n)) CHR ''0'' @ utoa n"

definition code_of :: "hash \<Rightarrow> string" where
  "code_of h = digits8 (Uint64 (take 8 (hash_bytes h)) mod 100000000)"

record CodeMapping =
  cm_SessionID :: string
  cm_Codes :: "string \<rightharpoonup> string"

definition deriveCode :: "mac \<Rightarrow> ('s \<Rightarrow> bytes) \<Rightarrow> 's \<Rightarrow> string \<Rightarrow> string \<Rightarrow> string" where
  "deriveCode hmac sbytes masterSecret sessionID party =
     code_of (hmac (sbytes masterSecret)
       (bytes_of ''otvoren-vot.code-mapping'' @ [0] @ bytes_of sessionID @ [0] @ bytes_of party))"

definition GenerateCodeMapping :: "mac \<Rightarrow> ('s \<Rightarrow> bytes) \<Rightarrow> string \<Rightarrow> string list \<Rightarrow> 's \<Rightarrow> CodeMapping" where
  "GenerateCodeMapping hmac sbytes sessionID parties masterSecret =
     \<lparr>cm_SessionID = sessionID,
      cm_Codes = foldl (\<lambda>m party. m(party \<mapsto> deriveCode hmac sbytes masterSecret sessionID party)) Map.empty parties\<rparr>"

definition DeriveReturnCode :: "mac \<Rightarrow> ('s \<Rightarrow> bytes) \<Rightarrow> 's \<Rightarrow> string \<Rightarrow> bytes \<Rightarrow> string" where
  "DeriveReturnCode hmac sbytes masterSecret sessionID encryptedBallotBytes =
     code_of (hmac (sbytes masterSecret)
       (bytes_of ''otvoren-vot.return-code'' @ [0] @ bytes_of sessionID @ [0] @ encryptedBallotBytes))"

text \<open>The range over \<open>mapping.Codes\<close> visits its keys in the order of \<open>keys\<close>.\<close>

definition VerifyReturnCode :: "string list \<Rightarrow> CodeMapping \<Rightarrow> string \<Rightarrow> string \<times> bool" where
  "VerifyReturnCode keys codes returnCode =
     (case find (\<lambda>party. cm_Codes codes party = Some returnCode) keys of
        Some party \<Rightarrow> (party, True)
      | None \<Rightarrow> ('''', False))"

section \<open>Codes are eight digits, one for every party\<close>

lemma length_utoa_bound: "n < 10 ^ Suc k \<Longrightarrow> length (utoa n) \<le> Suc k"
proof (induction k arbitrary: n)
  case (Suc k)
  then have "n div 10 < 10 ^ Suc k" by (simp add: less_mult_imp_div_less mult.commute)
  from Suc.IH [OF this] show ?case by (subst utoa.simps) simp
qed (simp add: utoa.simps)

lemma length_digits8: "n < 10 ^ 8 \<Longrightarrow> length (digits8 n) = 8"
  using length_utoa_bound [of n 7] by (simp add: digits8_def)

lemma numeral_value_zeros: "numeral_value (replicate k CHR ''0'' @ s) = numeral_value s"
  by (induction k) (auto simp: numeral_value_def)

lemma digits8_inject: "digits8 m = digits8 n \<longleftrightarrow> m = n"
  by (metis digits8_def numeral_value_utoa numeral_value_zeros)

lemma length_code_of [simp]: "length (code_of h) = 8"
  by (simp add: code_of_def length_digits8)

lemma code_of_digits: "c \<in> set (code_of h) \<Longrightarrow> 48 \<le> (of_char c :: nat) \<and> (of_char c :: nat) \<le> 57"
  using utoa_chars by (fastforce simp: code_of_def digits8_def split: if_splits)

lemma code_map_fold:
  "foldl (\<lambda>m party. m(party \<mapsto> f party)) m0 ps p = (if p \<in> set ps then Some (f p) else m0 p)"
  by (induction ps arbitrary: m0) auto

lemma GenerateCodeMapping_lookup:
  "cm_Codes (GenerateCodeMapping hmac sbytes sid parties ms) p
    = (if p \<in> set parties then Some (deriveCode hmac sbytes ms sid p) else None)"
  by (simp add: GenerateCodeMapping_def code_map_fold)

text \<open>The two kinds of code are computed from different HMAC inputs, whatever party and ballot are.\<close>

lemma code_inputs_differ:
  "bytes_of ''otvoren-vot.return-code'' @ [0] @ bytes_of sid @ [0] @ ballot
    \<noteq> bytes_of ''otvoren-vot.code-mapping'' @ [0] @ bytes_of sid' @ [0] @ party"
  by (simp add: bytes_of_def)

end
