(* ===== verification/Verification_Session.thy ===== *)
theory Verification_Session
  imports Return_Codes Http "HOL-Library.AList"
begin

text \<open>
  The session store of the verification service (\<open>verification/session/session.go\<close>).  A scalar is
  reached through a pointer, and the store zeroes scalars in place, so scalars live in a heap
  and a session holds addresses.  A method holds the mutex and is one step; the clock is an
  argument in nanoseconds.
\<close>

section \<open>Sessions and scalars\<close>

definition SessionTTL :: int where "SessionTTL = 30 * 60 * 1000000000"

record Session =
  sess_ID :: string
  CreatedAt :: instant
  ExpiresAt :: instant
  Verified :: bool
  Shares :: "(int \<times> nat) list"
  MasterSecret :: "nat option"
  ThresholdMet :: bool
  Codes :: "(string \<rightharpoonup> string) option"
  sess_Threshold :: int

record 's SessionStore =
  sessions :: "(string \<times> Session) list"
  scalars :: "nat \<Rightarrow> 's"
  next_addr :: nat

definition NewStore :: "(nat \<Rightarrow> 's) \<Rightarrow> nat \<Rightarrow> 's SessionStore" where
  "NewStore h n = \<lparr>sessions = [], scalars = h, next_addr = n\<rparr>"

definition alloc :: "'s \<Rightarrow> 's SessionStore \<Rightarrow> nat \<times> 's SessionStore" where
  "alloc v st = (next_addr st, st\<lparr>scalars := (scalars st)(next_addr st := v), next_addr := Suc (next_addr st)\<rparr>)"

text \<open>\<open>s.Set(zero)\<close> at every address of a list.\<close>

definition zero_all :: "nat list \<Rightarrow> (nat \<Rightarrow> 's::zero) \<Rightarrow> nat \<Rightarrow> 's" where
  "zero_all as h = fold (\<lambda>a h. h(a := 0)) as h"

definition put_session :: "string \<Rightarrow> Session \<Rightarrow> 's SessionStore \<Rightarrow> 's SessionStore" where
  "put_session sid sess st = st\<lparr>sessions := AList.update sid sess (sessions st)\<rparr>"

definition find_session :: "'s SessionStore \<Rightarrow> string \<Rightarrow> Session option" where
  "find_session st sid = map_of (sessions st) sid"

section \<open>Operations\<close>

text \<open>\<open>rand\<close> is what \<open>rand.Read\<close> fills the 16 bytes with, \<open>None\<close> when it fails.\<close>

definition generateID :: "bytes option \<Rightarrow> string option" where
  "generateID rand = map_option hex_encode rand"

definition Create :: "bytes option \<Rightarrow> instant \<Rightarrow> int \<Rightarrow> 's SessionStore \<Rightarrow> Session option \<times> 's SessionStore" where
  "Create rand now t st =
     (case generateID rand of
        None \<Rightarrow> (None, st)
      | Some sid \<Rightarrow>
          let sess = \<lparr>sess_ID = sid, CreatedAt = now, ExpiresAt = now + SessionTTL, Verified = False, Shares = [],
                      MasterSecret = None, ThresholdMet = False, Codes = None, sess_Threshold = t\<rparr>
          in (Some sess, put_session sid sess st))"

definition Get :: "instant \<Rightarrow> string \<Rightarrow> 's SessionStore \<Rightarrow> Session option" where
  "Get now sid st =
     (case find_session st sid of
        None \<Rightarrow> None
      | Some sess \<Rightarrow> if ExpiresAt sess < now then None else Some sess)"

text \<open>The count of shares and whether the threshold is met, or no such session.\<close>

definition AddShare :: "string \<Rightarrow> int \<Rightarrow> nat \<Rightarrow> 's SessionStore \<Rightarrow> (nat \<times> bool) option \<times> 's SessionStore" where
  "AddShare sid trusteeIndex share st =
     (case find_session st sid of
        None \<Rightarrow> (None, st)
      | Some sess \<Rightarrow>
          if ThresholdMet sess then (Some (length (Shares sess), True), st)
          else if map_of (Shares sess) trusteeIndex \<noteq> None then (Some (length (Shares sess), ThresholdMet sess), st)
          else
            let shares = Shares sess @ [(trusteeIndex, share)];
                met = (sess_Threshold sess \<le> int (length shares))
            in (Some (length shares, met), put_session sid (sess\<lparr>Shares := shares, ThresholdMet := met\<rparr>) st))"

definition SetCodes :: "string \<Rightarrow> (string \<rightharpoonup> string) \<Rightarrow> nat option \<Rightarrow> 's SessionStore \<Rightarrow> 's SessionStore" where
  "SetCodes sid codes masterSecret st =
     (case find_session st sid of
        None \<Rightarrow> st
      | Some sess \<Rightarrow> put_session sid (sess\<lparr>Codes := Some codes, MasterSecret := masterSecret\<rparr>) st)"

definition secret_addrs :: "Session \<Rightarrow> nat list" where
  "secret_addrs sess = (case MasterSecret sess of None \<Rightarrow> [] | Some a \<Rightarrow> [a]) @ map snd (Shares sess)"

definition Close :: "string \<Rightarrow> 's::zero SessionStore \<Rightarrow> 's SessionStore" where
  "Close sid st =
     (case find_session st sid of
        None \<Rightarrow> st
      | Some sess \<Rightarrow>
          (put_session sid (sess\<lparr>MasterSecret := None, Shares := []\<rparr>) st)\<lparr>scalars := zero_all (secret_addrs sess) (scalars st)\<rparr>)"

definition MarkVerified :: "string \<Rightarrow> 's SessionStore \<Rightarrow> bool \<times> 's SessionStore" where
  "MarkVerified sid st =
     (case find_session st sid of
        None \<Rightarrow> (False, st)
      | Some sess \<Rightarrow> (True, put_session sid (sess\<lparr>Verified := True\<rparr>) st))"

definition Count :: "'s SessionStore \<Rightarrow> nat" where
  "Count st = length (sessions st)"

text \<open>The body of the cleanup goroutine.\<close>

definition removeExpired :: "instant \<Rightarrow> 's::zero SessionStore \<Rightarrow> 's SessionStore" where
  "removeExpired now st =
     (let expired = filter (\<lambda>(_, sess). ExpiresAt sess < now) (sessions st)
      in st\<lparr>sessions := filter (\<lambda>(_, sess). \<not> ExpiresAt sess < now) (sessions st),
            scalars := zero_all (concat (map (secret_addrs \<circ> snd) expired)) (scalars st)\<rparr>)"

section \<open>Reading the store after an operation\<close>

lemma find_put [simp]: "find_session (put_session sid sess st) sid' = (if sid' = sid then Some sess else find_session st sid')"
  by (simp add: find_session_def put_session_def update_conv')

lemma scalars_put [simp]: "scalars (put_session sid sess st) = scalars st" "next_addr (put_session sid sess st) = next_addr st"
  by (simp_all add: put_session_def)

lemma alloc_simps [simp]:
  "find_session (snd (alloc v st)) sid = find_session st sid" "scalars (snd (alloc v st)) = (scalars st)(next_addr st := v)"
  "next_addr (snd (alloc v st)) = Suc (next_addr st)" "fst (alloc v st) = next_addr st"
  by (simp_all add: alloc_def find_session_def)

lemma zero_all_apply [simp]: "zero_all as h a = (if a \<in> set as then 0 else h a)"
  unfolding zero_all_def by (induction as arbitrary: h) auto

lemma find_scalars [simp]: "find_session (st\<lparr>scalars := h\<rparr>) sid = find_session st sid"
  by (simp add: find_session_def)

lemma map_of_filter_distinct:
  "distinct (map fst xs) \<Longrightarrow> map_of (filter P xs) k = (case map_of xs k of None \<Rightarrow> None | Some v \<Rightarrow> if P (k, v) then Some v else None)"
proof (induction xs)
  case (Cons x xs)
  then have "map_of (filter P xs) (fst x) = None" by (auto simp: map_of_eq_None_iff)
  with Cons show ?case by (cases x) (auto split: option.splits)
qed simp

lemma find_removeExpired:
  assumes "distinct (map fst (sessions st))"
  shows "find_session (removeExpired now st) sid = Get now sid st"
  using map_of_filter_distinct [OF assms, of "\<lambda>(_, sess). \<not> ExpiresAt sess < now" sid]
  by (simp add: removeExpired_def Get_def find_session_def Let_def split: option.splits)

end
