(* ===== verification/Verification_Handler.thy ===== *)
theory Verification_Handler
  imports Verification_Session
begin

text \<open>
  The endpoints of the verification service (\<open>verification/handler.go\<close>) and the start-up of
  \<open>verification/main.go\<close> and \<open>config.go\<close>.  A handler that reconstructs the secret does so outside
  the lock of the store, so it is given in parts that other requests can come between.
\<close>

section \<open>The service\<close>

text \<open>The primitives, HMAC, the scalar encoding and the order in which Go ranges over shares.\<close>

record ('s, 'e) verify_env =
  ve_prims :: "('s, 'e) prims"
  ve_hmac :: mac
  ve_sbytes :: "'s \<Rightarrow> bytes"
  ve_order :: "(int \<times> nat) list \<Rightarrow> (int \<times> nat) list"

record VerificationHandler =
  parties :: "string list"
  vthreshold :: int
  devSecret :: "nat option"

record createResponse =
  cr_session_id :: string
  code_mapping :: "(string \<rightharpoonup> string) option"

text \<open>Codes at once in dev mode, \<open>awaiting_shares\<close> otherwise.\<close>

definition HandleCreateSession ::
  "('s, 'e) verify_env \<Rightarrow> VerificationHandler \<Rightarrow> bytes option \<Rightarrow> instant \<Rightarrow> 's SessionStore \<Rightarrow> createResponse response \<times> 's SessionStore" where
  "HandleCreateSession ve h rand now st =
     (case Create rand now (vthreshold h) st of
        (None, st) \<Rightarrow> (Failure 500 ''failed to create session'', st)
      | (Some sess, st) \<Rightarrow>
          (case devSecret h of
             Some a \<Rightarrow>
               let codes = cm_Codes (GenerateCodeMapping (ve_hmac ve) (ve_sbytes ve) (sess_ID sess) (parties h) (scalars st a))
               in (Success StatusOK \<lparr>cr_session_id = sess_ID sess, code_mapping = Some codes\<rparr>, SetCodes (sess_ID sess) codes (Some a) st)
           | None \<Rightarrow> (Success StatusOK \<lparr>cr_session_id = sess_ID sess, code_mapping = None\<rparr>, st)))"

section \<open>Shares\<close>

record shareRequest =
  shr_SessionID :: string
  shr_TrusteeIndex :: int
  shr_Share :: string

record shareResponse =
  shares_received :: nat
  threshold_met :: bool

definition decode_share :: "('s, 'e) prims \<Rightarrow> shareRequest \<Rightarrow> string + 's" where
  "decode_share R req =
     (if shr_SessionID req = '''' \<or> shr_TrusteeIndex req < 1 \<or> shr_Share req = '''' then Inl ''missing required fields''
      else case hex_decode (shr_Share req) of
        None \<Rightarrow> Inl ''invalid share''
      | Some shareBytes \<Rightarrow>
          if length shareBytes \<noteq> 32 then Inl ''invalid share''
          else (case DecodeScalar R shareBytes of Inl _ \<Rightarrow> Inl ''invalid scalar'' | Inr s \<Rightarrow> Inr s))"

text \<open>
  After a share met the threshold: read the session, and the shares to interpolate when it has no
  codes yet.
\<close>

definition collect_shares ::
  "('s, 'e) verify_env \<Rightarrow> instant \<Rightarrow> string \<Rightarrow> 's SessionStore \<Rightarrow> string + (int \<times> nat) list option" where
  "collect_shares ve now sid st =
     (case Get now sid st of
        None \<Rightarrow> Inl ''session disappeared''
      | Some sess \<Rightarrow> if Codes sess = None then Inr (Some (reorder (ve_order ve) (Shares sess))) else Inr None)"

text \<open>Interpolate the scalars at the addresses, store the codes and zero the shares.\<close>

definition reconstruct ::
  "('s::field, 'e) verify_env \<Rightarrow> VerificationHandler \<Rightarrow> string \<Rightarrow> (int \<times> nat) list \<Rightarrow> 's SessionStore \<Rightarrow> bool \<times> 's SessionStore" where
  "reconstruct ve h sid shares st =
     (case LagrangeInterpolate (ve_prims ve) (map (\<lambda>(_, a). Some (scalars st a)) shares) (map fst shares) of
        Inl _ \<Rightarrow> (False, st)
      | Inr masterSecret \<Rightarrow>
          let (a, st) = alloc masterSecret st;
              codes = cm_Codes (GenerateCodeMapping (ve_hmac ve) (ve_sbytes ve) sid (parties h) masterSecret);
              st = SetCodes sid codes (Some a) st
          in (True, st\<lparr>scalars := zero_all (map snd shares) (scalars st)\<rparr>))"

definition HandleSubmitShare ::
  "('s::field, 'e) verify_env \<Rightarrow> VerificationHandler \<Rightarrow> (bytes \<Rightarrow> shareRequest option) \<Rightarrow> instant \<Rightarrow> bytes \<Rightarrow> 's SessionStore
    \<Rightarrow> shareResponse response \<times> 's SessionStore" where
  "HandleSubmitShare ve h decode now body st =
     (case decode (take 65536 body) of
        None \<Rightarrow> (Failure 400 ''invalid body'', st)
      | Some req \<Rightarrow>
          (case decode_share (ve_prims ve) req of
             Inl e \<Rightarrow> (Failure 400 e, st)
           | Inr share \<Rightarrow>
               let (a, st) = alloc share st in
               (case AddShare (shr_SessionID req) (shr_TrusteeIndex req) a st of
                  (None, st) \<Rightarrow> (Failure 404 ''session not found'', st)
                | (Some (n, False), st) \<Rightarrow> (Success StatusOK \<lparr>shares_received = n, threshold_met = False\<rparr>, st)
                | (Some (n, True), st) \<Rightarrow>
                    (case collect_shares ve now (shr_SessionID req) st of
                       Inl e \<Rightarrow> (Failure 500 e, st)
                     | Inr None \<Rightarrow> (Success StatusOK \<lparr>shares_received = n, threshold_met = True\<rparr>, st)
                     | Inr (Some shares) \<Rightarrow>
                         (case reconstruct ve h (shr_SessionID req) shares st of
                            (False, st) \<Rightarrow> (Failure 500 ''failed to reconstruct secret'', st)
                          | (True, st) \<Rightarrow> (Success StatusOK \<lparr>shares_received = n, threshold_met = True\<rparr>, st))))))"

section \<open>Return codes\<close>

record verifyRequest =
  vr_SessionID :: string
  vr_EncryptedBallot :: bytes

definition HandleVerify ::
  "('s, 'e) verify_env \<Rightarrow> (bytes \<Rightarrow> verifyRequest option) \<Rightarrow> instant \<Rightarrow> bytes \<Rightarrow> 's SessionStore \<Rightarrow> string response \<times> 's SessionStore" where
  "HandleVerify ve decode now body st =
     (case decode (take 65536 body) of
        None \<Rightarrow> (Failure 400 ''invalid body'', st)
      | Some req \<Rightarrow>
          (case Get now (vr_SessionID req) st of
             None \<Rightarrow> (Failure 404 ''invalid session'', st)
           | Some sess \<Rightarrow>
               if Verified sess then (Failure 409 ''session already verified'', st)
               else (case (Codes sess, MasterSecret sess) of
                  (Some _, Some a) \<Rightarrow>
                    let returnCode = DeriveReturnCode (ve_hmac ve) (ve_sbytes ve) (scalars st a) (vr_SessionID req) (vr_EncryptedBallot req)
                    in (Success StatusOK returnCode, snd (MarkVerified (vr_SessionID req) st))
                | _ \<Rightarrow> (Failure 412 ''threshold not yet met, codes unavailable'', st))))"

definition HandleHealth :: "'s SessionStore \<Rightarrow> (string \<times> nat) response" where
  "HandleHealth st = Success StatusOK (''ok'', Count st)"

section \<open>Start-up\<close>

text \<open>\<open>envIntOr\<close>: an empty or non-decimal value is the fallback; the number is an \<open>int\<close> and wraps.\<close>

definition envIntOr :: "string \<Rightarrow> int \<Rightarrow> int" where
  "envIntOr v fallback =
     (if v = '''' then fallback
      else if list_all (\<lambda>c. 48 \<le> (of_char c :: nat) \<and> (of_char c :: nat) \<le> 57) v
      then sint (foldl (\<lambda>n c. n * 10 + of_nat (of_char c - 48)) (0 :: 64 word) v)
      else fallback)"

record verify_config =
  DevMode :: bool
  VerificationAPIKey :: string
  TrusteeThreshold :: int
  TrusteeTotal :: int

text \<open>How the shares endpoint is reachable: with the key, unprotected, or not at all.\<close>

datatype share_route = WithKey string | Unprotected | NoRoute

definition verification_startup ::
  "('s::field, 'e) prims \<Rightarrow> verify_config \<Rightarrow> string list \<Rightarrow> 's tape \<Rightarrow> (VerificationHandler \<times> 's SessionStore \<times> share_route) option" where
  "verification_startup R cfg party_names tape =
     (if \<not> DevMode cfg \<and> VerificationAPIKey cfg = '''' then None
      else if TrusteeThreshold cfg < 1 \<or> TrusteeTotal cfg < TrusteeThreshold cfg then None
      else if party_names = [] then None
      else
        let h = \<lparr>parties = party_names, vthreshold = TrusteeThreshold cfg, devSecret = None\<rparr>;
            st = NewStore (\<lambda>_. 0) 0;
            route = (if VerificationAPIKey cfg \<noteq> '''' then WithKey (VerificationAPIKey cfg) else if DevMode cfg then Unprotected else NoRoute)
        in if DevMode cfg then
             (case bindE (NewDealer R (TrusteeThreshold cfg) (TrusteeTotal cfg) tape) (\<lambda>(d, _). Secret d) of
                Inl _ \<Rightarrow> None
              | Inr s \<Rightarrow> (case alloc s st of (a, st) \<Rightarrow> Some (h\<lparr>devSecret := Some a\<rparr>, st, route)))
           else Some (h, st, route))"

end
