(* ===== verification/Verification_Props.thy ===== *)
theory Verification_Props
  imports Verification_Handler Group_Instance
begin

text \<open>
  What the verification service guarantees: a quorum of honest shares gives the codes of the shared
  secret, a session gives out one return code; and three ways the shared pointers and the
  unchecked indices of the code break it.
\<close>

section \<open>Collecting shares\<close>

text \<open>An unexpired session that waits for shares, with honest shares of \<open>F\<close> collected so far.\<close>

definition collected :: "'s::field list \<Rightarrow> string \<Rightarrow> Session \<Rightarrow> (int \<times> nat) list \<Rightarrow> 's SessionStore \<Rightarrow> bool" where
  "collected F sid sess shs st \<longleftrightarrow>
     find_session st sid = Some (sess\<lparr>Shares := shs\<rparr>) \<and> \<not> ThresholdMet sess \<and> Codes sess = None
     \<and> distinct (map fst shs) \<and> (\<forall>(i, a) \<in> set shs. valid_index i \<and> a < next_addr st \<and> scalars st a = peval F (of_int i))"

definition honest_share :: "('s::field, 'e) prims \<Rightarrow> (bytes \<Rightarrow> shareRequest option) \<Rightarrow> 's list \<Rightarrow> string \<Rightarrow> int \<Rightarrow> bytes \<Rightarrow> bool" where
  "honest_share R decode F sid i body \<longleftrightarrow> valid_index i \<and>
     (\<exists>req. decode (take 65536 body) = Some req \<and> decode_share R req = Inr (peval F (of_int i))
        \<and> shr_SessionID req = sid \<and> shr_TrusteeIndex req = i)"

definition submit_shares ::
  "('s::field, 'e) verify_env \<Rightarrow> VerificationHandler \<Rightarrow> (bytes \<Rightarrow> shareRequest option) \<Rightarrow> instant \<Rightarrow> bytes list \<Rightarrow> 's SessionStore \<Rightarrow> 's SessionStore" where
  "submit_shares ve h decode now bodies st = foldl (\<lambda>st body. snd (HandleSubmitShare ve h decode now body st)) st bodies"

lemma AddShare_collected:
  assumes "collected F sid sess shs st" "i \<notin> fst ` set shs"
  shows "AddShare sid i a (snd (alloc v st)) =
    (let met = (sess_Threshold sess \<le> int (length shs + 1)) in
     (Some (length shs + 1, met), put_session sid (sess\<lparr>Shares := shs @ [(i, a)], ThresholdMet := met\<rparr>) (snd (alloc v st))))"
proof -
  have "map_of shs i = None" using assms(2) by (simp add: map_of_eq_None_iff)
  then show ?thesis using assms(1) by (simp add: AddShare_def collected_def Let_def)
qed

lemma submit_below_threshold:
  assumes c: "collected F sid sess shs st" and i: "i \<notin> fst ` set shs" and req: "honest_share (ve_prims ve) decode F sid i body"
    and below: "int (length shs + 1) < sess_Threshold sess"
  shows "collected F sid sess (shs @ [(i, next_addr st)]) (snd (HandleSubmitShare ve h decode now body st))"
proof -
  from req obtain r where r: "decode (take 65536 body) = Some r" "decode_share (ve_prims ve) r = Inr (peval F (of_int i))"
    "shr_SessionID r = sid" "shr_TrusteeIndex r = i" "valid_index i" by (auto simp: honest_share_def)
  have "snd (HandleSubmitShare ve h decode now body st) =
      put_session sid (sess\<lparr>Shares := shs @ [(i, next_addr st)], ThresholdMet := False\<rparr>) (snd (alloc (peval F (of_int i)) st))"
    using AddShare_collected [OF c i, of "next_addr st" "peval F (of_int i)"] below
    by (simp add: HandleSubmitShare_def r case_prod_beta Let_def)
  moreover have "sess\<lparr>Shares := shs @ [(i, next_addr st)], ThresholdMet := False\<rparr> = sess\<lparr>Shares := shs @ [(i, next_addr st)]\<rparr>"
    using c by (cases sess) (simp add: collected_def)
  ultimately show ?thesis using c i r(5) by (auto simp: collected_def less_Suc_eq)
qed

section \<open>Reconstruction\<close>

lemma reconstruct_shares:
  assumes R: "ristretto (ve_prims ve)"
    and shs: "distinct (map fst shs)" "\<forall>(i, a) \<in> set shs. valid_index i \<and> a < next_addr st \<and> scalars st a = peval F (of_int i)"
      "length F \<le> length shs" "shs \<noteq> []" and sess: "find_session st sid = Some sess"
  shows "\<exists>st'. reconstruct ve h sid shs st = (True, st')
    \<and> find_session st' sid = Some (sess\<lparr>Codes := Some (cm_Codes (GenerateCodeMapping (ve_hmac ve) (ve_sbytes ve) sid (parties h) (peval F 0))),
        MasterSecret := Some (next_addr st)\<rparr>)
    \<and> scalars st' (next_addr st) = peval F 0 \<and> (\<forall>(i, a) \<in> set shs. scalars st' a = 0) \<and> next_addr st' = Suc (next_addr st)"
proof -
  have eq: "map (\<lambda>(_, a). Some (scalars st a)) shs = map (\<lambda>i. Some (peval F (of_int i))) (map fst shs)"
    using shs(2) by auto
  have "\<forall>i \<in> set (map fst shs). valid_index i" "length F \<le> length (map fst shs)" "map fst shs \<noteq> []" using shs by auto
  from LagrangeInterpolate_shares [OF R this(1) shs(1) this(2,3)]
  have L: "LagrangeInterpolate (ve_prims ve) (map (\<lambda>(_, a). Some (scalars st a)) shs) (map fst shs) = Inr (peval F 0)"
    unfolding eq .
  have "next_addr st \<notin> set (map snd shs)" using shs(2) by auto
  then show ?thesis
    using sess by (auto simp: reconstruct_def L case_prod_beta SetCodes_def Let_def image_iff split_beta)
qed

lemma submit_at_threshold:
  assumes R: "ristretto (ve_prims ve)" and c: "collected F sid sess shs st" and i: "i \<notin> fst ` set shs"
    and req: "honest_share (ve_prims ve) decode F sid i body"
    and at: "int (length shs + 1) = sess_Threshold sess" "length F \<le> length shs + 1" and live: "now \<le> ExpiresAt sess"
  shows "\<exists>sess' a. find_session (snd (HandleSubmitShare ve h decode now body st)) sid = Some sess'
    \<and> Codes sess' = Some (cm_Codes (GenerateCodeMapping (ve_hmac ve) (ve_sbytes ve) sid (parties h) (peval F 0)))
    \<and> MasterSecret sess' = Some a \<and> scalars (snd (HandleSubmitShare ve h decode now body st)) a = peval F 0
    \<and> (\<forall>(j, b) \<in> set (Shares sess'). scalars (snd (HandleSubmitShare ve h decode now body st)) b = 0)
    \<and> length (Shares sess') = length shs + 1 \<and> ExpiresAt sess' = ExpiresAt sess \<and> Verified sess' = Verified sess
    \<and> status_of (fst (HandleSubmitShare ve h decode now body st)) = StatusOK"
proof -
  from req obtain r where r: "decode (take 65536 body) = Some r" "decode_share (ve_prims ve) r = Inr (peval F (of_int i))"
    "shr_SessionID r = sid" "shr_TrusteeIndex r = i" "valid_index i" by (auto simp: honest_share_def)
  let ?all = "shs @ [(i, next_addr st)]"
  let ?st = "put_session sid (sess\<lparr>Shares := ?all, ThresholdMet := True\<rparr>) (snd (alloc (peval F (of_int i)) st))"
  let ?shs = "reorder (ve_order ve) ?all"
  have add: "AddShare sid i (next_addr st) (snd (alloc (peval F (of_int i)) st)) = (Some (length shs + 1, True), ?st)"
    using AddShare_collected [OF c i, of "next_addr st" "peval F (of_int i)"] at by simp
  have collect: "collect_shares ve now sid ?st = Inr (Some ?shs)"
    using live c by (simp add: collect_shares_def Get_def collected_def)
  have all: "\<forall>(j, b) \<in> set ?all. valid_index j \<and> b < next_addr ?st \<and> scalars ?st b = peval F (of_int j)"
    using c r(5) by (auto simp: collected_def)
  have "distinct (map fst ?all)" using c i by (auto simp: collected_def)
  then have shs: "distinct (map fst ?shs)" "\<forall>(j, b) \<in> set ?shs. valid_index j \<and> b < next_addr ?st \<and> scalars ?st b = peval F (of_int j)"
    "length F \<le> length ?shs" using all at(2) by (simp_all only: distinct_map_reorder set_reorder length_reorder length_append list.size)
  have "length ?shs \<noteq> 0" by (simp only: length_reorder length_append list.size)
  then have "?shs \<noteq> []" by (simp only: length_0_conv not_False_eq_True)
  then obtain st' where
    rec: "reconstruct ve h sid ?shs ?st = (True, st')"
    and st': "find_session st' sid = Some (sess\<lparr>Shares := ?all, ThresholdMet := True, Codes := Some (cm_Codes (GenerateCodeMapping (ve_hmac ve) (ve_sbytes ve) sid (parties h) (peval F 0))),
        MasterSecret := Some (next_addr ?st)\<rparr>)" "scalars st' (next_addr ?st) = peval F 0" "\<forall>(j, b) \<in> set ?shs. scalars st' b = 0"
    using reconstruct_shares [OF R shs _ _, of sid "sess\<lparr>Shares := ?all, ThresholdMet := True\<rparr>" h] by auto
  have "HandleSubmitShare ve h decode now body st = (Success StatusOK \<lparr>shares_received = length shs + 1, threshold_met = True\<rparr>, st')"
    by (simp add: HandleSubmitShare_def r case_prod_beta add collect rec Let_def del: alloc_simps(1-3))
  then show ?thesis using st' by auto
qed

lemma submit_quorum:
  assumes R: "ristretto (ve_prims ve)" and t: "sess_Threshold sess = int t" "length F \<le> t" and live: "now \<le> ExpiresAt sess"
    and c: "collected F sid sess shs st" and n: "length shs + length bodies = t" "bodies \<noteq> []"
    and reqs: "list_all2 (honest_share (ve_prims ve) decode F sid) idxs bodies" "distinct idxs" "set idxs \<inter> fst ` set shs = {}"
  shows "\<exists>sess' a. find_session (submit_shares ve h decode now bodies st) sid = Some sess'
    \<and> Codes sess' = Some (cm_Codes (GenerateCodeMapping (ve_hmac ve) (ve_sbytes ve) sid (parties h) (peval F 0)))
    \<and> MasterSecret sess' = Some a \<and> scalars (submit_shares ve h decode now bodies st) a = peval F 0
    \<and> (\<forall>(j, b) \<in> set (Shares sess'). scalars (submit_shares ve h decode now bodies st) b = 0)
    \<and> length (Shares sess') = t \<and> ExpiresAt sess' = ExpiresAt sess \<and> Verified sess' = Verified sess"
  using c n reqs
proof (induction bodies arbitrary: shs st idxs)
  case (Cons body rest)
  from Cons.prems(4) obtain i is' where idxs: "idxs = i # is'" "honest_share (ve_prims ve) decode F sid i body"
    "list_all2 (honest_share (ve_prims ve) decode F sid) is' rest" by (cases idxs) auto
  have i: "i \<notin> fst ` set shs" using Cons.prems(6) idxs(1) by auto
  show ?case
  proof (cases "rest = []")
    case True
    then show ?thesis
      using submit_at_threshold [OF R Cons.prems(1) i idxs(2) _ _ live, of h] t Cons.prems(2) by (auto simp: submit_shares_def)
  next
    case False
    have "length shs + 1 < t" using Cons.prems(2) False by (cases rest) auto
    then have "int (length shs + 1) < sess_Threshold sess" using t(1) by simp
    from submit_below_threshold [OF Cons.prems(1) i idxs(2) this]
    have "collected F sid sess (shs @ [(i, next_addr st)]) (snd (HandleSubmitShare ve h decode now body st))" .
    from Cons.IH [OF this _ False idxs(3)] Cons.prems(2,5,6) idxs(1) show ?thesis by (auto simp: submit_shares_def)
  qed
qed simp

section \<open>Runs of the service\<close>

text \<open>
  One request or one pass of the cleanup; \<open>X\<close> are session IDs that the random generator does not
  draw again.
\<close>

inductive verification_step ::
  "('s::field, 'e) verify_env \<Rightarrow> VerificationHandler \<Rightarrow> string set \<Rightarrow> 's SessionStore \<Rightarrow> 's SessionStore \<Rightarrow> bool" for ve h X where
  create: "\<forall>sid \<in> X. generateID rand \<noteq> Some sid \<Longrightarrow> verification_step ve h X st (snd (HandleCreateSession ve h rand now st))"
| share: "verification_step ve h X st (snd (HandleSubmitShare ve h decode now body st))"
| verify: "verification_step ve h X st (snd (HandleVerify ve decode' now body st))"
| cleanup: "verification_step ve h X st (removeExpired now st)"

text \<open>Stores as the code can have them: a map has every key once.\<close>

definition store_ok :: "'s SessionStore \<Rightarrow> bool" where
  "store_ok st \<longleftrightarrow> distinct (map fst (sessions st))"

lemma store_ok_simps [simp]:
  "store_ok st \<Longrightarrow> store_ok (put_session sid sess st)" "store_ok (NewStore heap n)"
  "store_ok (st\<lparr>scalars := f\<rparr>) = store_ok st" "store_ok (snd (alloc v st)) = store_ok st"
  by (simp_all add: store_ok_def put_session_def NewStore_def alloc_def distinct_update)

lemma store_ok_SetCodes [simp]: "store_ok st \<Longrightarrow> store_ok (SetCodes sid c m st)"
  by (simp add: SetCodes_def split: option.splits)

lemma scalars_SetCodes [simp]: "scalars (SetCodes sid c m st) = scalars st"
  by (simp add: SetCodes_def split: option.splits)

lemma store_ok_reconstruct: "store_ok st \<Longrightarrow> store_ok (snd (reconstruct ve h sid shs st))"
  by (simp add: reconstruct_def Let_def case_prod_beta split: sum.splits)

lemma store_ok_AddShare: "store_ok st \<Longrightarrow> store_ok (snd (AddShare sid i a st))"
  by (simp add: AddShare_def Let_def split: option.splits)

text \<open>What a share submission does to the store: the new scalar, then the share, then the reconstruction.\<close>

lemma HandleSubmitShare_cases:
  obtains "snd (HandleSubmitShare ve h decode now body st) = st"
  | v sid i where "snd (HandleSubmitShare ve h decode now body st) = snd (AddShare sid i (next_addr st) (snd (alloc v st)))"
  | v sid i shs where "snd (HandleSubmitShare ve h decode now body st)
      = snd (reconstruct ve h sid shs (snd (AddShare sid i (next_addr st) (snd (alloc v st)))))"
proof -
  show ?thesis
  proof (cases "decode (take 65536 body)")
    case None
    then show ?thesis using that(1) by (simp add: HandleSubmitShare_def)
  next
    case (Some req)
    show ?thesis
    proof (cases "decode_share (ve_prims ve) req")
      case (Inl e)
      then show ?thesis using that(1) Some by (simp add: HandleSubmitShare_def)
    next
      case (Inr v)
      let ?i = "shr_TrusteeIndex req" and ?sid = "shr_SessionID req"
      obtain r st1 where add: "AddShare ?sid ?i (next_addr st) (snd (alloc v st)) = (r, st1)" by fastforce
      note handler = HandleSubmitShare_def [of ve h decode now body st] Some Inr case_prod_beta [of _ "alloc v st"] Let_def alloc_simps(4) add
      show ?thesis
      proof (cases "r = None \<or> snd (the r) = False")
        case True
        then have "snd (HandleSubmitShare ve h decode now body st) = st1"
          by (auto simp: handler split: option.splits bool.splits)
        then show ?thesis using that(2) [of ?sid ?i v] add by simp
      next
        case False
        then obtain n where r: "r = Some (n, True)" by auto
        show ?thesis
        proof (cases "\<exists>shs. collect_shares ve now ?sid st1 = Inr (Some shs)")
          case True
          then obtain shs where shs: "collect_shares ve now ?sid st1 = Inr (Some shs)" ..
          obtain ok st2 where rec: "reconstruct ve h ?sid shs st1 = (ok, st2)" by fastforce
          have "snd (HandleSubmitShare ve h decode now body st) = st2"
            by (auto simp: handler r shs rec split: bool.splits)
          then show ?thesis using that(3) [of ?sid shs ?i v] add rec by simp
        next
          case False
          then have "snd (HandleSubmitShare ve h decode now body st) = st1"
            by (auto simp: handler r split: sum.splits option.splits)
          then show ?thesis using that(2) [of ?sid ?i v] add by simp
        qed
      qed
    qed
  qed
qed

lemma store_ok_submit: "store_ok st \<Longrightarrow> store_ok (snd (HandleSubmitShare ve h decode now body st))"
  by (rule HandleSubmitShare_cases [of ve h decode now body st]) (simp_all add: store_ok_AddShare store_ok_reconstruct)

lemma store_ok_step: "verification_step ve h X st st' \<Longrightarrow> store_ok st \<Longrightarrow> store_ok st'"
proof (induction rule: verification_step.induct)
  case (create rand st now)
  then show ?case by (auto simp: HandleCreateSession_def Create_def Let_def split: option.splits)
next
  case (verify st decode' now body)
  then show ?case by (auto simp: HandleVerify_def MarkVerified_def Let_def split: option.splits)
next
  case (cleanup st now)
  then show ?case by (simp add: store_ok_def removeExpired_def Let_def distinct_map_filter)
qed (rule store_ok_submit)

lemma store_ok_run: "(verification_step ve h X)\<^sup>*\<^sup>* st st' \<Longrightarrow> store_ok st \<Longrightarrow> store_ok st'"
  by (induction rule: rtranclp_induct) (auto intro: store_ok_step)

text \<open>Once a session is verified it stays so until it is gone.\<close>

definition spent :: "string \<Rightarrow> 's SessionStore \<Rightarrow> bool" where
  "spent sid st \<longleftrightarrow> (\<forall>sess. find_session st sid = Some sess \<longrightarrow> Verified sess)"

lemma spent_put [simp]: "spent sid (put_session sid' sess st) \<longleftrightarrow> (if sid' = sid then Verified sess else spent sid st)"
  by (auto simp: spent_def)

lemma spent_heap [simp]: "spent sid (st\<lparr>scalars := f\<rparr>) = spent sid st" "spent sid (snd (alloc v st)) = spent sid st"
  by (simp_all add: spent_def)

lemma spent_SetCodes: "spent sid st \<Longrightarrow> spent sid (SetCodes sid' c m st)"
  by (auto simp: SetCodes_def spent_def split: option.splits)

lemma spent_AddShare: "spent sid st \<Longrightarrow> spent sid (snd (AddShare sid' i a st))"
  by (auto simp: AddShare_def spent_def Let_def split: option.splits)

lemma spent_reconstruct: "spent sid st \<Longrightarrow> spent sid (snd (reconstruct ve h sid' shs st))"
  by (simp add: reconstruct_def Let_def case_prod_beta spent_SetCodes split: sum.splits)

lemma spent_step: "verification_step ve h {sid} st st' \<Longrightarrow> store_ok st \<Longrightarrow> spent sid st \<Longrightarrow> spent sid st'"
proof (induction rule: verification_step.induct)
  case (create rand st now)
  then show ?case by (auto simp: HandleCreateSession_def Create_def Let_def spent_SetCodes split: option.splits)
next
  case (share st decode now body)
  show ?case
    by (rule HandleSubmitShare_cases [of ve h decode now body st])
      (simp_all add: share spent_AddShare spent_reconstruct)
next
  case (verify st decode' now body)
  then show ?case by (auto simp: HandleVerify_def MarkVerified_def Let_def split: option.splits)
next
  case (cleanup st now)
  then show ?case by (auto simp: spent_def store_ok_def find_removeExpired Get_def split: option.splits if_splits)
qed

lemma spent_run: "(verification_step ve h {sid})\<^sup>*\<^sup>* st st' \<Longrightarrow> store_ok st \<Longrightarrow> spent sid st \<Longrightarrow> spent sid st'"
proof (induction rule: rtranclp_induct)
  case (step st' st'')
  then show ?case using spent_step store_ok_run by blast
qed simp

section \<open>An example\<close>

definition zp_ve :: "(scalar, scalar) verify_env" where
  "zp_ve = \<lparr>ve_prims = Zp, ve_hmac = (\<lambda>_ _. 0), ve_sbytes = zp_encode, ve_order = rev\<rparr>"

definition zp_handler :: VerificationHandler where
  "zp_handler = \<lparr>parties = [''A'', ''B''], vthreshold = 2, devSecret = None\<rparr>"

text \<open>A request is its trustee's index as one byte; the session is \<open>00\<close>, the polynomial \<open>5 + x\<close>.\<close>

definition zp_share_request :: "bytes \<Rightarrow> shareRequest option" where
  "zp_share_request bs = (case bs of [] \<Rightarrow> None
     | b # _ \<Rightarrow> Some \<lparr>shr_SessionID = ''00'', shr_TrusteeIndex = uint b, shr_Share = hex_encode (zp_encode (peval [5, 1] (of_int (uint b))))\<rparr>)"

lemma decode_share_Zp:
  "0 < i \<Longrightarrow> sid \<noteq> '''' \<Longrightarrow> decode_share Zp \<lparr>shr_SessionID = sid, shr_TrusteeIndex = i, shr_Share = hex_encode (zp_encode v)\<rparr> = Inr v"
proof -
  have "hex_encode (zp_encode v) \<noteq> ''''"
    using length_zp_encode [of v] by (cases "zp_encode v") (auto simp: hex_encode_def)
  moreover have "DecodeScalar Zp (zp_encode v) = Inr v"
    by (simp add: DecodeScalar_def length_zp_encode Zp_def zp_decode_encode)
  moreover assume "0 < i" "sid \<noteq> ''''"
  ultimately show ?thesis by (simp add: decode_share_def length_zp_encode)
qed

lemma zp_shares: "list_all2 (honest_share (ve_prims zp_ve) zp_share_request [5, 1] ''00'') [3, 1] [[3], [1]]"
  using decode_share_Zp by (simp add: zp_ve_def honest_share_def zp_share_request_def valid_index_def)

lemma zp_created:
  "HandleCreateSession zp_ve zp_handler (Some [0]) 0 (NewStore (\<lambda>_. 0) 0) =
    (Success StatusOK \<lparr>cr_session_id = ''00'', code_mapping = None\<rparr>,
     put_session ''00'' \<lparr>sess_ID = ''00'', CreatedAt = 0, ExpiresAt = SessionTTL, Verified = False, Shares = [], MasterSecret = None,
        ThresholdMet = False, Codes = None, sess_Threshold = 2\<rparr> (NewStore (\<lambda>_. 0) 0))"
proof -
  have "hex_encode [0] = ''00''" by code_simp
  then show ?thesis by (simp add: HandleCreateSession_def Create_def generateID_def zp_handler_def Let_def)
qed

definition zp_dev :: VerificationHandler where
  "zp_dev = \<lparr>parties = [''A''], vthreshold = 2, devSecret = Some 0\<rparr>"

definition dev_session :: "string \<Rightarrow> instant \<Rightarrow> scalar \<Rightarrow> Session" where
  "dev_session sid t0 secret = \<lparr>sess_ID = sid, CreatedAt = t0, ExpiresAt = t0 + SessionTTL, Verified = False, Shares = [], MasterSecret = Some 0,
     ThresholdMet = False, Codes = Some (cm_Codes (GenerateCodeMapping (\<lambda>_ _. 0) zp_encode sid [''A''] secret)), sess_Threshold = 2\<rparr>"

lemma dev_created:
  "HandleCreateSession zp_ve zp_dev (Some [b]) t0 st =
    (Success StatusOK \<lparr>cr_session_id = hex_encode [b], code_mapping = Codes (dev_session (hex_encode [b]) t0 (scalars st 0))\<rparr>,
     put_session (hex_encode [b]) (dev_session (hex_encode [b]) t0 (scalars st 0))
       (put_session (hex_encode [b]) (dev_session (hex_encode [b]) t0 (scalars st 0)\<lparr>MasterSecret := None, Codes := None\<rparr>) st))"
  by (simp add: HandleCreateSession_def Create_def generateID_def zp_dev_def zp_ve_def Let_def SetCodes_def dev_session_def)

section \<open>Properties\<close>

text \<open>
  C32.  A quorum of trustees unlocks a session.  When a session of the production mode has been
  created and as many trustees as the threshold, in any order and any choice of them, send their
  shares of a polynomial of lower degree before it expires, the session has the code of every
  party under the value of the polynomial at 0, the shares are zeroed, and a ballot gets the
  return code under that secret.
\<close>

theorem session_codes_from_quorum:
  assumes "ristretto (ve_prims ve)" "devSecret h = None" "vthreshold h = int (length idxs)" "idxs \<noteq> []"
    and "HandleCreateSession ve h rand t0 st0 = (Success StatusOK resp, st)" "now \<le> t0 + SessionTTL"
    and "length F \<le> length idxs" "distinct idxs" "list_all2 (honest_share (ve_prims ve) decode F (cr_session_id resp)) idxs bodies"
    and "decode' (take 65536 body) = Some \<lparr>vr_SessionID = cr_session_id resp, vr_EncryptedBallot = eb\<rparr>"
  shows "\<exists>sess. find_session (submit_shares ve h decode now bodies st) (cr_session_id resp) = Some sess
    \<and> Codes sess = Some (cm_Codes (GenerateCodeMapping (ve_hmac ve) (ve_sbytes ve) (cr_session_id resp) (parties h) (peval F 0)))
    \<and> length (Shares sess) = length idxs \<and> (\<forall>(i, a) \<in> set (Shares sess). scalars (submit_shares ve h decode now bodies st) a = 0)
    \<and> fst (HandleVerify ve decode' now body (submit_shares ve h decode now bodies st))
      = Success StatusOK (DeriveReturnCode (ve_hmac ve) (ve_sbytes ve) (peval F 0) (cr_session_id resp) eb)"
proof -
  let ?sid = "cr_session_id resp" and ?st = "submit_shares ve h decode now bodies st"
  from assms(2,5) obtain sess where sess: "find_session st ?sid = Some sess" "Shares sess = []" "\<not> ThresholdMet sess" "Codes sess = None"
    "\<not> Verified sess" "sess_Threshold sess = vthreshold h" "ExpiresAt sess = t0 + SessionTTL"
    by (auto simp: HandleCreateSession_def Create_def Let_def split: option.splits)
  have "sess\<lparr>Shares := []\<rparr> = sess" using sess(2) by (cases sess) simp
  then have c: "collected F ?sid sess [] st" using sess by (simp add: collected_def)
  have "length bodies = length idxs" using assms(9) by (simp add: list_all2_lengthD)
  with submit_quorum [OF assms(1) _ assms(7) _ c _ _ assms(9,8), of now h] sess assms(3,4,6) obtain sess' a where
    s': "find_session ?st ?sid = Some sess'" "Codes sess' = Some (cm_Codes (GenerateCodeMapping (ve_hmac ve) (ve_sbytes ve) ?sid (parties h) (peval F 0)))"
      "MasterSecret sess' = Some a" "scalars ?st a = peval F 0" "\<forall>(j, b) \<in> set (Shares sess'). scalars ?st b = 0"
      "length (Shares sess') = length idxs" "ExpiresAt sess' = t0 + SessionTTL" "\<not> Verified sess'" by fastforce
  then have "Get now ?sid ?st = Some sess'" using assms(6) by (simp add: Get_def)
  then have "fst (HandleVerify ve decode' now body ?st) = Success StatusOK (DeriveReturnCode (ve_hmac ve) (ve_sbytes ve) (peval F 0) ?sid eb)"
    using s' assms(10) by (simp add: HandleVerify_def Let_def)
  with s' show ?thesis by blast
qed

theorem session_codes_from_quorum_witness:
  "\<exists>st. fst (HandleVerify zp_ve (\<lambda>_. Some \<lparr>vr_SessionID = ''00'', vr_EncryptedBallot = [7]\<rparr>) 10 [] st)
    = Success StatusOK (DeriveReturnCode (\<lambda>_ _. 0) zp_encode (5 :: scalar) ''00'' [7])"
proof -
  have zp: "ristretto (ve_prims zp_ve)" "devSecret zp_handler = None" "vthreshold zp_handler = int (length [3, 1 :: int])"
    "(10 :: int) \<le> 0 + SessionTTL" "length [5, 1 :: scalar] \<le> length [3, 1 :: int]" "distinct [3, 1 :: int]"
    by (simp_all add: zp_ve_def ristretto_Zp zp_handler_def SessionTTL_def)
  have "peval [5, 1] 0 = (5 :: scalar)" "ve_hmac zp_ve = (\<lambda>_ _. 0)" "ve_sbytes zp_ve = zp_encode" by (simp_all add: zp_ve_def)
  with session_codes_from_quorum [OF zp(1-3) _ zp_created zp(4-6), of zp_share_request "[[3], [1]]"
      "\<lambda>_. Some \<lparr>vr_SessionID = ''00'', vr_EncryptedBallot = [7]\<rparr>" "[]" "[7]"] zp_shares
  show ?thesis by fastforce
qed

text \<open>
  C33.  A session gives out one return code.  After a request got a code, whatever requests and
  cleanups follow, every other request for the session is refused and changes nothing, as long
  as the random generator does not draw the same session ID again.
\<close>

theorem one_return_code:
  assumes "(verification_step ve h {})\<^sup>*\<^sup>* (NewStore heap n) st"
    and "HandleVerify ve decode now body st = (Success c code, st1)" "decode (take 65536 body) = Some req"
    and "(verification_step ve h {vr_SessionID req})\<^sup>*\<^sup>* st1 st2"
    and "decode' (take 65536 body') = Some req'" "vr_SessionID req' = vr_SessionID req"
  shows "status_of (fst (HandleVerify ve decode' now' body' st2)) \<in> {404, 409} \<and> snd (HandleVerify ve decode' now' body' st2) = st2"
proof -
  have ok: "store_ok st" using store_ok_run [OF assms(1)] by simp
  have "spent (vr_SessionID req) st1"
    using assms(2,3) by (auto simp: HandleVerify_def MarkVerified_def Get_def spent_def Let_def split: option.splits if_splits)
  moreover have "verification_step ve h {} st st1" using verify [of ve h "{}" st decode now body] assms(2) by simp
  then have "store_ok st1" using ok store_ok_step by blast
  ultimately have "spent (vr_SessionID req) st2" using spent_run [OF assms(4)] by blast
  then show ?thesis
    using assms(5,6) by (auto simp: HandleVerify_def Get_def spent_def split: option.splits)
qed

theorem one_return_code_witness:
  "status_of (fst (HandleVerify zp_ve (\<lambda>_. Some \<lparr>vr_SessionID = ''00'', vr_EncryptedBallot = [8]\<rparr>) 20 []
     (removeExpired 15 (snd (HandleVerify zp_ve (\<lambda>_. Some \<lparr>vr_SessionID = ''00'', vr_EncryptedBallot = [7]\<rparr>) 10 []
       (snd (HandleCreateSession zp_ve zp_dev (Some [0]) 0 (NewStore (\<lambda>_. 5) 1)))))))) \<in> {404, 409}"
proof -
  let ?st = "snd (HandleCreateSession zp_ve zp_dev (Some [0]) 0 (NewStore (\<lambda>_. 5) 1))"
  let ?st1 = "snd (HandleVerify zp_ve (\<lambda>_. Some \<lparr>vr_SessionID = ''00'', vr_EncryptedBallot = [7]\<rparr>) 10 [] ?st)"
  have hex: "hex_encode [0] = ''00''" by code_simp
  have "find_session ?st ''00'' = Some (dev_session ''00'' 0 5)" by (simp add: dev_created hex) (simp add: NewStore_def)
  then obtain code where
    got: "HandleVerify zp_ve (\<lambda>_. Some \<lparr>vr_SessionID = ''00'', vr_EncryptedBallot = [7]\<rparr>) 10 [] ?st = (Success StatusOK code, ?st1)"
    by (simp add: HandleVerify_def Get_def dev_session_def SessionTTL_def Let_def)
  have run: "(verification_step zp_ve zp_dev {})\<^sup>*\<^sup>* (NewStore (\<lambda>_. 5) 1) ?st" by (intro r_into_rtranclp create) simp
  have clean: "(verification_step zp_ve zp_dev {vr_SessionID \<lparr>vr_SessionID = ''00'', vr_EncryptedBallot = [7]\<rparr>})\<^sup>*\<^sup>* ?st1 (removeExpired 15 ?st1)"
    by (rule r_into_rtranclp) (rule cleanup)
  from one_return_code [OF run got refl clean, of "\<lambda>_. Some \<lparr>vr_SessionID = ''00'', vr_EncryptedBallot = [8]\<rparr>" "[]"
      "\<lparr>vr_SessionID = ''00'', vr_EncryptedBallot = [8]\<rparr>" 20]
  show ?thesis by simp
qed

text \<open>
  The development secret is zeroed by the cleanup.  In dev mode all sessions share one pointer
  to the secret; when the first of them expires the cleanup sets the scalar to zero, and the
  codes of every session created after it are the codes of the secret 0.
\<close>

theorem dev_secret_zeroed:
  assumes "store_ok st" "devSecret h = Some a" "HandleCreateSession ve h (Some r1) t0 st = (Success c resp, st1)"
    and "t0 + SessionTTL < now" "HandleCreateSession ve h (Some r2) now' (removeExpired now st1) = (Success c' resp', st2)"
  shows "code_mapping resp' = Some (cm_Codes (GenerateCodeMapping (ve_hmac ve) (ve_sbytes ve) (cr_session_id resp') (parties h) 0))"
proof -
  let ?sid = "hex_encode r1"
  from assms(2,3) obtain sess where s: "find_session st1 ?sid = Some sess" "MasterSecret sess = Some a" "ExpiresAt sess = t0 + SessionTTL"
    by (auto simp: HandleCreateSession_def Create_def generateID_def SetCodes_def Let_def)
  have "(?sid, sess) \<in> set (sessions st1)" using s(1) by (simp add: find_session_def map_of_SomeD)
  then have "a \<in> set (concat (map (secret_addrs \<circ> snd) (filter (\<lambda>(_, sess). ExpiresAt sess < now) (sessions st1))))"
    using s(2,3) assms(4) by (force simp: secret_addrs_def)
  then have "scalars (removeExpired now st1) a = 0" by (simp add: removeExpired_def Let_def)
  then show ?thesis
    using assms(2,5) by (auto simp: HandleCreateSession_def Create_def generateID_def Let_def)
qed

theorem dev_secret_zeroed_witness:
  "\<exists>resp st. HandleCreateSession zp_ve zp_dev (Some [1]) (3 * SessionTTL)
      (removeExpired (2 * SessionTTL) (snd (HandleCreateSession zp_ve zp_dev (Some [0]) 0 (NewStore (\<lambda>_. 5) 1)))) = (Success StatusOK resp, st)
    \<and> code_mapping resp = Some (cm_Codes (GenerateCodeMapping (ve_hmac zp_ve) (ve_sbytes zp_ve) (cr_session_id resp) (parties zp_dev) 0))"
proof -
  have "store_ok (NewStore (\<lambda>_. 5 :: scalar) 1)" "devSecret zp_dev = Some 0" "0 + SessionTTL < 2 * SessionTTL"
    by (simp_all add: zp_dev_def SessionTTL_def)
  from dev_secret_zeroed [OF this(1,2) dev_created [of 0 0] this(3) dev_created [of 1 "3 * SessionTTL"]] show ?thesis
    by (subst dev_created) (auto simp: dev_created)
qed

text \<open>
  C34.  Two requests that both see the threshold met can leave the codes of the secret 0.  The
  reconstruction runs outside the lock: if a retried submission reads the session before the
  first one has stored its codes and interpolates after the first one has zeroed the shares, it
  replaces the codes by those of the secret 0, whatever the shares were.
\<close>

theorem concurrent_quorum_zero_secret:
  assumes "ristretto (ve_prims ve)" "find_session st sid = Some sess" "Shares sess \<noteq> []" "distinct (map fst (Shares sess))"
    and "\<forall>(i, a) \<in> set (Shares sess). valid_index i \<and> a < next_addr st"
    and "collect_shares ve now sid st = Inr (Some shs1)" "collect_shares ve now' sid st = Inr (Some shs2)"
    and "reconstruct ve h sid shs1 st = (True, st1)" "reconstruct ve h sid shs2 st1 = (ok, st2)"
  shows "\<exists>sess'. find_session st2 sid = Some sess' \<and> ok
    \<and> Codes sess' = Some (cm_Codes (GenerateCodeMapping (ve_hmac ve) (ve_sbytes ve) sid (parties h) 0))"
proof -
  have shs: "shs1 = reorder (ve_order ve) (Shares sess)" "shs2 = reorder (ve_order ve) (Shares sess)"
    using assms(2,6,7) by (auto simp: collect_shares_def Get_def split: if_splits)
  from assms(8) obtain ms where st1: "st1 = (SetCodes sid (cm_Codes (GenerateCodeMapping (ve_hmac ve) (ve_sbytes ve) sid (parties h) ms)) (Some (next_addr st))
      (snd (alloc ms st)))\<lparr>scalars := zero_all (map snd shs1) ((scalars st)(next_addr st := ms))\<rparr>"
    by (auto simp: reconstruct_def Let_def case_prod_beta split: sum.splits)
  have after: "next_addr st1 = Suc (next_addr st)" "\<And>a. a \<in> snd ` set shs2 \<Longrightarrow> scalars st1 a = 0" "find_session st1 sid \<noteq> None"
    using assms(2) by (simp_all add: st1 shs SetCodes_def)
  then obtain s where s: "find_session st1 sid = Some s" by blast
  have all: "\<forall>(i, a) \<in> set shs2. valid_index i \<and> a < next_addr st1 \<and> scalars st1 a = peval [] (of_int i)"
  proof clarify
    fix i a assume "(i, a) \<in> set shs2"
    moreover from this have "a \<in> snd ` set shs2" by force
    ultimately show "valid_index i \<and> a < next_addr st1 \<and> scalars st1 a = peval [] (of_int i)"
      using assms(5) after(1,2) by (auto simp: shs)
  qed
  have "length shs2 \<noteq> 0" using assms(3) by (simp add: shs del: length_0_conv length_greater_0_conv) simp
  then have "shs2 \<noteq> []" by auto
  moreover have "distinct (map fst shs2)" using assms(4) by (simp add: shs)
  ultimately show ?thesis
    using reconstruct_shares [OF assms(1) _ all _ _ s, of h] assms(9) by auto
qed

definition race_session :: Session where
  "race_session = \<lparr>sess_ID = ''00'', CreatedAt = 0, ExpiresAt = SessionTTL, Verified = False, Shares = [(3, 0), (1, 1)], MasterSecret = None,
     ThresholdMet = True, Codes = None, sess_Threshold = 2\<rparr>"

theorem concurrent_quorum_zero_secret_witness:
  "\<exists>shs st1 st2 sess'. collect_shares zp_ve 0 ''00'' (put_session ''00'' race_session (NewStore (\<lambda>_. 5) 2)) = Inr (Some shs)
    \<and> reconstruct zp_ve zp_handler ''00'' shs (put_session ''00'' race_session (NewStore (\<lambda>_. 5) 2)) = (True, st1)
    \<and> reconstruct zp_ve zp_handler ''00'' shs st1 = (True, st2) \<and> find_session st2 ''00'' = Some sess'
    \<and> Codes sess' = Some (cm_Codes (GenerateCodeMapping (ve_hmac zp_ve) (ve_sbytes zp_ve) ''00'' (parties zp_handler) 0))"
proof -
  let ?st = "put_session ''00'' race_session (NewStore (\<lambda>_. 5 :: scalar) 2)" and ?shs = "reorder rev (Shares race_session)"
  have R: "ristretto (ve_prims zp_ve)" by (simp add: zp_ve_def ristretto_Zp)
  have sess: "find_session ?st ''00'' = Some race_session" "Shares race_session \<noteq> []" "distinct (map fst (Shares race_session))"
    "\<forall>(i, a) \<in> set (Shares race_session). valid_index i \<and> a < next_addr ?st"
    by (simp_all add: race_session_def valid_index_def NewStore_def)
  have collect: "collect_shares zp_ve 0 ''00'' ?st = Inr (Some ?shs)"
    using sess(1) by (simp add: collect_shares_def Get_def race_session_def SessionTTL_def zp_ve_def)
  have shs: "?shs = [(1, 1), (3, 0)]" by (simp add: race_session_def reorder_def)
  have "distinct (map fst ?shs)" "\<forall>(i, a) \<in> set ?shs. valid_index i \<and> a < next_addr ?st \<and> scalars ?st a = peval [5] (of_int i)"
    "length [5 :: scalar] \<le> length ?shs" "?shs \<noteq> []"
    by (simp_all add: shs valid_index_def NewStore_def)
  from reconstruct_shares [OF R this sess(1), of zp_handler] obtain st1 where
    first: "reconstruct zp_ve zp_handler ''00'' ?shs ?st = (True, st1)" by blast
  obtain ok st2 where second: "reconstruct zp_ve zp_handler ''00'' ?shs st1 = (ok, st2)" by fastforce
  from concurrent_quorum_zero_secret [OF R sess collect collect first second] obtain sess' where
    "find_session st2 ''00'' = Some sess'" "ok"
    "Codes sess' = Some (cm_Codes (GenerateCodeMapping (ve_hmac zp_ve) (ve_sbytes zp_ve) ''00'' (parties zp_handler) 0))" by blast
  with collect first second show ?thesis
    by (intro exI [of _ ?shs] exI [of _ st1] exI [of _ st2] exI [of _ sess']) simp
qed

end
