(* ===== verification/Auth_Session.thy ===== *)
theory Auth_Session
  imports Http
begin

text \<open>
  The session store and the rate limiter of the auth service (\<open>auth/session/store.go\<close>,
  \<open>auth/session/ratelimit.go\<close>).  Redis is a parameter: its commands as functions on a database and
  what its documentation says of them.  The Lua script runs atomically, so a call is one step;
  times are in nanoseconds.
\<close>

section \<open>Redis\<close>

text \<open>
  \<open>rd_get now k db\<close> is the value that \<open>GET\<close> finds at the time \<open>now\<close>; \<open>SET k v EX ttl\<close>, \<open>DEL\<close>,
  \<open>INCR\<close> and \<open>EXPIRE\<close> at the time of the call.
\<close>

record 'd redis =
  rd_get :: "int \<Rightarrow> string \<Rightarrow> 'd \<Rightarrow> string option"
  rd_set :: "int \<Rightarrow> string \<Rightarrow> string \<Rightarrow> int \<Rightarrow> 'd \<Rightarrow> 'd"
  rd_del :: "int \<Rightarrow> string \<Rightarrow> 'd \<Rightarrow> 'd"
  rd_incr :: "int \<Rightarrow> string \<Rightarrow> 'd \<Rightarrow> int \<times> 'd"
  rd_expire :: "int \<Rightarrow> string \<Rightarrow> int \<Rightarrow> 'd \<Rightarrow> 'd"

definition sec :: int where "sec = 1000000000"

text \<open>
  What the documentation of the commands says, on which the clients rest.  \<open>INCR\<close> is used on the
  counters of the rate limiter only, which it has written itself and which stay far below the
  64-bit limit at which it would fail.
\<close>

locale redis_laws =
  fixes rd :: "'d redis"
  assumes get_earlier: "t \<le> t' \<Longrightarrow> rd_get rd t' k d = Some v \<Longrightarrow> rd_get rd t k d = Some v"
    and get_set: "now \<le> t \<Longrightarrow> rd_get rd t k' (rd_set rd now k v ttl d)
      = (if k' = k then if t < now + ttl * sec then Some v else None else rd_get rd t k' d)"
    and get_del: "now \<le> t \<Longrightarrow> rd_get rd t k' (rd_del rd now k d) = (if k' = k then None else rd_get rd t k' d)"
    and incr_absent: "rd_get rd now k d = None \<Longrightarrow> fst (rd_incr rd now k d) = 1"
    and incr_number: "rd_get rd now k d = Some (itoa n) \<Longrightarrow> fst (rd_incr rd now k d) = n + 1"
    and get_incr: "rd_get rd now k (snd (rd_incr rd now k d)) = Some (itoa (fst (rd_incr rd now k d)))"
    and get_incr_other: "now \<le> t \<Longrightarrow> k' \<noteq> k \<Longrightarrow> rd_get rd t k' (snd (rd_incr rd now k d)) = rd_get rd t k' d"
    and get_expire: "now \<le> t \<Longrightarrow> rd_get rd now k d = Some v \<Longrightarrow> rd_get rd t k' (rd_expire rd now k ttl d)
      = (if k' = k then if t < now + ttl * sec then Some v else None else rd_get rd t k' d)"

section \<open>Sessions\<close>

definition auth_SessionTTL :: int where "auth_SessionTTL = 30 * 60"
definition egnKeyTTL :: int where "egnKeyTTL = 30 * 60 + 30"
definition sessionPrefix :: string where "sessionPrefix = ''session:''"
definition egnPrefix :: string where "egnPrefix = ''egn:''"

text \<open>The Lua script.\<close>

definition replaceSessionScript :: "'d redis \<Rightarrow> int \<Rightarrow> string \<Rightarrow> string \<Rightarrow> int \<Rightarrow> int \<Rightarrow> 'd \<Rightarrow> 'd" where
  "replaceSessionScript rd now egn uuid sessionTTL egnTTL db =
     (let db = (case rd_get rd now (''egn:'' @ egn) db of
                  None \<Rightarrow> db
                | Some old_uuid \<Rightarrow> rd_del rd now (''session:'' @ old_uuid) db);
          db = rd_set rd now (''session:'' @ uuid) egn sessionTTL db
      in rd_set rd now (''egn:'' @ egn) uuid egnTTL db)"

text \<open>
  What can go wrong with a call: nothing of it reaches Redis, the connection is cut before its
  last command, or only the answer is lost.
\<close>

datatype redis_fault = Works | Lost | Cut | Unanswered

datatype session_store_error = RedisError | ErrSessionNotFound

text \<open>The script is one command, so it has run or it has not.\<close>

definition redis_Create ::
  "'d redis \<Rightarrow> redis_fault \<Rightarrow> int \<Rightarrow> string \<Rightarrow> string \<Rightarrow> 'd \<Rightarrow> (session_store_error + string) \<times> 'd" where
  "redis_Create rd flt now sessionID egn db =
     (let db' = replaceSessionScript rd now egn sessionID auth_SessionTTL egnKeyTTL db
      in case flt of
           Works \<Rightarrow> (Inr sessionID, db')
         | Lost \<Rightarrow> (Inl RedisError, db)
         | Cut \<Rightarrow> (Inl RedisError, db)
         | Unanswered \<Rightarrow> (Inl RedisError, db'))"

definition redis_Resolve :: "'d redis \<Rightarrow> redis_fault \<Rightarrow> int \<Rightarrow> string \<Rightarrow> 'd \<Rightarrow> session_store_error + string" where
  "redis_Resolve rd flt now sessionID db =
     (if flt \<noteq> Works then Inl RedisError
      else case rd_get rd now (sessionPrefix @ sessionID) db of
        None \<Rightarrow> Inl ErrSessionNotFound
      | Some egn \<Rightarrow> Inr egn)"

section \<open>The rate limiter\<close>

definition rateLimitMax :: int where "rateLimitMax = 5"
definition rateLimitWindow :: int where "rateLimitWindow = 10 * 60"
definition ratePrefix :: string where "ratePrefix = ''egn_rate:''"

text \<open>
  The pipeline sends \<open>INCR\<close> and \<open>EXPIRE\<close> together, but it is not a transaction: a cut connection
  can leave the counter incremented with the expiry it had.
\<close>

definition Allow :: "'d redis \<Rightarrow> redis_fault \<Rightarrow> int \<Rightarrow> string \<Rightarrow> 'd \<Rightarrow> (session_store_error + bool) \<times> 'd" where
  "Allow rd flt now egn db =
     (let key = ratePrefix @ egn;
          (n, db1) = rd_incr rd now key db;
          db' = rd_expire rd now key rateLimitWindow db1
      in case flt of
           Works \<Rightarrow> (Inr (n \<le> rateLimitMax), db')
         | Lost \<Rightarrow> (Inl RedisError, db)
         | Cut \<Rightarrow> (Inl RedisError, db1)
         | Unanswered \<Rightarrow> (Inl RedisError, db'))"

section \<open>What the calls do to the keys\<close>

lemma keys_differ [simp]:
  "sessionPrefix @ a \<noteq> egnPrefix @ b" "egnPrefix @ b \<noteq> sessionPrefix @ a" "ratePrefix @ a \<noteq> egnPrefix @ b" "egnPrefix @ b \<noteq> ratePrefix @ a"
  "ratePrefix @ a \<noteq> sessionPrefix @ b" "sessionPrefix @ b \<noteq> ratePrefix @ a"
  "sessionPrefix @ a = sessionPrefix @ b \<longleftrightarrow> a = b" "egnPrefix @ a = egnPrefix @ b \<longleftrightarrow> a = b" "ratePrefix @ a = ratePrefix @ b \<longleftrightarrow> a = b"
  by (simp_all add: sessionPrefix_def egnPrefix_def ratePrefix_def)

context redis_laws begin

lemma replaceSession_session:
  assumes "now \<le> t"
  shows "rd_get rd t (sessionPrefix @ u) (replaceSessionScript rd now egn uuid stl etl db) =
    (if u = uuid then if t < now + stl * sec then Some egn else None
     else if rd_get rd now (egnPrefix @ egn) db = Some u then None
     else rd_get rd t (sessionPrefix @ u) db)"
  using get_set [OF assms] get_del [OF assms]
  by (auto simp: replaceSessionScript_def Let_def sessionPrefix_def egnPrefix_def split: option.splits)

lemma replaceSession_egn:
  assumes "now \<le> t"
  shows "rd_get rd t (egnPrefix @ e) (replaceSessionScript rd now egn uuid stl etl db) =
    (if e = egn then if t < now + etl * sec then Some uuid else None else rd_get rd t (egnPrefix @ e) db)"
  using get_set [OF assms] get_del [OF assms]
  by (auto simp: replaceSessionScript_def Let_def sessionPrefix_def egnPrefix_def split: option.splits)

lemma replaceSession_rate:
  assumes "now \<le> t"
  shows "rd_get rd t (ratePrefix @ e) (replaceSessionScript rd now egn uuid stl etl db) = rd_get rd t (ratePrefix @ e) db"
  using get_set [OF assms] get_del [OF assms]
  by (auto simp: replaceSessionScript_def Let_def ratePrefix_def split: option.splits)

lemma Allow_other:
  assumes "now \<le> t" "k \<noteq> ratePrefix @ egn"
  shows "rd_get rd t k (snd (Allow rd flt now egn db)) = rd_get rd t k db"
  using get_incr_other get_expire [OF _ get_incr] assms
  by (simp add: Allow_def Let_def case_prod_beta split: redis_fault.splits)

lemma Allow_works:
  assumes n: "rd_get rd now (ratePrefix @ egn) db = (if n = 0 then None else Some (itoa n))"
  shows "fst (Allow rd Works now egn db) = Inr (n + 1 \<le> rateLimitMax)"
    and "now \<le> t \<Longrightarrow> rd_get rd t (ratePrefix @ egn) (snd (Allow rd Works now egn db))
      = (if t < now + rateLimitWindow * sec then Some (itoa (n + 1)) else None)"
proof -
  have incr: "fst (rd_incr rd now (ratePrefix @ egn) db) = n + 1"
    using incr_absent incr_number n by (cases "n = 0") simp_all
  then show "fst (Allow rd Works now egn db) = Inr (n + 1 \<le> rateLimitMax)"
    by (simp add: Allow_def Let_def case_prod_beta)
  show "now \<le> t \<Longrightarrow> rd_get rd t (ratePrefix @ egn) (snd (Allow rd Works now egn db))
      = (if t < now + rateLimitWindow * sec then Some (itoa (n + 1)) else None)"
    using get_expire [OF _ get_incr] incr by (simp add: Allow_def Let_def case_prod_beta)
qed

end

section \<open>A database\<close>

text \<open>Values with the time until which they live.\<close>

type_synonym keyspace = "string \<Rightarrow> (string \<times> int option) option"

definition ks_get :: "int \<Rightarrow> string \<Rightarrow> keyspace \<Rightarrow> string option" where
  "ks_get now k db = (case db k of None \<Rightarrow> None | Some (v, None) \<Rightarrow> Some v | Some (v, Some e) \<Rightarrow> if now < e then Some v else None)"

definition int_value :: "string \<Rightarrow> int" where
  "int_value s = (if s \<noteq> '''' \<and> hd s = CHR ''-'' then - int (numeral_value (tl s)) else int (numeral_value s))"

definition ks :: "keyspace redis" where
  "ks = \<lparr>rd_get = ks_get,
     rd_set = (\<lambda>now k v ttl db. db(k \<mapsto> (v, Some (now + ttl * sec)))),
     rd_del = (\<lambda>now k db. db(k := None)),
     rd_incr = (\<lambda>now k db. case ks_get now k db of None \<Rightarrow> (1, db(k \<mapsto> (itoa 1, None)))
        | Some v \<Rightarrow> (int_value v + 1, db(k \<mapsto> (itoa (int_value v + 1), snd (the (db k)))))),
     rd_expire = (\<lambda>now k ttl db. case ks_get now k db of None \<Rightarrow> db | Some v \<Rightarrow> db(k \<mapsto> (v, Some (now + ttl * sec))))\<rparr>"

lemma int_value_itoa [simp]: "int_value (itoa n) = n"
proof -
  have "hd (utoa m) \<noteq> CHR ''-''" for m using utoa_chars [of "hd (utoa m)" m] by auto
  then show ?thesis by (auto simp: int_value_def itoa_def numeral_value_utoa)
qed

interpretation ks: redis_laws ks
  by unfold_locales (auto simp: ks_def ks_get_def split: option.splits if_splits)

end
