(* ===== verification/Auth_Handler.thy ===== *)
theory Auth_Handler
  imports Auth_Session Collection
begin

text \<open>
  The auth service: the mock provider (\<open>auth/provider/mock.go\<close>), the redirect check
  (\<open>auth/redirect.go\<close>), the token endpoint and the internal session endpoint (\<open>auth/handler.go\<close>) and
  the login form (\<open>auth/login.go\<close>).  JSON, JWT signing, URL parsing and Unicode case folding are
  parameters; the page template is left out, its data is the response.
\<close>

section \<open>The provider\<close>

record Identity =
  EGN :: string
  Name :: string
  IsEligible :: bool

text \<open>An error, no identity for bad credentials, or an identity.\<close>

record Provider =
  Authenticate :: "string \<Rightarrow> unit + Identity option"
  provider_name :: string

definition mock_name :: string where
  "mock_name = map char_of [208, 162, 208, 181, 209, 129, 209, 130, 32, 208, 159, 208, 190, 209, 130, 209, 128, 208, 181, 208, 177, 208, 184,
     209, 130, 208, 181, 208, 187, 32 :: nat]"

definition mock_Authenticate :: "string \<Rightarrow> unit + Identity option" where
  "mock_Authenticate token =
     (if \<not> HasPrefix token ''mock-'' then Inr None
      else
        let egn = TrimPrefix token ''mock-'' in
        if length egn \<noteq> 10 then Inr None
        else if \<not> list_all (\<lambda>c. \<not> (of_char c < (48 :: nat) \<or> (57 :: nat) < of_char c)) egn then Inr None
        else Inr (Some \<lparr>EGN = egn, Name = mock_name @ take 4 egn, IsEligible = \<not> HasPrefix egn ''00''\<rparr>))"

definition MockProvider :: Provider where
  "MockProvider = \<lparr>Authenticate = mock_Authenticate, provider_name = ''mock''\<rparr>"

section \<open>Redirect targets\<close>

text \<open>What the check reads of a parsed URL.\<close>

record url =
  Scheme :: string
  has_User :: bool
  Host :: string
  Hostname :: string
  url_Port :: string

definition str_at :: "string \<Rightarrow> string \<Rightarrow> nat \<Rightarrow> bool" where
  "str_at p s i \<longleftrightarrow> take (length p) (drop i s) = p"

definition str_Index :: "string \<Rightarrow> string \<Rightarrow> nat option" where
  "str_Index s p = find (str_at p s) [0..<Suc (length s)]"

definition str_LastIndex :: "string \<Rightarrow> string \<Rightarrow> nat option" where
  "str_LastIndex s p = find (str_at p s) (rev [0..<Suc (length s)])"

text \<open>Scheme, host and port of a pattern, \<open>None\<close> for \<open>ok = false\<close>.\<close>

definition parsePattern :: "string \<Rightarrow> (string \<times> string \<times> string) option" where
  "parsePattern pattern =
     (case str_Index pattern ''://'' of
        None \<Rightarrow> None
      | Some schemeEnd \<Rightarrow>
          let scheme = take schemeEnd pattern;
              rest = drop (schemeEnd + 3) pattern;
              (host, port) = (case str_LastIndex rest '':'' of Some idx \<Rightarrow> (take idx rest, drop (idx + 1) rest) | None \<Rightarrow> (rest, ''''))
          in if scheme = '''' \<or> host = '''' then None else Some (scheme, host, port))"

definition validateRedirectURI ::
  "(string \<Rightarrow> url option) \<Rightarrow> (string \<Rightarrow> string \<Rightarrow> bool) \<Rightarrow> string \<Rightarrow> string list \<Rightarrow> bool" where
  "validateRedirectURI parse_url equal_fold uri patterns =
     (case parse_url uri of
        None \<Rightarrow> False
      | Some parsed \<Rightarrow>
          if Scheme parsed = '''' \<or> Host parsed = '''' then False
          else if has_User parsed then False
          else list_ex (\<lambda>pattern. case parsePattern pattern of
                 None \<Rightarrow> False
               | Some (pScheme, pHost, pPort) \<Rightarrow>
                   Scheme parsed = pScheme \<and> equal_fold (Hostname parsed) pHost \<and> (pPort = ''*'' \<or> pPort = url_Port parsed))
               patterns)"

section \<open>The handlers\<close>

record 'p AuthHandler =
  provider :: Provider
  jwtPrivKey :: 'p
  electionID :: string

record ('p, 'k) LoginHandler = "'p AuthHandler" +
  jwtPubKey :: 'k
  allowedURIs :: "string list"

definition NewLoginHandler :: "('p \<Rightarrow> 'k) \<Rightarrow> Provider \<Rightarrow> 'p \<Rightarrow> string \<Rightarrow> string list \<Rightarrow> ('p, 'k) LoginHandler" where
  "NewLoginHandler public_key p privKey eid uris =
     \<lparr>provider = p, jwtPrivKey = privKey, electionID = eid, jwtPubKey = public_key privKey, allowedURIs = uris\<rparr>"

record cookie =
  cookie_name :: string
  cookie_value :: string
  HttpOnly :: bool
  SameSite :: string
  Path :: string
  MaxAge :: int

text \<open>Creating the session and signing its token; the error is the one of the step that failed.\<close>

datatype issue_error = SessionError | SignError

definition session_claims :: "string \<Rightarrow> string \<Rightarrow> int \<Rightarrow> SessionClaims" where
  "session_claims sessionID eid now =
     \<lparr>claims_Issuer = Issuer, claims_Subject = sessionID, claims_Audience = [Audience], claims_ID = '''',
      claims_IssuedAt = now div sec, claims_ExpiresAt = (now + auth_SessionTTL * sec) div sec, ElectionID = eid\<rparr>"

definition issue_session ::
  "'d redis \<Rightarrow> redis_fault \<Rightarrow> (string \<Rightarrow> SessionClaims \<Rightarrow> 'p \<Rightarrow> string option) \<Rightarrow> 'p \<Rightarrow> string \<Rightarrow> int \<Rightarrow> string \<Rightarrow> string \<Rightarrow> 'd
    \<Rightarrow> (issue_error + string) \<times> 'd" where
  "issue_session rd flt mint priv eid now uuid egn db =
     (case redis_Create rd flt now uuid egn db of
        (Inl _, db) \<Rightarrow> (Inl SessionError, db)
      | (Inr sessionID, db) \<Rightarrow>
          (case jwt_Sign mint (session_claims sessionID eid now) priv of
             None \<Rightarrow> (Inl SignError, db)
           | Some tok \<Rightarrow> (Inr tok, db)))"

definition session_cookie :: "string \<Rightarrow> cookie" where
  "session_cookie tok = \<lparr>cookie_name = ''session'', cookie_value = tok, HttpOnly = True, SameSite = ''Lax'', Path = ''/'', MaxAge = auth_SessionTTL\<rparr>"

record authResponse =
  SessionToken :: string
  resp_Provider :: string
  set_cookie :: cookie

definition ServeHTTP ::
  "'d redis \<Rightarrow> (nat \<Rightarrow> redis_fault) \<Rightarrow> (string \<Rightarrow> SessionClaims \<Rightarrow> 'p \<Rightarrow> string option) \<Rightarrow> (bytes \<Rightarrow> string option) \<Rightarrow> ('p, 'm) AuthHandler_scheme
    \<Rightarrow> int \<Rightarrow> string \<Rightarrow> http_request \<Rightarrow> 'd \<Rightarrow> authResponse response \<times> 'd" where
  "ServeHTTP rd flt mint decode h now uuid r db =
     (if req_method r \<noteq> ''POST'' then (Failure 405 ''method not allowed'', db)
      else case decode (take 65536 (req_body r)) of
        None \<Rightarrow> (Failure 400 ''invalid_body'', db)
      | Some token \<Rightarrow>
          (case Authenticate (provider h) token of
             Inl _ \<Rightarrow> (Failure 500 ''auth_error'', db)
           | Inr None \<Rightarrow> (Failure 401 ''invalid_credentials'', db)
           | Inr (Some identity) \<Rightarrow>
               if \<not> IsEligible identity then (Failure 403 ''not_eligible'', db)
               else
                 (case Allow rd (flt 0) now (EGN identity) db of
                    (Inl _, db) \<Rightarrow> (Failure 500 ''rate_limit_error'', db)
                  | (Inr False, db) \<Rightarrow> (Failure 429 ''rate_limited'', db)
                  | (Inr True, db) \<Rightarrow>
                      (case issue_session rd (flt 1) mint (jwtPrivKey h) (electionID h) now uuid (EGN identity) db of
                         (Inl SessionError, db) \<Rightarrow> (Failure 500 ''session_error'', db)
                       | (Inl SignError, db) \<Rightarrow> (Failure 500 ''jwt_error'', db)
                       | (Inr tok, db) \<Rightarrow>
                           (Success StatusOK \<lparr>SessionToken = tok, resp_Provider = provider_name (provider h), set_cookie = session_cookie tok\<rparr>, db)))))"

definition HandleResolveSession :: "'d redis \<Rightarrow> redis_fault \<Rightarrow> int \<Rightarrow> string \<Rightarrow> 'd \<Rightarrow> string response" where
  "HandleResolveSession rd flt now sessionID db =
     (if sessionID = '''' then Failure 400 ''missing_id''
      else case redis_Resolve rd flt now sessionID db of
        Inl ErrSessionNotFound \<Rightarrow> Failure 404 ''session_not_found''
      | Inl RedisError \<Rightarrow> Failure 500 ''resolve_error''
      | Inr egn \<Rightarrow> Success StatusOK egn)"

section \<open>The login form\<close>

text \<open>The messages of the page by what they say.\<close>

datatype login_message = NoMessage | BadRequest | BadEGN | CheckFailed | TooMany | AuthFailed | NotEligible | NoSession | SignFailed

record loginPageData =
  CSRFToken :: string
  RedirectURI :: string
  page_Error :: login_message

text \<open>A page with its CSRF cookie, a JSON error, or a redirect with the session cookie.\<close>

datatype login_reply = Page nat loginPageData cookie | ErrorReply nat string | Redirected string cookie

definition generateCSRFToken :: "bytes option \<Rightarrow> string option" where
  "generateCSRFToken rand = map_option hex_encode rand"

definition renderLogin :: "nat \<Rightarrow> loginPageData \<Rightarrow> login_reply" where
  "renderLogin status d = Page status d
     \<lparr>cookie_name = ''csrf_token'', cookie_value = CSRFToken d, HttpOnly = True, SameSite = ''Strict'', Path = ''/'', MaxAge = 600\<rparr>"

text \<open>URLs: the parser, case folding and \<open>q.Set("token", ...)\<close> on the query of a URL.\<close>

record url_lib =
  parse_url :: "string \<Rightarrow> url option"
  equal_fold :: "string \<Rightarrow> string \<Rightarrow> bool"
  set_query :: "string \<Rightarrow> string \<Rightarrow> string \<Rightarrow> string"

definition HandleGetLogin :: "url_lib \<Rightarrow> bytes option \<Rightarrow> ('p, 'k) LoginHandler \<Rightarrow> http_request \<Rightarrow> login_reply" where
  "HandleGetLogin ul rand h r =
     (let redirectURI = req_query r ''redirect_uri'' in
      if redirectURI = '''' \<or> \<not> validateRedirectURI (parse_url ul) (equal_fold ul) redirectURI (allowedURIs h) then ErrorReply 400 ''invalid_redirect''
      else case generateCSRFToken rand of
        None \<Rightarrow> ErrorReply 500 ''csrf_error''
      | Some csrfToken \<Rightarrow> renderLogin StatusOK \<lparr>CSRFToken = csrfToken, RedirectURI = redirectURI, page_Error = NoMessage\<rparr>)"

definition rerender :: "bytes option \<Rightarrow> string \<Rightarrow> nat \<Rightarrow> login_message \<Rightarrow> login_reply" where
  "rerender rand redirectURI status msg =
     (case generateCSRFToken rand of
        None \<Rightarrow> ErrorReply 500 ''csrf_error''
      | Some csrfToken \<Rightarrow> renderLogin status \<lparr>CSRFToken = csrfToken, RedirectURI = redirectURI, page_Error = msg\<rparr>)"

text \<open>\<open>^\d{10}$\<close>\<close>

definition egnRegex :: "string \<Rightarrow> bool" where
  "egnRegex s \<longleftrightarrow> length s = 10 \<and> list_all (\<lambda>c. 48 \<le> (of_char c :: nat) \<and> (of_char c :: nat) \<le> 57) s"

text \<open>\<open>form\<close> is the parsed form, \<open>None\<close> when it does not parse.\<close>

definition HandlePostLogin ::
  "'d redis \<Rightarrow> (nat \<Rightarrow> redis_fault) \<Rightarrow> (string \<Rightarrow> SessionClaims \<Rightarrow> 'p \<Rightarrow> string option) \<Rightarrow> url_lib \<Rightarrow> bytes option \<Rightarrow> ('p, 'k) LoginHandler
    \<Rightarrow> int \<Rightarrow> string \<Rightarrow> (string \<Rightarrow> string) option \<Rightarrow> http_request \<Rightarrow> 'd \<Rightarrow> login_reply \<times> 'd" where
  "HandlePostLogin rd flt mint ul rand h now uuid form r db =
     (case form of
        None \<Rightarrow> (ErrorReply 400 ''invalid_form'', db)
      | Some f \<Rightarrow>
          let formCSRF = f ''csrf_token''; redirectURI = f ''redirect_uri''; egn = f ''egn'';
              page = rerender rand redirectURI in
          if (case req_cookie r ''csrf_token'' of None \<Rightarrow> True | Some v \<Rightarrow> v = '''' \<or> v \<noteq> formCSRF) then (page 403 BadRequest, db)
          else if redirectURI = '''' \<or> \<not> validateRedirectURI (parse_url ul) (equal_fold ul) redirectURI (allowedURIs h) then (ErrorReply 400 ''invalid_redirect'', db)
          else if \<not> egnRegex egn then (page 400 BadEGN, db)
          else
            (case Allow rd (flt 0) now egn db of
               (Inl _, db) \<Rightarrow> (page 500 CheckFailed, db)
             | (Inr False, db) \<Rightarrow> (page 429 TooMany, db)
             | (Inr True, db) \<Rightarrow>
                 (case Authenticate (provider h) (''mock-'' @ egn) of
                    Inl _ \<Rightarrow> (page 500 AuthFailed, db)
                  | Inr None \<Rightarrow> (page 400 BadEGN, db)
                  | Inr (Some identity) \<Rightarrow>
                      if \<not> IsEligible identity then (page StatusOK NotEligible, db)
                      else
                        (case issue_session rd (flt 1) mint (jwtPrivKey h) (electionID h) now uuid (EGN identity) db of
                           (Inl SessionError, db) \<Rightarrow> (page 500 NoSession, db)
                         | (Inl SignError, db) \<Rightarrow> (page 500 SignFailed, db)
                         | (Inr tok, db) \<Rightarrow>
                             (case parse_url ul redirectURI of
                                None \<Rightarrow> (ErrorReply 400 ''invalid_redirect'', db)
                              | Some _ \<Rightarrow> (Redirected (set_query ul redirectURI ''token'' tok) (session_cookie tok), db))))))"

text \<open>The session status: the headers for an allowed origin, and until when the cookie's token is valid.\<close>

definition status_cors :: "url_lib \<Rightarrow> ('p, 'k) LoginHandler \<Rightarrow> http_request \<Rightarrow> (string \<times> string) list" where
  "status_cors ul h r =
     (let origin = req_header r ''Origin'' in
      if validateRedirectURI (parse_url ul) (equal_fold ul) origin (allowedURIs h) then
        [(''Access-Control-Allow-Origin'', origin), (''Access-Control-Allow-Credentials'', ''true''), (''Vary'', ''Origin'')]
      else [])"

definition HandleSessionStatus :: "url_lib \<Rightarrow> 'k jwt_parser \<Rightarrow> ('p, 'k) LoginHandler \<Rightarrow> http_request \<Rightarrow> (string \<times> string) list \<times> int option" where
  "HandleSessionStatus ul parse h r =
     (status_cors ul h r,
      case req_cookie r ''session'' of
        None \<Rightarrow> None
      | Some v \<Rightarrow> (case jwt_Verify parse v (jwtPubKey h) of Inl _ \<Rightarrow> None | Inr claims \<Rightarrow> Some (claims_ExpiresAt claims)))"

text \<open>The preflight request: its status and headers.\<close>

definition HandleSessionStatusOptions :: "url_lib \<Rightarrow> ('p, 'k) LoginHandler \<Rightarrow> http_request \<Rightarrow> nat \<times> (string \<times> string) list" where
  "HandleSessionStatusOptions ul h r =
     (let origin = req_header r ''Origin'' in
      (204, if validateRedirectURI (parse_url ul) (equal_fold ul) origin (allowedURIs h) then
          [(''Access-Control-Allow-Origin'', origin), (''Access-Control-Allow-Credentials'', ''true''),
           (''Access-Control-Allow-Methods'', ''GET, OPTIONS''), (''Access-Control-Allow-Headers'', ''Content-Type''),
           (''Access-Control-Max-Age'', ''86400''), (''Vary'', ''Origin'')]
        else []))"

section \<open>The internal route\<close>

text \<open>
  \<open>GET /internal/v1/session/{id}\<close> behind the API key, as the collection service reaches it at
  \<open>base\<close>; \<open>encode\<close> writes the JSON reply.
\<close>

definition session_route ::
  "'d redis \<Rightarrow> redis_fault \<Rightarrow> (string \<Rightarrow> bytes) \<Rightarrow> string \<Rightarrow> string \<Rightarrow> int \<Rightarrow> 'd \<Rightarrow> string \<Rightarrow> string \<Rightarrow> nat \<Rightarrow> reply" where
  "session_route rd flt encode api_key base now db target key attempt =
     (if \<not> HasPrefix target (base @ ''/internal/v1/session/'') then Reply 404 []
      else
        let r = \<lparr>req_method = ''GET'', req_path = target, req_header = (\<lambda>n. if n = ''X-Internal-Key'' then key else ''''),
                 req_cookie = (\<lambda>_. None), req_query = (\<lambda>_. ''''), req_body = []\<rparr>;
            ident = TrimPrefix target (base @ ''/internal/v1/session/'')
        in case RequireKey api_key (\<lambda>_ db. (HandleResolveSession rd flt now ident db, db)) r db of
             (Failure status code, _) \<Rightarrow> Reply status []
           | (Success status egn, _) \<Rightarrow> Reply status (encode egn))"

section \<open>Start-up\<close>

record auth_config =
  MockMode :: bool
  auth_RedisURL :: string
  JWTPrivateKey :: string
  auth_SessionAPIKey :: string

datatype auth_startup_error = NoJWTPrivateKey | NoSessionAPIKey | BadPrivateKey | BadRedisURL | RedisDown | NoProvider

text \<open>
  What \<open>main\<close> checks before it serves: the settings, the signing key, the URL of Redis and its
  reply to a ping, and the provider, of which there is only the mock.
\<close>

definition auth_startup ::
  "(string \<Rightarrow> 'p option) \<Rightarrow> (string \<Rightarrow> 'o option) \<Rightarrow> ('o \<Rightarrow> bool) \<Rightarrow> auth_config \<Rightarrow> auth_startup_error + 'p \<times> Provider" where
  "auth_startup load_key parse_redis ping cfg =
     bindE (guardE (JWTPrivateKey cfg \<noteq> '''') NoJWTPrivateKey) (\<lambda>_.
     bindE (guardE (auth_SessionAPIKey cfg \<noteq> '''') NoSessionAPIKey) (\<lambda>_.
     bindE (case load_key (JWTPrivateKey cfg) of None \<Rightarrow> Inl BadPrivateKey | Some k \<Rightarrow> Inr k) (\<lambda>k.
     bindE (case parse_redis (auth_RedisURL cfg) of None \<Rightarrow> Inl BadRedisURL | Some opt \<Rightarrow> Inr opt) (\<lambda>opt.
     bindE (guardE (ping opt) RedisDown) (\<lambda>_.
     if MockMode cfg then Inr (k, MockProvider) else Inl NoProvider)))))"

end
