(* ===== verification/Auth_Props.thy ===== *)
theory Auth_Props
  imports Auth_Handler
begin

text \<open>
  What the auth service guarantees: one session per voter, sessions that live until they expire or
  are replaced, a rate limit that refines a counter per burst, and a login that issues tokens only
  behind its checks; then that the collection service resolves a token to the voter it was
  issued to.
\<close>

section \<open>The sessions in the database\<close>

text \<open>Every session the database resolves from now on is the one its voter's entry names.\<close>

definition sessions_ok :: "'d redis \<Rightarrow> int \<Rightarrow> 'd \<Rightarrow> bool" where
  "sessions_ok rd now db \<longleftrightarrow>
     (\<forall>t u e. now \<le> t \<longrightarrow> rd_get rd t (sessionPrefix @ u) db = Some e \<longrightarrow> rd_get rd t (egnPrefix @ e) db = Some u)"

text \<open>The session \<open>u\<close> is the voter's until the time \<open>until\<close>, and nobody else's entry names it.\<close>

definition session_live :: "'d redis \<Rightarrow> string \<Rightarrow> string \<Rightarrow> int \<Rightarrow> int \<times> 'd \<Rightarrow> bool" where
  "session_live rd u e until = (\<lambda>(now, db).
     (\<forall>t. now \<le> t \<longrightarrow> t < until \<longrightarrow> rd_get rd t (sessionPrefix @ u) db = Some e \<and> rd_get rd t (egnPrefix @ e) db = Some u) \<and>
     (\<forall>t e'. now \<le> t \<longrightarrow> e' \<noteq> e \<longrightarrow> rd_get rd t (egnPrefix @ e') db \<noteq> Some u))"

text \<open>What handlers do to the database; \<open>X\<close> are session IDs not drawn and \<open>E\<close> voters not logging in.\<close>

inductive session_step :: "'d redis \<Rightarrow> string set \<Rightarrow> string set \<Rightarrow> int \<times> 'd \<Rightarrow> int \<times> 'd \<Rightarrow> bool" for rd X E where
  created: "now \<le> now' \<Longrightarrow> uuid \<notin> X \<Longrightarrow> egn \<notin> E \<Longrightarrow>
    session_step rd X E (now, db) (now', replaceSessionScript rd now' egn uuid auth_SessionTTL egnKeyTTL db)"
| counted: "now \<le> now' \<Longrightarrow> session_step rd X E (now, db) (now', snd (Allow rd flt now' egn db))"
| waited: "now \<le> now' \<Longrightarrow> session_step rd X E (now, db) (now', db)"

inductive_cases session_stepE: "session_step rd X E s s'"

context redis_laws begin

lemma sessions_ok_step:
  assumes "session_step rd X E (now, db) (now', db')" "sessions_ok rd now db"
  shows "sessions_ok rd now' db'"
  using assms(1)
proof (cases rule: session_step.cases)
  case (created uuid egn)
  show ?thesis unfolding sessions_ok_def
  proof (intro allI impI)
    fix t u e assume t: "now' \<le> t" and u: "rd_get rd t (sessionPrefix @ u) db' = Some e"
    show "rd_get rd t (egnPrefix @ e) db' = Some u"
    proof (cases "u = uuid")
      case True
      then show ?thesis
        using t u by (auto simp: created replaceSession_session replaceSession_egn auth_SessionTTL_def egnKeyTTL_def sec_def split: if_splits)
    next
      case False
      then have old: "rd_get rd t (sessionPrefix @ u) db = Some e" "rd_get rd now' (egnPrefix @ egn) db \<noteq> Some u"
        using t u by (auto simp: created replaceSession_session split: if_splits)
      then have "rd_get rd t (egnPrefix @ e) db = Some u"
        using assms(2) t created(2) by (simp add: sessions_ok_def)
      moreover from this have "e \<noteq> egn" using get_earlier [OF t] old(2) by blast
      ultimately show ?thesis using t by (simp add: created replaceSession_egn)
    qed
  qed
next
  case (counted flt egn)
  then show ?thesis using assms(2) Allow_other by (simp add: sessions_ok_def)
next
  case waited
  then show ?thesis using assms(2) by (simp add: sessions_ok_def)
qed

lemma sessions_ok_run: "(session_step rd X E)\<^sup>*\<^sup>* s s' \<Longrightarrow> sessions_ok rd (fst s) (snd s) \<Longrightarrow> sessions_ok rd (fst s') (snd s')"
proof (induction rule: rtranclp_induct)
  case (step s' s'')
  then show ?case using sessions_ok_step by (metis prod.collapse)
qed simp

lemma session_live_step:
  assumes "session_step rd {u} {e} s s'" "session_live rd u e until s"
  shows "session_live rd u e until s'"
  using assms(1)
proof (cases rule: session_step.cases)
  case (created now now' uuid egn db)
  have "rd_get rd t (sessionPrefix @ u) (snd s') = Some e" "rd_get rd t (egnPrefix @ e) (snd s') = Some u"
    if t: "now' \<le> t" "t < until" for t
    using that assms(2) created by (auto simp: session_live_def replaceSession_session replaceSession_egn)
  moreover have "rd_get rd t (egnPrefix @ e') (snd s') \<noteq> Some u" if t: "now' \<le> t" "e' \<noteq> e" for t e'
    using that assms(2) created by (auto simp: session_live_def replaceSession_egn)
  ultimately show ?thesis using created by (simp add: session_live_def)
next
  case (counted now now' db flt egn)
  then show ?thesis using assms(2) Allow_other by (simp add: session_live_def)
next
  case waited
  then show ?thesis using assms(2) by (auto simp: session_live_def)
qed

lemma session_live_run: "(session_step rd {u} {e})\<^sup>*\<^sup>* s s' \<Longrightarrow> session_live rd u e until s \<Longrightarrow> session_live rd u e until s'"
  by (induction rule: rtranclp_induct) (auto intro: session_live_step)

lemma session_live_created:
  assumes "\<And>t e'. now \<le> t \<Longrightarrow> rd_get rd t (egnPrefix @ e') db \<noteq> Some u"
  shows "session_live rd u e (now + auth_SessionTTL * sec) (now, replaceSessionScript rd now e u auth_SessionTTL egnKeyTTL db)"
  using assms by (auto simp: session_live_def replaceSession_session replaceSession_egn auth_SessionTTL_def egnKeyTTL_def sec_def)

lemma session_live_resolves: "session_live rd u e until (t, db) \<Longrightarrow> t < until \<Longrightarrow> redis_Resolve rd Works t u db = Inr e"
  by (simp add: session_live_def redis_Resolve_def)

end

lemma session_run_time: "(session_step rd X E)\<^sup>*\<^sup>* s s' \<Longrightarrow> fst s \<le> fst s'"
  by (induction rule: rtranclp_induct) (auto elim!: session_stepE)

section \<open>Handlers as database steps\<close>

lemma issue_session_step:
  assumes "t0 \<le> now" "uuid \<notin> X" "egn \<notin> E"
  shows "(session_step rd X E)\<^sup>*\<^sup>* (t0, db) (now, snd (issue_session rd flt mint priv eid now uuid egn db))"
proof -
  have "snd (issue_session rd flt mint priv eid now uuid egn db) \<in> {db, replaceSessionScript rd now egn uuid auth_SessionTTL egnKeyTTL db}"
    by (simp add: issue_session_def redis_Create_def Let_def split: redis_fault.splits option.splits)
  with assms show ?thesis by (metis insertE singletonD session_step.created session_step.waited r_into_rtranclp)
qed

lemma issue_session_Inr:
  "issue_session rd flt mint priv eid now uuid egn db = (Inr tok, db') \<longleftrightarrow>
     flt = Works \<and> db' = replaceSessionScript rd now egn uuid auth_SessionTTL egnKeyTTL db
     \<and> jwt_Sign mint (session_claims uuid eid now) priv = Some tok"
  by (auto simp: issue_session_def redis_Create_def Let_def split: redis_fault.splits option.splits)

text \<open>The token endpoint.\<close>

lemma ServeHTTP_Success:
  assumes "ServeHTTP rd flt mint decode h now uuid r db = (Success n resp, db')"
  shows "\<exists>token identity. decode (take 65536 (req_body r)) = Some token \<and> Authenticate (provider h) token = Inr (Some identity)
    \<and> IsEligible identity \<and> fst (Allow rd (flt 0) now (EGN identity) db) = Inr True
    \<and> db' = replaceSessionScript rd now (EGN identity) uuid auth_SessionTTL egnKeyTTL (snd (Allow rd (flt 0) now (EGN identity) db))
    \<and> jwt_Sign mint (session_claims uuid (electionID h) now) (jwtPrivKey h) = Some (SessionToken resp) \<and> n = StatusOK"
proof -
  from assms obtain token identity where t: "decode (take 65536 (req_body r)) = Some token"
    "Authenticate (provider h) token = Inr (Some identity)" "IsEligible identity"
    by (auto simp: ServeHTTP_def split: if_splits option.splits sum.splits)
  obtain a db1 where a: "Allow rd (flt 0) now (EGN identity) db = (a, db1)" by fastforce
  obtain i db2 where i: "issue_session rd (flt (Suc 0)) mint (jwtPrivKey h) (electionID h) now uuid (EGN identity) db1 = (i, db2)" by fastforce
  from assms t a have "a = Inr True" by (auto simp: ServeHTTP_def split: if_splits sum.splits bool.splits)
  moreover from this obtain tok where "i = Inr tok" "db' = db2" "n = StatusOK" "SessionToken resp = tok"
    using assms t a i by (auto simp: ServeHTTP_def split: if_splits sum.splits issue_error.splits)
  ultimately show ?thesis using t a i by (auto simp: issue_session_Inr)
qed

text \<open>A handler counts the attempt, and then may issue a session.\<close>

definition counted_issued :: "'d redis \<Rightarrow> int \<Rightarrow> string \<Rightarrow> (string \<Rightarrow> SessionClaims \<Rightarrow> 'p \<Rightarrow> string option) \<Rightarrow> 'd \<Rightarrow> 'd \<Rightarrow> bool" where
  "counted_issued rd now uuid mint db db' \<longleftrightarrow> db' = db \<or> (\<exists>f e. db' = snd (Allow rd f now e db))
    \<or> (\<exists>f e f' priv eid e'. db' = snd (issue_session rd f' mint priv eid now uuid e' (snd (Allow rd f now e db))))"

lemma counted_then_issued:
  assumes "t0 \<le> now" "counted_issued rd now uuid mint db db'"
  shows "(session_step rd {} {})\<^sup>*\<^sup>* (t0, db) (now, db')"
proof -
  have 1: "(session_step rd {} {})\<^sup>*\<^sup>* (t0, db) (now, snd (Allow rd f now e db))" for f e
    using assms(1) by (intro r_into_rtranclp session_step.counted)
  have "(session_step rd {} {})\<^sup>*\<^sup>* (now, snd (Allow rd f now e db)) (now, snd (issue_session rd f' mint priv eid now uuid e' (snd (Allow rd f now e db))))"
    for f e f' priv eid e' by (rule issue_session_step) simp_all
  with 1 have "(session_step rd {} {})\<^sup>*\<^sup>* (t0, db) (now, snd (issue_session rd f' mint priv eid now uuid e' (snd (Allow rd f now e db))))"
    for f e f' priv eid e' by (rule rtranclp_trans)
  moreover have "(session_step rd {} {})\<^sup>*\<^sup>* (t0, db) (now, db)" using assms(1) by (intro r_into_rtranclp session_step.waited)
  ultimately show ?thesis using assms(2) 1 by (auto simp: counted_issued_def)
qed

lemma ServeHTTP_run:
  assumes "t0 \<le> now"
  shows "(session_step rd {} {})\<^sup>*\<^sup>* (t0, db) (now, snd (ServeHTTP rd flt mint decode h now uuid r db))"
proof -
  have "counted_issued rd now uuid mint db (snd (ServeHTTP rd flt mint decode h now uuid r db))"
  proof (cases "\<exists>token identity. decode (take 65536 (req_body r)) = Some token \<and> Authenticate (provider h) token = Inr (Some identity)")
    case False
    then have "snd (ServeHTTP rd flt mint decode h now uuid r db) = db"
      by (auto simp: ServeHTTP_def split: option.splits sum.splits)
    then show ?thesis by (simp add: counted_issued_def)
  next
    case True
    then obtain token identity where t: "decode (take 65536 (req_body r)) = Some token" "Authenticate (provider h) token = Inr (Some identity)" by blast
    obtain a db1 where a: "Allow rd (flt 0) now (EGN identity) db = (a, db1)" by fastforce
    obtain i db2 where i: "issue_session rd (flt (Suc 0)) mint (jwtPrivKey h) (electionID h) now uuid (EGN identity) db1 = (i, db2)" by fastforce
    have "snd (ServeHTTP rd flt mint decode h now uuid r db) \<in> {db, db1, db2}"
      by (auto simp: ServeHTTP_def t a i split: sum.splits bool.splits issue_error.splits)
    moreover have "db1 = snd (Allow rd (flt 0) now (EGN identity) db)" by (simp add: a)
    moreover have "db2 = snd (issue_session rd (flt (Suc 0)) mint (jwtPrivKey h) (electionID h) now uuid (EGN identity) (snd (Allow rd (flt 0) now (EGN identity) db)))"
      by (simp add: a i)
    ultimately show ?thesis unfolding counted_issued_def by blast
  qed
  with assms show ?thesis by (rule counted_then_issued)
qed

lemma HandlePostLogin_run:
  assumes "t0 \<le> now"
  shows "(session_step rd {} {})\<^sup>*\<^sup>* (t0, db) (now, snd (HandlePostLogin rd flt mint ul rand h now uuid form r db))"
proof -
  have "counted_issued rd now uuid mint db (snd (HandlePostLogin rd flt mint ul rand h now uuid form r db))"
  proof (cases form)
    case None
    then show ?thesis by (simp add: HandlePostLogin_def counted_issued_def)
  next
    case (Some f)
    obtain a db1 where a: "Allow rd (flt 0) now (f ''egn'') db = (a, db1)" by fastforce
    show ?thesis
    proof (cases "\<exists>identity. Authenticate (provider h) (''mock-'' @ f ''egn'') = Inr (Some identity)")
      case False
      then have "snd (HandlePostLogin rd flt mint ul rand h now uuid form r db) \<in> {db, db1}"
        by (auto simp: HandlePostLogin_def Let_def Some a split: option.splits sum.splits bool.splits)
      then show ?thesis using a unfolding counted_issued_def by (metis insertE singletonD snd_conv)
    next
      case True
      then obtain identity where id: "Authenticate (provider h) (''mock-'' @ f ''egn'') = Inr (Some identity)" by blast
      obtain i db2 where i: "issue_session rd (flt (Suc 0)) mint (jwtPrivKey h) (electionID h) now uuid (EGN identity) db1 = (i, db2)" by fastforce
      have "snd (HandlePostLogin rd flt mint ul rand h now uuid form r db) \<in> {db, db1, db2}"
        by (auto simp: HandlePostLogin_def Let_def Some a id [simplified] i split: option.splits sum.splits bool.splits issue_error.splits)
      moreover have "db1 = snd (Allow rd (flt 0) now (f ''egn'') db)" by (simp add: a)
      moreover have "db2 = snd (issue_session rd (flt (Suc 0)) mint (jwtPrivKey h) (electionID h) now uuid (EGN identity) (snd (Allow rd (flt 0) now (f ''egn'') db)))"
        by (simp add: a i)
      ultimately show ?thesis unfolding counted_issued_def by blast
    qed
  qed
  with assms show ?thesis by (rule counted_then_issued)
qed

text \<open>Requests to the service, in the order in which they reach the database.\<close>

inductive auth_step ::
  "'d redis \<Rightarrow> (string \<Rightarrow> SessionClaims \<Rightarrow> 'p \<Rightarrow> string option) \<Rightarrow> ('p, 'k) LoginHandler \<Rightarrow> int \<times> 'd \<Rightarrow> int \<times> 'd \<Rightarrow> bool" for rd mint h where
  authenticate: "t0 \<le> now \<Longrightarrow> auth_step rd mint h (t0, db) (now, snd (ServeHTTP rd flt mint decode h now uuid r db))"
| login: "t0 \<le> now \<Longrightarrow> auth_step rd mint h (t0, db) (now, snd (HandlePostLogin rd flt mint ul rand h now uuid form r db))"

section \<open>The rate limit\<close>

text \<open>Calls of \<open>Allow\<close> on a working Redis, and the abstract limiter: a count and a deadline per EGN.\<close>

fun attempts :: "'d redis \<Rightarrow> (int \<times> string) list \<Rightarrow> 'd \<Rightarrow> bool list" where
  "attempts rd [] db = []"
| "attempts rd ((now, egn) # calls) db =
     (fst (Allow rd Works now egn db) = Inr True) # attempts rd calls (snd (Allow rd Works now egn db))"

fun limiter :: "(string \<Rightarrow> int \<times> int) \<Rightarrow> (int \<times> string) list \<Rightarrow> bool list" where
  "limiter b [] = []"
| "limiter b ((now, egn) # calls) =
     (let n = (if now < snd (b egn) then fst (b egn) else 0) + 1
      in (n \<le> rateLimitMax) # limiter (b(egn := (n, now + rateLimitWindow * sec))) calls)"

definition counts :: "'d redis \<Rightarrow> (string \<Rightarrow> int \<times> int) \<Rightarrow> int \<Rightarrow> 'd \<Rightarrow> bool" where
  "counts rd b now db \<longleftrightarrow> (\<forall>egn. 0 \<le> fst (b egn) \<and> (\<forall>t. now \<le> t \<longrightarrow> rd_get rd t (ratePrefix @ egn) db
     = (if t < snd (b egn) \<and> fst (b egn) \<noteq> 0 then Some (itoa (fst (b egn))) else None)))"

lemma window_pos: "0 < rateLimitWindow * sec"
  by (simp add: rateLimitWindow_def sec_def)

context redis_laws begin

lemma counts_Allow:
  assumes c: "counts rd b t0 db" and t: "t0 \<le> now" and n: "n = (if now < snd (b egn) then fst (b egn) else 0) + 1"
  shows "fst (Allow rd Works now egn db) = Inr (n \<le> rateLimitMax)"
    and "counts rd (b(egn := (n, now + rateLimitWindow * sec))) now (snd (Allow rd Works now egn db))"
proof -
  have "rd_get rd now (ratePrefix @ egn) db = (if n - 1 = 0 then None else Some (itoa (n - 1)))"
    using c t n by (auto simp: counts_def)
  note works = Allow_works [OF this]
  show "fst (Allow rd Works now egn db) = Inr (n \<le> rateLimitMax)" using works(1) by simp
  have n1: "0 < n" using c n by (auto simp: counts_def add_nonneg_pos)
  show "counts rd (b(egn := (n, now + rateLimitWindow * sec))) now (snd (Allow rd Works now egn db))"
    unfolding counts_def
  proof (intro allI impI conjI)
    fix e t assume t': "now \<le> t"
    show "rd_get rd t (ratePrefix @ e) (snd (Allow rd Works now egn db)) =
      (if t < snd ((b(egn := (n, now + rateLimitWindow * sec))) e) \<and> fst ((b(egn := (n, now + rateLimitWindow * sec))) e) \<noteq> 0
       then Some (itoa (fst ((b(egn := (n, now + rateLimitWindow * sec))) e))) else None)"
    proof (cases "e = egn")
      case True
      then show ?thesis using works(2) [OF t'] n1 by simp
    next
      case False
      then have "ratePrefix @ e \<noteq> ratePrefix @ egn" by simp
      from Allow_other [OF t' this, of Works db] show ?thesis
        using c t t' False by (simp add: counts_def)
    qed
  qed (use n1 c in \<open>auto simp: counts_def\<close>)
qed

lemma attempts_limiter:
  assumes "counts rd b t0 db" "sorted (t0 # map fst calls)"
  shows "attempts rd calls db = limiter b calls"
  using assms
proof (induction calls arbitrary: b t0 db)
  case (Cons call calls)
  obtain now egn where call: "call = (now, egn)" by fastforce
  from Cons.prems(2) have t: "t0 \<le> now" "sorted (now # map fst calls)" by (auto simp: call)
  define n where "n = (if now < snd (b egn) then fst (b egn) else 0) + 1"
  note step = counts_Allow [OF Cons.prems(1) t(1) n_def]
  show ?case unfolding call attempts.simps limiter.simps Let_def n_def [symmetric] Cons.IH [OF step(2) t(2)] step(1) by simp
qed simp

lemma counts_empty: "(\<And>t k. rd_get rd t k db = None) \<Longrightarrow> counts rd (\<lambda>_. (0, 0)) now db"
  by (simp add: counts_def)

end

text \<open>The allowed calls of one voter in the window that begins at \<open>s\<close>.\<close>

definition allowed_in :: "int \<Rightarrow> string \<Rightarrow> (int \<times> string) list \<Rightarrow> bool list \<Rightarrow> nat" where
  "allowed_in s egn calls oks =
     length (filter (\<lambda>((t, e), ok). e = egn \<and> s \<le> t \<and> t < s + rateLimitWindow * sec \<and> ok) (zip calls oks))"

lemma allowed_in_late: "\<forall>(t, e) \<in> set calls. s + rateLimitWindow * sec \<le> t \<Longrightarrow> allowed_in s egn calls oks = 0"
  by (fastforce simp: allowed_in_def filter_empty_conv dest: set_zip_leftD)

lemma limiter_window:
  assumes "sorted (t0 # map fst calls)" "0 \<le> fst (b egn)" "fst (b egn) = 0 \<or> snd (b egn) \<le> t0 + rateLimitWindow * sec"
  shows "int (allowed_in s egn calls (limiter b calls))
    \<le> (if s + rateLimitWindow * sec \<le> snd (b egn) then max 0 (rateLimitMax - fst (b egn)) else rateLimitMax)"
  using assms
proof (induction calls arbitrary: b t0)
  case Nil
  then show ?case by (simp add: allowed_in_def rateLimitMax_def)
next
  case (Cons call calls)
  obtain t e where call: "call = (t, e)" by fastforce
  let ?W = "rateLimitWindow * sec"
  show ?case
  proof (cases "s + ?W \<le> t")
    case True
    have "\<forall>(t', e') \<in> set (call # calls). s + ?W \<le> t'" using Cons.prems(1) True by (fastforce simp: call)
    from allowed_in_late [OF this] show ?thesis by (simp add: rateLimitMax_def)
  next
    case False
    define n where "n = (if t < snd (b e) then fst (b e) else 0) + 1"
    let ?b = "b(e := (n, t + ?W))"
    have lim: "limiter b (call # calls) = (n \<le> rateLimitMax) # limiter ?b calls" by (simp add: call n_def Let_def)
    have sorted: "sorted (t # map fst calls)" "t0 \<le> t" using Cons.prems(1) by (simp_all add: call)
    show ?thesis
    proof (cases "e = egn")
      case other: False
      then have b: "0 \<le> fst (?b egn)" "?b egn = b egn" "fst (?b egn) = 0 \<or> snd (?b egn) \<le> t + ?W"
        using Cons.prems(2,3) sorted(2) by auto
      moreover have "allowed_in s egn (call # calls) (limiter b (call # calls)) = allowed_in s egn calls (limiter ?b calls)"
        unfolding lim using other by (simp add: allowed_in_def call)
      moreover have "int (allowed_in s egn calls (limiter ?b calls))
          \<le> (if s + ?W \<le> snd (?b egn) then max 0 (rateLimitMax - fst (?b egn)) else rateLimitMax)"
        using sorted(1) b(1,3) by (rule Cons.IH)
      ultimately show ?thesis by (simp only: b(2))
    next
      case True
      have n: "0 < n" using Cons.prems(2) by (auto simp: n_def True add_nonneg_pos)
      have IH: "int (allowed_in s egn calls (limiter ?b calls)) \<le> (if s \<le> t then max 0 (rateLimitMax - n) else rateLimitMax)"
      proof -
        have "int (allowed_in s egn calls (limiter ?b calls))
            \<le> (if s + ?W \<le> snd (?b egn) then max 0 (rateLimitMax - fst (?b egn)) else rateLimitMax)"
          by (rule Cons.IH [OF sorted(1)]) (use n in \<open>simp_all add: True\<close>)
        then show ?thesis by (simp add: True split: if_split_asm)
      qed
      have step: "allowed_in s egn (call # calls) (limiter b (call # calls))
          = (if s \<le> t \<and> n \<le> rateLimitMax then 1 else 0) + allowed_in s egn calls (limiter ?b calls)"
        unfolding lim using False by (simp add: allowed_in_def call True)
      have live: "n = fst (b egn) + 1" "s \<le> t \<or> fst (b egn) = 0" if "s + ?W \<le> snd (b egn)"
        using that False Cons.prems(3) sorted(2) by (auto simp: n_def True)
      show ?thesis using IH step live n Cons.prems(2) window_pos False
        by (auto simp: rateLimitMax_def split: if_splits)
    qed
  qed
qed

lemma limiter_burst:
  assumes "0 \<le> n" "\<forall>i. Suc i < length (t0 # ts) \<longrightarrow> (t0 # ts) ! Suc i < (t0 # ts) ! i + rateLimitWindow * sec"
  shows "limiter (b(egn := (n, t0 + rateLimitWindow * sec))) (map (\<lambda>t. (t, egn)) ts) = map (\<lambda>i. n + 1 + int i \<le> rateLimitMax) [0..<length ts]"
  using assms
proof (induction ts arbitrary: t0 n b)
  case (Cons t ts)
  have "t < t0 + rateLimitWindow * sec" using Cons.prems(2) [rule_format, of 0] by simp
  moreover have "\<forall>i. Suc i < length (t # ts) \<longrightarrow> (t # ts) ! Suc i < (t # ts) ! i + rateLimitWindow * sec"
    using Cons.prems(2) by (metis Suc_less_eq length_Cons nth_Cons_Suc)
  moreover from this have "limiter (b(egn := (n + 1, t + rateLimitWindow * sec))) (map (\<lambda>t. (t, egn)) ts)
      = map (\<lambda>i. n + 1 + 1 + int i \<le> rateLimitMax) [0..<length ts]"
    using Cons.prems(1) by (intro Cons.IH) simp_all
  ultimately have "limiter (b(egn := (n, t0 + rateLimitWindow * sec))) (map (\<lambda>t. (t, egn)) (t # ts))
      = (n + 1 \<le> rateLimitMax) # map (\<lambda>i. n + 1 + 1 + int i \<le> rateLimitMax) [0..<length ts]"
    by (simp add: Let_def)
  also have "\<dots> = map (\<lambda>i. n + 1 + int i \<le> rateLimitMax) [0..<length (t # ts)]"
    by (simp add: upt_conv_Cons map_Suc_upt [symmetric] comp_def algebra_simps del: upt_Suc map_Suc_upt)
  finally show ?case .
qed simp

lemma limiter_burst_empty:
  assumes "\<forall>i. Suc i < length ts \<longrightarrow> ts ! Suc i < ts ! i + rateLimitWindow * sec" "fst (b egn) = 0"
  shows "limiter b (map (\<lambda>t. (t, egn)) ts) = map (\<lambda>i. int i < rateLimitMax) [0..<length ts]"
proof (cases ts)
  case (Cons t ts')
  have "limiter b (map (\<lambda>t. (t, egn)) ts) = True # map (\<lambda>i. 1 + 1 + int i \<le> rateLimitMax) [0..<length ts']"
    using limiter_burst [of 1 t ts' b egn] assms by (simp add: Cons rateLimitMax_def)
  also have "\<dots> = map (\<lambda>i. int i < rateLimitMax) [0..<length ts]"
    by (simp add: Cons upt_conv_Cons map_Suc_upt [symmetric] comp_def rateLimitMax_def del: upt_Suc map_Suc_upt)
      auto
  finally show ?thesis .
qed simp

section \<open>An example\<close>

definition uuidA :: string where "uuidA = replicate 36 CHR ''a''"
definition uuidB :: string where "uuidB = replicate 36 CHR ''b''"

definition ex_claims :: SessionClaims where
  "ex_claims = session_claims uuidA ''e'' 0"

text \<open>A signer that knows one set of claims, and a parser for its token.\<close>

definition ex_mint :: "string \<Rightarrow> SessionClaims \<Rightarrow> unit \<Rightarrow> string option" where
  "ex_mint alg claims k = (if claims = ex_claims then Some ''tok'' else None)"

definition ex_parse :: "unit jwt_parser" where
  "ex_parse tok keyf algs iss aud = Some (ex_claims, True)"

definition ex_login :: "(unit, unit) LoginHandler" where
  "ex_login = NewLoginHandler (\<lambda>_. ()) MockProvider () ''e'' [''https://v:*'']"

definition ex_request :: http_request where
  "ex_request = \<lparr>req_method = ''POST'', req_path = ''/authenticate'', req_header = (\<lambda>n. if n = ''Authorization'' then ''Bearer tok'' else ''''),
     req_cookie = (\<lambda>_. Some ''c''), req_query = (\<lambda>_. ''''), req_body = []\<rparr>"

definition ex_db :: keyspace where "ex_db = (\<lambda>_. None)"

definition ex_voter :: Identity where
  "ex_voter = \<lparr>EGN = ''8501011234'', Name = mock_name @ ''8501'', IsEligible = True\<rparr>"

lemma ex_db_empty: "rd_get ks t k ex_db = None"
  by (simp add: ks_def ks_get_def ex_db_def)

lemma ex_identity: "Authenticate (provider ex_login) ''mock-8501011234'' = Inr (Some ex_voter)"
  by (simp add: ex_login_def NewLoginHandler_def MockProvider_def mock_Authenticate_def HasPrefix_def TrimPrefix_def ex_voter_def)

lemma ex_EGN: "EGN ex_voter = ''8501011234''" "IsEligible ex_voter"
  by (simp_all add: ex_voter_def)

lemma ex_handler: "jwtPrivKey ex_login = ()" "electionID ex_login = ''e''" "provider_name (provider ex_login) = ''mock''"
  by (simp_all add: ex_login_def NewLoginHandler_def MockProvider_def)

lemma ex_allowed: "fst (Allow ks Works 0 ''8501011234'' ex_db) = Inr True"
  using ks.Allow_works(1) [of 0 "''8501011234''" ex_db 0] ex_db_empty by (simp add: rateLimitMax_def)

definition ex_db0 :: keyspace where "ex_db0 = snd (Allow ks Works 0 ''8501011234'' ex_db)"

definition ex_db1 :: keyspace where
  "ex_db1 = replaceSessionScript ks 0 ''8501011234'' uuidA auth_SessionTTL egnKeyTTL ex_db0"

lemma ex_issue: "issue_session ks Works ex_mint () ''e'' 0 uuidA ''8501011234'' ex_db0 = (Inr ''tok'', ex_db1)"
  by (simp add: issue_session_Inr jwt_Sign_def ex_mint_def ex_claims_def ex_db1_def)

lemma ex_allow: "Allow ks Works 0 ''8501011234'' ex_db = (Inr True, ex_db0)"
  using ex_allowed by (metis prod.collapse ex_db0_def)

lemma ex_authenticated:
  "ServeHTTP ks (\<lambda>_. Works) ex_mint (\<lambda>_. Some ''mock-8501011234'') ex_login 0 uuidA ex_request ex_db =
    (Success StatusOK \<lparr>SessionToken = ''tok'', resp_Provider = ''mock'', set_cookie = session_cookie ''tok''\<rparr>, ex_db1)"
  by (subst ServeHTTP_def) (simp add: ex_request_def ex_identity ex_EGN ex_allow ex_handler ex_issue)


section \<open>Properties\<close>

text \<open>
  C37.  One session per voter.  In every run of authentications and logins from an empty database,
  with lost and unanswered Redis calls and whatever session IDs are drawn, no two session IDs
  resolve to the same voter at any later time.
\<close>

theorem one_session_per_voter:
  assumes "redis_laws rd" "\<And>t k. rd_get rd t k db0 = None" "(auth_step rd mint h)\<^sup>*\<^sup>* (t0, db0) (now, db)" "now \<le> t"
    and "redis_Resolve rd Works t u1 db = Inr egn" "redis_Resolve rd Works t u2 db = Inr egn"
  shows "u1 = u2"
proof -
  have "(session_step rd {} {})\<^sup>*\<^sup>* (t0, db0) (now, db)"
    using assms(3)
  proof (induction "(now, db)" arbitrary: now db rule: rtranclp_induct)
    case (step s)
    have "(session_step rd {} {})\<^sup>*\<^sup>* s (now, db)"
      using step(2) by (cases rule: auth_step.cases) (auto intro: ServeHTTP_run HandlePostLogin_run)
    moreover have "(session_step rd {} {})\<^sup>*\<^sup>* (t0, db0) s" using step(3) [of "fst s" "snd s"] by simp
    ultimately show ?case by (rule rtranclp_trans [rotated])
  qed simp
  from redis_laws.sessions_ok_run [OF assms(1) this] assms(2) have "sessions_ok rd now db" by (simp add: sessions_ok_def)
  moreover have "rd_get rd t (sessionPrefix @ u1) db = Some egn" "rd_get rd t (sessionPrefix @ u2) db = Some egn"
    using assms(5,6) by (auto simp: redis_Resolve_def split: option.splits)
  ultimately have "rd_get rd t (egnPrefix @ egn) db = Some u1" "rd_get rd t (egnPrefix @ egn) db = Some u2"
    using assms(4) unfolding sessions_ok_def by blast+
  then show ?thesis by simp
qed

theorem one_session_per_voter_witness:
  "redis_Resolve ks Works 1 uuidA ex_db1 = Inr ''8501011234'' \<and> redis_Resolve ks Works 1 uuidB ex_db1 \<noteq> Inr ''8501011234''"
proof -
  have run: "(auth_step ks ex_mint ex_login)\<^sup>*\<^sup>* (0, ex_db) (0, ex_db1)"
    using authenticate [of 0 0 ks ex_mint ex_login ex_db "\<lambda>_. Works" "\<lambda>_. Some ''mock-8501011234''" uuidA ex_request]
    by (auto simp: ex_authenticated)
  have A: "redis_Resolve ks Works 1 uuidA ex_db1 = Inr ''8501011234''"
    by (simp add: ex_db1_def redis_Resolve_def ks.replaceSession_session auth_SessionTTL_def sec_def)
  have "uuidA \<noteq> uuidB" by (simp add: uuidA_def uuidB_def)
  with one_session_per_voter [OF ks.redis_laws_axioms ex_db_empty run _ A, of uuidB] A show ?thesis by auto
qed

text \<open>
  C38.  The rate limit.  Of any calls of \<open>Allow\<close> in the order of their times, at most five for one EGN
  are allowed in any ten minutes; and the window is renewed by refused attempts too, so while
  attempts for an EGN keep coming less than ten minutes apart, only the first five are ever
  allowed.
\<close>

theorem rate_limit:
  assumes "redis_laws rd" "\<And>t k. rd_get rd t k db = None" "sorted (map fst calls)"
  shows "allowed_in s egn calls (attempts rd calls db) \<le> 5
    \<and> (\<forall>ts. calls = map (\<lambda>t. (t, egn)) ts \<and> (\<forall>i. Suc i < length ts \<longrightarrow> ts ! Suc i < ts ! i + rateLimitWindow * sec)
        \<longrightarrow> attempts rd calls db = map (\<lambda>i. i < 5) [0..<length ts])"
proof -
  define t0 where "t0 = (case calls of [] \<Rightarrow> 0 | c # _ \<Rightarrow> fst c)"
  have sorted: "sorted (t0 # map fst calls)" using assms(3) by (cases calls) (auto simp: t0_def)
  have "counts rd (\<lambda>_. (0, 0)) t0 db" using redis_laws.counts_empty [OF assms(1,2)] by simp
  from redis_laws.attempts_limiter [OF assms(1) this sorted]
  have lim: "attempts rd calls db = limiter (\<lambda>_. (0, 0)) calls" .
  have "allowed_in s egn calls (attempts rd calls db) \<le> 5"
    using limiter_window [OF sorted, of "\<lambda>_. (0, 0)" egn s] by (auto simp: lim rateLimitMax_def split: if_splits)
  moreover have "attempts rd calls db = map (\<lambda>i. i < 5) [0..<length ts]"
    if "calls = map (\<lambda>t. (t, egn)) ts" "\<forall>i. Suc i < length ts \<longrightarrow> ts ! Suc i < ts ! i + rateLimitWindow * sec" for ts
    using limiter_burst_empty [OF that(2), of "\<lambda>_. (0, 0)" egn] unfolding lim unfolding that(1) by (simp add: rateLimitMax_def)
  ultimately show ?thesis by blast
qed

theorem rate_limit_witness:
  "allowed_in 0 ''v'' [(0, ''v''), (1, ''v''), (1, ''v''), (2, ''v''), (3, ''v''), (4, ''v'')]
      (attempts ks [(0, ''v''), (1, ''v''), (1, ''v''), (2, ''v''), (3, ''v''), (4, ''v'')] ex_db) \<le> 5
    \<and> attempts ks [(0, ''v''), (1, ''v''), (1, ''v''), (2, ''v''), (3, ''v''), (4, ''v'')] ex_db = [True, True, True, True, True, False]"
proof -
  let ?ts = "[0, 1, 1, 2, 3, 4] :: int list"
  have gaps: "\<forall>i. Suc i < length ?ts \<longrightarrow> ?ts ! Suc i < ?ts ! i + rateLimitWindow * sec"
    by (auto simp: less_Suc_eq rateLimitWindow_def sec_def)
  have sorted: "sorted (map fst (map (\<lambda>t. (t, ''v'')) ?ts))" by simp
  note limit = rate_limit [OF ks.redis_laws_axioms ex_db_empty sorted, of 0 "''v''"]
  from limit [THEN conjunct1] limit [THEN conjunct2, rule_format, OF conjI, OF refl gaps] show ?thesis
    by (simp add: upt_rec)
qed

text \<open>
  C35.  What a redirect with a token means.  The login form answers with a redirect only if the CSRF
  cookie and the form agree, the target has a scheme and a host of an allowed pattern and no user
  information, the EGN has ten digits, the limiter allowed the attempt and the provider knows an
  eligible voter; then the session in the database belongs to that voter and the token carries
  it.  Every other reply leaves all sessions as they were, unless the token could not be signed
  or Redis did not answer.
\<close>

theorem login_gate:
  assumes "redis_laws rd" "HandlePostLogin rd flt mint ul rand h now uuid form r db = (reply, db')"
  shows "(\<forall>target c. reply = Redirected target c \<longrightarrow>
      (\<exists>f identity parsed pHost pPort pattern tok. form = Some f \<and> f ''csrf_token'' \<noteq> '''' \<and> req_cookie r ''csrf_token'' = Some (f ''csrf_token'')
        \<and> parse_url ul (f ''redirect_uri'') = Some parsed \<and> \<not> has_User parsed \<and> Host parsed \<noteq> ''''
        \<and> pattern \<in> set (allowedURIs h) \<and> parsePattern pattern = Some (Scheme parsed, pHost, pPort)
        \<and> equal_fold ul (Hostname parsed) pHost \<and> (pPort = ''*'' \<or> pPort = url_Port parsed)
        \<and> egnRegex (f ''egn'') \<and> fst (Allow rd (flt 0) now (f ''egn'') db) = Inr True
        \<and> Authenticate (provider h) (''mock-'' @ f ''egn'') = Inr (Some identity) \<and> IsEligible identity
        \<and> redis_Resolve rd Works now uuid db' = Inr (EGN identity)
        \<and> jwt_Sign mint (session_claims uuid (electionID h) now) (jwtPrivKey h) = Some tok
        \<and> target = set_query ul (f ''redirect_uri'') ''token'' tok \<and> c = session_cookie tok))
    \<and> ((\<forall>target c. reply \<noteq> Redirected target c) \<and> flt (Suc 0) \<noteq> Unanswered \<and> (\<forall>claims. jwt_Sign mint claims (jwtPrivKey h) \<noteq> None) \<longrightarrow>
        (\<forall>t u. now \<le> t \<longrightarrow> redis_Resolve rd Works t u db' = redis_Resolve rd Works t u db))"
proof (intro conjI allI impI)
  fix target c
  assume red: "reply = Redirected target c"
  from assms(2) red obtain f where f: "form = Some f" by (cases form) (auto simp: HandlePostLogin_def)
  note no_redirect = rerender_def renderLogin_def
  from assms(2) red f have checks: "f ''csrf_token'' \<noteq> ''''" "req_cookie r ''csrf_token'' = Some (f ''csrf_token'')"
    "validateRedirectURI (parse_url ul) (equal_fold ul) (f ''redirect_uri'') (allowedURIs h)" "egnRegex (f ''egn'')"
    by (auto simp: HandlePostLogin_def Let_def no_redirect split: option.splits if_splits)
  obtain a db1 where a: "Allow rd (flt 0) now (f ''egn'') db = (a, db1)" by fastforce
  have go: "f ''redirect_uri'' \<noteq> ''''" using assms(2) red f checks by (auto simp: HandlePostLogin_def Let_def no_redirect split: option.splits if_splits)
  note handler = assms(2) [unfolded HandlePostLogin_def f option.case Let_def a checks(2), simplified checks go red]
  obtain identity where id: "a = Inr True" "Authenticate (provider h) (''mock-'' @ f ''egn'') = Inr (Some identity)" "IsEligible identity"
    using handler by (auto simp: no_redirect split: sum.splits bool.splits option.splits if_splits)
  obtain tok where tok: "issue_session rd (flt (Suc 0)) mint (jwtPrivKey h) (electionID h) now uuid (EGN identity) db1 = (Inr tok, db')"
    and target: "target = set_query ul (f ''redirect_uri'') ''token'' tok" "c = session_cookie tok"
    using handler id [simplified] by (auto simp: no_redirect split: sum.splits prod.splits issue_error.splits option.splits)
  have issued: "db' = replaceSessionScript rd now (EGN identity) uuid auth_SessionTTL egnKeyTTL db1"
    "jwt_Sign mint (session_claims uuid (electionID h) now) (jwtPrivKey h) = Some tok"
    using tok by (simp_all add: issue_session_Inr)
  have "redis_Resolve rd Works now uuid db' = Inr (EGN identity)"
    by (simp add: redis_Resolve_def issued(1) redis_laws.replaceSession_session [OF assms(1) order_refl] auth_SessionTTL_def sec_def)
  moreover from checks(3) obtain parsed pHost pPort pattern where "parse_url ul (f ''redirect_uri'') = Some parsed" "\<not> has_User parsed"
    "Host parsed \<noteq> ''''" "pattern \<in> set (allowedURIs h)" "parsePattern pattern = Some (Scheme parsed, pHost, pPort)"
    "equal_fold ul (Hostname parsed) pHost" "pPort = ''*'' \<or> pPort = url_Port parsed"
    by (auto simp: validateRedirectURI_def list_ex_iff split: option.splits if_splits)
  moreover have "fst (Allow rd (flt 0) now (f ''egn'') db) = Inr True" by (simp add: a id(1))
  ultimately show "\<exists>f identity parsed pHost pPort pattern tok. form = Some f \<and> f ''csrf_token'' \<noteq> '''' \<and> req_cookie r ''csrf_token'' = Some (f ''csrf_token'')
        \<and> parse_url ul (f ''redirect_uri'') = Some parsed \<and> \<not> has_User parsed \<and> Host parsed \<noteq> ''''
        \<and> pattern \<in> set (allowedURIs h) \<and> parsePattern pattern = Some (Scheme parsed, pHost, pPort)
        \<and> equal_fold ul (Hostname parsed) pHost \<and> (pPort = ''*'' \<or> pPort = url_Port parsed)
        \<and> egnRegex (f ''egn'') \<and> fst (Allow rd (flt 0) now (f ''egn'') db) = Inr True
        \<and> Authenticate (provider h) (''mock-'' @ f ''egn'') = Inr (Some identity) \<and> IsEligible identity
        \<and> redis_Resolve rd Works now uuid db' = Inr (EGN identity)
        \<and> jwt_Sign mint (session_claims uuid (electionID h) now) (jwtPrivKey h) = Some tok
        \<and> target = set_query ul (f ''redirect_uri'') ''token'' tok \<and> c = session_cookie tok"
    using f checks id(2,3) issued(2) target by blast
next
  fix t u
  assume no: "(\<forall>target c. reply \<noteq> Redirected target c) \<and> flt (Suc 0) \<noteq> Unanswered \<and> (\<forall>claims. jwt_Sign mint claims (jwtPrivKey h) \<noteq> None)"
    and t: "now \<le> t"
  have "db' = db \<or> (\<exists>e. db' = snd (Allow rd (flt 0) now e db))"
  proof (cases form)
    case None
    then show ?thesis using assms(2) by (simp add: HandlePostLogin_def)
  next
    case (Some f)
    obtain a db1 where a: "Allow rd (flt 0) now (f ''egn'') db = (a, db1)" by fastforce
    have issue: "issue_session rd (flt (Suc 0)) mint (jwtPrivKey h) eid now uuid e db1 =
        (if flt (Suc 0) = Works then (Inr (the (jwt_Sign mint (session_claims uuid eid now) (jwtPrivKey h))), snd (redis_Create rd Works now uuid e db1))
         else (Inl SessionError, db1))" for eid e
    proof -
      obtain tk where "jwt_Sign mint (session_claims uuid eid now) (jwtPrivKey h) = Some tk" using no by blast
      then show ?thesis using no by (cases "flt (Suc 0)") (simp_all add: issue_session_def redis_Create_def Let_def)
    qed
    have parse: "validateRedirectURI (parse_url ul) (equal_fold ul) u (allowedURIs h) \<Longrightarrow> parse_url ul u \<noteq> None" for u
      by (auto simp: validateRedirectURI_def split: option.splits)
    have "db' \<in> {db, db1}"
      using assms(2) no parse [of "f ''redirect_uri''"]
      by (auto simp: HandlePostLogin_def Let_def Some a issue split: option.splits sum.splits bool.splits issue_error.splits if_splits)
    then show ?thesis using a by (metis insertE singletonD snd_conv)
  qed
  then show "redis_Resolve rd Works t u db' = redis_Resolve rd Works t u db"
    using redis_laws.Allow_other [OF assms(1) t, of "sessionPrefix @ u"] by (auto simp: redis_Resolve_def)
qed

definition ex_urls :: url_lib where
  "ex_urls = \<lparr>parse_url = (\<lambda>u. Some \<lparr>Scheme = ''https'', has_User = False, Host = ''v:1'', Hostname = ''v'', url_Port = ''1''\<rparr>),
     equal_fold = (=), set_query = (\<lambda>u k v. u @ ''?'' @ k @ ''='' @ v)\<rparr>"

definition ex_form :: "string \<Rightarrow> string" where
  "ex_form n = (if n = ''csrf_token'' then ''c'' else if n = ''egn'' then ''8501011234'' else ''https://v:1'')"

theorem login_gate_witness:
  "HandlePostLogin ks (\<lambda>_. Works) ex_mint ex_urls None ex_login 0 uuidA (Some ex_form) ex_request ex_db
      = (Redirected ''https://v:1?token=tok'' (session_cookie ''tok''), ex_db1)
    \<and> redis_Resolve ks Works 0 uuidA ex_db1 = Inr ''8501011234''"
proof -
  have "parsePattern ''https://v:*'' = Some (''https'', ''v'', ''*'')" by code_simp
  then have valid: "validateRedirectURI (parse_url ex_urls) (equal_fold ex_urls) ''https://v:1'' (allowedURIs ex_login)"
    by (simp add: validateRedirectURI_def ex_urls_def ex_login_def NewLoginHandler_def)
  have form: "ex_form ''csrf_token'' = ''c''" "ex_form ''redirect_uri'' = ''https://v:1''" "ex_form ''egn'' = ''8501011234''"
    by (simp_all add: ex_form_def)
  have target: "parse_url ex_urls ''https://v:1'' \<noteq> None" "set_query ex_urls ''https://v:1'' ''token'' ''tok'' = ''https://v:1?token=tok''"
    by (simp_all add: ex_urls_def)
  have "egnRegex ''8501011234''" by code_simp
  then have run: "HandlePostLogin ks (\<lambda>_. Works) ex_mint ex_urls None ex_login 0 uuidA (Some ex_form) ex_request ex_db
      = (Redirected ''https://v:1?token=tok'' (session_cookie ''tok''), ex_db1)"
    using valid target
    by (auto simp: HandlePostLogin_def form Let_def ex_request_def ex_identity ex_EGN ex_allow ex_handler ex_issue)
  from login_gate [OF ks.redis_laws_axioms run, THEN conjunct1, rule_format, OF refl] ex_identity ex_EGN
  have "redis_Resolve ks Works 0 uuidA ex_db1 = Inr ''8501011234''" by (auto simp: ex_form_def)
  with run show ?thesis by simp
qed

text \<open>
  C36.  A token identifies its voter to the collection service.  After the token endpoint answered
  with a token, and whatever other voters do in the meantime, a request with the token until
  its session expires is identified as the voter's, through the internal session endpoint; and
  once the voter has authenticated again, with another session, the old token is refused.
\<close>

theorem token_identifies_voter:
  assumes rd: "redis_laws rd" and new: "\<And>t e. now \<le> t \<Longrightarrow> rd_get rd t (egnPrefix @ e) db \<noteq> Some uuid" "length uuid = 36"
    and auth: "ServeHTTP rd flt mint decode h now uuid r db = (Success n resp, db1)"
      "decode (take 65536 (req_body r)) = Some token" "Authenticate (provider h) token = Inr (Some identity)"
    and later: "(session_step rd {uuid} {EGN identity})\<^sup>*\<^sup>* (now, db1) (t, db2)" "t div sec < (now + auth_SessionTTL * sec) div sec"
    and keys: "jwt_keys parse mint pub (jwtPrivKey h) (t div sec)"
    and ch: "\<not> devAuth ch" "col_electionID ch = electionID h" "isValidEGN (EGN identity)" "extractToken req = Inr (SessionToken resp)"
    and net: "\<And>u. url_ok u" "decode_egn (take 65536 (encode (EGN identity))) = Some (EGN identity)"
  shows "identify (\<lambda>tok. jwt_Verify parse tok pub)
      (resolveSession url_ok (session_route rd Works encode (sessionAPIKey ch) (authServiceURL ch) t db2) decode_egn ch) ch req = Inr (EGN identity)
    \<and> (uuid2 \<noteq> uuid \<longrightarrow> identify (\<lambda>tok. jwt_Verify parse tok pub)
      (resolveSession url_ok (session_route rd Works encode (sessionAPIKey ch) (authServiceURL ch) t
        (replaceSessionScript rd t (EGN identity) uuid2 auth_SessionTTL egnKeyTTL db2)) decode_egn ch) ch req = Inl (401, ''session_error''))"
proof -
  from ServeHTTP_Success [OF auth(1)] auth(2,3) have
    db1: "db1 = replaceSessionScript rd now (EGN identity) uuid auth_SessionTTL egnKeyTTL (snd (Allow rd (flt 0) now (EGN identity) db))"
    and tok: "jwt_Sign mint (session_claims uuid (electionID h) now) (jwtPrivKey h) = Some (SessionToken resp)" by auto
  have "rd_get rd s (egnPrefix @ e) (snd (Allow rd (flt 0) now (EGN identity) db)) \<noteq> Some uuid" if "now \<le> s" for s e
    using redis_laws.Allow_other [OF rd that] new(1) [OF that] by simp
  from redis_laws.session_live_created [OF rd this]
  have "session_live rd uuid (EGN identity) (now + auth_SessionTTL * sec) (now, db1)" unfolding db1 by blast
  from redis_laws.session_live_run [OF rd later(1) this]
  have live: "session_live rd uuid (EGN identity) (now + auth_SessionTTL * sec) (t, db2)" .
  have t: "t < now + auth_SessionTTL * sec"
  proof (rule ccontr)
    assume "\<not> t < now + auth_SessionTTL * sec"
    then have "(now + auth_SessionTTL * sec) div sec \<le> t div sec" by (intro zdiv_mono1) (simp_all add: sec_def)
    with later(2) show False by simp
  qed
  have verify: "jwt_Verify parse (SessionToken resp) pub = Inr (session_claims uuid (electionID h) now)"
    using jwt_Verify_Sign [OF keys tok] later(2) by (simp add: session_claims_def)
  have found: "resolveSession url_ok (session_route rd Works encode (sessionAPIKey ch) (authServiceURL ch) t d) decode_egn ch uuid = Inr (EGN identity)"
    if "redis_Resolve rd Works t uuid d = Inr (EGN identity)" for d
    using new(2) net that by (auto simp: resolveSession_def session_route_def HasPrefix_def TrimPrefix_def RequireKey_def HandleResolveSession_def StatusOK_def Let_def)
  have gone: "resolveSession url_ok (session_route rd Works encode (sessionAPIKey ch) (authServiceURL ch) t d) decode_egn ch uuid = Inl SessionNotFound"
    if "redis_Resolve rd Works t uuid d = Inl ErrSessionNotFound" for d
    using new(2) net that by (auto simp: resolveSession_def session_route_def HasPrefix_def TrimPrefix_def RequireKey_def HandleResolveSession_def StatusOK_def Let_def)
  note route = found gone
  have "redis_Resolve rd Works t uuid db2 = Inr (EGN identity)"
    using live t by (simp add: session_live_def redis_Resolve_def)
  moreover have "redis_Resolve rd Works t uuid (replaceSessionScript rd t (EGN identity) uuid2 auth_SessionTTL egnKeyTTL db2) = Inl ErrSessionNotFound"
    if "uuid2 \<noteq> uuid"
    using live t that by (simp add: session_live_def redis_Resolve_def redis_laws.replaceSession_session [OF rd])
  moreover have "EGN identity \<noteq> ''''" using ch(3) by (auto simp: isValidEGN_def)
  ultimately show ?thesis
    using ch verify route by (simp add: identify_def session_claims_def)
qed

definition ex_collection :: CollectionHandler where
  "ex_collection = \<lparr>egnHMACKey = [], bulletinBoardURL = '''', internalAPIKey = '''', overrideReportDir = '''', devAuth = False,
     authServiceURL = ''http://a'', sessionAPIKey = ''k'', col_electionID = ''e''\<rparr>"

theorem token_identifies_voter_witness:
  "identify (\<lambda>tok. jwt_Verify ex_parse tok ())
    (resolveSession (\<lambda>_. True) (session_route ks Works (\<lambda>_. []) ''k'' ''http://a'' 1 ex_db1) (\<lambda>_. Some ''8501011234'') ex_collection) ex_collection ex_request
      = Inr ''8501011234''"
proof -
  have fresh: "rd_get ks t (egnPrefix @ e) ex_db \<noteq> Some uuidA" for t e by (simp add: ex_db_empty)
  have keys: "jwt_keys ex_parse ex_mint () (jwtPrivKey ex_login) (1 div sec)"
    by (simp add: jwt_keys_def ex_mint_def ex_parse_def)
  have later: "(session_step ks {uuidA} {EGN ex_voter})\<^sup>*\<^sup>* (0, ex_db1) (1, ex_db1)" by (intro r_into_rtranclp session_step.waited) simp
  have ch: "length uuidA = 36" "\<not> devAuth ex_collection" "col_electionID ex_collection = electionID ex_login" "isValidEGN (EGN ex_voter)"
    "(1 :: int) div sec < (0 + auth_SessionTTL * sec) div sec"
    "extractToken ex_request = Inr (SessionToken \<lparr>SessionToken = ''tok'', resp_Provider = ''mock'', set_cookie = session_cookie ''tok''\<rparr>)"
    by (simp_all add: uuidA_def ex_collection_def ex_handler isValidEGN_def sec_def auth_SessionTTL_def extractToken_def ex_request_def
        HasPrefix_def TrimPrefix_def ex_EGN)
  have body: "(\<lambda>_ :: bytes. Some ''mock-8501011234'') (take 65536 (req_body ex_request)) = Some ''mock-8501011234''" by simp
  have egn: "(\<lambda>_ :: bytes. Some ''8501011234'') (take 65536 ((\<lambda>_ :: string. []) (EGN ex_voter))) = Some (EGN ex_voter)" by (simp add: ex_EGN)
  from token_identifies_voter [OF ks.redis_laws_axioms fresh ch(1) ex_authenticated body ex_identity later ch(5) keys ch(2-4,6) TrueI egn, THEN conjunct1]
  show ?thesis by (simp add: ex_EGN ex_collection_def)
qed

end
