(* ===== verification/Dedup_Circuit.thy ===== *)
theory Dedup_Circuit
  imports Prelude
begin

text \<open>
  The deduplication circuit (\<open>crypto/gnark/dedup.go\<close>, \<open>crypto/gnark/merkle.go\<close>).  gnark is a
  library: what the code calls of its \<open>frontend.API\<close> is a record of functions on the values of
  the wires, which are field elements and written as integers.  A call gives the value of its
  wire, or \<open>Unsatisfied\<close> when a constraint it adds fails for the assignment; so \<open>Define\<close> on an
  assignment is \<open>Inr ()\<close> exactly when the assignment satisfies the circuit.  The locale
  \<open>gnark_laws\<close> states what the library documents.
\<close>

section \<open>The interface of gnark\<close>

datatype circuit_error = NoPermutation | Unsatisfied

record 'h gnark_api =
  api_Add :: "int \<Rightarrow> int \<Rightarrow> int"
  api_Sub :: "int \<Rightarrow> int \<Rightarrow> int"
  api_Mul :: "int \<Rightarrow> int \<Rightarrow> int"
  api_Select :: "int \<Rightarrow> int \<Rightarrow> int \<Rightarrow> circuit_error + int"
  AssertIsBoolean :: "int \<Rightarrow> circuit_error + unit"
  AssertIsEqual :: "int \<Rightarrow> int \<Rightarrow> circuit_error + unit"
  range_Check :: "int \<Rightarrow> nat \<Rightarrow> circuit_error + unit"
  NewPoseidon2FromParameters :: "nat \<Rightarrow> nat \<Rightarrow> nat \<Rightarrow> circuit_error + 'h"
  MerkleDamgard :: "'h \<Rightarrow> int \<Rightarrow> int list \<Rightarrow> int"

text \<open>
  The field has \<open>r\<close> elements; \<open>hash\<close> is the digest of the elements written to the hasher.  \<open>Select\<close>
  constrains its condition to be 0 or 1, and \<open>Check v n\<close> that \<open>v\<close> has at most \<open>n\<close> bits.
\<close>

locale gnark_laws =
  fixes api :: "'h gnark_api" and hash :: "int list \<Rightarrow> int" and r :: int
  assumes field_order: "2 ^ 253 < r"
    and Add: "api_Add api a b = (a + b) mod r"
    and Sub: "api_Sub api a b = (a - b) mod r"
    and Mul: "api_Mul api a b = (a * b) mod r"
    and Select: "api_Select api b x y = (if b = 1 then Inr x else if b = 0 then Inr y else Inl Unsatisfied)"
    and IsBoolean: "AssertIsBoolean api a = guardE (a = 0 \<or> a = 1) Unsatisfied"
    and IsEqual: "AssertIsEqual api a b = guardE (a = b) Unsatisfied"
    and Check: "0 \<le> v \<Longrightarrow> v < r \<Longrightarrow> range_Check api v n = guardE (v < 2 ^ n) Unsatisfied"
    and hasher: "\<exists>perm. NewPoseidon2FromParameters api 2 6 50 = Inr perm \<and> MerkleDamgard api perm 0 = hash"
    and hash_range: "0 \<le> hash xs \<and> hash xs < r"

section \<open>Hashes and trees in the circuit\<close>

definition poseidon2Width :: nat where "poseidon2Width = 2"
definition poseidon2FullRounds :: nat where "poseidon2FullRounds = 6"
definition poseidon2PartialRounds :: nat where "poseidon2PartialRounds = 50"

text \<open>The hasher is the function from what is written after \<open>Reset\<close> to what \<open>Sum\<close> returns.\<close>

definition newPoseidon2Hasher :: "'h gnark_api \<Rightarrow> circuit_error + (int list \<Rightarrow> int)" where
  "newPoseidon2Hasher api =
     bindE (NewPoseidon2FromParameters api poseidon2Width poseidon2FullRounds poseidon2PartialRounds) (\<lambda>perm.
     Inr (MerkleDamgard api perm 0))"

function double_until :: "nat \<Rightarrow> nat \<Rightarrow> nat" where
  "double_until n p = (if 0 < p \<and> p < n then double_until n (2 * p) else p)"
  by auto
termination by (relation "measure (\<lambda>(n, p). n - p)") auto

declare double_until.simps [simp del]

definition nextPowerOf2 :: "nat \<Rightarrow> nat" where
  "nextPowerOf2 n = double_until n 1"

text \<open>One layer of the tree from the one below, which has an even number of nodes.\<close>

fun next_layer :: "(int list \<Rightarrow> int) \<Rightarrow> int list \<Rightarrow> int list" where
  "next_layer h (x # y # l) = h [x, y] # next_layer h l"
| "next_layer h _ = []"

lemma length_next_layer [simp]: "length (next_layer h l) = length l div 2"
  by (induction h l rule: next_layer.induct) auto

text \<open>The loop \<open>for len(layer) > 1\<close>.\<close>

function reduce_layers :: "(int list \<Rightarrow> int) \<Rightarrow> int list \<Rightarrow> int list" where
  "reduce_layers h layer = (if 1 < length layer then reduce_layers h (next_layer h layer) else layer)"
  by auto
termination by (relation "measure (\<lambda>(h, layer). length layer)") auto

declare reduce_layers.simps [simp del]

definition pad_leaves :: "int list \<Rightarrow> int list" where
  "pad_leaves leaves = leaves @ replicate (nextPowerOf2 (length leaves) - length leaves) 0"

definition BuildMerkleTree :: "'h gnark_api \<Rightarrow> int list \<Rightarrow> circuit_error + int" where
  "BuildMerkleTree api leaves =
     (if leaves = [] then Inr 0
      else bindE (newPoseidon2Hasher api) (\<lambda>h. Inr (reduce_layers h (pad_leaves leaves) ! 0)))"

record circuit_MerkleProof =
  proof_Path :: "int list"
  proof_Direction :: "int list"

text \<open>One level of a proof: the sibling goes to the side the direction says.\<close>

definition proof_level :: "'h gnark_api \<Rightarrow> (int list \<Rightarrow> int) \<Rightarrow> int \<Rightarrow> int \<Rightarrow> int \<Rightarrow> circuit_error + int" where
  "proof_level api h sibling direction current =
     bindE (api_Select api direction sibling current) (\<lambda>left.
     bindE (api_Select api direction current sibling) (\<lambda>right.
     Inr (h [left, right])))"

definition VerifyMerkleProof :: "'h gnark_api \<Rightarrow> int \<Rightarrow> int \<Rightarrow> circuit_MerkleProof \<Rightarrow> circuit_error + unit" where
  "VerifyMerkleProof api leaf expectedRoot p =
     bindE (newPoseidon2Hasher api) (\<lambda>h.
     bindE (foldE (\<lambda>i. proof_level api h (proof_Path p ! i) (proof_Direction p ! i)) [0..<length (proof_Path p)] leaf) (\<lambda>current.
     AssertIsEqual api current expectedRoot))"

section \<open>The deduplication circuit\<close>

definition BatchSize :: nat where "BatchSize = 10"
definition TreeDepth :: nat where "TreeDepth = 5"
definition BallotFieldElems :: nat where "BallotFieldElems = 10"

text \<open>Arrays of a fixed length are functions on their indices.\<close>

record CircuitMerkleProof =
  cPath :: "nat \<Rightarrow> int"
  cDirection :: "nat \<Rightarrow> int"

record DeduplicationCircuit =
  BBRoot :: int
  ASCommitment :: int
  FSRoot :: int
  NActive :: int
  IDs :: "nat \<Rightarrow> int"
  MerkleProofs :: "nat \<Rightarrow> CircuitMerkleProof"
  Ballots :: "nat \<Rightarrow> nat \<Rightarrow> int"
  IsActive :: "nat \<Rightarrow> int"

text \<open>(a) The leaf of a slot, which is returned, and for an active slot its way to the root.\<close>

definition slot_leaf :: "(int list \<Rightarrow> int) \<Rightarrow> DeduplicationCircuit \<Rightarrow> nat \<Rightarrow> int" where
  "slot_leaf h c i = h (IDs c i # map (Ballots c i) [0..<BallotFieldElems])"

definition slot_inclusion :: "'h gnark_api \<Rightarrow> (int list \<Rightarrow> int) \<Rightarrow> DeduplicationCircuit \<Rightarrow> nat \<Rightarrow> circuit_error + int" where
  "slot_inclusion api h c i =
     (let ballotLeaf = slot_leaf h c i; p = MerkleProofs c i in
      bindE (foldE (\<lambda>d. proof_level api h (cPath p d) (cDirection p d)) [0..<TreeDepth] ballotLeaf) (\<lambda>computedRoot.
      bindE (api_Select api (IsActive c i) computedRoot (BBRoot c)) (\<lambda>conditionalRoot.
      bindE (AssertIsEqual api conditionalRoot (BBRoot c)) (\<lambda>_.
      Inr ballotLeaf))))"

text \<open>(b) The order of two neighbours, when both are active.\<close>

definition slot_order :: "'h gnark_api \<Rightarrow> DeduplicationCircuit \<Rightarrow> nat \<Rightarrow> circuit_error + unit" where
  "slot_order api c i =
     (let diff = api_Sub api (IDs c (i + 1)) (IDs c i);
          bothActive = api_Mul api (IsActive c i) (IsActive c (i + 1));
          diffMinusOne = api_Sub api diff 1 in
      bindE (api_Select api bothActive diffMinusOne 0) (\<lambda>checkedValue.
      range_Check api checkedValue 252))"

definition Define :: "'h gnark_api \<Rightarrow> DeduplicationCircuit \<Rightarrow> circuit_error + unit" where
  "Define api c =
     bindE (newPoseidon2Hasher api) (\<lambda>h.
     bindE (checkE (\<lambda>i. AssertIsBoolean api (IsActive c i)) [0..<BatchSize]) (\<lambda>_.
     let activeCount = foldl (\<lambda>n i. api_Add api n (IsActive c i)) 0 [0..<BatchSize] in
     bindE (AssertIsEqual api activeCount (NActive c)) (\<lambda>_.
     bindE (mapE (slot_inclusion api h c) [0..<BatchSize]) (\<lambda>ballotLeaves.
     bindE (checkE (slot_order api c) [0..<BatchSize - 1]) (\<lambda>_.
     bindE (mapE (\<lambda>i. api_Select api (IsActive c i) (IDs c i) 0) [0..<BatchSize]) (\<lambda>asLeaves.
     bindE (BuildMerkleTree api asLeaves) (\<lambda>asRoot.
     bindE (AssertIsEqual api asRoot (ASCommitment c)) (\<lambda>_.
     bindE (mapE (\<lambda>i. api_Select api (IsActive c i) (ballotLeaves ! i) 0) [0..<BatchSize]) (\<lambda>fsLeaves.
     bindE (BuildMerkleTree api fsLeaves) (\<lambda>fsRoot.
     AssertIsEqual api fsRoot (FSRoot c)))))))))))"

end
