(* ===== verification/Dedup_Witness.thy ===== *)
theory Dedup_Witness
  imports Dedup_Circuit
begin

text \<open>
  The assignment for the deduplication circuit (\<open>crypto/gnark/witness.go\<close>) and the calls of
  Groth16 (\<open>crypto/gnark/prove.go\<close>).  An \<open>fr.Element\<close> is the integer it stands for; its codec and
  the native Poseidon2 hasher are a record of functions, and Groth16 is another.
\<close>

section \<open>Native hashes and trees\<close>

record fr_lib =
  Marshal :: "int \<Rightarrow> bytes"
  SetBytes :: "bytes \<Rightarrow> int"
  native_Sum :: "bytes \<Rightarrow> bytes"

definition poseidon2Hash :: "fr_lib \<Rightarrow> int list \<Rightarrow> int" where
  "poseidon2Hash fr inputs = SetBytes fr (native_Sum fr (concat (map (Marshal fr) inputs)))"

record MerkleProofData =
  Sibling :: int
  level_Direction :: nat

datatype witness_error = TooManyActive | IDsLength | BallotsLength | NotAscending nat | EmptyLeaves | NoProof int | WrongDepth int

text \<open>All layers, the leaves first.\<close>

function tree_layers :: "(int list \<Rightarrow> int) \<Rightarrow> int list \<Rightarrow> int list list" where
  "tree_layers h layer = layer # (if 1 < length layer then tree_layers h (next_layer h layer) else [])"
  by auto
termination by (relation "measure (\<lambda>(h, layer). length layer)") auto

declare tree_layers.simps [simp del]

text \<open>The loop over the levels with \<open>idx >>= 1\<close>; the last layer is the root's.\<close>

fun extract_proof :: "int list list \<Rightarrow> nat \<Rightarrow> MerkleProofData list" where
  "extract_proof (l # l' # ls) idx =
     \<lparr>Sibling = l ! (idx XOR 1), level_Direction = idx AND 1\<rparr> # extract_proof (l' # ls) (drop_bit 1 idx)"
| "extract_proof _ idx = []"

definition buildPoseidon2MerkleTree ::
  "(int list \<Rightarrow> int) \<Rightarrow> int list \<Rightarrow> witness_error + int \<times> (int \<Rightarrow> MerkleProofData list option)" where
  "buildPoseidon2MerkleTree h leaves =
     (if leaves = [] then Inl EmptyLeaves
      else
        let layers = tree_layers h (pad_leaves leaves);
            root = last layers ! 0;
            proofs = (\<lambda>leafIdx. if 0 \<le> leafIdx \<and> leafIdx < int (length leaves) then Some (extract_proof layers (nat leafIdx)) else None)
        in Inr (root, proofs))"

section \<open>The assignment\<close>

record WitnessInput =
  AllBBLeaves :: "int list"
  ActiveIndices :: "int list"
  input_IDs :: "int list"
  input_Ballots :: "(nat \<Rightarrow> int) list"

text \<open>The proof for a slot: what the board tree gives for an active one, zeros for padding.\<close>

definition slot_proof :: "(int \<Rightarrow> MerkleProofData list option) \<Rightarrow> WitnessInput \<Rightarrow> nat \<Rightarrow> witness_error + CircuitMerkleProof" where
  "slot_proof bbProofs input i =
     (if i < length (ActiveIndices input) then
        let bbIdx = ActiveIndices input ! i in
        case bbProofs bbIdx of
          None \<Rightarrow> Inl (NoProof bbIdx)
        | Some p \<Rightarrow>
            bindE (guardE (length p = TreeDepth) (WrongDepth bbIdx)) (\<lambda>_.
            Inr \<lparr>cPath = (\<lambda>d. Sibling (p ! d)), cDirection = (\<lambda>d. int (level_Direction (p ! d)))\<rparr>)
      else Inr \<lparr>cPath = (\<lambda>_. 0), cDirection = (\<lambda>_. 0)\<rparr>)"

definition BuildWitness :: "fr_lib \<Rightarrow> WitnessInput \<Rightarrow> witness_error + DeduplicationCircuit" where
  "BuildWitness fr input =
     (let nActive = length (ActiveIndices input) in
      bindE (guardE (nActive \<le> BatchSize) TooManyActive) (\<lambda>_.
      bindE (guardE (length (input_IDs input) = nActive) IDsLength) (\<lambda>_.
      bindE (guardE (length (input_Ballots input) = nActive) BallotsLength) (\<lambda>_.
      bindE (checkE (\<lambda>i. guardE (input_IDs input ! (i - 1) < input_IDs input ! i) (NotAscending i)) [1..<nActive]) (\<lambda>_.
      let ballotLeaves = map (\<lambda>i. poseidon2Hash fr (input_IDs input ! i # map (input_Ballots input ! i) [0..<BallotFieldElems])) [0..<nActive] in
      bindE (buildPoseidon2MerkleTree (poseidon2Hash fr) (AllBBLeaves input)) (\<lambda>(bbRoot, bbProofs).
      bindE (mapE (slot_proof bbProofs input) [0..<BatchSize]) (\<lambda>proofs.
      let asLeaves = map (\<lambda>i. if i < nActive then input_IDs input ! i else 0) [0..<BatchSize] in
      bindE (buildPoseidon2MerkleTree (poseidon2Hash fr) asLeaves) (\<lambda>(asRoot, _).
      let fsLeaves = map (\<lambda>i. if i < nActive then ballotLeaves ! i else 0) [0..<BatchSize] in
      bindE (buildPoseidon2MerkleTree (poseidon2Hash fr) fsLeaves) (\<lambda>(fsRoot, _).
      Inr \<lparr>BBRoot = bbRoot, ASCommitment = asRoot, FSRoot = fsRoot, NActive = int nActive,
           IDs = (\<lambda>i. if i < nActive then input_IDs input ! i else 0),
           MerkleProofs = (\<lambda>i. proofs ! i),
           Ballots = (\<lambda>i j. if i < nActive then (input_Ballots input ! i) j else 0),
           IsActive = (\<lambda>i. if i < nActive then 1 else 0)\<rparr>)))))))))"

section \<open>Groth16\<close>

datatype prove_error = CompileFailed | SetupFailed | WitnessFailed | ProveFailed | PublicFailed | VerifyFailed

text \<open>
  \<open>Compile\<close> makes a constraint system of the circuit, of what it does with an assignment; the
  witness of an assignment has a public part.
\<close>

record ('cs, 'pk, 'vk, 'w, 'pub, 'p) groth16 =
  Compile :: "(DeduplicationCircuit \<Rightarrow> circuit_error + unit) \<Rightarrow> 'cs option"
  NewWitness :: "DeduplicationCircuit \<Rightarrow> 'w option"
  Public :: "'w \<Rightarrow> 'pub option"
  groth16_Setup :: "'cs \<Rightarrow> ('pk \<times> 'vk) option"
  groth16_Prove :: "'cs \<Rightarrow> 'pk \<Rightarrow> 'w \<Rightarrow> 'p option"
  groth16_Verify :: "'p \<Rightarrow> 'vk \<Rightarrow> 'pub \<Rightarrow> bool"

definition orE :: "'a option \<Rightarrow> 'e \<Rightarrow> 'e + 'a" where
  "orE x e = (case x of None \<Rightarrow> Inl e | Some y \<Rightarrow> Inr y)"

lemma orE_simps [simp]: "orE None e = Inl e" "orE (Some y) e = Inr y"
  by (simp_all add: orE_def)

definition CompileCircuit :: "('cs, 'pk, 'vk, 'w, 'pub, 'p) groth16 \<Rightarrow> 'h gnark_api \<Rightarrow> prove_error + 'cs" where
  "CompileCircuit G api = orE (Compile G (Define api)) CompileFailed"

definition Setup :: "('cs, 'pk, 'vk, 'w, 'pub, 'p) groth16 \<Rightarrow> 'cs \<Rightarrow> prove_error + 'pk \<times> 'vk" where
  "Setup G cs = orE (groth16_Setup G cs) SetupFailed"

definition Prove :: "('cs, 'pk, 'vk, 'w, 'pub, 'p) groth16 \<Rightarrow> 'cs \<Rightarrow> 'pk \<Rightarrow> DeduplicationCircuit \<Rightarrow> prove_error + 'p" where
  "Prove G cs pk assignment =
     bindE (orE (NewWitness G assignment) WitnessFailed) (\<lambda>fullWitness.
     orE (groth16_Prove G cs pk fullWitness) ProveFailed)"

definition Verify :: "('cs, 'pk, 'vk, 'w, 'pub, 'p) groth16 \<Rightarrow> 'vk \<Rightarrow> 'p \<Rightarrow> DeduplicationCircuit \<Rightarrow> prove_error + unit" where
  "Verify G vk p assignment =
     bindE (orE (NewWitness G assignment) WitnessFailed) (\<lambda>fullWitness.
     bindE (orE (Public G fullWitness) PublicFailed) (\<lambda>publicWitness.
     guardE (groth16_Verify G p vk publicWitness) VerifyFailed))"

end
