(* ===== verification/Dedup_Props.thy ===== *)
theory Dedup_Props
  imports Dedup_Witness
begin

text \<open>
  What the deduplication circuit enforces.  Trees of a power of two of leaves are read by their
  root and by \<open>climb\<close>, the way from a leaf to the root along a proof; then \<open>Define\<close> is
  characterised by the equations of the assignment, and the properties follow: what a satisfied
  circuit says of the published active set, when the assignment of \<open>BuildWitness\<close> satisfies it,
  and that it accepts one ballot in several slots.
\<close>

section \<open>Trees\<close>

definition mroot :: "(int list \<Rightarrow> int) \<Rightarrow> int list \<Rightarrow> int" where
  "mroot h l = reduce_layers h l ! 0"

lemma mroot_single [simp]: "mroot h [x] = x"
  by (simp add: mroot_def reduce_layers.simps)

lemma mroot_step: "1 < length l \<Longrightarrow> mroot h l = mroot h (next_layer h l)"
  unfolding mroot_def by (subst reduce_layers.simps) simp

lemma last_tree_layers: "l \<noteq> [] \<Longrightarrow> last (tree_layers h l) ! 0 = mroot h l"
proof (induction h l rule: tree_layers.induct)
  case (1 h l)
  show ?case
  proof (cases "1 < length l")
    case True
    then have "next_layer h l \<noteq> []" by (auto simp flip: length_greater_0_conv)
    with 1 True show ?thesis
      by (subst tree_layers.simps) (simp add: mroot_step [OF True] tree_layers.simps [of h "next_layer h l"])
  next
    case False
    then show ?thesis by (subst tree_layers.simps) (simp add: mroot_def reduce_layers.simps)
  qed
qed

lemma next_layer_nth: "2 * i + 1 < length l \<Longrightarrow> next_layer h l ! i = h [l ! (2 * i), l ! (2 * i + 1)]"
proof (induction h l arbitrary: i rule: next_layer.induct)
  case (1 h x y l)
  then show ?case by (cases i) auto
qed auto

text \<open>The way from a node to the root: each level has a sibling and the side the node is on.\<close>

fun climb :: "(int list \<Rightarrow> int) \<Rightarrow> int \<Rightarrow> (int \<times> int) list \<Rightarrow> int" where
  "climb h cur [] = cur"
| "climb h cur ((s, d) # ps) = climb h (if d = 1 then h [s, cur] else h [cur, s]) ps"

fun climb_inputs :: "(int list \<Rightarrow> int) \<Rightarrow> int \<Rightarrow> (int \<times> int) list \<Rightarrow> int list list" where
  "climb_inputs h cur [] = []"
| "climb_inputs h cur ((s, d) # ps) =
     (let x = (if d = 1 then [s, cur] else [cur, s]) in x # climb_inputs h (h x) ps)"

fun pairs :: "int list \<Rightarrow> int list list" where
  "pairs (x # y # l) = [x, y] # pairs l"
| "pairs _ = []"

function tree_inputs :: "(int list \<Rightarrow> int) \<Rightarrow> int list \<Rightarrow> int list list" where
  "tree_inputs h l = (if 1 < length l then pairs l @ tree_inputs h (next_layer h l) else [])"
  by auto
termination by (relation "measure (\<lambda>(h, layer). length layer)") auto

declare tree_inputs.simps [simp del]

definition collide :: "(int list \<Rightarrow> int) \<Rightarrow> int list list \<Rightarrow> bool" where
  "collide h xs \<longleftrightarrow> list_ex (\<lambda>x. list_ex (\<lambda>y. x \<noteq> y \<and> h x = h y) xs) xs"

lemma collide_iff: "collide h xs \<longleftrightarrow> (\<exists>x \<in> set xs. \<exists>y \<in> set xs. x \<noteq> y \<and> h x = h y)"
  by (auto simp: collide_def list_ex_iff)

lemma collide_mono: "collide h xs \<Longrightarrow> set xs \<subseteq> set ys \<Longrightarrow> collide h ys"
  by (auto simp: collide_iff)

lemma pairs_nth: "2 * i + 1 < length l \<Longrightarrow> [l ! (2 * i), l ! (2 * i + 1)] \<in> set (pairs l)"
proof (induction l arbitrary: i rule: pairs.induct)
  case (1 x y l)
  then show ?case by (cases i) auto
qed auto

lemma length_two_power: "length l = 2 ^ Suc k \<Longrightarrow> 1 < length l \<and> length (next_layer h l) = 2 ^ k"
proof -
  assume l: "length l = 2 ^ Suc k"
  have "(1 :: nat) < 2 * 2 ^ k" using one_le_power [of "2 :: nat" k] by linarith
  with l show ?thesis by simp
qed

lemma pair_index: "i < 2 ^ Suc k \<Longrightarrow> 2 * (i div 2) + 1 < (2 ^ Suc k :: nat)"
proof -
  assume "i < 2 ^ Suc k"
  then have "i div 2 < 2 ^ k" by simp
  then show ?thesis by simp
qed

text \<open>Completeness: a proof taken from the tree climbs to its root.\<close>

lemma extract_proof_climbs:
  assumes "length l = 2 ^ k" "idx < 2 ^ k"
  shows "length (extract_proof (tree_layers h l) idx) = k
    \<and> climb h (l ! idx) (map (\<lambda>m. (Sibling m, int (level_Direction m))) (extract_proof (tree_layers h l) idx)) = mroot h l
    \<and> (\<forall>m \<in> set (extract_proof (tree_layers h l) idx). level_Direction m < 2)"
  using assms
proof (induction k arbitrary: l idx)
  case 0
  then obtain x where "l = [x]" by (cases l) auto
  with 0 show ?case by (simp add: tree_layers.simps)
next
  case (Suc k)
  note big = length_two_power [OF Suc.prems(1), of h]
  have half: "drop_bit 1 idx = idx div 2" by (simp add: drop_bit_eq_div)
  have "idx div 2 < 2 ^ k" using Suc.prems(2) by simp
  note IH = Suc.IH [OF big [THEN conjunct2] this]
  have ext: "extract_proof (tree_layers h l) idx =
      \<lparr>Sibling = l ! (idx XOR 1), level_Direction = idx AND 1\<rparr> # extract_proof (tree_layers h (next_layer h l)) (idx div 2)"
    using big half by (subst tree_layers.simps, subst (1 2) tree_layers.simps) simp
  have nth: "next_layer h l ! (idx div 2) = h [l ! (2 * (idx div 2)), l ! (2 * (idx div 2) + 1)]"
    using pair_index [OF Suc.prems(2)] Suc.prems(1) by (intro next_layer_nth) simp
  have step: "climb h (l ! idx) ((l ! (idx XOR 1), int (idx AND 1)) # ps) = climb h (next_layer h l ! (idx div 2)) ps" for ps
  proof (cases "even idx")
    case True
    then have "idx XOR 1 = idx + 1" "idx AND 1 = 0" "2 * (idx div 2) = idx"
      by (simp_all add: xor_Suc_0_eq and_Suc_0_eq)
    then show ?thesis by (simp add: nth)
  next
    case False
    then have "idx XOR 1 = idx - 1" "idx AND 1 = 1" "2 * (idx div 2) = idx - 1" "2 * (idx div 2) + 1 = idx"
      by (simp_all add: xor_Suc_0_eq and_one_eq and_Suc_0_eq mod2_eq_if)
    then show ?thesis by (simp add: nth)
  qed
  have "idx AND 1 < 2" by (simp add: and_one_eq)
  then show ?case
    using IH step by (simp add: ext mroot_step [OF big [THEN conjunct1]])
qed

text \<open>Soundness: what climbs to the root is a leaf, unless two of the hashed pairs collide.\<close>

lemma climb_sound:
  assumes "length l = 2 ^ k" "length ps = k" "climb h x ps = mroot h l"
  shows "x \<in> set l \<or> collide h (tree_inputs h l @ climb_inputs h x ps)"
  using assms
proof (induction k arbitrary: l x ps)
  case 0
  then obtain y where "l = [y]" by (cases l) auto
  with 0 show ?case by simp
next
  case (Suc k)
  note big = length_two_power [OF Suc.prems(1), of h]
  obtain s d ps' where ps: "ps = (s, d) # ps'" "length ps' = k" using Suc.prems(2) by (cases ps) auto
  define v where "v = (if d = 1 then [s, x] else [x, s])"
  have inputs: "tree_inputs h l = pairs l @ tree_inputs h (next_layer h l)" using big by (subst tree_inputs.simps) simp
  have cin: "climb_inputs h x ps = v # climb_inputs h (h v) ps'" by (simp add: ps v_def Let_def)
  have "climb h (h v) ps' = mroot h (next_layer h l)"
    using Suc.prems(3) by (simp add: ps v_def mroot_step [OF big [THEN conjunct1]] if_distrib)
  from Suc.IH [OF big [THEN conjunct2] ps(2) this]
  consider "h v \<in> set (next_layer h l)" | "collide h (tree_inputs h (next_layer h l) @ climb_inputs h (h v) ps')" by blast
  then show ?case
  proof cases
    case 1
    then obtain j where j: "j < length l div 2" "next_layer h l ! j = h v" by (auto simp: in_set_conv_nth)
    then have lt: "2 * j + 1 < length l" by simp
    show ?thesis
    proof (cases "v = [l ! (2 * j), l ! (2 * j + 1)]")
      case True
      then have "x = l ! (2 * j) \<or> x = l ! (2 * j + 1)" by (auto simp: v_def split: if_splits)
      with lt show ?thesis by auto
    next
      case False
      moreover have "h [l ! (2 * j), l ! (2 * j + 1)] = h v" using j lt by (simp add: next_layer_nth)
      moreover have "[l ! (2 * j), l ! (2 * j + 1)] \<in> set (pairs l)" using lt by (rule pairs_nth)
      ultimately show ?thesis unfolding collide_iff inputs cin by (metis UnI1 UnI2 list.set_intros(1) set_append)
    qed
  next
    case 2
    then show ?thesis by (auto intro: collide_mono simp: inputs cin)
  qed
qed

text \<open>A root determines its leaves, unless two of the hashed pairs collide.\<close>

lemma mroot_inject:
  assumes "length l = 2 ^ k" "length l' = 2 ^ k" "mroot h l = mroot h l'"
  shows "l = l' \<or> collide h (tree_inputs h l @ tree_inputs h l')"
  using assms
proof (induction k arbitrary: l l')
  case 0
  then obtain x y where "l = [x]" "l' = [y]" by (cases l; cases l') auto
  with 0 show ?case by simp
next
  case (Suc k)
  note big = length_two_power [OF Suc.prems(1), of h] length_two_power [OF Suc.prems(2), of h]
  have inputs: "tree_inputs h l = pairs l @ tree_inputs h (next_layer h l)" "tree_inputs h l' = pairs l' @ tree_inputs h (next_layer h l')"
    using big by (subst tree_inputs.simps, simp)+
  have "mroot h (next_layer h l) = mroot h (next_layer h l')"
    using Suc.prems(3) big by (simp add: mroot_step)
  from Suc.IH [OF _ _ this] big
  consider "next_layer h l = next_layer h l'" | "collide h (tree_inputs h (next_layer h l) @ tree_inputs h (next_layer h l'))" by blast
  then show ?case
  proof cases
    case 1
    show ?thesis
    proof (cases "l = l'")
      case False
      then obtain i where i: "i < 2 ^ Suc k" "l ! i \<noteq> l' ! i"
        using Suc.prems by (auto simp: list_eq_iff_nth_eq)
      define j where "j = i div 2"
      have ij: "i = 2 * j \<or> i = 2 * j + 1" by (auto simp: j_def)
      have lt: "2 * j + 1 < length l" "2 * j + 1 < length l'"
        using pair_index [OF i(1)] Suc.prems unfolding j_def by simp_all
      from 1 have "h [l ! (2 * j), l ! (2 * j + 1)] = h [l' ! (2 * j), l' ! (2 * j + 1)]"
        using lt by (metis next_layer_nth)
      moreover have "[l ! (2 * j), l ! (2 * j + 1)] \<noteq> [l' ! (2 * j), l' ! (2 * j + 1)]" using i(2) ij by auto
      ultimately show ?thesis
        unfolding collide_iff inputs using pairs_nth [OF lt(1)] pairs_nth [OF lt(2)] by (metis UnI1 UnI2 set_append)
    qed simp
  next
    case 2
    then show ?thesis by (auto intro: collide_mono simp: inputs)
  qed
qed

section \<open>Padding\<close>

lemma double_until_power:
  assumes "n \<le> 2 ^ k" "\<And>i. i < k \<Longrightarrow> 2 ^ i < n" "j \<le> k"
  shows "double_until n (2 ^ j) = 2 ^ k"
  using assms(3)
proof (induction "k - j" arbitrary: j)
  case 0
  then show ?case using assms(1) by (subst double_until.simps) simp
next
  case (Suc d)
  then have "2 ^ j < n" by (intro assms(2)) simp
  moreover have "double_until n (2 ^ Suc j) = 2 ^ k" using Suc by (intro Suc.hyps(1)) auto
  ultimately show ?case by (subst double_until.simps) simp
qed

lemma nextPowerOf2_eq: "n \<le> 2 ^ k \<Longrightarrow> (\<And>i. i < k \<Longrightarrow> 2 ^ i < n) \<Longrightarrow> nextPowerOf2 n = 2 ^ k"
  using double_until_power [of n k 0] by (simp add: nextPowerOf2_def)

lemma nextPowerOf2_Suc: "2 ^ k < n \<Longrightarrow> n \<le> 2 ^ Suc k \<Longrightarrow> nextPowerOf2 n = 2 ^ Suc k"
proof -
  assume n: "2 ^ k < n" "n \<le> 2 ^ Suc k"
  have "2 ^ i < n" if "i < Suc k" for i
  proof -
    from that have "(2 :: nat) ^ i \<le> 2 ^ k" by (intro power_increasing) auto
    with n(1) show ?thesis by (rule le_less_trans [rotated])
  qed
  with n(2) show ?thesis by (rule nextPowerOf2_eq)
qed

lemma length_pad_leaves: "2 ^ k < length l \<Longrightarrow> length l \<le> 2 ^ Suc k \<Longrightarrow> length (pad_leaves l) = 2 ^ Suc k"
  by (simp add: pad_leaves_def nextPowerOf2_Suc)

section \<open>What an assignment has to satisfy\<close>

definition slot_path :: "DeduplicationCircuit \<Rightarrow> nat \<Rightarrow> (int \<times> int) list" where
  "slot_path c i = map (\<lambda>d. (cPath (MerkleProofs c i) d, cDirection (MerkleProofs c i) d)) [0..<TreeDepth]"

definition active_ids :: "DeduplicationCircuit \<Rightarrow> int list" where
  "active_ids c = map (\<lambda>i. if IsActive c i = 1 then IDs c i else 0) [0..<BatchSize]"

definition active_leaves :: "(int list \<Rightarrow> int) \<Rightarrow> DeduplicationCircuit \<Rightarrow> int list" where
  "active_leaves h c = map (\<lambda>i. if IsActive c i = 1 then slot_leaf h c i else 0) [0..<BatchSize]"

definition satisfied :: "(int list \<Rightarrow> int) \<Rightarrow> int \<Rightarrow> DeduplicationCircuit \<Rightarrow> bool" where
  "satisfied h r c \<longleftrightarrow>
     (\<forall>i < BatchSize. IsActive c i = 0 \<or> IsActive c i = 1)
     \<and> NActive c = (\<Sum>i = 0..<BatchSize. IsActive c i)
     \<and> (\<forall>i < BatchSize. \<forall>d < TreeDepth. cDirection (MerkleProofs c i) d = 0 \<or> cDirection (MerkleProofs c i) d = 1)
     \<and> (\<forall>i < BatchSize. IsActive c i = 1 \<longrightarrow> climb h (slot_leaf h c i) (slot_path c i) = BBRoot c)
     \<and> (\<forall>i < BatchSize - 1. IsActive c i = 1 \<and> IsActive c (i + 1) = 1 \<longrightarrow> (IDs c (i + 1) - IDs c i - 1) mod r < 2 ^ 252)
     \<and> ASCommitment c = mroot h (pad_leaves (active_ids c))
     \<and> FSRoot c = mroot h (pad_leaves (active_leaves h c))"

lemma foldl_add_mod: "foldl (\<lambda>n i. (n + f i) mod r) (a mod r) is = (a + (\<Sum>i\<leftarrow>is. f i)) mod (r :: int)"
  by (induction "is" arbitrary: a) (simp_all add: mod_add_left_eq add.assoc)

context gnark_laws
begin

lemma r_pos: "1 < r" "10 < r" "2 ^ 252 < r"
  using field_order by simp_all

lemma hasher_eq [simp]: "newPoseidon2Hasher api = Inr hash"
  using hasher by (auto simp: newPoseidon2Hasher_def poseidon2Width_def poseidon2FullRounds_def poseidon2PartialRounds_def)

lemma BuildMerkleTree_eq: "leaves \<noteq> [] \<Longrightarrow> BuildMerkleTree api leaves = Inr (mroot hash (pad_leaves leaves))"
  by (simp add: BuildMerkleTree_def mroot_def)

lemma proof_level_eq:
  "proof_level api hash s d cur = (if d = 0 \<or> d = 1 then Inr (if d = 1 then hash [s, cur] else hash [cur, s]) else Inl Unsatisfied)"
  by (simp add: proof_level_def Select)

lemma fold_levels:
  "foldE (\<lambda>d. proof_level api hash (P d) (D d)) ds cur =
     (if \<forall>d \<in> set ds. D d = 0 \<or> D d = 1 then Inr (climb hash cur (map (\<lambda>d. (P d, D d)) ds)) else Inl Unsatisfied)"
  by (induction ds arbitrary: cur) (auto simp: proof_level_eq)

lemma slot_inclusion_iff:
  assumes "IsActive c i = 0 \<or> IsActive c i = 1"
  shows "slot_inclusion api hash c i = Inr y \<longleftrightarrow>
    y = slot_leaf hash c i \<and> (\<forall>d < TreeDepth. cDirection (MerkleProofs c i) d = 0 \<or> cDirection (MerkleProofs c i) d = 1)
    \<and> (IsActive c i = 1 \<longrightarrow> climb hash (slot_leaf hash c i) (slot_path c i) = BBRoot c)"
  using assms by (auto simp: slot_inclusion_def Let_def fold_levels Select IsEqual slot_path_def)

lemma slot_order_iff:
  assumes "IsActive c i = 0 \<or> IsActive c i = 1" "IsActive c (i + 1) = 0 \<or> IsActive c (i + 1) = 1"
  shows "slot_order api c i = Inr () \<longleftrightarrow>
    (IsActive c i = 1 \<and> IsActive c (i + 1) = 1 \<longrightarrow> (IDs c (i + 1) - IDs c i - 1) mod r < 2 ^ 252)"
proof -
  have "0 \<le> ((IDs c (i + 1) - IDs c i) mod r - 1) mod r" "((IDs c (i + 1) - IDs c i) mod r - 1) mod r < r"
    using r_pos by auto
  from Check [OF this] Check [of 0 252] show ?thesis
    using assms r_pos by (auto simp: slot_order_def Let_def Select Sub Mul mod_diff_left_eq)
qed

lemma mapE_slots:
  assumes "\<forall>i < BatchSize. IsActive c i = 0 \<or> IsActive c i = 1"
  shows "mapE (slot_inclusion api hash c) [0..<BatchSize] = Inr ys \<longleftrightarrow>
    ys = map (slot_leaf hash c) [0..<BatchSize]
    \<and> (\<forall>i < BatchSize. \<forall>d < TreeDepth. cDirection (MerkleProofs c i) d = 0 \<or> cDirection (MerkleProofs c i) d = 1)
    \<and> (\<forall>i < BatchSize. IsActive c i = 1 \<longrightarrow> climb hash (slot_leaf hash c i) (slot_path c i) = BBRoot c)"
proof -
  have "mapE (slot_inclusion api hash c) [0..<BatchSize] = Inr ys \<longleftrightarrow>
    length ys = BatchSize \<and> (\<forall>i < BatchSize. slot_inclusion api hash c i = Inr (ys ! i))"
    by (auto simp: mapE_Inr_iff list_all2_conv_all_nth)
  also have "\<dots> \<longleftrightarrow> length ys = BatchSize \<and> (\<forall>i < BatchSize. ys ! i = slot_leaf hash c i)
    \<and> (\<forall>i < BatchSize. \<forall>d < TreeDepth. cDirection (MerkleProofs c i) d = 0 \<or> cDirection (MerkleProofs c i) d = 1)
    \<and> (\<forall>i < BatchSize. IsActive c i = 1 \<longrightarrow> climb hash (slot_leaf hash c i) (slot_path c i) = BBRoot c)"
    using assms by (auto simp: slot_inclusion_iff)
  finally show ?thesis by (auto simp: list_eq_iff_nth_eq)
qed

lemma mapE_select:
  assumes "\<forall>i < BatchSize. IsActive c i = 0 \<or> IsActive c i = 1"
  shows "mapE (\<lambda>i. api_Select api (IsActive c i) (f i) 0) [0..<BatchSize] = Inr (map (\<lambda>i. if IsActive c i = 1 then f i else 0) [0..<BatchSize])"
  using assms by (intro mapE_total) (auto simp: Select)

lemma active_count:
  assumes "\<forall>i < BatchSize. IsActive c i = 0 \<or> IsActive c i = 1"
  shows "foldl (\<lambda>n i. api_Add api n (IsActive c i)) 0 [0..<BatchSize] = (\<Sum>i = 0..<BatchSize. IsActive c i)"
proof -
  have "(\<Sum>i = 0..<BatchSize. IsActive c i) \<le> (\<Sum>i = 0..<BatchSize. 1)" "0 \<le> (\<Sum>i = 0..<BatchSize. IsActive c i)"
    using assms by (intro sum_mono sum_nonneg; force)+
  then have "(\<Sum>i = 0..<BatchSize. IsActive c i) mod r = (\<Sum>i = 0..<BatchSize. IsActive c i)"
    using r_pos by (simp add: BatchSize_def)
  then show ?thesis
    using foldl_add_mod [of "IsActive c" r 0 "[0..<BatchSize]"] by (simp add: Add interv_sum_list_conv_sum_set_nat)
qed

lemma Define_iff: "Define api c = Inr () \<longleftrightarrow> satisfied hash r c"
proof (cases "\<forall>i < BatchSize. IsActive c i = 0 \<or> IsActive c i = 1")
  case True
  have order: "checkE (slot_order api c) [0..<BatchSize - 1] = Inr u \<longleftrightarrow>
      (\<forall>i < BatchSize - 1. IsActive c i = 1 \<and> IsActive c (i + 1) = 1 \<longrightarrow> (IDs c (i + 1) - IDs c i - 1) mod r < 2 ^ 252)" for u
    using True by (auto simp: slot_order_iff simp del: One_nat_def)
  have bools: "checkE (\<lambda>i. AssertIsBoolean api (IsActive c i)) [0..<BatchSize] = Inr ()"
    using True by (auto simp: IsBoolean)
  have trees: "BuildMerkleTree api (active_ids c) = Inr (mroot hash (pad_leaves (active_ids c)))"
    "BuildMerkleTree api (active_leaves hash c) = Inr (mroot hash (pad_leaves (active_leaves hash c)))"
    by (rule BuildMerkleTree_eq; simp add: active_ids_def active_leaves_def BatchSize_def)+
  have leaves: "map (\<lambda>i. if IsActive c i = 1 then map (slot_leaf hash c) [0..<BatchSize] ! i else 0) [0..<BatchSize] = active_leaves hash c"
    by (simp add: active_leaves_def)
  show ?thesis
    unfolding Define_def satisfied_def
    using True by (auto simp: Let_def bools active_count IsEqual mapE_slots mapE_select order trees leaves
        simp flip: active_ids_def simp del: checkE_Inr_iff One_nat_def)
next
  case False
  then show ?thesis by (auto simp: Define_def satisfied_def IsBoolean)
qed

end

section \<open>Published batches\<close>

text \<open>The batch an auditor expects for published IDs: the IDs, then zeros.\<close>

definition batch_of :: "int list \<Rightarrow> int list" where
  "batch_of xs = xs @ replicate (BatchSize - length xs) 0"

text \<open>Everything that is hashed when a batch is compared with a published board and active set.\<close>

definition dedup_inputs :: "(int list \<Rightarrow> int) \<Rightarrow> DeduplicationCircuit \<Rightarrow> int list \<Rightarrow> int list \<Rightarrow> int list list" where
  "dedup_inputs h c leaves ids =
     tree_inputs h (pad_leaves leaves) @ tree_inputs h (pad_leaves (batch_of ids)) @ tree_inputs h (pad_leaves (active_ids c))
     @ concat (map (\<lambda>i. climb_inputs h (slot_leaf h c i) (slot_path c i)) [0..<BatchSize])"

lemma batch_leaves: "length l = BatchSize \<Longrightarrow> length (pad_leaves l) = 2 ^ 4 \<and> l \<noteq> [] \<and> take BatchSize (pad_leaves l) = l"
  using length_pad_leaves [of 3 l] by (auto simp: BatchSize_def pad_leaves_def)

lemma length_batch_of: "length ids \<le> BatchSize \<Longrightarrow> length (batch_of ids) = BatchSize"
  by (simp add: batch_of_def)

lemma tree_root: "buildPoseidon2MerkleTree h l = Inr (root, pf) \<longleftrightarrow>
    l \<noteq> [] \<and> root = mroot h (pad_leaves l)
    \<and> pf = (\<lambda>i. if 0 \<le> i \<and> i < int (length l) then Some (extract_proof (tree_layers h (pad_leaves l)) (nat i)) else None)"
  by (auto simp: buildPoseidon2MerkleTree_def Let_def last_tree_layers pad_leaves_def)

text \<open>An active set with no zero is what the active slots hold, in order, and they come first.\<close>

lemma active_prefix:
  assumes "active_ids c = batch_of ids" "length ids \<le> BatchSize" "0 \<notin> set ids"
    and "\<forall>i < BatchSize. IsActive c i = 0 \<or> IsActive c i = 1" "int (length ids) = (\<Sum>i = 0..<BatchSize. IsActive c i)"
    and "i < BatchSize"
  shows "IsActive c i = (if i < length ids then 1 else 0) \<and> (i < length ids \<longrightarrow> IDs c i = ids ! i)"
proof -
  have nth: "(if IsActive c j = 1 then IDs c j else 0) = (if j < length ids then ids ! j else 0)" if "j < BatchSize" for j
    using arg_cong [OF assms(1), of "\<lambda>l. l ! j"] that assms(2) by (auto simp: active_ids_def batch_of_def nth_append)
  have act: "IsActive c j = 1 \<and> IDs c j = ids ! j" if "j < length ids" for j
  proof -
    have "ids ! j \<noteq> 0" using that assms(3) by (metis nth_mem)
    with nth [of j] that assms(2) show ?thesis by (auto split: if_splits)
  qed
  have "(\<Sum>j = 0..<BatchSize. IsActive c j) = (\<Sum>j = 0..<length ids. IsActive c j) + (\<Sum>j = length ids..<BatchSize. IsActive c j)"
    using assms(2) by (simp add: sum.atLeastLessThan_concat)
  moreover have "(\<Sum>j = 0..<length ids. IsActive c j) = (\<Sum>j = 0..<length ids. 1)" by (rule sum.cong) (auto simp: act)
  ultimately have rest: "(\<Sum>j = length ids..<BatchSize. IsActive c j) = 0" using assms(5) by simp
  have "IsActive c j = 0" if "length ids \<le> j" "j < BatchSize" for j
  proof -
    have "\<forall>k \<in> {length ids..<BatchSize}. 0 \<le> IsActive c k" using assms(4) by force
    with sum_nonneg_eq_0_iff [of "{length ids..<BatchSize}" "IsActive c"] rest that show ?thesis by auto
  qed
  with act assms(6) show ?thesis by auto
qed

lemma gap_less:
  assumes "(2 :: int) ^ 253 < r" "0 \<le> a" "a < 2 ^ 252" "0 \<le> b" "b < 2 ^ 252" "(b - a - 1) mod r < 2 ^ 252"
  shows "a < b"
proof (rule ccontr)
  assume "\<not> a < b"
  then have neg: "b - a - 1 < 0" "- r \<le> b - a - 1" using assms(1-5) by simp_all
  then have "(b - a - 1) mod r = b - a - 1 + r"
    using mod_pos_pos_trivial [of "b - a - 1 + r" r] by simp
  with assms(1-6) show False by simp
qed

text \<open>The values of wires with the constraints checked, for any hash into the field.\<close>

definition gnark_sem :: "(int list \<Rightarrow> int) \<Rightarrow> int \<Rightarrow> unit gnark_api" where
  "gnark_sem h r =
     \<lparr>api_Add = (\<lambda>a b. (a + b) mod r), api_Sub = (\<lambda>a b. (a - b) mod r), api_Mul = (\<lambda>a b. (a * b) mod r),
      api_Select = (\<lambda>b x y. if b = 1 then Inr x else if b = 0 then Inr y else Inl Unsatisfied),
      AssertIsBoolean = (\<lambda>a. guardE (a = 0 \<or> a = 1) Unsatisfied),
      AssertIsEqual = (\<lambda>a b. guardE (a = b) Unsatisfied),
      range_Check = (\<lambda>v n. guardE (v < 2 ^ n) Unsatisfied),
      NewPoseidon2FromParameters = (\<lambda>width full partial. if width = 2 then Inr () else Inl NoPermutation),
      MerkleDamgard = (\<lambda>_ iv. h)\<rparr>"

definition bn254_order :: int where
  "bn254_order = 21888242871839275222246405745257275088548364400416034343698204186575808495617"

definition ex_fr :: fr_lib where
  "ex_fr = \<lparr>Marshal = (\<lambda>x. [word_of_int x]), SetBytes = foldl (\<lambda>a x. (7 * a + uint x + 1) mod bn254_order) 1, native_Sum = (\<lambda>b. b)\<rparr>"

definition mix :: "int list \<Rightarrow> int" where
  "mix = poseidon2Hash ex_fr"

lemma mix_range: "0 \<le> mix xs \<and> mix xs < bn254_order"
proof -
  have "0 \<le> SetBytes ex_fr b \<and> SetBytes ex_fr b < bn254_order" for b
    by (cases b rule: rev_cases) (simp_all add: ex_fr_def bn254_order_def)
  then show ?thesis by (simp add: mix_def poseidon2Hash_def)
qed

interpretation bn254: gnark_laws "gnark_sem mix bn254_order" mix bn254_order
  by unfold_locales (simp_all add: gnark_sem_def bn254_order_def mix_range [unfolded bn254_order_def])

definition ex_input :: WitnessInput where
  "ex_input = \<lparr>AllBBLeaves = map (\<lambda>i. mix (int i # map (\<lambda>_. 0) [0..<BallotFieldElems])) [1..<18], ActiveIndices = [0, 1],
     input_IDs = [1, 2], input_Ballots = [\<lambda>_. 0, \<lambda>_. 0]\<rparr>"

lemma ex_build: "is_ok (BuildWitness ex_fr ex_input)"
  by code_simp

section \<open>Properties\<close>

text \<open>
  C5.  What a satisfied circuit says.  If its board root is that of 17 to 32 published leaves and
  its active-set commitment that of published IDs, none of them zero, as many as \<open>NActive\<close>, then
  the first slots are the active ones and hold these IDs in this order, the leaf of each is on
  the board (or is the padding), \<open>FSRoot\<close> commits to exactly these leaves, neighbours differ, and
  IDs below \<open>2^252\<close> are strictly ascending; unless two of the inputs that are hashed collide.
\<close>

theorem dedup_sound:
  assumes laws: "gnark_laws api hash r" and sat: "Define api c = Inr ()"
    and board: "buildPoseidon2MerkleTree hash leaves = Inr (BBRoot c, bbProofs)" "16 < length leaves" "length leaves \<le> 32"
    and active: "buildPoseidon2MerkleTree hash (batch_of ids) = Inr (ASCommitment c, asProofs)" "length ids \<le> BatchSize" "0 \<notin> set ids"
      "NActive c = int (length ids)"
  shows "((\<forall>i < BatchSize. IsActive c i = (if i < length ids then 1 else 0))
      \<and> (\<forall>i < length ids. IDs c i = ids ! i \<and> slot_leaf hash c i \<in> set leaves \<union> {0})
      \<and> (\<exists>fsProofs. buildPoseidon2MerkleTree hash (batch_of (map (slot_leaf hash c) [0..<length ids])) = Inr (FSRoot c, fsProofs))
      \<and> (\<forall>i. Suc i < length ids \<longrightarrow> ids ! i \<noteq> ids ! Suc i)
      \<and> ((\<forall>x \<in> set ids. 0 \<le> x \<and> x < 2 ^ 252) \<longrightarrow> sorted_wrt (<) ids))
    \<or> collide hash (dedup_inputs hash c leaves ids)"
proof (cases "collide hash (dedup_inputs hash c leaves ids)")
  case False
  then have no: "\<not> collide hash xs" if "set xs \<subseteq> set (dedup_inputs hash c leaves ids)" for xs
    using that collide_mono by blast
  from sat laws have S: "satisfied hash r c" by (simp add: gnark_laws.Define_iff)
  have r: "2 ^ 253 < r" by (rule gnark_laws.field_order [OF laws])
  have len: "length (active_ids c) = BatchSize" "length (batch_of ids) = BatchSize"
    using active(2) by (simp_all add: active_ids_def length_batch_of)
  note pads = batch_leaves [OF len(1)] batch_leaves [OF len(2)]
  have "mroot hash (pad_leaves (active_ids c)) = mroot hash (pad_leaves (batch_of ids))"
    using S active(1) by (simp add: satisfied_def tree_root)
  from mroot_inject [OF _ _ this, of 4] pads have "pad_leaves (active_ids c) = pad_leaves (batch_of ids)"
    using no [of "tree_inputs hash (pad_leaves (active_ids c)) @ tree_inputs hash (pad_leaves (batch_of ids))"]
    by (auto simp: dedup_inputs_def)
  with pads have ids: "active_ids c = batch_of ids" by metis
  have bools: "\<forall>i < BatchSize. IsActive c i = 0 \<or> IsActive c i = 1" using S by (simp add: satisfied_def)
  have slots: "IsActive c i = (if i < length ids then 1 else 0) \<and> (i < length ids \<longrightarrow> IDs c i = ids ! i)" if "i < BatchSize" for i
    using active_prefix [OF ids active(2,3) bools _ that] S active(4) by (simp add: satisfied_def)
  have "length (pad_leaves leaves) = 2 ^ TreeDepth" using length_pad_leaves [of 4 leaves] board(2,3) by (simp add: TreeDepth_def)
  moreover have "length (slot_path c i) = TreeDepth" for i by (simp add: slot_path_def)
  moreover have "climb hash (slot_leaf hash c i) (slot_path c i) = mroot hash (pad_leaves leaves)" if "i < length ids" for i
    using S slots [of i] that active(2) board(1) by (auto simp: satisfied_def tree_root)
  ultimately have "slot_leaf hash c i \<in> set (pad_leaves leaves)" if "i < length ids" for i
    using climb_sound [of "pad_leaves leaves" TreeDepth "slot_path c i" hash "slot_leaf hash c i"] that active(2)
      no [of "tree_inputs hash (pad_leaves leaves) @ climb_inputs hash (slot_leaf hash c i) (slot_path c i)"]
    by (fastforce simp: dedup_inputs_def)
  then have leaf: "slot_leaf hash c i \<in> set leaves \<union> {0}" if "i < length ids" for i
    using that by (auto simp: pad_leaves_def)
  have "active_leaves hash c = batch_of (map (slot_leaf hash c) [0..<length ids])"
  proof (rule nth_equalityI)
    fix i
    assume "i < length (active_leaves hash c)"
    then have "i < BatchSize" by (simp add: active_leaves_def)
    with slots [OF this] show "active_leaves hash c ! i = batch_of (map (slot_leaf hash c) [0..<length ids]) ! i"
      by (simp add: active_leaves_def batch_of_def nth_append)
  qed (use active(2) in \<open>simp add: active_leaves_def batch_of_def\<close>)
  then have fs: "FSRoot c = mroot hash (pad_leaves (batch_of (map (slot_leaf hash c) [0..<length ids])))"
    using S by (simp add: satisfied_def)
  have gap: "(ids ! Suc i - ids ! i - 1) mod r < 2 ^ 252" if "Suc i < length ids" for i
  proof -
    from that active(2) have "i < BatchSize - 1" "i < BatchSize" "i + 1 < BatchSize" by simp_all
    moreover from this(1) S have "IsActive c i = 1 \<and> IsActive c (i + 1) = 1 \<longrightarrow> (IDs c (i + 1) - IDs c i - 1) mod r < 2 ^ 252"
      unfolding satisfied_def by blast
    ultimately show ?thesis using slots [of i] slots [of "i + 1"] that by simp
  qed
  have neq: "ids ! i \<noteq> ids ! Suc i" if "Suc i < length ids" for i
  proof
    assume "ids ! i = ids ! Suc i"
    then have "(ids ! Suc i - ids ! i - 1) mod r = r - 1" using r by (simp add: zmod_minus1)
    with gap [OF that] r show False by simp
  qed
  have "sorted_wrt (<) ids" if "\<forall>x \<in> set ids. 0 \<le> x \<and> x < 2 ^ 252"
    unfolding sorted_wrt_iff_nth_Suc_transp [OF transp_on_less]
    using gap_less [OF r _ _ _ _ gap] that by (simp add: nth_mem)
  moreover have "batch_of (map (slot_leaf hash c) [0..<length ids]) \<noteq> []"
    using length_batch_of [of "map (slot_leaf hash c) [0..<length ids]"] active(2) by (auto simp: BatchSize_def)
  moreover have "IDs c i = ids ! i" if "i < length ids" for i using slots [of i] that active(2) by simp
  ultimately show ?thesis using slots leaf neq by (simp add: tree_root fs)
qed simp

lemma nextPowerOf2_power: "\<exists>k. nextPowerOf2 n = 2 ^ k \<and> n \<le> 2 ^ k"
proof -
  have "\<exists>k. double_until n p = 2 ^ k \<and> n \<le> 2 ^ k" if "p = 2 ^ j" for p j
    using that
  proof (induction n p arbitrary: j rule: double_until.induct)
    case (1 n p)
    show ?case
    proof (cases "p < n")
      case True
      moreover have "0 < p" using "1.prems" by simp
      ultimately have "\<exists>k. double_until n (2 * p) = 2 ^ k \<and> n \<le> 2 ^ k" using "1.IH" [of "Suc j"] "1.prems" by simp
      with True \<open>0 < p\<close> show ?thesis by (subst double_until.simps) simp
    next
      case False
      with 1 show ?thesis by (subst double_until.simps) auto
    qed
  qed
  from this [of 1 0] show ?thesis by (simp add: nextPowerOf2_def)
qed

lemma length_pad_leaves_power: "\<exists>k. length (pad_leaves l) = 2 ^ k"
  using nextPowerOf2_power [of "length l"] by (auto simp: pad_leaves_def)

lemma nth_pad_leaves: "i < length l \<Longrightarrow> pad_leaves l ! i = l ! i \<and> i < length (pad_leaves l)"
  by (simp add: pad_leaves_def nth_append)

text \<open>What an assignment built without an error holds.\<close>

lemma BuildWitness_Inr:
  assumes "BuildWitness fr input = Inr c"
  defines "n \<equiv> length (ActiveIndices input)" and "h \<equiv> poseidon2Hash fr"
  shows "n \<le> BatchSize" "length (input_IDs input) = n" "\<And>i. Suc i < n \<Longrightarrow> input_IDs input ! i < input_IDs input ! Suc i"
    and "BBRoot c = mroot h (pad_leaves (AllBBLeaves input))" "NActive c = int n"
    and "IsActive c = (\<lambda>i. if i < n then 1 else 0)" "IDs c = (\<lambda>i. if i < n then input_IDs input ! i else 0)"
    and "Ballots c = (\<lambda>i j. if i < n then (input_Ballots input ! i) j else 0)"
    and "\<And>i. i < BatchSize \<Longrightarrow>
      slot_proof (\<lambda>k. if 0 \<le> k \<and> k < int (length (AllBBLeaves input)) then Some (extract_proof (tree_layers h (pad_leaves (AllBBLeaves input))) (nat k)) else None) input i
        = Inr (MerkleProofs c i)"
    and "ASCommitment c = mroot h (pad_leaves (active_ids c))" "FSRoot c = mroot h (pad_leaves (active_leaves h c))"
proof -
  let ?pf = "\<lambda>k. if 0 \<le> k \<and> k < int (length (AllBBLeaves input)) then Some (extract_proof (tree_layers h (pad_leaves (AllBBLeaves input))) (nat k)) else None"
  let ?leaves = "map (\<lambda>i. h (input_IDs input ! i # map (input_Ballots input ! i) [0..<BallotFieldElems])) [0..<n]"
  from assms(1) obtain proofs where
    checks: "n \<le> BatchSize" "length (input_IDs input) = n" "\<forall>i \<in> {1..<n}. input_IDs input ! (i - 1) < input_IDs input ! i"
    and proofs: "mapE (slot_proof ?pf input) [0..<BatchSize] = Inr proofs"
    and c: "c = \<lparr>BBRoot = mroot h (pad_leaves (AllBBLeaves input)),
           ASCommitment = mroot h (pad_leaves (map (\<lambda>i. if i < n then input_IDs input ! i else 0) [0..<BatchSize])),
           FSRoot = mroot h (pad_leaves (map (\<lambda>i. if i < n then ?leaves ! i else 0) [0..<BatchSize])), NActive = int n,
           IDs = (\<lambda>i. if i < n then input_IDs input ! i else 0),
           MerkleProofs = (\<lambda>i. proofs ! i),
           Ballots = (\<lambda>i j. if i < n then (input_Ballots input ! i) j else 0),
           IsActive = (\<lambda>i. if i < n then 1 else 0)\<rparr>"
    unfolding BuildWitness_def n_def [symmetric] h_def [symmetric]
    by (auto simp: Let_def tree_root)
  show "n \<le> BatchSize" "length (input_IDs input) = n" "BBRoot c = mroot h (pad_leaves (AllBBLeaves input))" "NActive c = int n"
    "IsActive c = (\<lambda>i. if i < n then 1 else 0)" "IDs c = (\<lambda>i. if i < n then input_IDs input ! i else 0)"
    "Ballots c = (\<lambda>i j. if i < n then (input_Ballots input ! i) j else 0)"
    using checks by (simp_all add: c)
  show "input_IDs input ! i < input_IDs input ! Suc i" if "Suc i < n" for i
    using checks(3) [THEN bspec, of "Suc i"] that by simp
  show "slot_proof ?pf input i = Inr (MerkleProofs c i)" if "i < BatchSize" for i
    using proofs that by (auto simp: c mapE_Inr_iff list_all2_conv_all_nth)
  have "map (\<lambda>i. if i < n then input_IDs input ! i else 0) [0..<BatchSize] = active_ids c"
    by (simp add: active_ids_def c)
  then show "ASCommitment c = mroot h (pad_leaves (active_ids c))" by (simp add: c)
  have "map (\<lambda>i. if i < n then ?leaves ! i else 0) [0..<BatchSize] = active_leaves h c"
    by (simp add: active_leaves_def c slot_leaf_def)
  then show "FSRoot c = mroot h (pad_leaves (active_leaves h c))" by (simp add: c)
qed

lemma witness_satisfies:
  assumes build: "BuildWitness fr input = Inr c" and r: "2 ^ 253 < r"
    and field: "\<forall>x \<in> set (input_IDs input). 0 \<le> x \<and> x < r"
    and leaves: "\<forall>i < length (ActiveIndices input). AllBBLeaves input ! nat (ActiveIndices input ! i)
        = poseidon2Hash fr (input_IDs input ! i # map (input_Ballots input ! i) [0..<BallotFieldElems])"
  shows "satisfied (poseidon2Hash fr) r c \<longleftrightarrow>
    (\<forall>i. Suc i < length (ActiveIndices input) \<longrightarrow> input_IDs input ! Suc i - input_IDs input ! i \<le> 2 ^ 252)"
proof -
  note W = BuildWitness_Inr [OF build]
  let ?n = "length (ActiveIndices input)" and ?h = "poseidon2Hash fr"
  have count: "(\<Sum>i = 0..<BatchSize. if i < ?n then 1 else 0) = int ?n"
  proof -
    have "{0..<BatchSize} \<inter> {i. i < ?n} = {0..<?n}" using W(1) by auto
    then show ?thesis by (simp add: sum.If_cases)
  qed
  have path: "(\<forall>d < TreeDepth. cDirection (MerkleProofs c i) d = 0 \<or> cDirection (MerkleProofs c i) d = 1)
      \<and> (i < ?n \<longrightarrow> climb ?h (slot_leaf ?h c i) (slot_path c i) = BBRoot c)" if i: "i < BatchSize" for i
  proof (cases "i < ?n")
    case True
    let ?k = "nat (ActiveIndices input ! i)"
    let ?p = "extract_proof (tree_layers ?h (pad_leaves (AllBBLeaves input))) ?k"
    from W(9) [OF i] True have k: "?k < length (AllBBLeaves input)" "length ?p = TreeDepth"
      and mp: "MerkleProofs c i = \<lparr>cPath = (\<lambda>d. Sibling (?p ! d)), cDirection = (\<lambda>d. int (level_Direction (?p ! d)))\<rparr>"
      by (auto simp: slot_proof_def Let_def split: if_splits)
    obtain m where m: "length (pad_leaves (AllBBLeaves input)) = 2 ^ m" using length_pad_leaves_power by blast
    from extract_proof_climbs [OF m, of ?k ?h] k nth_pad_leaves [OF k(1)]
    have climbs: "climb ?h (AllBBLeaves input ! ?k) (map (\<lambda>m. (Sibling m, int (level_Direction m))) ?p) = BBRoot c"
      and dirs: "\<forall>m \<in> set ?p. level_Direction m < 2" by (simp_all add: W(4) m)
    have "slot_path c i = map (\<lambda>m. (Sibling m, int (level_Direction m))) ?p"
      using k(2) by (simp add: slot_path_def mp list_eq_iff_nth_eq)
    moreover have "slot_leaf ?h c i = AllBBLeaves input ! ?k" using leaves True W(7,8) by (simp add: slot_leaf_def)
    moreover have "level_Direction (?p ! d) = 0 \<or> level_Direction (?p ! d) = 1" if "d < TreeDepth" for d
      using dirs [THEN bspec, OF nth_mem, of d] that k(2) by auto
    ultimately show ?thesis using climbs by (simp add: mp)
  next
    case False
    with W(9) [OF i] have "MerkleProofs c i = \<lparr>cPath = (\<lambda>_. 0), cDirection = (\<lambda>_. 0)\<rparr>" by (simp add: slot_proof_def)
    with False show ?thesis by simp
  qed
  have gap: "(input_IDs input ! Suc i - input_IDs input ! i - 1) mod r < 2 ^ 252 \<longleftrightarrow> input_IDs input ! Suc i - input_IDs input ! i \<le> 2 ^ 252"
    if "Suc i < ?n" for i
  proof -
    have "0 \<le> input_IDs input ! i" "input_IDs input ! Suc i < r" using field that W(2) by (simp_all add: nth_mem)
    with W(3) [OF that] have "(input_IDs input ! Suc i - input_IDs input ! i - 1) mod r = input_IDs input ! Suc i - input_IDs input ! i - 1"
      by (intro mod_pos_pos_trivial) auto
    then show ?thesis by auto
  qed
  have "satisfied ?h r c \<longleftrightarrow> (\<forall>i < BatchSize - 1. Suc i < ?n \<longrightarrow> (input_IDs input ! Suc i - input_IDs input ! i - 1) mod r < 2 ^ 252)"
    unfolding satisfied_def W(5-7) using path W(10,11) count by (simp add: W(6) split: if_splits) (metis Suc_lessD)
  also have "\<dots> \<longleftrightarrow> (\<forall>i. Suc i < ?n \<longrightarrow> input_IDs input ! Suc i - input_IDs input ! i \<le> 2 ^ 252)"
    using gap W(1) by (auto simp: BatchSize_def)
  finally show ?thesis .
qed

lemma ex_assignment:
  obtains c where "BuildWitness ex_fr ex_input = Inr c" "Define (gnark_sem mix bn254_order) c = Inr ()"
proof -
  obtain c where c: "BuildWitness ex_fr ex_input = Inr c" using ex_build by (auto simp: is_ok_iff)
  have "satisfied (poseidon2Hash ex_fr) bn254_order c"
    by (subst witness_satisfies [OF c]) (auto simp: ex_input_def bn254_order_def mix_def less_Suc_eq)
  then have "Define (gnark_sem mix bn254_order) c = Inr ()" by (simp add: bn254.Define_iff flip: mix_def)
  with c that show thesis by blast
qed

theorem dedup_sound_witness:
  "\<exists>c. BuildWitness ex_fr ex_input = Inr c \<and> Define (gnark_sem mix bn254_order) c = Inr ()
    \<and> (IDs c 1 = 2 \<and> IsActive c 1 = 1 \<and> IsActive c 2 = 0 \<or> collide mix (dedup_inputs mix c (AllBBLeaves ex_input) [1, 2]))"
proof -
  obtain c where c: "BuildWitness ex_fr ex_input = Inr c" "Define (gnark_sem mix bn254_order) c = Inr ()" by (rule ex_assignment)
  note W = BuildWitness_Inr [OF c(1), folded mix_def]
  have ids: "active_ids c = batch_of [1, 2]"
    unfolding active_ids_def W(6,7) by (simp add: ex_input_def BatchSize_def batch_of_def upt_rec numeral_eq_Suc)
  have board: "buildPoseidon2MerkleTree mix (AllBBLeaves ex_input) = Inr (BBRoot c, snd (projr (buildPoseidon2MerkleTree mix (AllBBLeaves ex_input))))"
    "buildPoseidon2MerkleTree mix (batch_of [1, 2]) = Inr (ASCommitment c, snd (projr (buildPoseidon2MerkleTree mix (batch_of [1, 2]))))"
    using W(4,10) by (simp_all add: buildPoseidon2MerkleTree_def Let_def last_tree_layers pad_leaves_def ids batch_of_def ex_input_def)
  have sizes: "16 < length (AllBBLeaves ex_input)" "length (AllBBLeaves ex_input) \<le> 32" "length [1, 2 :: int] \<le> BatchSize"
    "0 \<notin> set [1, 2 :: int]" "NActive c = int (length [1, 2 :: int])"
    using W(5) by (simp_all add: ex_input_def BatchSize_def)
  from dedup_sound [OF bn254.gnark_laws_axioms c(2) board(1) sizes(1,2) board(2) sizes(3-5)] c show ?thesis
    by (auto simp: BatchSize_def)
qed

text \<open>
  What Groth16 promises: the prover makes a proof exactly for assignments that satisfy the
  compiled circuit, and the verifier accepts it for the public part.
\<close>

definition groth16_laws :: "('cs, 'pk, 'vk, 'w, 'pub, 'p) groth16 \<Rightarrow> (DeduplicationCircuit \<Rightarrow> circuit_error + unit) \<Rightarrow> bool" where
  "groth16_laws G circuit \<longleftrightarrow>
     (\<forall>cs pk vk c w pub. Compile G circuit = Some cs \<and> groth16_Setup G cs = Some (pk, vk) \<and> NewWitness G c = Some w \<and> Public G w = Some pub \<longrightarrow>
       (groth16_Prove G cs pk w \<noteq> None \<longleftrightarrow> circuit c = Inr ())
       \<and> (\<forall>p. groth16_Prove G cs pk w = Some p \<longrightarrow> groth16_Verify G p vk pub))"

text \<open>
  C7.  Which honest batches can be proved.  Let \<open>BuildWitness\<close> accept its input, with IDs in the
  field and leaves that are those of the ballots.  Then the prover gives a proof that the
  verifier accepts exactly if no two neighbouring IDs are more than \<open>2^252\<close> apart.  The field has
  three times as many elements, so a batch of a few random IDs often has no proof, although
  \<open>BuildWitness\<close> returned no error.
\<close>

theorem honest_batch_provable:
  assumes laws: "gnark_laws api (poseidon2Hash fr) r" "groth16_laws G (Define api)"
    and build: "BuildWitness fr input = Inr c" "\<forall>x \<in> set (input_IDs input). 0 \<le> x \<and> x < r"
      "\<forall>i < length (ActiveIndices input). AllBBLeaves input ! nat (ActiveIndices input ! i)
        = poseidon2Hash fr (input_IDs input ! i # map (input_Ballots input ! i) [0..<BallotFieldElems])"
    and keys: "CompileCircuit G api = Inr cs" "Setup G cs = Inr (pk, vk)" "NewWitness G c = Some w" "Public G w = Some pub"
  shows "(\<exists>p. Prove G cs pk c = Inr p \<and> Verify G vk p c = Inr ()) \<longleftrightarrow>
    (\<forall>i. Suc i < length (ActiveIndices input) \<longrightarrow> input_IDs input ! Suc i - input_IDs input ! i \<le> 2 ^ 252)"
proof -
  have "Compile G (Define api) = Some cs" "groth16_Setup G cs = Some (pk, vk)"
    using keys(1,2) by (auto simp: CompileCircuit_def Setup_def orE_def split: option.splits)
  with laws(2) keys(3,4) have "groth16_Prove G cs pk w \<noteq> None \<longleftrightarrow> Define api c = Inr ()"
    and "\<forall>p. groth16_Prove G cs pk w = Some p \<longrightarrow> groth16_Verify G p vk pub" unfolding groth16_laws_def by blast+
  then have "(\<exists>p. Prove G cs pk c = Inr p \<and> Verify G vk p c = Inr ()) \<longleftrightarrow> Define api c = Inr ()"
    using keys(3,4) by (auto simp: Prove_def Verify_def)
  with witness_satisfies [OF build(1) gnark_laws.field_order [OF laws(1)] build(2,3)] show ?thesis
    by (simp add: gnark_laws.Define_iff [OF laws(1)])
qed

definition ex_groth16 :: "(DeduplicationCircuit \<Rightarrow> circuit_error + unit, unit, unit, DeduplicationCircuit, int, unit) groth16" where
  "ex_groth16 = \<lparr>Compile = Some, NewWitness = Some, Public = (\<lambda>c. Some (BBRoot c)), groth16_Setup = (\<lambda>_. Some ((), ())),
     groth16_Prove = (\<lambda>circuit _ c. if circuit c = Inr () then Some () else None), groth16_Verify = (\<lambda>_ _ _. True)\<rparr>"

theorem honest_batch_provable_witness:
  "\<exists>c. BuildWitness ex_fr ex_input = Inr c \<and> (\<exists>p. Prove ex_groth16 (Define (gnark_sem mix bn254_order)) () c = Inr p
    \<and> Verify ex_groth16 () p c = Inr ())"
proof -
  obtain c where c: "BuildWitness ex_fr ex_input = Inr c" by (rule ex_assignment)
  have laws: "gnark_laws (gnark_sem mix bn254_order) (poseidon2Hash ex_fr) bn254_order" "groth16_laws ex_groth16 (Define (gnark_sem mix bn254_order))"
    using bn254.gnark_laws_axioms by (simp_all add: mix_def groth16_laws_def ex_groth16_def)
  have input: "\<forall>x \<in> set (input_IDs ex_input). 0 \<le> x \<and> x < bn254_order"
    "\<forall>i < length (ActiveIndices ex_input). AllBBLeaves ex_input ! nat (ActiveIndices ex_input ! i)
        = poseidon2Hash ex_fr (input_IDs ex_input ! i # map (input_Ballots ex_input ! i) [0..<BallotFieldElems])"
    by (auto simp: ex_input_def bn254_order_def mix_def less_Suc_eq)
  have keys: "CompileCircuit ex_groth16 (gnark_sem mix bn254_order) = Inr (Define (gnark_sem mix bn254_order))"
    "Setup ex_groth16 (Define (gnark_sem mix bn254_order)) = Inr ((), ())" "NewWitness ex_groth16 c = Some c" "Public ex_groth16 c = Some (BBRoot c)"
    by (simp_all add: CompileCircuit_def Setup_def ex_groth16_def)
  from honest_batch_provable [OF laws c input keys] c show ?thesis
    by (auto simp: ex_input_def less_Suc_eq)
qed

text \<open>
  A batch with one ballot in every second slot: the padding in between switches the order check
  off.
\<close>

definition repeated_batch :: "(int list \<Rightarrow> int) \<Rightarrow> int list \<Rightarrow> nat \<Rightarrow> int \<Rightarrow> (nat \<Rightarrow> int) \<Rightarrow> DeduplicationCircuit" where
  "repeated_batch h leaves k x ballot =
     (let p = extract_proof (tree_layers h (pad_leaves leaves)) k;
          leaf = h (x # map ballot [0..<BallotFieldElems]);
          slots = (\<lambda>v. map (\<lambda>i. if even i then v else 0) [0..<BatchSize])
      in \<lparr>BBRoot = mroot h (pad_leaves leaves), ASCommitment = mroot h (pad_leaves (slots x)), FSRoot = mroot h (pad_leaves (slots leaf)),
          NActive = 5, IDs = (\<lambda>i. x),
          MerkleProofs = (\<lambda>i. \<lparr>cPath = (\<lambda>d. Sibling (p ! d)), cDirection = (\<lambda>d. int (level_Direction (p ! d)))\<rparr>),
          Ballots = (\<lambda>i. ballot), IsActive = (\<lambda>i. if even i then 1 else 0)\<rparr>)"

text \<open>
  C6.  One ballot, counted five times.  For any ballot on a board of 17 to 32 leaves there is an
  assignment with this board's root that satisfies the circuit and has the ballot in five active
  slots, with an active-set commitment and a final-set root that contain it five times.
\<close>

theorem repeated_ballot_accepted:
  assumes laws: "gnark_laws api hash r"
    and board: "buildPoseidon2MerkleTree hash leaves = Inr (root, bbProofs)" "16 < length leaves" "length leaves \<le> 32"
    and ballot: "k < length leaves" "leaves ! k = hash (x # map ballot [0..<BallotFieldElems])"
  shows "\<exists>c. Define api c = Inr () \<and> BBRoot c = root \<and> NActive c = 5
    \<and> (\<forall>i \<in> {0, 2, 4, 6, 8}. IsActive c i = 1 \<and> IDs c i = x \<and> slot_leaf hash c i = leaves ! k)"
proof -
  define c where "c = repeated_batch hash leaves k x ballot"
  let ?p = "extract_proof (tree_layers hash (pad_leaves leaves)) k"
  have len: "length (pad_leaves leaves) = 2 ^ TreeDepth" using length_pad_leaves [of 4 leaves] board(2,3) by (simp add: TreeDepth_def)
  have climbs: "length ?p = TreeDepth" "climb hash (leaves ! k) (map (\<lambda>m. (Sibling m, int (level_Direction m))) ?p) = mroot hash (pad_leaves leaves)"
    "\<forall>m \<in> set ?p. level_Direction m < 2"
    using extract_proof_climbs [OF len, of k hash] nth_pad_leaves [OF ballot(1)] len by simp_all
  have leaf: "slot_leaf hash c i = leaves ! k" for i
    by (simp add: c_def repeated_batch_def slot_leaf_def Let_def ballot(2))
  have path: "slot_path c i = map (\<lambda>m. (Sibling m, int (level_Direction m))) ?p" for i
    using climbs(1) by (simp add: slot_path_def c_def repeated_batch_def Let_def list_eq_iff_nth_eq)
  have dir: "cDirection (MerkleProofs c i) d = 0 \<or> cDirection (MerkleProofs c i) d = 1" if "d < TreeDepth" for i d
    using climbs(3) [THEN bspec, OF nth_mem, of d] that climbs(1) by (auto simp: c_def repeated_batch_def Let_def)
  have act: "IsActive c = (\<lambda>i. if even i then 1 else 0)" "NActive c = 5" "BBRoot c = mroot hash (pad_leaves leaves)" "IDs c = (\<lambda>i. x)"
    by (simp_all add: c_def repeated_batch_def Let_def)
  have slots: "active_ids c = map (\<lambda>i. if even i then x else 0) [0..<BatchSize]"
    "active_leaves hash c = map (\<lambda>i. if even i then leaves ! k else 0) [0..<BatchSize]"
    unfolding active_ids_def active_leaves_def leaf act by simp_all
  have roots: "ASCommitment c = mroot hash (pad_leaves (map (\<lambda>i. if even i then x else 0) [0..<BatchSize]))"
    "FSRoot c = mroot hash (pad_leaves (map (\<lambda>i. if even i then leaves ! k else 0) [0..<BatchSize]))"
    unfolding ballot(2) by (simp_all add: c_def repeated_batch_def Let_def)
  have "{0..<BatchSize} = {0, 1, 2, 3, 4, 5, 6, 7, 8, 9}" by (auto simp: BatchSize_def)
  then have count: "(\<Sum>i = 0..<BatchSize. if even i then 1 else 0) = (5 :: int)" by simp
  have "satisfied hash r c"
    unfolding satisfied_def act path leaf slots roots count
    using dir climbs(2) by auto
  then have "Define api c = Inr ()" by (simp add: gnark_laws.Define_iff [OF laws])
  with act leaf board(1) show ?thesis by (intro exI [of _ c]) (simp add: tree_root)
qed

theorem repeated_ballot_accepted_witness:
  "\<exists>c. Define (gnark_sem mix bn254_order) c = Inr () \<and> NActive c = 5 \<and> (\<forall>i \<in> {0, 2, 4, 6, 8}. IsActive c i = 1 \<and> IDs c i = 1)"
proof -
  have board: "buildPoseidon2MerkleTree mix (AllBBLeaves ex_input) =
      Inr (mroot mix (pad_leaves (AllBBLeaves ex_input)), snd (projr (buildPoseidon2MerkleTree mix (AllBBLeaves ex_input))))"
    by (simp add: buildPoseidon2MerkleTree_def Let_def last_tree_layers pad_leaves_def ex_input_def)
  have sizes: "16 < length (AllBBLeaves ex_input)" "length (AllBBLeaves ex_input) \<le> 32" "0 < length (AllBBLeaves ex_input)"
    "AllBBLeaves ex_input ! 0 = mix (1 # map (\<lambda>_. 0) [0..<BallotFieldElems])"
    by (simp_all add: ex_input_def)
  from repeated_ballot_accepted [OF bn254.gnark_laws_axioms board sizes] show ?thesis by blast
qed

end
