(* ===== verification/Migrations.thy ===== *)
theory Migrations
  imports Prelude "HOL-Library.List_Lexorder" "HOL-Library.Char_ord"
begin

text \<open>
  How the bulletin board (\<open>bulletin-board/store/postgres.go\<close>) and the collection service
  (\<open>collection/store/postgres.go\<close>) bring their databases up to date.  A statement is a function
  on the data of the database, which is a parameter; a database keeps the versions it has
  recorded in the table \<open>schema_migrations\<close>.  Every round trip may be lost, or done but not
  answered; a process that dies in between is one whose remaining round trips are lost.
\<close>

section \<open>Databases and statements\<close>

record 'd database =
  schema_migrations :: "string list option"
  tables :: 'd

datatype round_trip = Done | NotDone | NoAnswer

datatype migration_error = ConnectFailed | BadElectionID | CreateFailed | AcquireFailed | LockFailed | CheckFailed string
  | BeginFailed string | ExecFailed string | RecordFailed string | CommitFailed string | PartitionFailed

type_synonym 'd sql = "string \<Rightarrow> 'd \<Rightarrow> 'd option"

text \<open>Outside a transaction a statement takes effect even if its answer is lost.\<close>

definition auto_commit :: "round_trip \<Rightarrow> ('s \<Rightarrow> 's option) \<Rightarrow> 's \<Rightarrow> bool \<times> 's" where
  "auto_commit t f s =
     (case (t, f s) of
        (Done, Some s') \<Rightarrow> (True, s')
      | (NoAnswer, Some s') \<Rightarrow> (False, s')
      | _ \<Rightarrow> (False, s))"

definition create_tracking :: "'d database \<Rightarrow> 'd database option" where
  "create_tracking db = Some (db\<lparr>schema_migrations := Some (case schema_migrations db of None \<Rightarrow> [] | Some vs \<Rightarrow> vs)\<rparr>)"

definition run_sql :: "'d sql \<Rightarrow> string \<Rightarrow> 'd database \<Rightarrow> 'd database option" where
  "run_sql exec sql db = map_option (\<lambda>d. db\<lparr>tables := d\<rparr>) (exec sql (tables db))"

text \<open>\<open>version\<close> is the primary key of the table.\<close>

definition record_version :: "string \<Rightarrow> 'd database \<Rightarrow> 'd database option" where
  "record_version name db =
     (case schema_migrations db of
        None \<Rightarrow> None
      | Some vs \<Rightarrow> if name \<in> set vs then None else Some (db\<lparr>schema_migrations := Some (vs @ [name])\<rparr>))"

definition migration_exists :: "string \<Rightarrow> 'd database \<Rightarrow> bool" where
  "migration_exists name db = (case schema_migrations db of None \<Rightarrow> False | Some vs \<Rightarrow> name \<in> set vs)"

section \<open>The bulletin board\<close>

text \<open>
  \<open>runMigration\<close>: the script and its record in one transaction, so the database changes with the
  commit or not at all.
\<close>

definition runMigration :: "'d sql \<Rightarrow> (nat \<Rightarrow> round_trip) \<Rightarrow> string \<Rightarrow> string \<Rightarrow> 'd database \<Rightarrow> (migration_error + unit) \<times> 'd database" where
  "runMigration exec trip name sql db =
     (if trip 0 \<noteq> Done then (Inl (BeginFailed name), db)
      else case run_sql exec sql db of
        None \<Rightarrow> (Inl (ExecFailed name), db)
      | Some tx \<Rightarrow>
          if trip 1 \<noteq> Done then (Inl (ExecFailed name), db)
          else case record_version name tx of
            None \<Rightarrow> (Inl (RecordFailed name), db)
          | Some tx \<Rightarrow>
              if trip 2 \<noteq> Done then (Inl (RecordFailed name), db)
              else case trip 3 of
                Done \<Rightarrow> (Inr (), tx)
              | NotDone \<Rightarrow> (Inl (CommitFailed name), db)
              | NoAnswer \<Rightarrow> (Inl (CommitFailed name), tx))"

text \<open>
  The loop over the embedded files, in the order of their names, with their text; \<open>trip (5 * i)\<close>
  is the query for the \<open>i\<close>-th file and the next four are its transaction.
\<close>

fun migrate_loop ::
  "'d sql \<Rightarrow> (nat \<Rightarrow> round_trip) \<Rightarrow> (string \<times> string) list \<Rightarrow> 'd database \<Rightarrow> (migration_error + unit) \<times> 'd database" where
  "migrate_loop exec trip [] db = (Inr (), db)"
| "migrate_loop exec trip ((name, sql) # entries) db =
     (if trip 0 \<noteq> Done then (Inl (CheckFailed name), db)
      else if migration_exists name db then migrate_loop exec (\<lambda>i. trip (i + 5)) entries db
      else case runMigration exec (\<lambda>i. trip (i + 1)) name sql db of
        (Inl e, db) \<Rightarrow> (Inl e, db)
      | (Inr _, db) \<Rightarrow> migrate_loop exec (\<lambda>i. trip (i + 5)) entries db)"

text \<open>
  \<open>RunMigrations\<close>.  The advisory lock is held until the connection is released, so the run of
  another instance comes before or after the part it protects.
\<close>

definition board_RunMigrations ::
  "'d sql \<Rightarrow> (nat \<Rightarrow> round_trip) \<Rightarrow> (string \<times> string) list \<Rightarrow> 'd database \<Rightarrow> (migration_error + unit) \<times> 'd database" where
  "board_RunMigrations exec trip entries db =
     (case auto_commit (trip 0) create_tracking db of
        (False, db) \<Rightarrow> (Inl CreateFailed, db)
      | (True, db) \<Rightarrow>
          if trip 1 \<noteq> Done then (Inl AcquireFailed, db)
          else if trip 2 \<noteq> Done then (Inl LockFailed, db)
          else migrate_loop exec (\<lambda>i. trip (i + 3)) entries db)"

text \<open>\<open>New\<close>: the parsed settings with the sizes of the pool, and a ping.\<close>

definition board_store_New :: "(string \<Rightarrow> 'cfg option) \<Rightarrow> ('cfg \<Rightarrow> int \<Rightarrow> int \<Rightarrow> 'pool option) \<Rightarrow> ('pool \<Rightarrow> bool) \<Rightarrow> string \<Rightarrow> int \<Rightarrow> int \<Rightarrow> migration_error + 'pool" where
  "board_store_New ParseConfig NewWithConfig ping databaseURL maxConns minConns =
     (case ParseConfig databaseURL of
        None \<Rightarrow> Inl ConnectFailed
      | Some cfg \<Rightarrow>
          (case NewWithConfig cfg maxConns minConns of
             None \<Rightarrow> Inl ConnectFailed
           | Some pool \<Rightarrow> if ping pool then Inr pool else Inl ConnectFailed))"

section \<open>The collection service\<close>

definition is_hex :: "char \<Rightarrow> bool" where
  "is_hex c = (hex_value c \<noteq> None)"

text \<open>\<open>uuidRe\<close>: groups of 8, 4, 4, 4 and 12 hex digits with dashes between them.\<close>

definition uuidRe :: "string \<Rightarrow> bool" where
  "uuidRe s \<longleftrightarrow> length s = 36 \<and> list_all (\<lambda>i. if i \<in> {8, 13, 18, 23} then s ! i = CHR ''-'' else is_hex (s ! i)) [0..<36]"

text \<open>\<open>strings.HasSuffix(name, ".sql")\<close>\<close>

definition sql_file :: "string \<Rightarrow> bool" where
  "sql_file name \<longleftrightarrow> drop (length name - 4) name = ''.sql''"

text \<open>The script and its record are two statements, each on its own.\<close>

fun collection_loop ::
  "'d sql \<Rightarrow> (nat \<Rightarrow> round_trip) \<Rightarrow> (string \<times> string) list \<Rightarrow> 'd database \<Rightarrow> (migration_error + unit) \<times> 'd database" where
  "collection_loop exec trip [] db = (Inr (), db)"
| "collection_loop exec trip ((version, sql) # entries) db =
     (if \<not> sql_file version then collection_loop exec trip entries db
      else if trip 0 \<noteq> Done then (Inl (CheckFailed version), db)
      else if migration_exists version db then collection_loop exec (\<lambda>i. trip (i + 3)) entries db
      else case auto_commit (trip 1) (run_sql exec sql) db of
        (False, db) \<Rightarrow> (Inl (ExecFailed version), db)
      | (True, db) \<Rightarrow>
          (case auto_commit (trip 2) (record_version version) db of
             (False, db) \<Rightarrow> (Inl (RecordFailed version), db)
           | (True, db) \<Rightarrow> collection_loop exec (\<lambda>i. trip (i + 3)) entries db))"

definition partitionSQL :: "string \<Rightarrow> string" where
  "partitionSQL electionID =
     ''CREATE TABLE IF NOT EXISTS voter_ballot_history_p_'' @ map (\<lambda>c. if c = CHR ''-'' then CHR ''_'' else c) electionID
     @ '' PARTITION OF voter_ballot_history FOR VALUES IN ('' @ [CHR 0x27] @ electionID @ [CHR 0x27] @ '')''"

definition collection_RunMigrations ::
  "'d sql \<Rightarrow> (nat \<Rightarrow> round_trip) \<Rightarrow> (string \<times> string) list \<Rightarrow> string \<Rightarrow> 'd database \<Rightarrow> (migration_error + unit) \<times> 'd database" where
  "collection_RunMigrations exec trip entries electionID db =
     (case auto_commit (trip 0) create_tracking db of
        (False, db) \<Rightarrow> (Inl CreateFailed, db)
      | (True, db) \<Rightarrow>
          (case collection_loop exec (\<lambda>i. trip (i + 2)) (sort_key fst entries) db of
             (Inl e, db) \<Rightarrow> (Inl e, db)
           | (Inr _, db) \<Rightarrow>
               if \<not> uuidRe electionID then (Inl BadElectionID, db)
               else case auto_commit (trip 1) (run_sql exec (partitionSQL electionID)) db of
                 (False, db) \<Rightarrow> (Inl PartitionFailed, db)
               | (True, db) \<Rightarrow> (Inr (), db)))"

definition collection_store_New :: "(string \<Rightarrow> 'pool option) \<Rightarrow> ('pool \<Rightarrow> bool) \<Rightarrow> string \<Rightarrow> string \<Rightarrow> bytes \<Rightarrow> migration_error + 'pool \<times> string \<times> bytes" where
  "collection_store_New connect ping databaseURL electionID historyHMACKey =
     bindE (guardE (uuidRe electionID) BadElectionID) (\<lambda>_.
     case connect databaseURL of
       None \<Rightarrow> Inl ConnectFailed
     | Some pool \<Rightarrow> if ping pool then Inr (pool, electionID, historyHMACKey) else Inl ConnectFailed)"

section \<open>Every migration once\<close>

fun run_scripts :: "'d sql \<Rightarrow> string list \<Rightarrow> 'd \<Rightarrow> 'd option" where
  "run_scripts exec [] d = Some d"
| "run_scripts exec (s # ss) d = Option.bind (exec s d) (run_scripts exec ss)"

lemma run_scripts_append: "run_scripts exec (xs @ ys) d = Option.bind (run_scripts exec xs d) (run_scripts exec ys)"
  by (induction xs arbitrary: d) (auto split: option.splits bind_splits)

text \<open>The first \<open>k\<close> files are recorded, and the tables are what their scripts make in order.\<close>

definition migrated :: "'d sql \<Rightarrow> (string \<times> string) list \<Rightarrow> 'd \<Rightarrow> nat \<Rightarrow> 'd database \<Rightarrow> bool" where
  "migrated exec files d0 k db \<longleftrightarrow>
     k \<le> length files \<and> schema_migrations db = Some (map fst (take k files))
     \<and> run_scripts exec (map snd (take k files)) d0 = Some (tables db)"

lemma migrated_next:
  assumes "migrated exec files d0 k db" "k < length files" "distinct (map fst files)"
  shows "\<not> migration_exists (fst (files ! k)) db"
    and "run_sql exec (snd (files ! k)) db = Some db1 \<Longrightarrow> record_version (fst (files ! k)) db1 = Some db2 \<Longrightarrow>
      migrated exec files d0 (Suc k) db2"
proof -
  have "fst (files ! k) \<notin> set (map fst (take k files))"
    using assms(2,3) by (auto simp: in_set_conv_nth distinct_conv_nth) (metis fst_conv less_irrefl less_trans)
  with assms(1) show "\<not> migration_exists (fst (files ! k)) db" by (simp add: migrated_def migration_exists_def)
  assume "run_sql exec (snd (files ! k)) db = Some db1" "record_version (fst (files ! k)) db1 = Some db2"
  with assms(1,2) show "migrated exec files d0 (Suc k) db2"
    by (auto simp: migrated_def run_sql_def record_version_def take_Suc_conv_app_nth run_scripts_append split: if_splits option.splits)
qed

lemma migrated_exists: "migrated exec files d0 k db \<Longrightarrow> j < k \<Longrightarrow> migration_exists (fst (files ! j)) db"
  by (force simp: migrated_def migration_exists_def in_set_conv_nth)

lemma runMigration_cases:
  assumes "runMigration exec trip name sql db = (res, db')"
  obtains "db' = db" "res \<noteq> Inr ()" | db1 where "run_sql exec sql db = Some db1" "record_version name db1 = Some db'"
  using assms by (auto simp: runMigration_def split: if_splits option.splits round_trip.splits)

lemma migrate_loop_migrated:
  assumes "migrate_loop exec trip (drop j files) db = (res, db')" "migrated exec files d0 k db" "j \<le> k" "distinct (map fst files)"
  shows "\<exists>k'. migrated exec files d0 k' db' \<and> (res = Inr () \<longrightarrow> k' = length files)"
  using assms(1-3)
proof (induction "length files - j" arbitrary: j k trip db)
  case 0
  then have "drop j files = []" "k = length files" by (auto simp: migrated_def)
  with 0 show ?case by auto
next
  case (Suc n)
  then have j: "j < length files" by simp
  obtain name sql where f: "files ! j = (name, sql)" by fastforce
  have drop: "drop j files = (name, sql) # drop (Suc j) files" using j f by (metis Cons_nth_drop_Suc)
  note IH = Suc.hyps(1) [of "Suc j"]
  show ?case
  proof (cases "trip 0 = Done")
    case False
    with Suc.prems show ?thesis by (auto simp: drop)
  next
    case trip: True
    show ?thesis
    proof (cases "j < k")
      case True
      with migrated_exists [OF Suc.prems(2)] f have "migration_exists name db" by fastforce
      with Suc.prems(1) trip have "migrate_loop exec (\<lambda>i. trip (i + 5)) (drop (Suc j) files) db = (res, db')" by (simp add: drop)
      from IH [OF _ this Suc.prems(2)] True Suc.hyps(2) show ?thesis by simp
    next
      case False
      with Suc.prems(3) have k: "k = j" by simp
      with migrated_next(1) [OF Suc.prems(2) _ assms(4)] j f have new: "\<not> migration_exists name db" by simp
      obtain e db1 where run: "runMigration exec (\<lambda>i. trip (i + 1)) name sql db = (e, db1)" by fastforce
      show ?thesis
      proof (cases e)
        case (Inl x)
        with Suc.prems(1) new run trip have res: "res = Inl x" "db' = db1" by (simp_all add: drop)
        from run show ?thesis
          by (rule runMigration_cases)
            (use res Suc.prems(2) migrated_next(2) [OF Suc.prems(2) _ assms(4)] j f k in auto)
      next
        case (Inr u)
        with Suc.prems(1) new run trip have loop: "migrate_loop exec (\<lambda>i. trip (i + 5)) (drop (Suc j) files) db1 = (res, db')" by (simp add: drop)
        from run Inr migrated_next(2) [OF Suc.prems(2) _ assms(4)] j f k have "migrated exec files d0 (Suc k) db1"
          by (auto elim: runMigration_cases)
        from IH [OF _ loop this] k Suc.hyps(2) show ?thesis by simp
      qed
    qed
  qed
qed

definition board_attempt :: "'d sql \<Rightarrow> (string \<times> string) list \<Rightarrow> 'd database \<Rightarrow> 'd database \<Rightarrow> bool" where
  "board_attempt exec files db db' \<longleftrightarrow> (\<exists>trip. db' = snd (board_RunMigrations exec trip files db))"

lemma board_attempt_migrated:
  assumes "board_RunMigrations exec trip files db = (res, db')" "distinct (map fst files)"
    and "schema_migrations db = None \<and> tables db = d0 \<or> (\<exists>k. migrated exec files d0 k db)"
  shows "(schema_migrations db' = None \<and> tables db' = d0 \<and> res \<noteq> Inr ()) \<or> (\<exists>k. migrated exec files d0 k db' \<and> (res = Inr () \<longrightarrow> k = length files))"
proof -
  obtain ok db1 where c: "auto_commit (trip 0) create_tracking db = (ok, db1)" by fastforce
  have created: "\<exists>k. migrated exec files d0 k db1" if "create_tracking db = Some db1"
    using assms(3)
  proof
    assume "schema_migrations db = None \<and> tables db = d0"
    with that have "migrated exec files d0 0 db1" by (auto simp: create_tracking_def migrated_def)
    then show ?thesis ..
  next
    assume "\<exists>k. migrated exec files d0 k db"
    then obtain k where k: "migrated exec files d0 k db" ..
    with that have "migrated exec files d0 k db1" by (auto simp: create_tracking_def migrated_def)
    then show ?thesis ..
  qed
  have "create_tracking db = Some db1 \<or> db1 = db \<and> \<not> ok"
    using c by (auto simp: auto_commit_def create_tracking_def split: round_trip.splits)
  with created have m: "(db1 = db \<and> \<not> ok) \<or> (\<exists>k. migrated exec files d0 k db1)" by blast
  show ?thesis
  proof (cases "ok \<and> trip 1 = Done \<and> trip 2 = Done")
    case True
    with assms(1) c have "migrate_loop exec (\<lambda>i. trip (i + 3)) (drop 0 files) db1 = (res, db')"
      by (simp add: board_RunMigrations_def)
    moreover from m True obtain k where "migrated exec files d0 k db1" by blast
    ultimately show ?thesis by (intro disjI2) (rule migrate_loop_migrated [OF _ _ le0 assms(2)])
  next
    case False
    then have stop: "db' = db1 \<and> res \<noteq> Inr ()"
      using assms(1) unfolding board_RunMigrations_def c by (cases ok) (auto split: if_splits)
    from m show ?thesis
    proof
      assume "db1 = db \<and> \<not> ok"
      with stop have "db' = db" "res \<noteq> Inr ()" by simp_all
      with assms(3) show ?thesis by (elim disjE exE) auto
    qed (use stop in blast)
  qed
qed

text \<open>
  C40.  Each migration of the board is applied exactly once.  However often the board is started on a
  new database, and whichever round trips are lost or not answered in each attempt, the tables
  are always what a first part of the scripts makes of the empty database, in order and each
  once, and that part is the recorded one; when an attempt ends without an error, all scripts
  are.
\<close>

theorem board_migrations_once:
  assumes "distinct (map fst files)" "(board_attempt exec files)\<^sup>*\<^sup>* \<lparr>schema_migrations = None, tables = d0\<rparr> db"
  shows "((schema_migrations db = None \<and> tables db = d0) \<or> (\<exists>k. migrated exec files d0 k db))
    \<and> (\<forall>trip db'. board_RunMigrations exec trip files db = (Inr (), db') \<longrightarrow> migrated exec files d0 (length files) db')"
proof -
  have inv: "(schema_migrations db = None \<and> tables db = d0) \<or> (\<exists>k. migrated exec files d0 k db)"
    using assms(2)
  proof (induction rule: rtranclp_induct)
    case (step db1 db2)
    then obtain trip where "db2 = snd (board_RunMigrations exec trip files db1)" by (auto simp: board_attempt_def)
    then have "board_RunMigrations exec trip files db1 = (fst (board_RunMigrations exec trip files db1), db2)" by simp
    from board_attempt_migrated [OF this assms(1) step.IH] show ?case by blast
  qed simp
  have "migrated exec files d0 (length files) db'" if "board_RunMigrations exec trip files db = (Inr (), db')" for trip db'
    using board_attempt_migrated [OF that assms(1) inv] by auto
  with inv show ?thesis by blast
qed

theorem board_migrations_once_witness:
  "\<exists>db. board_RunMigrations (\<lambda>s d. Some (d @ s)) (\<lambda>_. Done) [(''1'', ''a''), (''2'', ''b'')]
      (snd (board_RunMigrations (\<lambda>s d. Some (d @ s)) ((\<lambda>_. Done)(12 := NotDone)) [(''1'', ''a''), (''2'', ''b'')] \<lparr>schema_migrations = None, tables = []\<rparr>)) = (Inr (), db)
    \<and> migrated (\<lambda>s d. Some (d @ s)) [(''1'', ''a''), (''2'', ''b'')] [] 2 db"
proof -
  let ?exec = "\<lambda>s d. Some (d @ s) :: string option" and ?files = "[(''1'', ''a''), (''2'', ''b'')]"
  let ?db0 = "\<lparr>schema_migrations = None, tables = []\<rparr>" and ?trip = "(\<lambda>_. Done)(12 := NotDone)"
  let ?db1 = "snd (board_RunMigrations ?exec ?trip ?files ?db0)"
  have run: "(board_attempt ?exec ?files)\<^sup>*\<^sup>* ?db0 ?db1"
    by (rule r_into_rtranclp) (auto simp: board_attempt_def)
  have distinct: "distinct (map fst ?files)" by simp
  have "fst (board_RunMigrations ?exec (\<lambda>_. Done) ?files ?db1) = Inr ()" by code_simp
  then obtain db where "board_RunMigrations ?exec (\<lambda>_. Done) ?files ?db1 = (Inr (), db)" by (metis prod.collapse)
  moreover from board_migrations_once [OF distinct run, THEN conjunct2, rule_format, OF this] have "migrated ?exec ?files [] 2 db"
    by (simp add: numeral_2_eq_2)
  ultimately show ?thesis by blast
qed

section \<open>Migrations of the collection service\<close>

text \<open>A script was executed but its version not yet recorded.\<close>

definition unrecorded :: "'d sql \<Rightarrow> (string \<times> string) list \<Rightarrow> 'd \<Rightarrow> nat \<Rightarrow> 'd database \<Rightarrow> bool" where
  "unrecorded exec files d0 k db \<longleftrightarrow>
     k < length files \<and> schema_migrations db = Some (map fst (take k files))
     \<and> run_scripts exec (map snd (take (Suc k) files)) d0 = Some (tables db)"

definition idempotent :: "'d sql \<Rightarrow> string \<Rightarrow> bool" where
  "idempotent exec s \<longleftrightarrow> (\<forall>d d'. exec s d = Some d' \<longrightarrow> exec s d' = Some d')"

lemma collection_loop_filter:
  "collection_loop exec trip entries db = collection_loop exec trip (filter (\<lambda>f. sql_file (fst f)) entries) db"
proof (induction exec trip entries db rule: collection_loop.induct)
  case (2 exec trip version sql entries db)
  then show ?case by (auto split: prod.splits bool.splits)
qed simp

lemma executed:
  assumes "migrated exec files d0 k db \<or> unrecorded exec files d0 k db" "k < length files" "idempotent exec (snd (files ! k))"
    and "run_sql exec (snd (files ! k)) db = Some db1"
  shows "unrecorded exec files d0 k db1"
  using assms
  by (auto simp: migrated_def unrecorded_def run_sql_def idempotent_def take_Suc_conv_app_nth run_scripts_append split: bind_splits)

lemma recorded: "unrecorded exec files d0 k db \<Longrightarrow> record_version (fst (files ! k)) db = Some db1 \<Longrightarrow> migrated exec files d0 (Suc k) db1"
  by (auto simp: migrated_def unrecorded_def record_version_def take_Suc_conv_app_nth split: option.splits if_splits)

lemma collection_loop_migrated:
  assumes "collection_loop exec trip (drop j files) db = (res, db')" "migrated exec files d0 k db \<or> unrecorded exec files d0 k db" "j \<le> k"
    and "distinct (map fst files)" "\<forall>f \<in> set files. sql_file (fst f) \<and> idempotent exec (snd f)"
  shows "\<exists>k'. (migrated exec files d0 k' db' \<or> unrecorded exec files d0 k' db') \<and> (res = Inr () \<longrightarrow> migrated exec files d0 (length files) db')"
  using assms(1-3)
proof (induction "length files - j" arbitrary: j k trip db)
  case 0
  then have "drop j files = []" "k = length files" by (auto simp: migrated_def unrecorded_def)
  with 0 show ?case by (auto simp: unrecorded_def)
next
  case (Suc n)
  then have j: "j < length files" by simp
  obtain version sql where f: "files ! j = (version, sql)" by fastforce
  have drop: "drop j files = (version, sql) # drop (Suc j) files" using j f by (metis Cons_nth_drop_Suc)
  have sf: "sql_file version" "idempotent exec sql" using assms(5) j f by (metis fst_conv nth_mem, metis snd_conv nth_mem)
  have k: "k \<le> length files" "migration_exists version db \<longleftrightarrow> version \<in> set (map fst (take k files))"
    using Suc.prems(2) by (auto simp del: set_map simp: migrated_def unrecorded_def migration_exists_def)
  have "version \<in> set (map fst (take k files)) \<longleftrightarrow> (\<exists>i < k. map fst files ! i = map fst files ! j)"
    using k(1) j f by (auto simp: in_set_conv_nth take_map [symmetric])
  also have "\<dots> \<longleftrightarrow> j < k"
    using nth_eq_iff_index_eq [OF assms(4)] k(1) j by (metis length_map less_le_trans)
  finally have exists: "migration_exists version db \<longleftrightarrow> j < k" by (simp only: k)
  note IH = Suc.hyps(1) [of "Suc j"]
  obtain ok db1 where e: "auto_commit (trip 1) (run_sql exec sql) db = (ok, db1)" by fastforce
  obtain ok2 db2 where r: "auto_commit (trip 2) (record_version version) db1 = (ok2, db2)" by fastforce
  note step = Suc.prems(1) [unfolded drop collection_loop.simps e, simplified sf exists]
  consider (failed) "db' = db" "res \<noteq> Inr ()" | (skip) "j < k" "collection_loop exec (\<lambda>i. trip (i + 3)) (drop (Suc j) files) db = (res, db')"
    | (run) "j = k" "trip 0 = Done" using step Suc.prems(3) by (force split: if_splits)
  then show ?case
  proof cases
    case failed
    with Suc.prems(2) show ?thesis by blast
  next
    case skip
    from IH [OF _ skip(2) Suc.prems(2)] skip(1) Suc.hyps(2) show ?thesis by simp
  next
    case run
    have ran: "db1 = db \<and> \<not> ok \<or> unrecorded exec files d0 k db1"
      using e executed [OF Suc.prems(2)] run j f sf by (auto simp: auto_commit_def split: round_trip.splits option.splits)
    show ?thesis
    proof (cases ok)
      case False
      with step run have "db' = db1" "res \<noteq> Inr ()" by auto
      with ran Suc.prems(2) show ?thesis by blast
    next
      case True
      with ran have u: "unrecorded exec files d0 k db1" by simp
      have stored: "db2 = db1 \<and> \<not> ok2 \<or> migrated exec files d0 (Suc k) db2"
        using r recorded [OF u] run f by (auto simp: auto_commit_def split: round_trip.splits option.splits)
      show ?thesis
      proof (cases ok2)
        case False
        with step run True r have "db' = db2" "res \<noteq> Inr ()" by auto
        with stored u show ?thesis by blast
      next
        case ok2: True
        with step run True r have "collection_loop exec (\<lambda>i. trip (i + 3)) (drop (Suc j) files) db2 = (res, db')" by simp
        from IH [OF _ this, of "Suc k"] stored ok2 run Suc.hyps(2) show ?thesis by simp
      qed
    qed
  qed
qed

lemma collection_loop_all:
  "(\<forall>f \<in> set entries. migration_exists (fst f) db) \<Longrightarrow> snd (collection_loop exec trip entries db) = db"
  by (induction entries arbitrary: trip) auto

definition scripts_of :: "(string \<times> string) list \<Rightarrow> (string \<times> string) list" where
  "scripts_of entries = filter (\<lambda>f. sql_file (fst f)) (sort_key fst entries)"

text \<open>All files are recorded and the table of the election's partition was created.\<close>

definition partitioned :: "'d sql \<Rightarrow> (string \<times> string) list \<Rightarrow> string \<Rightarrow> 'd \<Rightarrow> 'd database \<Rightarrow> bool" where
  "partitioned exec files part d0 db \<longleftrightarrow>
     schema_migrations db = Some (map fst files) \<and> run_scripts exec (map snd files @ [part]) d0 = Some (tables db)"

definition collection_reached :: "'d sql \<Rightarrow> (string \<times> string) list \<Rightarrow> string \<Rightarrow> 'd \<Rightarrow> 'd database \<Rightarrow> bool" where
  "collection_reached exec files part d0 db \<longleftrightarrow>
     (schema_migrations db = None \<and> tables db = d0)
     \<or> (\<exists>k. migrated exec files d0 k db \<or> unrecorded exec files d0 k db)
     \<or> partitioned exec files part d0 db"

lemma partition_done:
  assumes "migrated exec files d0 (length files) db \<or> partitioned exec files part d0 db" "idempotent exec part"
    and "run_sql exec part db = Some db1"
  shows "partitioned exec files part d0 db1"
  using assms by (auto simp: migrated_def partitioned_def run_sql_def idempotent_def run_scripts_append split: bind_splits)

lemma collection_attempt_reached:
  fixes entries :: "(string \<times> string) list"
  defines "files \<equiv> scripts_of entries"
  assumes "collection_RunMigrations exec trip entries eid db = (res, db')" "distinct (map fst files)"
    and "\<forall>f \<in> set files. idempotent exec (snd f)" "idempotent exec (partitionSQL eid)"
    and "collection_reached exec files (partitionSQL eid) d0 db"
  shows "collection_reached exec files (partitionSQL eid) d0 db'
    \<and> (res = Inr () \<longrightarrow> uuidRe eid \<and> partitioned exec files (partitionSQL eid) d0 db')"
proof -
  let ?part = "partitionSQL eid"
  obtain ok db1 where c: "auto_commit (trip 0) create_tracking db = (ok, db1)" by fastforce
  have created: "db1 = db \<and> \<not> ok \<or> (\<exists>k. migrated exec files d0 k db1 \<or> unrecorded exec files d0 k db1) \<or> partitioned exec files ?part d0 db1"
  proof (cases "create_tracking db = Some db1")
    case True
    from assms(6) consider "schema_migrations db = None" "tables db = d0" | k where "migrated exec files d0 k db \<or> unrecorded exec files d0 k db"
      | "partitioned exec files ?part d0 db" unfolding collection_reached_def by auto
    then show ?thesis
    proof cases
      case 1
      with True have "migrated exec files d0 0 db1" by (auto simp: create_tracking_def migrated_def)
      then show ?thesis by blast
    next
      case 2
      with True have "migrated exec files d0 k db1 \<or> unrecorded exec files d0 k db1"
        by (auto simp: create_tracking_def migrated_def unrecorded_def)
      then show ?thesis by blast
    next
      case 3
      with True show ?thesis by (auto simp: create_tracking_def partitioned_def)
    qed
  next
    case False
    with c show ?thesis by (auto simp: auto_commit_def create_tracking_def split: round_trip.splits)
  qed
  show ?thesis
  proof (cases ok)
    case False
    with assms(2) c have "res \<noteq> Inr ()" "db' = db1" by (auto simp: collection_RunMigrations_def)
    with created assms(6) show ?thesis by (auto simp: collection_reached_def)
  next
    case True
    obtain e db2 where l: "collection_loop exec (\<lambda>i. trip (i + 2)) (sort_key fst entries) db1 = (e, db2)" by fastforce
    then have l': "collection_loop exec (\<lambda>i. trip (i + 2)) (drop 0 files) db1 = (e, db2)"
      by (simp add: files_def scripts_of_def collection_loop_filter [of _ _ "sort_key fst entries"])
    have loop: "collection_reached exec files ?part d0 db2
        \<and> (e = Inr () \<longrightarrow> migrated exec files d0 (length files) db2 \<or> partitioned exec files ?part d0 db2)"
    proof (cases "partitioned exec files ?part d0 db1")
      case True
      then have "\<forall>f \<in> set (drop 0 files). migration_exists (fst f) db1" by (auto simp: partitioned_def migration_exists_def)
      from collection_loop_all [OF this, of exec "\<lambda>i. trip (i + 2)"] l' have "db2 = db1" by simp
      with True show ?thesis by (simp add: collection_reached_def)
    next
      case False
      with created True obtain k where k: "migrated exec files d0 k db1 \<or> unrecorded exec files d0 k db1" by blast
      have "\<forall>f \<in> set files. sql_file (fst f) \<and> idempotent exec (snd f)" using assms(4) by (auto simp: files_def scripts_of_def)
      from collection_loop_migrated [OF l' k le0 assms(3) this] show ?thesis by (auto simp: collection_reached_def)
    qed
    obtain ok2 db3 where p: "auto_commit (trip 1) (run_sql exec ?part) db2 = (ok2, db3)" by fastforce
    have run: "(case e of Inl x \<Rightarrow> (Inl x, db2) | Inr _ \<Rightarrow> if \<not> uuidRe eid then (Inl BadElectionID, db2)
        else if ok2 then (Inr (), db3) else (Inl PartitionFailed, db3)) = (res, db')"
      using assms(2) c l p True
      by (cases e; cases ok2) (auto simp: collection_RunMigrations_def simp del: One_nat_def split: if_splits)
    show ?thesis
    proof (cases "e = Inr () \<and> uuidRe eid")
      case False
      with run have "db' = db2" "res \<noteq> Inr ()" by (auto split: sum.splits if_splits)
      with loop show ?thesis by simp
    next
      case e: True
      with run have res: "db' = db3" "res = Inr () \<longrightarrow> ok2" by (auto split: if_splits)
      from e loop have end_loop: "migrated exec files d0 (length files) db2 \<or> partitioned exec files ?part d0 db2" by simp
      from p partition_done [OF this assms(5)] have "db3 = db2 \<and> \<not> ok2 \<or> partitioned exec files ?part d0 db3"
        by (auto simp: auto_commit_def split: round_trip.splits option.splits)
      with res loop e show ?thesis by (auto simp: collection_reached_def)
    qed
  qed
qed

definition collection_attempt :: "'d sql \<Rightarrow> (string \<times> string) list \<Rightarrow> string \<Rightarrow> 'd database \<Rightarrow> 'd database \<Rightarrow> bool" where
  "collection_attempt exec entries eid db db' \<longleftrightarrow> (\<exists>trip. db' = snd (collection_RunMigrations exec trip entries eid db))"

text \<open>
  The collection service reaches the same schema if running any of its scripts twice does what
  running it once does: a script may then have been executed once more than recorded.
\<close>

theorem collection_migrations:
  assumes "distinct (map fst (scripts_of entries))" "\<forall>f \<in> set (scripts_of entries). idempotent exec (snd f)" "idempotent exec (partitionSQL eid)"
    and "(collection_attempt exec entries eid)\<^sup>*\<^sup>* \<lparr>schema_migrations = None, tables = d0\<rparr> db"
    and "collection_RunMigrations exec trip entries eid db = (Inr (), db')"
  shows "uuidRe eid \<and> partitioned exec (scripts_of entries) (partitionSQL eid) d0 db'"
proof -
  have "collection_reached exec (scripts_of entries) (partitionSQL eid) d0 db"
    using assms(4)
  proof (induction rule: rtranclp_induct)
    case (step db1 db2)
    then obtain trip where "db2 = snd (collection_RunMigrations exec trip entries eid db1)" by (auto simp: collection_attempt_def)
    then have "collection_RunMigrations exec trip entries eid db1 = (fst (collection_RunMigrations exec trip entries eid db1), db2)" by simp
    from collection_attempt_reached [OF this assms(1-3) step.IH] show ?case by blast
  qed (simp add: collection_reached_def)
  from collection_attempt_reached [OF assms(5,1-3) this] show ?thesis by simp
qed

text \<open>
  Without that, an attempt that dies after a script and before its record, followed by a complete
  one, executes the script twice.
\<close>

theorem collection_script_runs_twice:
  "\<exists>trip db. collection_RunMigrations exec (\<lambda>_. Done) [(''1.sql'', s)] eid
      (snd (collection_RunMigrations exec trip [(''1.sql'', s)] eid \<lparr>schema_migrations = None, tables = d0\<rparr>)) = (Inr (), db)
    \<and> run_scripts exec [s, s, partitionSQL eid] d0 = Some (tables db)"
  if "uuidRe eid" "exec s d0 = Some d1" "exec s d1 = Some d2" "exec (partitionSQL eid) d2 = Some d3"
  using that
  by (intro exI [of _ "(\<lambda>_. Done)(4 := NotDone)"])
    (simp add: collection_RunMigrations_def auto_commit_def create_tracking_def run_sql_def migration_exists_def record_version_def sql_file_def)

end
