(* ===== verification/Services.thy ===== *)
theory Services
  imports Config Board_Api Tally_Handler Collection Migrations
begin

text \<open>
  The \<open>main\<close> functions of the services: what they check and build before they serve, and the
  routes they register with the checks in front of each handler.  The reply of a server carries
  one of the bodies its handlers write.  The theorem at the end is about all of them: without
  the configured key no request changes what the internal endpoints guard.
\<close>

section \<open>Routing\<close>

text \<open>
  A \<open>ServeMux\<close> picks the registered pattern for a request, with the value of its wildcard, or
  answers itself with a status (404, 405 or a redirect to the cleaned path).  How it picks is
  the parameter \<open>pick\<close>; \<open>plain_mux\<close> below is what it does for plain paths.
\<close>

type_synonym picker = "string list \<Rightarrow> http_request \<Rightarrow> nat + string \<times> string"

type_synonym ('st, 'a) route_handler = "string \<Rightarrow> http_request \<Rightarrow> 'st \<Rightarrow> 'a response \<times> 'st"

definition serve_mux :: "picker \<Rightarrow> (string \<times> ('st, 'a) route_handler) list \<Rightarrow> http_request \<Rightarrow> 'st \<Rightarrow> 'a response \<times> 'st" where
  "serve_mux pick routes r st =
     (case pick (map fst routes) r of
        Inl status \<Rightarrow> (Failure status '''', st)
      | Inr (pattern, v) \<Rightarrow>
          (case map_of routes pattern of
             None \<Rightarrow> (Failure 404 '''', st)
           | Some h \<Rightarrow> h v r st))"

text \<open>Whatever is picked, an invariant of all handlers holds of the server.\<close>

lemma serve_mux_all:
  assumes "\<And>pattern h v. (pattern, h) \<in> set routes \<Longrightarrow> P (h v r st)" "\<And>status. P (Failure status '''', st)"
  shows "P (serve_mux pick routes r st)"
  using assms by (auto simp: serve_mux_def dest: map_of_SomeD split: sum.splits prod.splits option.splits)

definition wrap :: "('a \<Rightarrow> 'b) \<Rightarrow> 'a response \<times> 'st \<Rightarrow> 'b response \<times> 'st" where
  "wrap f = map_prod (map_response f) id"

lemma wrap_simps [simp]: "wrap f (Failure n code, st) = (Failure n code, st)" "wrap f (Success n x, st) = (Success n (f x), st)"
  "snd (wrap f p) = snd p"
  by (simp_all add: wrap_def)

text \<open>
  Patterns on plain paths, without percent signs, empty segments or dots: segments in braces match
  any one, a pattern that ends in a slash matches what is below it, a method in front has to
  agree, \<open>GET\<close> matching \<open>HEAD\<close> too, and of several patterns the one with most literal segments wins.
\<close>

fun split_char :: "char \<Rightarrow> string \<Rightarrow> string \<Rightarrow> string list" where
  "split_char d part [] = [rev part]"
| "split_char d part (c # s) = (if c = d then rev part # split_char d [] s else split_char d (c # part) s)"

definition pattern_parts :: "string \<Rightarrow> string \<times> string list" where
  "pattern_parts pattern =
     (case split_char CHR '' '' [] pattern of
        [loc] \<Rightarrow> ('''', split_char CHR ''/'' [] loc)
      | m # loc # _ \<Rightarrow> (m, split_char CHR ''/'' [] loc)
      | [] \<Rightarrow> ('''', []))"

definition is_wild :: "string \<Rightarrow> bool" where
  "is_wild s \<longleftrightarrow> s \<noteq> '''' \<and> hd s = CHR ''{''"

fun match_segments :: "string list \<Rightarrow> string list \<Rightarrow> string option" where
  "match_segments [] [] = Some ''''"
| "match_segments ['''' ] (x # xs) = Some ''''"
| "match_segments (p # ps) (x # xs) =
     (if is_wild p then (if x = '''' then None else map_option (\<lambda>_. x) (match_segments ps xs))
      else if p = x then match_segments ps xs else None)"
| "match_segments _ _ = None"

definition plain_mux :: picker where
  "plain_mux patterns r =
     (let xs = split_char CHR ''/'' [] (req_path r);
          found = filter (\<lambda>p. match_segments (snd (pattern_parts p)) xs \<noteq> None) patterns;
          method_ok = (\<lambda>p. fst (pattern_parts p) \<in> {'''', req_method r} \<or> (fst (pattern_parts p) = ''GET'' \<and> req_method r = ''HEAD''));
          literals = (\<lambda>p. length (filter (\<lambda>s. \<not> is_wild s) (snd (pattern_parts p))))
      in if found = [] then Inl 404
         else case sort_key literals (filter method_ok found) of
           [] \<Rightarrow> Inl 405
         | ps \<Rightarrow> Inr (last ps, the (match_segments (snd (pattern_parts (last ps))) xs)))"

section \<open>The bulletin board\<close>

datatype board_body = PageBody page | BallotBody ballotResponse | RootBody "string \<times> int \<times> bool" | ElectionBody string string
  | HealthBody | AppendBody AppendResult | NoBody

text \<open>
  \<open>handleGetElection\<close>: the election and the fixed public key of the demo, the base point of the
  group; the parties of the demo are left out.
\<close>

definition devPublicKey :: string where
  "devPublicKey = ''e2f2ae0a6abc4e71a884a961c500515f58e30b6aa582dd8db6a65945e08d2d76''"

definition handleGetElection :: "string \<Rightarrow> board_body response" where
  "handleGetElection eid = Success StatusOK (ElectionBody eid devPublicKey)"

text \<open>What the handlers of the board use: the hash, the database, and the decoder of submissions.\<close>

record board_lib =
  bl_sha :: sha
  bl_env :: db_env
  bl_fails :: bool
  bl_decode :: "bytes \<Rightarrow> submitBallotRequest option"

definition public_routes :: "board_lib \<Rightarrow> string \<Rightarrow> (string \<times> (Board \<times> board_db, board_body) route_handler) list" where
  "public_routes l eid =
     [(''GET /api/v1/board'', \<lambda>_ r s. wrap PageBody (handleListBallots (bl_fails l) r s, s)),
      (''GET /api/v1/board/root'', \<lambda>_ r s. wrap RootBody (handleGetRoot (bl_sha l) (fst s) (fst s) (fst s), s)),
      (''GET /api/v1/board/{ballot_id}'', \<lambda>v r s. wrap BallotBody (handleGetBallot (bl_sha l) (bl_fails l) (\<lambda>_. v) r s, s)),
      (''GET /api/v1/election'', \<lambda>_ r s. (handleGetElection eid, s)),
      (''GET /health'', \<lambda>_ r s. (Success StatusOK HealthBody, s))]"

definition internal_routes :: "board_lib \<Rightarrow> string \<Rightarrow> (string \<times> (Board \<times> board_db, board_body) route_handler) list" where
  "internal_routes l apiKey =
     [(''POST /internal/v1/ballots'', \<lambda>_ r s. wrap AppendBody (requireAPIKey apiKey (handleSubmitBallot (bl_sha l) (bl_env l) (bl_decode l)) r s))]"

text \<open>Logging leaves requests and replies as they are.\<close>

definition cors_public :: "picker \<Rightarrow> board_lib \<Rightarrow> string list \<Rightarrow> string \<Rightarrow> (Board \<times> board_db, board_body) route_handler" where
  "cors_public pick l allowedOrigins eid v r s =
     (case withCORS allowedOrigins (serve_mux pick (public_routes l eid)) r s of
        (headers, None, s) \<Rightarrow> (Success 204 NoBody, s)
      | (headers, Some resp, s) \<Rightarrow> (resp, s))"

definition NewRouter :: "picker \<Rightarrow> board_lib \<Rightarrow> string \<Rightarrow> string list \<Rightarrow> string \<Rightarrow> http_request \<Rightarrow> Board \<times> board_db \<Rightarrow> board_body response \<times> Board \<times> board_db" where
  "NewRouter pick l apiKey allowedOrigins eid =
     serve_mux pick
       [(''/api/'', cors_public pick l allowedOrigins eid),
        (''/health'', cors_public pick l allowedOrigins eid),
        (''/internal/'', \<lambda>_. serve_mux pick (internal_routes l apiKey))]"

text \<open>Starting the board: \<open>start_db\<close> connects and migrates and gives the database.\<close>

datatype board_start_error = NoInternalKey | NoDatabase | NoBoard board_error | NoSigningKey key_error

record 'k board_server =
  bs_board :: Board
  bs_db :: board_db
  bs_signer :: "'k option"
  bs_key :: string
  bs_origins :: "string list"
  bs_election :: string

definition board_main ::
  "sha \<Rightarrow> (string \<Rightarrow> 32 word \<Rightarrow> 32 word \<Rightarrow> board_db option) \<Rightarrow> bool \<Rightarrow> (string \<Rightarrow> key_error + 'k) \<Rightarrow> env \<Rightarrow> board_start_error + 'k board_server" where
  "board_main sha start_db db_fails load_key env =
     (let cfg = board_LoadConfig env in
      bindE (guardE (InternalAPIKey cfg \<noteq> '''') NoInternalKey) (\<lambda>_.
      bindE (case start_db (bc_DatabaseURL cfg) (DBMaxConns cfg) (DBMinConns cfg) of None \<Rightarrow> Inl NoDatabase | Some db \<Rightarrow> Inr db) (\<lambda>db.
      bindE (case Board_New sha db_fails db of Inl e \<Rightarrow> Inl (NoBoard e) | Inr b \<Rightarrow> Inr b) (\<lambda>b.
      bindE (if SigningKeyPath cfg \<noteq> '''' then (case load_key (SigningKeyPath cfg) of Inl e \<Rightarrow> Inl (NoSigningKey e) | Inr k \<Rightarrow> Inr (Some k)) else Inr None) (\<lambda>k.
      Inr \<lparr>bs_board = b, bs_db = db, bs_signer = k, bs_key = InternalAPIKey cfg,
           bs_origins = map TrimSpace (split_commas '''' (AllowedOrigins cfg)), bs_election = bc_ElectionID cfg\<rparr>)))))"

text \<open>\<open>NewSigner\<close>: without a key a new one is generated, which panics without randomness.\<close>

definition NewSigner :: "'k option \<Rightarrow> 'k option \<Rightarrow> 'k option" where
  "NewSigner generated key = (case key of None \<Rightarrow> generated | Some k \<Rightarrow> Some k)"

text \<open>One tick of the signing loop: the root is signed and a row is inserted.\<close>

definition signing_tick ::
  "sha \<Rightarrow> (int \<Rightarrow> string) \<Rightarrow> (hash \<Rightarrow> bytes option) \<Rightarrow> int \<Rightarrow> int \<Rightarrow> bool \<Rightarrow> Board \<Rightarrow> Board \<Rightarrow> board_db \<Rightarrow> board_db" where
  "signing_tick sha fmt ecdsa_sign now db_time insert_fails b1 b2 db =
     (case SignRoot sha fmt ecdsa_sign now b1 b2 of
        Inr (Some sr) \<Rightarrow> if insert_fails then db else InsertSignedRoot db_time (ToStoreRecord sr) db
      | _ \<Rightarrow> db)"

section \<open>The tally service\<close>

datatype tally_body = StartBody startResponse | StatusBody statusResponse | TextBody string | ResultsBody resultsResponse

text \<open>What the outside gives one request: decoders, the disk, the clock and the seal of the board.\<close>

record tally_outside =
  to_start :: "bytes \<Rightarrow> startRequest option"
  to_partial :: "bytes \<Rightarrow> partialDecryptionRequest option"
  to_mkdir_fails :: bool
  to_disk_fails :: "nat \<Rightarrow> bool"
  to_now :: int
  to_seal :: "client_error + bool"

definition tally_routes ::
  "('s::field, 'e::ab_group_add) tally_env \<Rightarrow> tally_outside \<Rightarrow> string \<Rightarrow> (string \<times> (('s, 'e) Service, tally_body) route_handler) list" where
  "tally_routes te out key =
     [(''GET /health'', \<lambda>_ r sv. (Success StatusOK (TextBody ''ok''), sv)),
      (''POST /api/v1/ceremony/start'', \<lambda>_ r sv. wrap StartBody
         (RequireKey key (\<lambda>r. handleStart te (to_start out) (to_mkdir_fails out) (to_disk_fails out) (to_now out) (to_seal out) (req_body r)) r sv)),
      (''GET /api/v1/ceremony/{id}'', \<lambda>v r sv. wrap StatusBody (RequireKey key (\<lambda>r sv. (handleStatus v sv, sv)) r sv)),
      (''POST /api/v1/ceremony/{id}/partial-decryption'', \<lambda>v r sv. wrap TextBody
         (RequireKey key (\<lambda>r. handlePartialDecryption te (to_partial out) (to_disk_fails out) (to_now out) v (req_body r)) r sv)),
      (''GET /api/v1/ceremony/{id}/results'', \<lambda>v r sv. wrap ResultsBody (handleResults v sv, sv)),
      (''POST /api/v1/ceremony/{id}/finalize'', \<lambda>v r sv. wrap TextBody (RequireKey key (\<lambda>r. handleFinalize te (to_disk_fails out 0) v) r sv))]"

datatype tally_start_error = NoCeremonyKey | NoTrusteeKeys | NoElectionID | BadTrusteeKeys tally_error | BadCACert | BadJournal state_error

text \<open>
  The environment of the handler has the trustees' keys of the file and the election of the
  settings; \<open>read_keys\<close> and \<open>read_journal\<close> read the files, \<open>ca_ok\<close> says whether the CA
  certificate loads.
\<close>

definition tally_main ::
  "('s, 'e::zero) tally_env \<Rightarrow> (string \<Rightarrow> TrusteeKey list option) \<Rightarrow> (string \<Rightarrow> bool) \<Rightarrow> (string \<Rightarrow> bool \<times> bytes option) \<Rightarrow> env
    \<Rightarrow> tally_start_error + ('s, 'e) tally_env \<times> BBClient \<times> ('s, 'e) Service \<times> string" where
  "tally_main te read_keys ca_ok read_journal env =
     (let cfg = tally_LoadConfig env in
      bindE (guardE (CeremonyAPIKey cfg \<noteq> '''') NoCeremonyKey) (\<lambda>_.
      bindE (guardE (TrusteeKeysPath cfg \<noteq> '''') NoTrusteeKeys) (\<lambda>_.
      bindE (guardE (tc_ElectionID cfg \<noteq> '''') NoElectionID) (\<lambda>_.
      bindE (case LoadTrusteeKeys (te_prims te) (read_keys (TrusteeKeysPath cfg)) of Inl e \<Rightarrow> Inl (BadTrusteeKeys e) | Inr keys \<Rightarrow> Inr keys) (\<lambda>trusteeKeys.
      bindE (guardE (tc_CACertPath cfg = '''' \<or> ca_ok (tc_CACertPath cfg)) BadCACert) (\<lambda>_.
      let te = te\<lparr>te_keys := trusteeKeys, te_electionID := tc_ElectionID cfg, te_stateDir := CeremonyStateDir cfg\<rparr>;
          (read_fails, file) = read_journal (CeremonyStateDir cfg) in
      bindE (case NewCeremonyHandler te read_fails file of Inl e \<Rightarrow> Inl (BadJournal e) | Inr sv \<Rightarrow> Inr sv) (\<lambda>sv.
      Inr (te, NewBBClient (tc_BulletinBoardURL cfg), sv, CeremonyAPIKey cfg))))))))"

section \<open>The collection service\<close>

datatype collection_body = SubmitBody submitResponse | ActiveSetBody "string list \<times> nat" | ReportBody bytes | OkBody | EmptyBody

definition NewCollectionHandler :: "bytes \<Rightarrow> string \<Rightarrow> string \<Rightarrow> string \<Rightarrow> bool \<Rightarrow> string \<Rightarrow> string \<Rightarrow> string \<Rightarrow> CollectionHandler" where
  "NewCollectionHandler hmacKey bbURL apiKey reportDir dev authURL sessionKey eid =
     \<lparr>egnHMACKey = hmacKey, bulletinBoardURL = bbURL, internalAPIKey = apiKey, overrideReportDir = reportDir, devAuth = dev,
      authServiceURL = authURL, sessionAPIKey = sessionKey, col_electionID = eid\<rparr>"

text \<open>The handlers of one request: submission, active set and report over the store and the board.\<close>

record ('st, 'bd) collection_handlers =
  ch_submit :: "http_request \<Rightarrow> 'st \<times> 'bd \<Rightarrow> submitResponse response \<times> 'st \<times> 'bd"
  ch_active_set :: "'st \<Rightarrow> (string list \<times> nat) response"
  ch_report :: "bytes response"

definition submit_route :: "('st, 'bd) collection_handlers \<Rightarrow> string list \<Rightarrow> http_request \<Rightarrow> 'st \<times> 'bd \<Rightarrow> collection_body response \<times> 'st \<times> 'bd" where
  "submit_route h origins r s =
     (case corsMiddleware ''POST, OPTIONS'' ''Content-Type, Authorization'' origins
         (\<lambda>r s. if req_method r \<noteq> ''POST'' then (Failure 405 ''Method Not Allowed'', s) else ch_submit h r s) r s of
        (headers, None, s) \<Rightarrow> (Success 204 EmptyBody, s)
      | (headers, Some resp, s) \<Rightarrow> wrap SubmitBody (resp, s))"

definition collection_routes ::
  "('st, 'bd) collection_handlers \<Rightarrow> string list \<Rightarrow> string \<Rightarrow> (string \<times> ('st \<times> 'bd, collection_body) route_handler) list" where
  "collection_routes h origins activeSetKey =
     [(''/api/v1/submit'', \<lambda>_. submit_route h origins),
      (''GET /internal/v1/active-set'', \<lambda>_ r s. wrap ActiveSetBody (RequireKey activeSetKey (\<lambda>r s. (ch_active_set h (fst s), s)) r s)),
      (''GET /internal/v1/override-report'', \<lambda>_ r s. wrap ReportBody (RequireKey activeSetKey (\<lambda>r s. (ch_report h, s)) r s)),
      (''GET /health'', \<lambda>_ r s. (Success StatusOK OkBody, s))]"

datatype collection_start_error = BadSettings startup_error | NoJWTKey key_error | NoStore migration_error | NoCACert

text \<open>
  \<open>open_store\<close> connects to PostgreSQL and runs the migrations; the store is the in-memory one when
  no database is set.
\<close>

definition collection_main ::
  "(string \<Rightarrow> key_error + 'k) \<Rightarrow> (string \<Rightarrow> string \<Rightarrow> bytes \<Rightarrow> migration_error + 'st) \<Rightarrow> (bytes \<Rightarrow> 'st) \<Rightarrow> (string \<Rightarrow> bool) \<Rightarrow> env
    \<Rightarrow> collection_start_error + CollectionHandler \<times> 'k option \<times> 'st \<times> string \<times> string list" where
  "collection_main load_key open_store memory_store ca_ok env =
     (let cfg = collection_LoadConfig env; settings = col_config.truncate cfg in
      bindE (case startup_auth settings of Inl e \<Rightarrow> Inl (BadSettings e) | Inr _ \<Rightarrow> Inr ()) (\<lambda>_.
      bindE (if DevAuth cfg then Inr None
             else case load_key (AuthJWTPublicKey cfg) of Inl e \<Rightarrow> Inl (NoJWTKey e) | Inr k \<Rightarrow> Inr (Some k)) (\<lambda>jwtPubKey.
      bindE (case startup_store settings of Inl e \<Rightarrow> Inl (BadSettings e) | Inr choice \<Rightarrow> Inr choice) (\<lambda>choice.
      bindE (case choice of
               UsePostgres \<Rightarrow> (case open_store (DatabaseURL cfg) (cc_ElectionID cfg) (bytes_of (HistoryHMACKey cfg)) of Inl e \<Rightarrow> Inl (NoStore e) | Inr st \<Rightarrow> Inr st)
             | UseMemory \<Rightarrow> Inr (memory_store (bytes_of (HistoryHMACKey cfg)))) (\<lambda>st.
      bindE (guardE (cc_CACertPath cfg = '''' \<or> ca_ok (cc_CACertPath cfg)) NoCACert) (\<lambda>_.
      Inr (NewCollectionHandler (bytes_of (EGNHMACKey cfg)) (BulletinBoardURL cfg) (BULLETIN_BOARD_API_KEY cfg) (OverrideReportDir cfg)
             (DevAuth cfg) (AuthServiceURL cfg) (SessionAPIKey cfg) (cc_ElectionID cfg),
           jwtPubKey, st, ACTIVE_SET_API_KEY cfg, CORSAllowedOrigins cfg)))))))"

section \<open>The verification service\<close>

datatype verification_body = SessionBody createResponse | SharesBody shareResponse | CodeBody string | CountBody "string \<times> nat"

record 's verification_outside =
  vo_rand :: "bytes option"
  vo_now :: instant
  vo_share :: "bytes \<Rightarrow> shareRequest option"
  vo_verify :: "bytes \<Rightarrow> verifyRequest option"

text \<open>The shares endpoint is registered with the key, unprotected in dev mode without one, or not.\<close>

definition verification_routes ::
  "('s::field, 'e) verify_env \<Rightarrow> 's verification_outside \<Rightarrow> VerificationHandler \<Rightarrow> share_route \<Rightarrow> (string \<times> ('s SessionStore, verification_body) route_handler) list" where
  "verification_routes ve out h shares =
     [(''POST /api/v1/session'', \<lambda>_ r st. wrap SessionBody (HandleCreateSession ve h (vo_rand out) (vo_now out) st)),
      (''POST /api/v1/verify'', \<lambda>_ r st. wrap CodeBody (HandleVerify ve (vo_verify out) (vo_now out) (req_body r) st)),
      (''GET /health'', \<lambda>_ r st. wrap CountBody (HandleHealth st, st))]
     @ (case shares of
          WithKey key \<Rightarrow>
            [(''POST /internal/v1/shares'', \<lambda>_ r st. wrap SharesBody
               (RequireKey key (\<lambda>r. HandleSubmitShare ve h (vo_share out) (vo_now out) (req_body r)) r st))]
        | Unprotected \<Rightarrow>
            [(''POST /internal/v1/shares'', \<lambda>_ r st. wrap SharesBody (HandleSubmitShare ve h (vo_share out) (vo_now out) (req_body r) st))]
        | NoRoute \<Rightarrow> [])"

section \<open>The auth service\<close>

datatype auth_body = TokenBody authResponse | VoterBody string | LoginPage loginPageData cookie | LoginRedirect string cookie
  | SessionUntil "int option" | PreflightBody | ProviderBody string

text \<open>A page is a reply with its status; a redirect is a 302.\<close>

fun login_response :: "login_reply \<Rightarrow> auth_body response" where
  "login_response (Page status d c) = Success status (LoginPage d c)"
| "login_response (ErrorReply status code) = Failure status code"
| "login_response (Redirected u c) = Success 302 (LoginRedirect u c)"

definition NewAuthHandler :: "Provider \<Rightarrow> 'p \<Rightarrow> string \<Rightarrow> 'p AuthHandler" where
  "NewAuthHandler p privKey eid = \<lparr>provider = p, jwtPrivKey = privKey, electionID = eid\<rparr>"

text \<open>What the outside gives one request: Redis and its failures, the clock, randomness, the decoders.\<close>

record ('d, 'p, 'k) auth_outside =
  ao_redis :: "'d redis"
  ao_fault :: "nat \<Rightarrow> redis_fault"
  ao_mint :: "string \<Rightarrow> SessionClaims \<Rightarrow> 'p \<Rightarrow> string option"
  ao_parse :: "'k jwt_parser"
  ao_urls :: url_lib
  ao_decode :: "bytes \<Rightarrow> string option"
  ao_form :: "http_request \<Rightarrow> (string \<Rightarrow> string) option"
  ao_rand :: "bytes option"
  ao_uuid :: string
  ao_now :: int

definition auth_routes ::
  "('d, 'p, 'k) auth_outside \<Rightarrow> 'p AuthHandler \<Rightarrow> ('p, 'k) LoginHandler \<Rightarrow> string \<Rightarrow> (string \<times> ('d, auth_body) route_handler) list" where
  "auth_routes ao h lh key =
     [(''POST /authenticate'', \<lambda>_ r db. wrap TokenBody (ServeHTTP (ao_redis ao) (ao_fault ao) (ao_mint ao) (ao_decode ao) h (ao_now ao) (ao_uuid ao) r db)),
      (''GET /internal/v1/session/{id}'', \<lambda>v r db. wrap VoterBody
         (RequireKey key (\<lambda>r db. (HandleResolveSession (ao_redis ao) (ao_fault ao 0) (ao_now ao) v db, db)) r db)),
      (''GET /login'', \<lambda>_ r db. (login_response (HandleGetLogin (ao_urls ao) (ao_rand ao) lh r), db)),
      (''POST /login'', \<lambda>_ r db.
         (case HandlePostLogin (ao_redis ao) (ao_fault ao) (ao_mint ao) (ao_urls ao) (ao_rand ao) lh (ao_now ao) (ao_uuid ao) (ao_form ao r) r db of
            (rep, db) \<Rightarrow> (login_response rep, db))),
      (''GET /session/status'', \<lambda>_ r db. (Success StatusOK (SessionUntil (snd (HandleSessionStatus (ao_urls ao) (ao_parse ao) lh r))), db)),
      (''OPTIONS /session/status'', \<lambda>_ r db. (Success (fst (HandleSessionStatusOptions (ao_urls ao) lh r)) PreflightBody, db)),
      (''GET /health'', \<lambda>_ r db. (Success StatusOK (ProviderBody (provider_name (provider h))), db))]"

text \<open>The start: the checks, the two handlers with the same provider and key, and the key of the internal route.\<close>

definition auth_main ::
  "(string \<Rightarrow> 'p option) \<Rightarrow> (string \<Rightarrow> 'o option) \<Rightarrow> ('o \<Rightarrow> bool) \<Rightarrow> ('p \<Rightarrow> 'k) \<Rightarrow> env
    \<Rightarrow> auth_startup_error + 'p AuthHandler \<times> ('p, 'k) LoginHandler \<times> string" where
  "auth_main load_key parse_redis ping public_key env =
     (let cfg = auth_LoadConfig env in
      bindE (auth_startup load_key parse_redis ping (auth_config.truncate cfg)) (\<lambda>(k, p).
      Inr (NewAuthHandler p k (ac_ElectionID cfg), NewLoginHandler public_key p k (ac_ElectionID cfg) (AllowedRedirectURIs cfg),
           auth_SessionAPIKey cfg)))"

section \<open>Serving\<close>

text \<open>
  What every \<open>main\<close> ends with: TLS when both the certificate and its key are set, plain HTTP
  otherwise, and the exit status when the server returns.
\<close>

datatype listener = ListenAndServeTLS string string string | ListenAndServe string

datatype listen_result = NoListenError | ErrServerClosed | ListenError

definition choose_listener :: "string \<Rightarrow> string \<Rightarrow> string \<Rightarrow> listener" where
  "choose_listener addr cert key = (if cert \<noteq> '''' \<and> key \<noteq> '''' then ListenAndServeTLS addr cert key else ListenAndServe addr)"

definition run_server :: "(listener \<Rightarrow> listen_result) \<Rightarrow> string \<Rightarrow> string \<Rightarrow> string \<Rightarrow> nat" where
  "run_server serve addr cert key =
     (let listenErr = serve (choose_listener addr cert key) in if listenErr \<noteq> NoListenError \<and> listenErr \<noteq> ErrServerClosed then 1 else 0)"

definition board_serve :: "(listener \<Rightarrow> listen_result) \<Rightarrow> board_config \<Rightarrow> nat" where
  "board_serve serve cfg = run_server serve (bc_ListenAddr cfg) (bc_TLSCertPath cfg) (bc_TLSKeyPath cfg)"

definition collection_serve :: "(listener \<Rightarrow> listen_result) \<Rightarrow> collection_settings \<Rightarrow> nat" where
  "collection_serve serve cfg = run_server serve (cc_ListenAddr cfg) (cc_TLSCertPath cfg) (cc_TLSKeyPath cfg)"

definition auth_serve :: "(listener \<Rightarrow> listen_result) \<Rightarrow> auth_settings \<Rightarrow> nat" where
  "auth_serve serve cfg = run_server serve (ac_ListenAddr cfg) (ac_TLSCertPath cfg) (ac_TLSKeyPath cfg)"

definition tally_serve :: "(listener \<Rightarrow> listen_result) \<Rightarrow> tally_config \<Rightarrow> nat" where
  "tally_serve serve cfg = run_server serve (tc_ListenAddr cfg) (tc_TLSCertPath cfg) (tc_TLSKeyPath cfg)"

definition verification_serve :: "(listener \<Rightarrow> listen_result) \<Rightarrow> verification_settings \<Rightarrow> nat" where
  "verification_serve serve cfg = run_server serve (vc_ListenAddr cfg) (vc_TLSCertPath cfg) (vc_TLSKeyPath cfg)"

text \<open>A service with a certificate but no key, or the other way round, serves plain HTTP.\<close>

lemma half_configured_tls: "cert = '''' \<or> key = '''' \<Longrightarrow> run_server serve addr cert key = run_server serve addr '''' ''''"
  by (auto simp: run_server_def choose_listener_def)

section \<open>Requests without the key\<close>

lemma map_response_Success: "map_response f p = Success n b \<longleftrightarrow> (\<exists>x. p = Success n x \<and> b = f x)"
  by (cases p) auto

lemma fst_wrap: "fst (wrap f p) = map_response f (fst p)"
  by (simp add: wrap_def)

lemma board_without_key:
  assumes "req_header r ''X-Internal-Key'' \<noteq> key"
  shows "snd (NewRouter pick l key origins eid r s) = s"
proof -
  have public: "snd (serve_mux pick (public_routes l eid) r s) = s"
    by (rule serve_mux_all [where P = "\<lambda>p. snd p = s"]) (auto simp: public_routes_def)
  have internal: "snd (serve_mux pick (internal_routes l key) r s) = s"
    by (rule serve_mux_all [where P = "\<lambda>p. snd p = s"]) (use assms in \<open>simp_all add: internal_routes_def requireAPIKey_def\<close>)
  have "snd (cors_public pick l origins eid v r s) = s" for v
    using public by (cases "serve_mux pick (public_routes l eid) r s") (simp add: cors_public_def withCORS_def Let_def)
  with internal show ?thesis
    unfolding NewRouter_def by (intro serve_mux_all [where P = "\<lambda>p. snd p = s"]) auto
qed

lemma tally_without_key:
  "req_header r ''X-Internal-Key'' \<noteq> key \<Longrightarrow> snd (serve_mux pick (tally_routes te out key) r sv) = sv"
  by (rule serve_mux_all [where P = "\<lambda>p. snd p = sv"]) (auto simp: tally_routes_def RequireKey_refused)

lemma collection_without_key:
  assumes "req_header r ''X-Internal-Key'' \<noteq> key"
  shows "fst (serve_mux pick (collection_routes h origins key) r s) \<noteq> Success n (ActiveSetBody x)
    \<and> fst (serve_mux pick (collection_routes h origins key) r s) \<noteq> Success n (ReportBody y)"
proof -
  let ?P = "\<lambda>p. fst p \<noteq> Success n (ActiveSetBody x) \<and> fst p \<noteq> Success n (ReportBody y)"
  have "?P (submit_route h origins r s)"
    unfolding submit_route_def by (auto simp: fst_wrap map_response_Success split: prod.splits option.splits)
  then show ?thesis
    by (intro serve_mux_all [where P = ?P]) (use assms in \<open>auto simp: collection_routes_def RequireKey_refused\<close>)
qed

lemma verification_without_key:
  assumes "req_header r ''X-Internal-Key'' \<noteq> key"
  shows "snd (serve_mux pick (verification_routes ve out h (WithKey key)) r st)
    \<in> {st, snd (HandleCreateSession ve h (vo_rand out) (vo_now out) st), snd (HandleVerify ve (vo_verify out) (vo_now out) (req_body r) st)}"
  by (rule serve_mux_all) (use assms in \<open>auto simp: verification_routes_def RequireKey_refused\<close>)

lemma auth_without_key:
  assumes "req_header r ''X-Internal-Key'' \<noteq> key"
  shows "fst (serve_mux pick (auth_routes ao h lh key) r db) \<noteq> Success n (VoterBody egn)"
proof (rule serve_mux_all [where P = "\<lambda>p. fst p \<noteq> Success n (VoterBody egn)"])
  have "login_response rep \<noteq> Success n (VoterBody egn)" for rep by (cases rep) simp_all
  then show "fst (g v r db) \<noteq> Success n (VoterBody egn)" if "(pattern, g) \<in> set (auth_routes ao h lh key)" for pattern g v
    using that assms by (auto simp: auth_routes_def RequireKey_refused fst_wrap map_response_Success split: prod.splits)
qed simp

text \<open>
  A stored root is not the signed message: the row has the time of the database instead of the
  time that was signed, so the signature of what is read back verifies only if both print alike.
\<close>

theorem stored_root_message:
  assumes "SignRoot sha fmt ecdsa_sign now b1 b2 = Inr (Some sr)"
    and "row = last (signed_roots (signing_tick sha fmt ecdsa_sign now db_time False b1 b2 db))"
  shows "root_data fmt (sr_RootSHA256 row) (sr_BallotCount row) (sr_SignedAt row) = root_data fmt (RootSHA256 sr) (BallotCount sr) (SignedAt sr)
    \<longleftrightarrow> fmt db_time = fmt now"
proof -
  have "SignedAt sr = now" using assms(1) by (auto simp: SignRoot_def Let_def split: option.splits)
  then show ?thesis
    using assms(2) by (simp add: signing_tick_def assms(1) InsertSignedRoot_def ToStoreRecord_def root_data_def bytes_of_inject)
qed

section \<open>Properties\<close>

text \<open>
  C39.  Internal endpoints are protected.  A service that started has a key that is not empty, and
  whatever its mux picks, a request whose key header differs, above all one without the header,
  changes neither the board nor the ceremony, gets neither the active set nor the report from
  the collection service, reaches in production of the verification service only its two
  public handlers, and does not learn from the auth service which voter a session belongs to.
\<close>

theorem internal_endpoints_protected:
  fixes srv :: "'k board_server" and sv :: "('s::field, 'e::ab_group_add) Service"
  shows "(board_main sha start_db db_fails load_signing_key env = Inr srv \<longrightarrow>
      bs_key srv \<noteq> '''' \<and> (req_header r ''X-Internal-Key'' \<noteq> bs_key srv \<longrightarrow>
        snd (NewRouter pick l (bs_key srv) (bs_origins srv) (bs_election srv) r s) = s))
    \<and> (tally_main te0 read_keys ca_ok read_journal env = Inr (te, client, sv, tkey) \<longrightarrow>
      tkey \<noteq> '''' \<and> (req_header r ''X-Internal-Key'' \<noteq> tkey \<longrightarrow> snd (serve_mux pick (tally_routes te out tkey) r sv') = sv'))
    \<and> (collection_main load_jwt_key open_store memory_store ca_ok env = Inr (h, jwt_key, store, ckey, origins) \<longrightarrow>
      ckey \<noteq> '''' \<and> (req_header r ''X-Internal-Key'' \<noteq> ckey \<longrightarrow>
        (\<forall>n x y. fst (serve_mux pick (collection_routes ch origins ckey) r cs) \<noteq> Success n (ActiveSetBody x)
          \<and> fst (serve_mux pick (collection_routes ch origins ckey) r cs) \<noteq> Success n (ReportBody y))))
    \<and> (verification_startup (ve_prims ve) cfg names tape = Some (vh, vst, shares) \<and> \<not> DevMode cfg \<longrightarrow>
      (\<exists>vkey. vkey \<noteq> '''' \<and> shares = WithKey vkey \<and> (req_header r ''X-Internal-Key'' \<noteq> vkey \<longrightarrow>
        snd (serve_mux pick (verification_routes ve vo vh shares) r st)
          \<in> {st, snd (HandleCreateSession ve vh (vo_rand vo) (vo_now vo) st), snd (HandleVerify ve (vo_verify vo) (vo_now vo) (req_body r) st)})))
    \<and> (auth_main load_priv parse_redis ping public_key env = Inr (ah, lh, akey) \<longrightarrow>
      akey \<noteq> '''' \<and> (req_header r ''X-Internal-Key'' \<noteq> akey \<longrightarrow>
        (\<forall>n egn. fst (serve_mux pick (auth_routes ao ah lh akey) r adb) \<noteq> Success n (VoterBody egn))))"
proof (intro conjI impI)
  assume "board_main sha start_db db_fails load_signing_key env = Inr srv"
  then show "bs_key srv \<noteq> ''''" by (auto simp: board_main_def Let_def)
next
  assume "req_header r ''X-Internal-Key'' \<noteq> bs_key srv"
  then show "snd (NewRouter pick l (bs_key srv) (bs_origins srv) (bs_election srv) r s) = s" by (rule board_without_key)
next
  assume "tally_main te0 read_keys ca_ok read_journal env = Inr (te, client, sv, tkey)"
  then show "tkey \<noteq> ''''"
    by (cases "read_journal (CeremonyStateDir (tally_LoadConfig env))") (auto simp: tally_main_def Let_def)
next
  assume "req_header r ''X-Internal-Key'' \<noteq> tkey"
  then show "snd (serve_mux pick (tally_routes te out tkey) r sv') = sv'" by (rule tally_without_key)
next
  assume "collection_main load_jwt_key open_store memory_store ca_ok env = Inr (h, jwt_key, store, ckey, origins)"
  then show "ckey \<noteq> ''''"
    by (auto simp: collection_main_def Let_def startup_auth_def col_config.truncate_def split: sum.splits)
next
  assume "req_header r ''X-Internal-Key'' \<noteq> ckey"
  then show "\<forall>n x y. fst (serve_mux pick (collection_routes ch origins ckey) r cs) \<noteq> Success n (ActiveSetBody x)
      \<and> fst (serve_mux pick (collection_routes ch origins ckey) r cs) \<noteq> Success n (ReportBody y)"
    using collection_without_key by blast
next
  assume "verification_startup (ve_prims ve) cfg names tape = Some (vh, vst, shares) \<and> \<not> DevMode cfg"
  then have key: "VerificationAPIKey cfg \<noteq> ''''" "shares = WithKey (VerificationAPIKey cfg)"
    by (auto simp: verification_startup_def Let_def split: if_splits)
  show "\<exists>vkey. vkey \<noteq> '''' \<and> shares = WithKey vkey \<and> (req_header r ''X-Internal-Key'' \<noteq> vkey \<longrightarrow>
        snd (serve_mux pick (verification_routes ve vo vh shares) r st)
          \<in> {st, snd (HandleCreateSession ve vh (vo_rand vo) (vo_now vo) st), snd (HandleVerify ve (vo_verify vo) (vo_now vo) (req_body r) st)})"
    unfolding key(2)
    by (intro exI [of _ "VerificationAPIKey cfg"] conjI impI key(1) refl verification_without_key)
next
  assume "auth_main load_priv parse_redis ping public_key env = Inr (ah, lh, akey)"
  then show "akey \<noteq> ''''"
    by (auto simp: auth_main_def Let_def auth_startup_def auth_config.truncate_def split: prod.splits)
next
  assume "req_header r ''X-Internal-Key'' \<noteq> akey"
  then show "\<forall>n egn. fst (serve_mux pick (auth_routes ao ah lh akey) r adb) \<noteq> Success n (VoterBody egn)"
    by (intro allI auth_without_key)
qed

definition ex_env :: env where
  "ex_env v = (if v = ''INTERNAL_API_KEY'' then ''secret'' else '''')"

definition ex_post :: "string \<Rightarrow> http_request" where
  "ex_post key = \<lparr>req_method = ''POST'', req_path = ''/internal/v1/ballots'', req_header = (\<lambda>n. if n = ''X-Internal-Key'' then key else ''''),
     req_cookie = (\<lambda>_. None), req_query = (\<lambda>_. ''''), req_body = []\<rparr>"

definition ex_lib :: board_lib where
  "ex_lib = \<lparr>bl_sha = (\<lambda>_. 0), bl_env = \<lparr>jsonb = Some, db_now = 0, fail_max = (\<lambda>_. False), fail_insert = (\<lambda>_. False), insert_applied = (\<lambda>_. False), others_write = (\<lambda>_ db. db)\<rparr>,
     bl_fails = False, bl_decode = (\<lambda>_. Some \<lparr>sbr_BallotID = ''b'', sbr_EncryptedBallot = [], sbr_ZKProofs = []\<rparr>)\<rparr>"

definition ex_start :: "board_start_error + unit board_server" where
  "ex_start = board_main (\<lambda>_. 0) (\<lambda>_ _ _. Some \<lparr>ballots = [], signed_roots = [], board_state = []\<rparr>) False (\<lambda>_. Inr ()) ex_env"

text \<open>With the key a ballot is appended, without it the board stays as it is.\<close>

theorem internal_endpoints_protected_witness:
  "\<exists>srv. ex_start = Inr srv
    \<and> length (ballots (snd (snd (NewRouter plain_mux ex_lib (bs_key srv) (bs_origins srv) (bs_election srv) (ex_post ''secret'') (bs_board srv, bs_db srv))))) = 1
    \<and> snd (NewRouter plain_mux ex_lib (bs_key srv) (bs_origins srv) (bs_election srv) (ex_post '''') (bs_board srv, bs_db srv)) = (bs_board srv, bs_db srv)"
proof -
  have "case ex_start of Inl _ \<Rightarrow> False | Inr srv \<Rightarrow> bs_key srv = ''secret'' \<and>
      length (ballots (snd (snd (NewRouter plain_mux ex_lib (bs_key srv) (bs_origins srv) (bs_election srv) (ex_post ''secret'') (bs_board srv, bs_db srv))))) = 1"
    by code_simp
  then obtain srv where srv: "ex_start = Inr srv" "bs_key srv = ''secret''"
    "length (ballots (snd (snd (NewRouter plain_mux ex_lib (bs_key srv) (bs_origins srv) (bs_election srv) (ex_post ''secret'') (bs_board srv, bs_db srv))))) = 1"
    by (auto split: sum.splits)
  from internal_endpoints_protected [THEN conjunct1, rule_format, OF srv(1) [unfolded ex_start_def], THEN conjunct2, rule_format,
      of "ex_post ''''" plain_mux ex_lib "(bs_board srv, bs_db srv)"] srv
  have "snd (NewRouter plain_mux ex_lib (bs_key srv) (bs_origins srv) (bs_election srv) (ex_post '''') (bs_board srv, bs_db srv)) = (bs_board srv, bs_db srv)"
    by (simp add: ex_post_def)
  with srv show ?thesis by blast
qed

end
