(* ===== verification/Machine_Queue.thy ===== *)
theory Machine_Queue
  imports Config
begin

text \<open>
  The ballot queue of the voting machine (\<open>machine/ballot/ballot.go\<close>).  A record is shared by
  reference with the caller of \<open>Enqueue\<close> and \<open>Pending\<close>; the reference is its index in the queue,
  which never shrinks.  JSON, \<open>filepath.Join\<close> and the disk are parameters.
\<close>

section \<open>The queue\<close>

record queue_record =
  qr_BallotID :: string
  qr_EncryptedBallot :: bytes
  qr_ZKProofs :: bytes
  qr_CreatedAt :: int
  Synced :: bool

record queue =
  queue_records :: "queue_record list"
  dataDir :: string

type_synonym disk = "string \<rightharpoonup> bytes"

text \<open>The outcome of \<open>MkdirAll\<close> is ignored.\<close>

definition NewQueue :: "string \<Rightarrow> queue" where
  "NewQueue dir = \<lparr>queue_records = [], dataDir = dir\<rparr>"

record queue_lib =
  ql_json :: "queue_record \<Rightarrow> bytes option"
  ql_join :: "string \<Rightarrow> string \<Rightarrow> string"

datatype queue_error = BallotIDRequired | NotMarshalled | NotWritten

definition persist :: "queue_lib \<Rightarrow> bool \<Rightarrow> queue \<Rightarrow> queue_record \<Rightarrow> disk \<Rightarrow> (queue_error + unit) \<times> disk" where
  "persist l disk_fails q r disk =
     (case ql_json l r of
        None \<Rightarrow> (Inl NotMarshalled, disk)
      | Some data \<Rightarrow>
          if disk_fails then (Inl NotWritten, disk)
          else (Inr (), disk(ql_join l (dataDir q) (qr_BallotID r @ ''.json'') \<mapsto> data)))"

text \<open>The record is in the queue before it is on disk, and stays there if it cannot be written.\<close>

definition Enqueue ::
  "queue_lib \<Rightarrow> bool \<Rightarrow> int \<Rightarrow> string \<Rightarrow> bytes \<Rightarrow> bytes \<Rightarrow> queue \<times> disk \<Rightarrow> (queue_error + nat) \<times> queue \<times> disk" where
  "Enqueue l disk_fails now ballotID encryptedBallot zkProofs = (\<lambda>(q, disk).
     if ballotID = '''' then (Inl BallotIDRequired, q, disk)
     else
       let r = \<lparr>qr_BallotID = ballotID, qr_EncryptedBallot = encryptedBallot, qr_ZKProofs = zkProofs, qr_CreatedAt = now, Synced = False\<rparr>;
           q' = q\<lparr>queue_records := queue_records q @ [r]\<rparr> in
       case persist l disk_fails q' r disk of
         (Inl e, disk) \<Rightarrow> (Inl e, q', disk)
       | (Inr _, disk) \<Rightarrow> (Inr (length (queue_records q)), q', disk))"

definition Pending :: "queue \<Rightarrow> nat list" where
  "Pending q = filter (\<lambda>i. \<not> Synced (queue_records q ! i)) [0..<length (queue_records q)]"

definition MarkSynced :: "string \<Rightarrow> queue \<Rightarrow> queue" where
  "MarkSynced ballotID q =
     q\<lparr>queue_records := map (\<lambda>r. if qr_BallotID r = ballotID then r\<lparr>Synced := True\<rparr> else r) (queue_records q)\<rparr>"

definition queue_Size :: "queue \<Rightarrow> nat" where
  "queue_Size q = length (queue_records q)"

definition GenerateBallotID :: "bytes option \<Rightarrow> string option" where
  "GenerateBallotID rand = map_option hex_encode rand"

section \<open>What the queue keeps\<close>

datatype queue_op = Enq string bytes bytes int bool | Mark string

fun run_op :: "queue_lib \<Rightarrow> queue_op \<Rightarrow> queue \<times> disk \<Rightarrow> queue \<times> disk" where
  "run_op l (Enq b eb zk now fails) s = snd (Enqueue l fails now b eb zk s)"
| "run_op l (Mark b) (q, disk) = (MarkSynced b q, disk)"

text \<open>The ballots of a run, oldest first, and those not marked since they were enqueued.\<close>

fun unsent :: "queue_op list \<Rightarrow> (string \<times> bytes \<times> bytes) list" where
  "unsent [] = []"
| "unsent (Enq b eb zk now fails # ops) =
     (if b \<noteq> '''' \<and> Mark b \<notin> set ops then [(b, eb, zk)] else []) @ unsent ops"
| "unsent (Mark b # ops) = unsent ops"

definition ballot_of :: "queue_record \<Rightarrow> string \<times> bytes \<times> bytes" where
  "ballot_of r = (qr_BallotID r, qr_EncryptedBallot r, qr_ZKProofs r)"

lemma Pending_records: "map (\<lambda>i. queue_records q ! i) (Pending q) = filter (\<lambda>r. \<not> Synced r) (queue_records q)"
  using filter_map [of "\<lambda>r. \<not> Synced r" "(!) (queue_records q)" "[0..<length (queue_records q)]"]
  by (simp add: Pending_def map_nth comp_def)

lemma run_op_records:
  "queue_records (fst (run_op l op s)) =
     (case op of
        Enq b eb zk now fails \<Rightarrow> queue_records (fst s) @ (if b = '''' then [] else
          [\<lparr>qr_BallotID = b, qr_EncryptedBallot = eb, qr_ZKProofs = zk, qr_CreatedAt = now, Synced = False\<rparr>])
      | Mark b \<Rightarrow> map (\<lambda>r. if qr_BallotID r = b then r\<lparr>Synced := True\<rparr> else r) (queue_records (fst s)))"
  by (cases s; cases op) (auto simp: Enqueue_def MarkSynced_def Let_def split: sum.splits prod.splits)

lemma unsent_snoc:
  "unsent (ops @ [op]) = (case op of
     Enq b eb zk now fails \<Rightarrow> unsent ops @ (if b = '''' then [] else [(b, eb, zk)])
   | Mark b \<Rightarrow> filter (\<lambda>x. fst x \<noteq> b) (unsent ops))"
  by (induction ops rule: unsent.induct) (auto split: queue_op.splits)

text \<open>
  However the disk fails, the pending ballots are those enqueued and not marked since, in order:
  a ballot whose file could not be written is pending too, although \<open>Enqueue\<close> gave an error.
\<close>

theorem pending_is_unsent:
  "map (\<lambda>i. ballot_of (queue_records q ! i)) (Pending q) = unsent ops"
  if "(q, disk) = fold (run_op l) ops (NewQueue dir, Map.empty)"
proof -
  have "map ballot_of (filter (\<lambda>r. \<not> Synced r) (queue_records (fst (fold (run_op l) ops (NewQueue dir, Map.empty))))) = unsent ops"
  proof (induction ops rule: rev_induct)
    case Nil
    then show ?case by (simp add: NewQueue_def)
  next
    case (snoc op ops)
    show ?case
    proof (cases op)
      case (Enq b eb zk now fails)
      with snoc show ?thesis by (simp add: run_op_records unsent_snoc ballot_of_def del: run_op.simps)
    next
      case (Mark b)
      have "map ballot_of (filter (\<lambda>r. \<not> Synced r) (map (\<lambda>r. if qr_BallotID r = b then r\<lparr>Synced := True\<rparr> else r) rs))
          = filter (\<lambda>x. fst x \<noteq> b) (map ballot_of (filter (\<lambda>r. \<not> Synced r) rs))" for rs
        by (induction rs) (auto simp: ballot_of_def)
      with snoc Mark show ?thesis by (simp add: run_op_records unsent_snoc del: run_op.simps)
    qed
  qed
  with that [symmetric] have "map ballot_of (filter (\<lambda>r. \<not> Synced r) (queue_records q)) = unsent ops" by simp
  then show ?thesis by (simp add: Pending_records [symmetric] comp_def)
qed

text \<open>
  The disk does not follow: every file holds a record as it was when it was enqueued, never one
  that is synced, and a new queue starts empty whatever is on the disk, so after a restart the
  files cannot tell which ballots still have to be sent.
\<close>

theorem files_never_synced:
  "disk loc = Some data \<longrightarrow> (\<exists>r. ql_json l r = Some data \<and> \<not> Synced r)"
  if "(q, disk) = fold (run_op l) ops (NewQueue dir, Map.empty)"
proof -
  have "\<forall>loc data. snd (fold (run_op l) ops (NewQueue dir, Map.empty)) loc = Some data \<longrightarrow> (\<exists>r. ql_json l r = Some data \<and> \<not> Synced r)"
  proof (induction ops rule: rev_induct)
    case (snoc op ops)
    obtain q disk where s: "fold (run_op l) ops (NewQueue dir, Map.empty) = (q, disk)" by fastforce
    with snoc show ?case
      by (cases op) (auto simp: Enqueue_def persist_def Let_def split: option.splits)
  qed simp
  with that [symmetric] show ?thesis by simp
qed

section \<open>Start-up\<close>

text \<open>
  \<open>main\<close> of the machine: the settings and a queue that is empty, whatever lies in the data directory;
  what it logs are the settings and the size of the queue.
\<close>

definition machine_main :: "env \<Rightarrow> machine_config \<times> queue \<times> nat" where
  "machine_main env = (let cfg = machine_LoadConfig env; q = NewQueue (DataDir cfg) in (cfg, q, queue_Size q))"

lemma machine_starts_empty: "machine_main env = (cfg, q, n) \<Longrightarrow> n = 0 \<and> Pending q = []"
  by (auto simp: machine_main_def NewQueue_def queue_Size_def Pending_def Let_def)

end
