(* ===== verification/Voting.thy ===== *)
theory Voting
  imports Services Collection_Props Board_Props "HOL-Library.Sublist"
begin

text \<open>
  Voting day: requests to the collection service with the PostgreSQL voter map and the bulletin
  board behind it, one after another.  The board is reached through its router with the request
  that \<open>forwardToBulletinBoard\<close> builds (\<open>collection/handler.go\<close>); round trips to the database may
  fail, also after a commit or an insert took effect, the board may refuse, and its reply may be
  lost.
\<close>

section \<open>One request\<close>

text \<open>The request of \<open>forwardToBulletinBoard\<close>, the board as its answer, and a reply that is lost.\<close>

definition board_post :: "CollectionHandler \<Rightarrow> bytes \<Rightarrow> http_request" where
  "board_post h body = \<lparr>req_method = ''POST'', req_path = ''/internal/v1/ballots'',
     req_header = (\<lambda>n. if n = ''X-Internal-Key'' then internalAPIKey h else if n = ''Content-Type'' then ''application/json'' else ''''),
     req_cookie = (\<lambda>_. None), req_query = (\<lambda>_. ''''), req_body = body\<rparr>"

text \<open>The services that take part: the handler, the store, and the settings of the board's router.\<close>

record voting_day =
  vd_hmac :: mac
  vd_store :: PostgresStore
  vd_codec :: submit_codec
  vd_handler :: CollectionHandler
  vd_pick :: picker
  vd_key :: string
  vd_origins :: "string list"
  vd_election :: string
  vd_encode :: "board_body \<Rightarrow> bytes"

text \<open>
  A request with what happens around it: the clock, the token and session checks, the failures of
  the database, the board's library, and whether the board's reply is lost.
\<close>

record event =
  ev_now :: instant
  ev_request :: http_request
  ev_verify :: "string \<Rightarrow> jwt_error + SessionClaims"
  ev_resolve :: "string \<Rightarrow> session_error + string"
  ev_fails :: "db_step \<Rightarrow> bool"
  ev_applied :: bool
  ev_lib :: board_lib
  ev_lost :: bool

definition board_answer :: "voting_day \<Rightarrow> event \<Rightarrow> Board \<times> board_db \<Rightarrow> bytes \<Rightarrow> reply \<times> Board \<times> board_db" where
  "board_answer vd e s body =
     (case NewRouter (vd_pick vd) (ev_lib e) (vd_key vd) (vd_origins vd) (vd_election vd) (board_post (vd_handler vd) body) s of
        (resp, s') \<Rightarrow>
          (if ev_lost e then NoReply
           else case resp of Failure n code \<Rightarrow> Reply n (bytes_of code) | Success n b \<Rightarrow> Reply n (vd_encode vd b), s'))"

definition ev_voter :: "voting_day \<Rightarrow> event \<Rightarrow> http_request \<Rightarrow> (nat \<times> string) + string" where
  "ev_voter vd e = identify (ev_verify e) (ev_resolve e) (vd_handler vd)"

definition vote_step :: "voting_day \<Rightarrow> event \<Rightarrow> voter_db \<times> Board \<times> board_db \<Rightarrow> submitResponse response \<times> voter_db \<times> Board \<times> board_db" where
  "vote_step vd e = HandleSubmit (vd_hmac vd) (pg_Record (vd_hmac vd) (vd_store vd) (ev_fails e) (ev_applied e)) (board_answer vd e)
     (vd_codec vd) (ev_voter vd e) (vd_handler vd) (ev_now e) (ev_request e)"

primrec voting_run :: "voting_day \<Rightarrow> event list \<Rightarrow> voter_db \<times> Board \<times> board_db \<Rightarrow> submitResponse response list \<times> voter_db \<times> Board \<times> board_db" where
  "voting_run vd [] s = ([], s)"
| "voting_run vd (e # es) s =
     (case vote_step vd e s of (resp, s1) \<Rightarrow> (case voting_run vd es s1 of (resps, s2) \<Rightarrow> (resp # resps, s2)))"

text \<open>What a request submits: the voter, the ballot and the time, when it gets as far as the store.\<close>

definition ev_ballot :: "voting_day \<Rightarrow> event \<Rightarrow> submitRequest option" where
  "ev_ballot vd e = decode_submit (vd_codec vd) (take (2 ^ 20) (req_body (ev_request e)))"

definition ev_submission :: "voting_day \<Rightarrow> event \<Rightarrow> submission option" where
  "ev_submission vd e =
     (case ev_voter vd e (ev_request e) of
        Inl _ \<Rightarrow> None
      | Inr egn \<Rightarrow> map_option (\<lambda>req. (HashEGN (vd_hmac vd) egn (egnHMACKey (vd_handler vd)), sub_BallotID req, ChannelOnline, ev_now e)) (ev_ballot vd e))"

definition submitted :: "voting_day \<Rightarrow> event list \<Rightarrow> submission list" where
  "submitted vd es = List.map_filter (ev_submission vd) es"

definition created :: "'a response \<Rightarrow> bool" where
  "created resp \<longleftrightarrow> status_of resp = StatusCreated"

text \<open>The submissions whose voters got a receipt.\<close>

definition receipted :: "voting_day \<Rightarrow> event list \<Rightarrow> submitResponse response list \<Rightarrow> submission list" where
  "receipted vd es resps = List.map_filter (\<lambda>(e, resp). if created resp then ev_submission vd e else None) (zip es resps)"

definition ballot_of :: "submission \<Rightarrow> string" where
  "ballot_of x = fst (snd x)"

text \<open>
  The board hashes with \<open>sha\<close>, no other process writes to its table, its mux does not itself answer
  201, and the ID in the posted JSON reads back.
\<close>

definition event_ok :: "sha \<Rightarrow> voting_day \<Rightarrow> event \<Rightarrow> bool" where
  "event_ok sha vd e \<longleftrightarrow> bl_sha (ev_lib e) = sha \<and> alone (bl_env (ev_lib e)) \<and> (\<forall>ps r. vd_pick vd ps r \<noteq> Inl StatusCreated)
     \<and> (\<forall>req sbr. ev_ballot vd e = Some req \<longrightarrow> bl_decode (ev_lib e) (encode_board (vd_codec vd) req) = Some sbr \<longrightarrow> sbr_BallotID sbr = sub_BallotID req)"

text \<open>A row that the board made from the ballot of a request.\<close>

definition row_of :: "voting_day \<Rightarrow> event \<Rightarrow> BallotRecord \<Rightarrow> bool" where
  "row_of vd e row \<longleftrightarrow> (\<exists>req sbr. ev_ballot vd e = Some req \<and> bl_decode (ev_lib e) (encode_board (vd_codec vd) req) = Some sbr
     \<and> BallotRecord.BallotID row = sub_BallotID req \<and> jsonb (bl_env (ev_lib e)) (sbr_EncryptedBallot sbr) = Some (BallotRecord.EncryptedBallot row)
     \<and> jsonb (bl_env (ev_lib e)) (sbr_ZKProofs sbr) = Some (BallotRecord.ZKProofs row))"

lemma created_simps [simp]: "created (Failure n c) \<longleftrightarrow> n = 201" "created (Success n x) \<longleftrightarrow> n = 201"
  by (simp_all add: created_def StatusCreated_def)

lemma created_wrap [simp]: "created (fst (wrap f p)) = created (fst p)"
  by (cases "fst p") (simp_all add: wrap_def)

lemma created_map [simp]: "created (map_response f resp) = created resp"
  by (cases resp) simp_all

lemma serve_mux_picked:
  assumes "\<And>pattern h v. (pattern, h) \<in> set routes \<Longrightarrow> P (h v r st)"
    and "\<And>status. pick (map fst routes) r = Inl status \<Longrightarrow> P (Failure status '''', st)" "P (Failure 404 '''', st)"
  shows "P (serve_mux pick routes r st)"
  using assms by (auto simp: serve_mux_def dest: map_of_SomeD split: sum.splits prod.splits option.splits)

lemma NewRouter_cases:
  assumes "NewRouter pick l key origins eid r s = (resp, s')" and pick: "\<And>ps r. pick ps r \<noteq> Inl 201"
  shows "(s' = s \<and> \<not> created resp) \<or> (resp, s') = wrap AppendBody (handleSubmitBallot (bl_sha l) (bl_env l) (bl_decode l) r s)"
proof -
  let ?P = "\<lambda>p. (snd p = s \<and> \<not> created (fst p)) \<or> p = wrap AppendBody (handleSubmitBallot (bl_sha l) (bl_env l) (bl_decode l) r s)"
  have page: "\<not> created (handleListBallots db_fails r s)" "\<not> created (handleGetRoot sha b1 b2 b3)" "\<not> created (handleGetBallot sha db_fails f r s)"
    for db_fails sha b1 b2 b3 f
    by (auto simp: handleListBallots_def handleGetRoot_def handleGetBallot_def Let_def StatusOK_def split: sum.splits option.splits prod.splits if_splits)
  have "snd (serve_mux pick (public_routes l eid) r s) = s \<and> \<not> created (fst (serve_mux pick (public_routes l eid) r s))"
    by (rule serve_mux_picked [where P = "\<lambda>p. snd p = s \<and> \<not> created (fst p)"])
      (use pick in \<open>auto simp: public_routes_def handleGetElection_def page StatusOK_def\<close>)
  then have public: "?P (cors_public pick l origins eid v r s)" for v
    by (cases "serve_mux pick (public_routes l eid) r s") (auto simp: cors_public_def withCORS_def Let_def)
  have internal: "?P (serve_mux pick (internal_routes l key) r s)"
    by (rule serve_mux_picked [where P = ?P]) (use pick in \<open>auto simp: internal_routes_def requireAPIKey_def Let_def\<close>)
  have "?P (NewRouter pick l key origins eid r s)"
    unfolding NewRouter_def by (rule serve_mux_picked [where P = ?P]) (use public internal pick in auto)
  with assms show ?thesis by simp
qed

lemma handleSubmitBallot_cases:
  assumes "alone env" "board_inv sha lv (b, db)" "handleSubmitBallot sha env decode r (b, db) = (resp, b', db')"
  shows "(b' = b \<and> db' = db \<and> \<not> created resp) \<or>
    (\<exists>sbr. decode (req_body r) = Some sbr \<and> jsonb env (sbr_EncryptedBallot sbr) \<noteq> None \<and> jsonb env (sbr_ZKProofs sbr) \<noteq> None
      \<and> ballots db' = ballots db @ [new_record env (sbr_BallotID sbr) (sbr_EncryptedBallot sbr) (sbr_ZKProofs sbr) (length (ballots db))]
      \<and> (\<exists>lv'. board_inv sha lv' (b', db')))"
proof (cases "decode (req_body r)")
  case (Some sbr)
  show ?thesis
  proof (cases "AppendBallot sha env (sbr_BallotID sbr) (sbr_EncryptedBallot sbr) (sbr_ZKProofs sbr) (b, db)")
    case (fields res b1 db1)
    have fin: "(b' = b \<and> db' = db \<and> \<not> created resp) \<or> (b' = b1 \<and> db' = db1)" "\<And>e. res = Inl e \<Longrightarrow> \<not> created resp"
      using Some fields assms(3) by (auto simp: handleSubmitBallot_def split: if_splits sum.splits)
    show ?thesis
      by (cases rule: AppendBallot_cases [OF assms(1,2) fields, case_names same lost added])
        (use fin Some in \<open>auto simp: insertable_def storable_def\<close>)
  qed
qed (use assms(3) in \<open>auto simp: handleSubmitBallot_def\<close>)

lemma pg_Record_state:
  assumes "pg_Record hmac s fails applied db e b c t = (r, db')"
  shows "db' = db \<or> (\<exists>p. pg_put hmac s db e b c t = Inr (p, db'))"
  using assms by (auto simp: pg_put_def pg_Record_def Let_def split: if_splits prod.splits)

text \<open>What one request does to the voter map and the board, whatever fails.\<close>

lemma board_answer_cases:
  assumes "event_ok sha vd e" "board_inv sha lv (b, db)" "ev_ballot vd e = Some req"
    and "board_answer vd e (b, db) (encode_board (vd_codec vd) req) = (rep, b', db')"
  shows "(b' = b \<and> db' = db \<and> (\<forall>body. rep \<noteq> Reply StatusCreated body)) \<or>
    (\<exists>row lv'. ballots db' = ballots db @ [row] \<and> row_of vd e row \<and> BallotRecord.BallotID row = sub_BallotID req \<and> board_inv sha lv' (b', db'))"
proof -
  let ?r = "board_post (vd_handler vd) (encode_board (vd_codec vd) req)"
  obtain resp where route: "NewRouter (vd_pick vd) (ev_lib e) (vd_key vd) (vd_origins vd) (vd_election vd) ?r (b, db) = (resp, b', db')"
    and rep: "\<not> created resp \<Longrightarrow> \<forall>body. rep \<noteq> Reply StatusCreated body"
    using assms(4) by (auto simp: board_answer_def StatusCreated_def split: prod.splits if_splits response.splits)
  have pick: "vd_pick vd ps r \<noteq> Inl 201" for ps r using assms(1) by (simp add: event_ok_def StatusCreated_def)
  from NewRouter_cases [OF route pick] consider
      "b' = b" "db' = db" "\<not> created resp"
    | r where "handleSubmitBallot sha (bl_env (ev_lib e)) (bl_decode (ev_lib e)) ?r (b, db) = (r, b', db')" "created r = created resp"
    using assms(1)
    by (cases "handleSubmitBallot sha (bl_env (ev_lib e)) (bl_decode (ev_lib e)) ?r (b, db)") (auto simp: event_ok_def wrap_def)
  then show ?thesis
  proof cases
    case 2
    have env: "alone (bl_env (ev_lib e))" using assms(1) by (simp add: event_ok_def)
    from handleSubmitBallot_cases [OF env assms(2) 2(1)] show ?thesis
    proof (elim disjE exE conjE)
      fix sbr lv'
      assume sbr: "bl_decode (ev_lib e) (req_body ?r) = Some sbr" "jsonb (bl_env (ev_lib e)) (sbr_EncryptedBallot sbr) \<noteq> None"
          "jsonb (bl_env (ev_lib e)) (sbr_ZKProofs sbr) \<noteq> None"
        and rows: "ballots db' = ballots db @ [new_record (bl_env (ev_lib e)) (sbr_BallotID sbr) (sbr_EncryptedBallot sbr) (sbr_ZKProofs sbr) (length (ballots db))]"
        and lv': "board_inv sha lv' (b', db')"
      have "bl_decode (ev_lib e) (encode_board (vd_codec vd) req) = Some sbr" using sbr(1) by (simp add: board_post_def)
      moreover from this have "sbr_BallotID sbr = sub_BallotID req" using assms(1,3) by (auto simp: event_ok_def)
      ultimately have "row_of vd e (new_record (bl_env (ev_lib e)) (sbr_BallotID sbr) (sbr_EncryptedBallot sbr) (sbr_ZKProofs sbr) (length (ballots db)))"
        using sbr(2,3) assms(3) by (auto simp: row_of_def new_record_def)
      with rows lv' \<open>sbr_BallotID sbr = sub_BallotID req\<close> show ?thesis by (auto simp: new_record_def)
    qed (use rep 2(2) in blast)
  qed (use rep in blast)
qed

text \<open>What one request does to the voter map and the board, whatever fails.\<close>

definition put :: "voting_day \<Rightarrow> submission \<Rightarrow> voter_db \<Rightarrow> store_error + voter_db" where
  "put vd x st = record_all (pg_put (vd_hmac vd) (vd_store vd)) [x] st"

lemma put_iff: "put vd (v, i, c, t) st = Inr st' \<longleftrightarrow> (\<exists>p. pg_put (vd_hmac vd) (vd_store vd) st v i c t = Inr (p, st'))"
  by (auto simp: put_def record_all_def)

lemma vote_step_cases:
  assumes ok: "event_ok sha vd e" and board: "board_inv sha lv (b, db)" and step: "vote_step vd e (st, b, db) = (resp, st', b', db')"
  shows "(created resp \<or> st' \<noteq> st \<longrightarrow> (\<exists>x. ev_submission vd e = Some x \<and> put vd x st = Inr st')) \<and>
    ((b' = b \<and> db' = db \<and> \<not> created resp) \<or>
      (\<exists>row x lv'. ballots db' = ballots db @ [row] \<and> row_of vd e row \<and> ev_submission vd e = Some x \<and> put vd x st = Inr st'
        \<and> BallotRecord.BallotID row = ballot_of x \<and> board_inv sha lv' (b', db')))"
proof (cases "\<exists>egn req. ev_voter vd e (ev_request e) = Inr egn \<and> ev_ballot vd e = Some req \<and> sub_BallotID req \<noteq> ''''")
  case False
  then consider (who) n c where "ev_voter vd e (ev_request e) = Inl (n, c)" | (body) egn where "ev_voter vd e (ev_request e) = Inr egn" "ev_ballot vd e = None"
    | (empty) egn req where "ev_voter vd e (ev_request e) = Inr egn" "ev_ballot vd e = Some req" "sub_BallotID req = ''''"
    by (cases "ev_voter vd e (ev_request e)"; cases "ev_ballot vd e") auto
  then have "\<not> created resp \<and> st' = st \<and> b' = b \<and> db' = db"
  proof cases
    case who
    then have "n \<noteq> 201"
      by (auto simp: ev_voter_def identify_def Let_def split: if_splits sum.splits)
    with step who show ?thesis by (auto simp: vote_step_def HandleSubmit_def)
  qed (use step in \<open>auto simp: vote_step_def HandleSubmit_def ev_ballot_def Let_def\<close>)
  then show ?thesis by blast
next
  case True
  then obtain egn req where who: "ev_voter vd e (ev_request e) = Inr egn" and req: "ev_ballot vd e = Some req" "sub_BallotID req \<noteq> ''''" by blast
  let ?v = "HashEGN (vd_hmac vd) egn (egnHMACKey (vd_handler vd))"
  let ?x = "(?v, sub_BallotID req, ChannelOnline, ev_now e)"
  have x: "ev_submission vd e = Some ?x" by (simp add: ev_submission_def who req)
  obtain r1 st1 where rc: "pg_Record (vd_hmac vd) (vd_store vd) (ev_fails e) (ev_applied e) st ?v (sub_BallotID req) ChannelOnline (ev_now e) = (r1, st1)"
    by fastforce
  have st1: "st1 = st \<or> put vd ?x st = Inr st1"
    using pg_Record_state [OF rc] by (auto simp: put_iff)
  show ?thesis
  proof (cases r1)
    case (Inl err)
    then have "resp = Failure 500 ''store_error'' \<and> st' = st1 \<and> b' = b \<and> db' = db"
      using step who req rc by (auto simp: vote_step_def HandleSubmit_def ev_ballot_def)
    with st1 x show ?thesis by auto
  next
    case (Inr p)
    then have st': "put vd ?x st = Inr st1" using pg_Record_put rc by (auto simp: put_iff)
    obtain rep b1 db1 where ans: "board_answer vd e (b, db) (encode_board (vd_codec vd) req) = (rep, b1, db1)"
      by (metis prod.exhaust)
    have fin: "st' = st1 \<and> b' = b1 \<and> db' = db1 \<and> (created resp \<longrightarrow> (\<exists>body. rep = Reply StatusCreated body))"
      using step who req rc Inr ans
      by (auto simp: vote_step_def HandleSubmit_def ev_ballot_def forwardToBulletinBoard_def split: reply.splits if_splits option.splits)
    from board_answer_cases [OF ok board req(1) ans] show ?thesis
    proof (elim disjE exE conjE)
      fix row lv'
      assume "ballots db1 = ballots db @ [row]" "row_of vd e row" "BallotRecord.BallotID row = sub_BallotID req" "board_inv sha lv' (b1, db1)"
      with fin x st' show ?thesis by (intro conjI disjI2 impI exI [of _ ?x] exI [of _ row] exI [of _ lv']) (auto simp: ballot_of_def)
    qed (use fin x st' in auto)
  qed
qed

section \<open>A voting day\<close>

lemma submitted_simps [simp]:
  "submitted vd [] = []"
  "submitted vd (e # es) = (case ev_submission vd e of None \<Rightarrow> submitted vd es | Some x \<Rightarrow> x # submitted vd es)"
  by (simp_all add: submitted_def map_filter_simps split: option.split)

lemma receipted_simps [simp]:
  "receipted vd [] [] = []"
  "receipted vd (e # es) (resp # resps) =
     (case ev_submission vd e of Some x \<Rightarrow> if created resp then x # receipted vd es resps else receipted vd es resps
      | None \<Rightarrow> receipted vd es resps)"
  by (auto simp: receipted_def map_filter_simps split: option.split)

lemma record_all_put:
  "put vd x st = Inr st1 \<Longrightarrow> record_all (pg_put (vd_hmac vd) (vd_store vd)) xs st1 = r \<Longrightarrow>
    record_all (pg_put (vd_hmac vd) (vd_store vd)) (x # xs) st = r"
  by (cases x) (auto simp: put_def record_all_def)

text \<open>
  A day as an alternation of lists: the ballots with a receipt are on the board, what the board
  accepted is in the voter map, and what is in the voter map was submitted, in this order.
\<close>

definition day_result :: "sha \<Rightarrow> voting_day \<Rightarrow> event list \<Rightarrow> submitResponse response list \<Rightarrow> voter_db \<Rightarrow> voter_db \<Rightarrow> board_db \<Rightarrow> Board \<times> board_db
    \<Rightarrow> submission list \<Rightarrow> BallotRecord list \<Rightarrow> bool" where
  "day_result sha vd es resps st st' db s' subs rs \<longleftrightarrow>
     record_all (pg_put (vd_hmac vd) (vd_store vd)) subs st = Inr st' \<and> ballots (snd s') = ballots db @ rs
     \<and> subseq (receipted vd es resps) subs \<and> subseq subs (submitted vd es)
     \<and> subseq (map ballot_of (receipted vd es resps)) (map BallotRecord.BallotID rs)
     \<and> subseq (map BallotRecord.BallotID rs) (map ballot_of subs)
     \<and> (\<forall>row \<in> set rs. \<exists>e \<in> set es. row_of vd e row) \<and> (\<exists>lv. board_inv sha lv s')"

lemma voting_run_result:
  assumes "\<forall>e \<in> set es. event_ok sha vd e" "board_inv sha lv (b, db)" "voting_run vd es (st, b, db) = (resps, st', s')"
  shows "\<exists>subs rs. day_result sha vd es resps st st' db s' subs rs"
  using assms
proof (induction es arbitrary: st b db lv resps)
  case Nil
  then have "day_result sha vd [] resps st st' db s' [] []" by (auto simp: day_result_def record_all_def)
  then show ?case by blast
next
  case (Cons e es)
  obtain resp st1 b1 db1 where step: "vote_step vd e (st, b, db) = (resp, st1, b1, db1)" by (metis prod.exhaust)
  with Cons.prems(3) obtain resps' where run: "voting_run vd es (st1, b1, db1) = (resps', st', s')" and resps: "resps = resp # resps'"
    by (auto split: prod.splits)
  have ok: "event_ok sha vd e" "\<forall>e \<in> set es. event_ok sha vd e" using Cons.prems(1) by auto
  from vote_step_cases [OF ok(1) Cons.prems(2) step] consider
      (ballot) row x lv' where "ballots db1 = ballots db @ [row]" "row_of vd e row" "ev_submission vd e = Some x" "put vd x st = Inr st1"
        "BallotRecord.BallotID row = ballot_of x" "board_inv sha lv' (b1, db1)"
    | (kept) x where "b1 = b" "db1 = db" "\<not> created resp" "ev_submission vd e = Some x" "put vd x st = Inr st1"
    | (unchanged) "b1 = b" "db1 = db" "\<not> created resp" "st1 = st" by blast
  then show ?case
  proof cases
    case ballot
    from Cons.IH [OF ok(2) ballot(6) run] obtain subs rs where day_result: "day_result sha vd es resps' st1 st' db1 s' subs rs" by blast
    with ballot resps have "day_result sha vd (e # es) resps st st' db s' (x # subs) (row # rs)"
      unfolding day_result_def by (auto intro: record_all_put)
    then show ?thesis by blast
  next
    case kept
    from Cons.IH [OF ok(2) _ run] Cons.prems(2) kept(1,2) obtain subs rs where "day_result sha vd es resps' st1 st' db s' subs rs" by blast
    with kept resps have "day_result sha vd (e # es) resps st st' db s' (x # subs) rs"
      unfolding day_result_def by (auto intro: record_all_put)
    then show ?thesis by blast
  next
    case unchanged
    from Cons.IH [OF ok(2) _ run] Cons.prems(2) unchanged(1,2) obtain subs rs where "day_result sha vd es resps' st1 st' db s' subs rs" by blast
    with unchanged resps have "day_result sha vd (e # es) resps st st' db s' subs rs"
      unfolding day_result_def by (cases "ev_submission vd e") auto
    then show ?thesis by blast
  qed
qed

lemma voting_run_length: "voting_run vd es s = (resps, s') \<Longrightarrow> length resps = length es"
  by (induction es arbitrary: s resps) (auto split: prod.splits)

lemma receipted_all:
  assumes "\<forall>resp \<in> set resps. created resp" "length resps = length es"
  shows "receipted vd es resps = submitted vd es"
  using assms(2,1) by (induction resps es rule: list_induct2) (auto split: option.split)

lemma Board_New_for:
  assumes "db_inv db" "Board_New sha db_fails db = Inr b"
  shows "board_inv sha (board_leaves db) (b, db)"
  using Board_New_ok(1) [OF assms] by (simp add: board_ok_def)

text \<open>When every voter got a receipt, the lists of the day are all the same.\<close>

lemma day_result_all:
  assumes "day_result sha vd es resps st st' db s' subs rs" "\<forall>resp \<in> set resps. created resp" "length resps = length es"
  shows "subs = submitted vd es \<and> map BallotRecord.BallotID rs = map ballot_of (submitted vd es)"
proof -
  have "receipted vd es resps = submitted vd es" by (rule receipted_all [OF assms(2,3)])
  with assms(1) show ?thesis
    unfolding day_result_def by (metis subseq_order.order_antisym)
qed

section \<open>Properties\<close>

text \<open>
  C23.  What a receipt is worth.  Run any requests against the collection service with the
  PostgreSQL voter map and the board behind it, with lost round trips (their commit or insert
  applied or not), lost replies and refusals of the board.  Then the voter map is what recording some of the submitted ballots, in order,
  gives; the board has only grown by ballots of these, one row with its own ID each, made from the
  ballot of a request; and every ballot whose voter got a 201 is among both.  If all got one, the
  board's new rows are the submitted ballots in order, and every ballot of the active set is on
  the board.
\<close>

theorem receipts_are_kept:
  assumes "\<forall>e \<in> set es. event_ok sha vd e" "db_inv db0" "Board_New sha db_fails db0 = Inr b0"
    and "voting_run vd es (empty_db, b0, db0) = (resps, st, b, db)"
  shows "\<exists>subs rs. record_all (pg_put (vd_hmac vd) (vd_store vd)) subs empty_db = Inr st \<and> ballots db = ballots db0 @ rs
    \<and> distinct (map BallotRecord.BallotID (ballots db)) \<and> (\<forall>row \<in> set rs. \<exists>e \<in> set es. row_of vd e row)
    \<and> subseq (receipted vd es resps) subs \<and> subseq subs (submitted vd es)
    \<and> subseq (map ballot_of (receipted vd es resps)) (map BallotRecord.BallotID rs)
    \<and> subseq (map BallotRecord.BallotID rs) (map ballot_of subs)
    \<and> ((\<forall>resp \<in> set resps. created resp) \<longrightarrow> map BallotRecord.BallotID rs = map ballot_of (submitted vd es)
        \<and> set (pg_ActiveSet scan (vd_store vd) st) \<subseteq> BallotRecord.BallotID ` set (ballots db))"
proof -
  from voting_run_result [OF assms(1) Board_New_for [OF assms(2,3)] assms(4)] obtain subs rs where
    d: "day_result sha vd es resps empty_db st db0 (b, db) subs rs" by blast
  have active: "set (pg_ActiveSet scan (vd_store vd) st) \<subseteq> ballot_of ` set subs"
  proof -
    have "record_all (pg_put (vd_hmac vd) (vd_store vd)) subs empty_db = Inr st" using d by (simp add: day_result_def)
    from arg_cong [OF pg.record_all_reports(4) [OF pg_inv_empty this], of set_mset]
    have "set (pg_ActiveSet scan (vd_store vd) st) = (the \<circ> last_ballot subs) ` fst ` set subs" by simp
    moreover have "the (last_ballot subs v) \<in> ballot_of ` set subs" if "v \<in> fst ` set subs" for v
    proof -
      have ne: "submissions_of subs v \<noteq> []" using that by (auto simp: submissions_of_def filter_empty_conv)
      then have "last (submissions_of subs v) \<in> set (submissions_of subs v)" by simp
      with ne show ?thesis by (auto simp: last_ballot_def Let_def submissions_of_def ballot_of_def intro: rev_image_eqI)
    qed
    ultimately show ?thesis by auto
  qed
  have all: "map BallotRecord.BallotID rs = map ballot_of (submitted vd es)
      \<and> set (pg_ActiveSet scan (vd_store vd) st) \<subseteq> BallotRecord.BallotID ` set (ballots db)" if "\<forall>resp \<in> set resps. created resp"
  proof -
    from day_result_all [OF d that voting_run_length [OF assms(4)]]
    have s: "subs = submitted vd es" "map BallotRecord.BallotID rs = map ballot_of subs" by auto
    have "ballot_of ` set subs = BallotRecord.BallotID ` set rs" using arg_cong [OF s(2), of set] by simp
    also have "\<dots> \<subseteq> BallotRecord.BallotID ` set (ballots db)" using d by (intro image_mono) (simp add: day_result_def)
    finally show ?thesis using active s by auto
  qed
  obtain lv where "board_inv sha lv (b, db)" using d by (auto simp: day_result_def)
  then have "distinct (map BallotRecord.BallotID (ballots db))" by (simp add: board_inv_def db_inv_def)
  with d all show ?thesis unfolding day_result_def by (intro exI [of _ subs] exI [of _ rs]) (simp only: snd_conv, blast)
qed

text \<open>A day on which the body of a request is the ID of its ballot.\<close>

definition ex_day :: voting_day where
  "ex_day = \<lparr>vd_hmac = (\<lambda>_ _. 0), vd_store = test_ps,
     vd_codec = \<lparr>decode_submit = (\<lambda>b. Some \<lparr>sub_BallotID = string_of b, EncryptedBallot = b, ZKProofs = []\<rparr>),
       encode_board = (\<lambda>req. bytes_of (sub_BallotID req)), decode_board = (\<lambda>_. Some \<lparr>bb_Position = 0, bb_MerkleRoot = ''''\<rparr>)\<rparr>,
     vd_handler = test_handler\<lparr>internalAPIKey := ''k''\<rparr>, vd_pick = plain_mux, vd_key = ''k'', vd_origins = [], vd_election = ''e'', vd_encode = (\<lambda>_. [])\<rparr>"

definition ex_lib_of :: board_lib where
  "ex_lib_of = \<lparr>bl_sha = (\<lambda>_. 0), bl_env = calm, bl_fails = False, bl_decode = (\<lambda>b. Some \<lparr>sbr_BallotID = string_of b, sbr_EncryptedBallot = [1], sbr_ZKProofs = [2]\<rparr>)\<rparr>"

definition ex_event :: "string \<Rightarrow> instant \<Rightarrow> event" where
  "ex_event egn now = \<lparr>ev_now = now, ev_request = test_request\<lparr>req_header := (\<lambda>n. if n = ''X-Voter-EGN'' then egn else ''''), req_body := bytes_of ''x''\<rparr>,
     ev_verify = (\<lambda>_. Inl InvalidToken), ev_resolve = (\<lambda>_. Inl AuthUnavailable), ev_fails = (\<lambda>_. False), ev_applied = False,
     ev_lib = ex_lib_of, ev_lost = False\<rparr>"

lemma ex_sel [simp]: "vd_hmac ex_day = (\<lambda>_ _. 0)" "vd_store ex_day = test_ps" "egnHMACKey (vd_handler ex_day) = []" "vd_pick ex_day = plain_mux"
  "ev_fails (ex_event egn now) = (\<lambda>_. False)" "\<not> ev_applied (ex_event egn now)" "ev_lib (ex_event egn now) = ex_lib_of" "ev_now (ex_event egn now) = now"
  "bl_sha ex_lib_of = (\<lambda>_. 0)" "bl_env ex_lib_of = calm" "vd_key ex_day = ''k''" "vd_origins ex_day = []" "vd_election ex_day = ''e''"
  "vd_encode ex_day = (\<lambda>_. [])" "\<not> ev_lost (ex_event egn now)"
  by (simp_all add: ex_day_def ex_event_def ex_lib_of_def test_handler_def)

lemma ex_codec [simp]: "encode_board (vd_codec ex_day) = (\<lambda>req. bytes_of (sub_BallotID req))"
  "decode_board (vd_codec ex_day) = (\<lambda>_. Some \<lparr>bb_Position = 0, bb_MerkleRoot = ''''\<rparr>)"
  by (simp_all add: ex_day_def)

lemma plain_mux_status: "plain_mux ps r \<noteq> Inl StatusCreated"
  by (auto simp: plain_mux_def Let_def StatusCreated_def split: list.split)

lemma ex_ballot [simp]: "ev_ballot ex_day (ex_event egn now) = Some \<lparr>sub_BallotID = ''x'', EncryptedBallot = bytes_of ''x'', ZKProofs = []\<rparr>"
  by (simp add: ev_ballot_def ex_day_def ex_event_def bytes_of_def [of "''x''"]) (simp add: bytes_of_def [symmetric, of "''x''", simplified])

lemma ex_event_ok: "event_ok (\<lambda>_. 0) ex_day (ex_event egn now)"
  by (simp add: event_ok_def plain_mux_status) (simp add: ex_day_def ex_lib_of_def)

lemma ex_voter: "isValidEGN egn \<Longrightarrow> ev_voter ex_day (ex_event egn now) (ev_request (ex_event egn now)) = Inr egn"
  by (auto simp: ev_voter_def identify_def ex_day_def test_handler_def ex_event_def isValidEGN_def split: if_splits)

lemma ex_no_voter: "\<not> isValidEGN egn \<Longrightarrow> ev_voter ex_day (ex_event egn now) (ev_request (ex_event egn now)) = Inl (400, ''invalid_egn'')"
  by (simp add: ev_voter_def identify_def ex_day_def test_handler_def ex_event_def)

lemma ex_route: "NewRouter plain_mux l ''k'' [] ''e'' (board_post (vd_handler ex_day) body) s
    = wrap AppendBody (handleSubmitBallot (bl_sha l) (bl_env l) (bl_decode l) (board_post (vd_handler ex_day) body) s)"
proof -
  have "plain_mux [''/api/'', ''/health'', ''/internal/''] (board_post (vd_handler ex_day) body) = Inr (''/internal/'', '''')"
    "plain_mux [''POST /internal/v1/ballots''] (board_post (vd_handler ex_day) body) = Inr (''POST /internal/v1/ballots'', '''')"
    by (simp_all add: plain_mux_def board_post_def pattern_parts_def is_wild_def Let_def)
  then show ?thesis
    by (simp add: NewRouter_def internal_routes_def serve_mux_def requireAPIKey_def) (simp add: board_post_def ex_day_def)
qed

lemma ex_answer:
  "board_answer ex_day (ex_event egn now) (board_of empty_board_db, empty_board_db) (bytes_of ''x'') = (Reply 201 [], board_of one_db, one_db)"
  "board_answer ex_day (ex_event egn now) (board_of one_db, one_db) (bytes_of ''x'') = (Reply 409 (bytes_of ''duplicate_ballot''), board_of one_db, one_db)"
proof -
  have "AppendBallot (\<lambda>_. 0) calm ''x'' [1] [2] (board_of one_db, one_db) = (Inl ErrDuplicateBallot, board_of one_db, one_db)"
    using AppendBallot_alone [OF calm_simps(1) example_inv(2), of "''x''" "[1]" "[2]"]
    by (simp add: storable_def text_ok_x) (simp add: board_of_def one_db_def one_ballot_def)
  then have "handleSubmitBallot (\<lambda>_. 0) calm (bl_decode ex_lib_of) (board_post (vd_handler ex_day) (bytes_of ''x'')) (board_of empty_board_db, empty_board_db)
      = (Success 201 \<lparr>res_Position = 1, res_MerkleRoot = hex_hash 0\<rparr>, board_of one_db, one_db)"
    "handleSubmitBallot (\<lambda>_. 0) calm (bl_decode ex_lib_of) (board_post (vd_handler ex_day) (bytes_of ''x'')) (board_of one_db, one_db)
      = (Failure 409 ''duplicate_ballot'', board_of one_db, one_db)"
    using example_append by (simp_all add: handleSubmitBallot_def board_post_def ex_lib_of_def StatusCreated_def)
  then show "board_answer ex_day (ex_event egn now) (board_of empty_board_db, empty_board_db) (bytes_of ''x'') = (Reply 201 [], board_of one_db, one_db)"
    "board_answer ex_day (ex_event egn now) (board_of one_db, one_db) (bytes_of ''x'') = (Reply 409 (bytes_of ''duplicate_ballot''), board_of one_db, one_db)"
    by (simp_all add: board_answer_def ex_route)
qed

lemma ex_steps:
  "\<not> isValidEGN egn \<Longrightarrow> vote_step ex_day (ex_event egn now) s = (Failure 400 ''invalid_egn'', s)"
  "isValidEGN egn \<Longrightarrow> pg_put (\<lambda>_ _. 0) test_ps empty_db (HashEGN (\<lambda>_ _. 0) egn []) ''x'' ChannelOnline now = Inr (p, st) \<Longrightarrow>
    \<exists>resp. vote_step ex_day (ex_event egn now) (empty_db, board_of empty_board_db, empty_board_db) = (Success 201 resp, st, board_of one_db, one_db)"
  "isValidEGN egn \<Longrightarrow> pg_put (\<lambda>_ _. 0) test_ps st (HashEGN (\<lambda>_ _. 0) egn []) ''x'' ChannelOnline now = Inr (p, st') \<Longrightarrow>
    vote_step ex_day (ex_event egn now) (st, board_of one_db, one_db) = (Failure 502 ''board_error'', st', board_of one_db, one_db)"
proof -
  show "\<not> isValidEGN egn \<Longrightarrow> vote_step ex_day (ex_event egn now) s = (Failure 400 ''invalid_egn'', s)"
    by (cases s) (simp add: vote_step_def HandleSubmit_def ex_no_voter)
  have "pg_Record (\<lambda>_ _. 0) test_ps (\<lambda>_. False) False db e b c t = (Inr q, db')" if "pg_put (\<lambda>_ _. 0) test_ps db e b c t = Inr (q, db')" for db e b c t q db'
    using that by (auto simp: pg_put_def split: sum.splits prod.splits)
  note calm_record = this
  have decode: "decode_submit (vd_codec ex_day) (take 1048576 (req_body (ev_request (ex_event egn now)))) = Some \<lparr>sub_BallotID = ''x'', EncryptedBallot = bytes_of ''x'', ZKProofs = []\<rparr>"
    using ex_ballot by (simp add: ev_ballot_def)
  show "isValidEGN egn \<Longrightarrow> pg_put (\<lambda>_ _. 0) test_ps empty_db (HashEGN (\<lambda>_ _. 0) egn []) ''x'' ChannelOnline now = Inr (p, st) \<Longrightarrow>
      \<exists>resp. vote_step ex_day (ex_event egn now) (empty_db, board_of empty_board_db, empty_board_db) = (Success 201 resp, st, board_of one_db, one_db)"
    using ex_answer(1) by (simp add: vote_step_def HandleSubmit_def ex_voter decode calm_record forwardToBulletinBoard_def ex_codec StatusCreated_def)
  show "isValidEGN egn \<Longrightarrow> pg_put (\<lambda>_ _. 0) test_ps st (HashEGN (\<lambda>_ _. 0) egn []) ''x'' ChannelOnline now = Inr (p, st') \<Longrightarrow>
      vote_step ex_day (ex_event egn now) (st, board_of one_db, one_db) = (Failure 502 ''board_error'', st', board_of one_db, one_db)"
    using ex_answer(2) by (simp add: vote_step_def HandleSubmit_def ex_voter decode calm_record forwardToBulletinBoard_def ex_codec StatusCreated_def)
qed

definition ex_events :: "event list" where
  "ex_events = [ex_event ''1234567890'' 1, ex_event ''12'' 2, ex_event ''1234567891'' 3]"

text \<open>A vote with a receipt, a request that is refused, and a vote that the board refuses: its voter has no receipt.\<close>

theorem receipts_are_kept_witness:
  "\<exists>resps st b db. voting_run ex_day ex_events (empty_db, board_of empty_board_db, empty_board_db) = (resps, st, b, db)
    \<and> map status_of resps = [201, 400, 502] \<and> distinct (map BallotRecord.BallotID (ballots db)) \<and> ''x'' \<in> BallotRecord.BallotID ` set (ballots db)"
proof -
  let ?put = "pg_put (\<lambda>_ _. 0) test_ps" and ?e = "HashEGN (\<lambda>_ _. 0) ''1234567890'' []" and ?e' = "HashEGN (\<lambda>_ _. 0) ''1234567891'' []"
  have valid: "isValidEGN ''1234567890''" "\<not> isValidEGN ''12''" "isValidEGN ''1234567891''" by (simp_all add: isValidEGN_def)
  obtain st where "record_all ?put [(?e, ''x'', ChannelOnline, 1), (?e', ''x'', ChannelOnline, 3)] empty_db = Inr st"
    using pg_record_all [of "[(?e, ''x'', ChannelOnline, 1), (?e', ''x'', ChannelOnline, 3)]" "\<lambda>_ _. 0" test_ps]
    by (auto simp: text_ok_HashEGN text_ok_x)
  then obtain p1 st1 p2 where put: "?put empty_db ?e ''x'' ChannelOnline 1 = Inr (p1, st1)" "?put st1 ?e' ''x'' ChannelOnline 3 = Inr (p2, st)"
    by (auto simp: record_all_def)
  from ex_steps(2) [OF valid(1) put(1)] obtain resp where
    first: "vote_step ex_day (ex_event ''1234567890'' 1) (empty_db, board_of empty_board_db, empty_board_db) = (Success 201 resp, st1, board_of one_db, one_db)" ..
  have run: "voting_run ex_day ex_events (empty_db, board_of empty_board_db, empty_board_db)
      = ([Success 201 resp, Failure 400 ''invalid_egn'', Failure 502 ''board_error''], st, board_of one_db, one_db)"
    by (simp add: ex_events_def first ex_steps(1) [OF valid(2)] ex_steps(3) [OF valid(3) put(2)])
  have ok: "\<forall>e \<in> set ex_events. event_ok (\<lambda>_. 0) ex_day e" by (simp add: ex_events_def ex_event_ok)
  have "map ballot_of (receipted ex_day ex_events [Success 201 resp, Failure 400 ''invalid_egn'', Failure 502 ''board_error'']) = [''x'']"
    by (simp add: ex_events_def ev_submission_def ex_voter ex_no_voter valid ballot_of_def)
  with receipts_are_kept [OF ok example_dbs(1) example_boards(1) run, where scan = "\<lambda>x. x"]
  show ?thesis unfolding run by (auto simp: empty_board_db_def subseq_singleton_left)
qed

end
