(* ===== verification/Spec2Isabelle.thy ===== *)
theory Spec2Isabelle
  imports Merkle_Verify Crypto_Props Collection_Props Board_Props Tally_Claims Election Verification_Props Auth_Props Dedup_Props Services Machine_Queue Voting
begin

text \<open>
  The services of the voting system \<open>otvoren-vot\<close> (Go): a voter logs in at the auth service and
  submits an encrypted ballot to the collection service; that one keeps which ballot of a voter is
  the last one and forwards the ballot, without the voter, to the bulletin board; the board
  publishes its ballots under a Merkle tree; the tally service takes the IDs of the active ballots
  from the collection service, reads the board page by page, adds the active ballots up and has five
  trustees decrypt the sums.  Beside them stand the verification service (codes on a second channel),
  the circuit that proves which ballots were counted, and the ballot queue of the voting machine.

  The theories, with the files under \<open>src/\<close> they model.

  \<^item> \<open>Prelude\<close>: Go's byte slices, errors, bit operations and encodings; folds with errors; the collection
    \<open>go_defs\<close>.  \<open>Text_Encoding\<close>: base64, integers as text, the list separators.  \<open>Http\<close>: requests and
    responses, \<open>pkg/middleware/apikey.go\<close>, \<open>pkg/jwtauth\<close>, the origin middleware of the collection.
  \<^item> \<open>Merkle_Hash\<close>, \<open>Merkle_Tree\<close>, \<open>Merkle_Verify\<close>: \<open>crypto/merkle\<close>.  The tree of RFC 6962 as a
    recursive specification, the incremental tree of the code that refines it, and the verifiers,
    complete for its proofs and sound up to a collision of two hashed inputs that the theorems name.
  \<^item> \<open>Group\<close>, \<open>Group_Instance\<close>, \<open>Elgamal\<close>, \<open>Lagrange\<close>, \<open>Proofs\<close>, \<open>Threshold\<close>, \<open>Crypto_Props\<close>:
    \<open>crypto/group\<close>, \<open>internal\<close>, \<open>elgamal\<close>, \<open>proof\<close>, \<open>threshold\<close>.  Encodings, discrete logarithm
    search, encrypted ballots and their sums, the zero-knowledge proofs (completeness; soundness
    as special soundness, from two accepting runs), key generation and threshold decryption.
  \<^item> \<open>Voter_Map\<close>, \<open>Override_Audit\<close>, \<open>Collection\<close>, \<open>Collection_Props\<close>: \<open>collection/votermap\<close>,
    \<open>store\<close>, \<open>audit\<close>, \<open>handler.go\<close>.  The in-memory and the PostgreSQL store satisfy one locale
    (\<open>voter_store\<close>, extended by \<open>audit_store\<close> and \<open>audited\<close>); the properties are proved in it and
    obtained for both by interpretation.
  \<^item> \<open>Board_Store\<close>, \<open>Board\<close>, \<open>Board_Api\<close>, \<open>Board_Props\<close>: \<open>bulletin-board/store\<close>, \<open>board\<close>,
    \<open>api\<close> and the tally's client \<open>tally/bbclient.go\<close>.  Runs of appends, seals and restarts are
    two step relations, within the life of a process and with restarts, with what they preserve.
  \<^item> \<open>Tally_Ceremony\<close>, \<open>Tally_State\<close>, \<open>Tally_Handler\<close>, \<open>Tally_Run\<close>, \<open>Tally_Props\<close>, \<open>Tally_Claims\<close>:
    \<open>tally\<close>.  The decryption ceremony as a state machine whose steps are the requests, the two
    sections of the background tally and restarts from the crash journal.
  \<^item> \<open>Return_Codes\<close>, \<open>Verification_Session\<close>, \<open>Verification_Handler\<close>, \<open>Verification_Props\<close>:
    \<open>verification\<close>.  Scalars live on a heap, since the code zeroes them in place behind
    shared pointers.
  \<^item> \<open>Auth_Session\<close>, \<open>Auth_Handler\<close>, \<open>Auth_Props\<close>: \<open>auth\<close>.  Redis is the locale \<open>redis_laws\<close>, a
    key-value database with expiring keys, interpreted on a concrete one; a call may fail before
    or after it took effect, or between two commands of a pipeline.
  \<^item> \<open>Dedup_Circuit\<close>, \<open>Dedup_Witness\<close>, \<open>Dedup_Props\<close>: \<open>crypto/gnark\<close>.  The API of gnark is a record of
    functions with the locale \<open>gnark_laws\<close>, interpreted on arithmetic modulo the order of BN254.
  \<^item> \<open>Migrations\<close>, \<open>Config\<close>, \<open>Services\<close>, \<open>Machine_Queue\<close>: the database migrations, the settings
    (\<open>config.go\<close>) and \<open>main.go\<close> of every service with its routes, and \<open>machine/ballot\<close>.
  \<^item> \<open>Voting\<close>, \<open>Election\<close> and the rest of this theory: properties that span the services.  \<open>Voting\<close> runs
    requests against the collection service with the board behind its router; \<open>Election\<close> and the
    theorems below follow the ballots to the result.

  How code is read.  A handler is a function from the request and the state of its service to a
  response and the new state; a critical section of a mutex is one step, and what may happen
  between two sections is a sequence of steps.  Errors are values (a sum with the error on the
  left); a panic of Go is a value too where the code can reach one.  A lost call to a database is
  an argument that says whether it was lost before or after it took effect.  PostgreSQL's columns
  are as their types have them: \<open>jsonb\<close> keeps a normal form, which is a parameter, \<open>TIMESTAMPTZ\<close>
  microseconds, \<open>TEXT\<close> no NUL byte; an ID too long for an index is a failing call.  Properties of
  the board's runs suppose one process that writes to its tables.  Go maps are functions
  or association lists in an order that is a parameter where the order shows.  Lengths and
  positions are natural numbers or integers; where the width of a machine integer matters (the
  indices of shares, the fields of a hashed row, the bits of a proof's index) it is written out.

  Loops.  Each is a recursion over a list or ends by a measure, except one: the client's page loop
  \<open>fetch_loop\<close> is a partial function, since a server that always sends a cursor keeps it for ever,
  and is shown to end against the board's own handler.  Loops that retry run over the list of
  their attempts, as many as the code has.  No fuel is used.

  Parameters.  SHA-256, HMAC, ristretto255, ECDSA, Ed25519 and JWT, JSON and JCS, Poseidon2,
  Groth16, PostgreSQL's scripts, Redis, the clock, the random source and the disk are arguments.
  What the properties need of them is a hypothesis or a locale named for it: group laws and
  encodings (\<open>ristretto\<close>), a JSON codec that reads back what it wrote (\<open>codec_ok\<close>), a token
  library that accepts what it signed.  No collision resistance is assumed: where it matters the
  theorem gives the colliding pair as an alternative.

  What modelling showed.  Among others: a satisfied circuit can count a ballot twice
  (\<open>repeated_ballot_accepted\<close>) and honest batches can be unprovable (\<open>honest_batch_provable\<close>); two
  overlapping reconstructions give the codes of the secret 0 (\<open>concurrent_quorum_zero_secret\<close>); a
  ceremony recovered before decryption never moves again (\<open>recovered_ceremony_stuck\<close>); a ballot that
  the board refused stays the voter's active one (\<open>submit_refused_by_board\<close>); a restart can change
  the root of the board (\<open>restart_changes_root\<close>); an insert that took effect before its error puts
  the rows of the board ahead of its tree (\<open>lost_insert_hides_next_ballot\<close>).

  Not modelled: TLS itself, timeouts, timers, signals and shutdown of the \<open>main\<close> functions; logging and the writing of
  JSON responses (a response is its status, headers that matter and data); the HTML template of the
  login page; the list of parties of the demo election; the helper of the integration tests
  (\<open>bulletin-board/internal/testdb\<close>); the front ends in other languages.
\<close>

section \<open>An election from the first vote to the result\<close>

text \<open>
  What is on the board and in the voter map when the ceremony starts: every submitted ballot is on
  the board, under an ID of its own, and encrypts its vote under the election key, whose shares
  the trustees have.
\<close>

definition election_board ::
  "(bytes \<Rightarrow> bytes) \<Rightarrow> ('s::field, 'e::ab_group_add) tally_env \<Rightarrow> 's list \<Rightarrow> nat \<Rightarrow> (string \<Rightarrow> nat) \<Rightarrow> (string \<Rightarrow> nat \<Rightarrow> 's) \<Rightarrow> submission list \<Rightarrow> BallotRecord list \<Rightarrow> bool" where
  "election_board wire te F n vote rand subs rows \<longleftrightarrow>
     distinct (map (\<lambda>x. fst (snd x)) subs) \<and> (\<forall>x \<in> set subs. fst (snd x) \<in> BallotRecord.BallotID ` set rows)
     \<and> (\<forall>r \<in> set rows. encrypted_vote te (smul (te_prims te) (peval F 0) (gen (te_prims te))) n vote rand (serialize wire r))
     \<and> (\<forall>j < n. (\<Sum>e\<in>fst ` set subs. rand (last_vote subs e) j) \<noteq> 0)"

definition votes_for :: "(string \<Rightarrow> nat) \<Rightarrow> submission list \<Rightarrow> nat \<Rightarrow> nat" where
  "votes_for vote subs j = card {e \<in> fst ` set subs. vote (last_vote subs e) = j}"

text \<open>
  An election from the first vote to the result.  Voters submit ballots, some more than once,
  to the PostgreSQL voter map; the ballots are on the bulletin board; the ceremony is started with
  the voter map's active set, the tally service reads the whole board page by page, adds up the
  active ballots, and five honest trustees send their partial decryptions.  Then the results
  endpoint reports, for every party, the number of voters whose last ballot was a vote for it,
  and as the number of ballots the number of voters.
\<close>

theorem election_end_to_end:
  assumes store: "record_all (pg_put hmac ps) subs \<lparr>voters = [], voter_ballot_history = []\<rparr> = Inr st" "subs \<noteq> []"
    and board: "db_inv db" "election_board wire te F n vote rand subs (ballots db)"
    and read: "FetchAllBallots url_ok srv decode_page c = Some (Inr fetched)" "fetched = map (serialize wire) (ballots db)"
    and start: "handleStart te decode_start mkdir_fails disk_fails now (Inr True) body sv0 = (Success status resp, sv1)"
      "decode_start (take maxStartBodyBytes body) = Some req" "sr_ActiveSet req = pg_ActiveSet scan ps st"
    and config: "codec_ok te" "te_electionID te \<noteq> ''''" "int (card (fst ` set subs)) \<le> MaxDecrypt"
    and quorum: "\<And>cs tr contexts. ceremony (runTally_compute te f2 (runTally_fetch te f1 (Inr fetched) sv1)) = Some cs \<Longrightarrow>
      tallyResult cs = Some tr \<Longrightarrow> slotContexts te cs = Inr contexts \<Longrightarrow>
      honest_quorum te F tr contexts idxs pss decode_sub bodies"
  shows "\<exists>r. handleResults (CeremonyID resp) (submit_all te decode_sub now' (CeremonyID resp) bodies
        (runTally_compute te f2 (runTally_fetch te f1 (Inr fetched) sv1))) = Success StatusOK r
    \<and> rr_Results r = map (\<lambda>j. int (votes_for vote subs j)) [0..<n] \<and> rr_BallotCount r = int (card (fst ` set subs))
    \<and> rr_ElectionID r = te_electionID te"
proof -
  let ?act = "pg_ActiveSet scan ps st" and ?voters = "fst ` set subs"
  let ?bs = "filter (\<lambda>b. sb_BallotID b \<in> set ?act) fetched"
  have active: "mset ?act = image_mset (last_vote subs) (mset_set ?voters)"
    using pg.record_all_reports(4) [OF pg_inv_empty store(1)] by (simp add: last_vote_def [abs_def] comp_def)
  have ids: "map sb_BallotID fetched = map BallotRecord.BallotID (ballots db)" by (simp add: read(2) serialize_def)
  have "distinct (map sb_BallotID fetched)"
    using board(1) by (simp only: ids db_inv_def)
  moreover have "(\<lambda>x. fst (snd x)) ` set subs \<subseteq> sb_BallotID ` set fetched"
    using board(2) by (auto simp: election_board_def read(2) serialize_def image_image)
  ultimately have rows: "mset (map sb_BallotID ?bs) = image_mset (last_vote subs) (mset_set ?voters)"
    using board(2) active by (intro active_rows) (simp_all add: election_board_def)
  have count: "length ?bs = card ?voters"
    using arg_cong [OF rows, of size] by (simp del: mset_map mset_filter)
  from handleStart_started [OF start(1)] start(2,3) obtain cs where
    cs: "ceremony sv1 = Some cs" "job sv1 = Fetching" "ActiveSet cs = ?act" "?act \<noteq> []" "cs_ElectionID cs = te_electionID te"
      "stateDir cs \<noteq> ''''" "cs_ID cs = CeremonyID resp" by auto
  have "filter_active cs fetched = ?bs" using cs(3,4) by (simp add: filter_active_def)
  moreover have "?bs \<noteq> []" using count store(2) by (metis card_eq_0_iff image_is_empty length_0_conv List.finite_set finite_imageI set_empty)
  moreover have "int (length ?bs) \<le> MaxDecrypt" using count config(3) by simp
  moreover have "\<forall>b \<in> set ?bs. encrypted_vote te (smul (te_prims te) (peval F 0) (gen (te_prims te))) n vote rand b"
    using board(2) by (auto simp: election_board_def read(2))
  moreover have "\<forall>j < n. sum_list (map (\<lambda>b. rand (sb_BallotID b) j) ?bs) \<noteq> 0"
    using board(2) sum_over_voters [OF rows, of "\<lambda>i. rand i j" for j] by (simp add: election_board_def)
  ultimately obtain cs' tr contexts jf where
    run: "runTally_compute te f2 (runTally_fetch te f1 (Inr fetched) sv1) = \<lparr>ceremony = Some cs', journal = jf, job = Idle\<rparr>"
    and a: "awaiting te F (map (\<lambda>j. sum_list (map (\<lambda>b. vote_bit vote j (sb_BallotID b)) ?bs)) [0..<n]) cs' tr contexts"
    and cs': "Partials cs' = Some []" "TrusteeOrder cs' = []" "cs_ID cs' = cs_ID cs" "cs_ElectionID cs' = cs_ElectionID cs"
      "cs_BallotCount cs' = int (length ?bs)"
    using tally_of_fetched [OF config(1) cs(1,2) _ cs(6), of fetched ?bs F n vote rand f2 f1] cs(5) config(2) by auto
  have "honest_quorum te F tr contexts idxs pss decode_sub bodies"
    using quorum run a by (auto simp: awaiting_def)
  moreover have "cs' = after_submissions idxs pss 0 cs'" using cs'(1,2) by (simp add: after_submissions_def)
  ultimately obtain jf' where final: "submit_all te decode_sub now' (cs_ID cs') bodies \<lparr>ceremony = Some cs', journal = jf, job = Idle\<rparr>
      = \<lparr>ceremony = Some (decrypted_state idxs pss (map (\<lambda>j. sum_list (map (\<lambda>b. vote_bit vote j (sb_BallotID b)) ?bs)) [0..<n]) now' cs'),
         journal = jf', job = Idle\<rparr>"
    using submit_all_honest [OF a, of idxs pss decode_sub bodies "\<lparr>ceremony = Some cs', journal = jf, job = Idle\<rparr>" now'] by auto
  have "sum_list (map (\<lambda>b. vote_bit vote j (sb_BallotID b)) ?bs) = votes_for vote subs j" for j
    using sum_over_voters [OF rows, of "vote_bit vote j"] count_votes [of ?voters vote j "last_vote subs"] by (simp add: votes_for_def)
  then show ?thesis
    using final cs'(3-5) cs(5,7) count
    by (simp add: run handleResults_def decrypted_state_def after_submissions_def comp_def)
qed

definition example_subs :: "submission list" where
  "example_subs = [(''v'', ''x'', ChannelOnline, 1)]"

lemma example_fetch:
  "FetchAllBallots (\<lambda>_. True) (board_server (\<lambda>p. if page_records p = [] then [] else [1]) (board_of one_db, one_db))
     (\<lambda>bs. Some (if bs = [] then [] else [serialize no_blanks one_ballot], '''')) (NewBBClient ''http://b'') = Some (Inr (map (serialize no_blanks) (ballots one_db)))"
  by (rule FetchAllBallots_board [OF example_dbs(2)])
    (auto simp: example_pages NewBBClient_def defaultPageLimit_def maxResponseBytes_def one_db_def [THEN arg_cong [of _ _ ballots]])

lemma example_board: "election_board no_blanks zp_te [1] 1 (\<lambda>_. 0) (\<lambda>_ _. 1) example_subs (ballots one_db)"
proof -
  have "DecodeElement Zp (zp_encode 1) = Inr 1" "DecodeElement Zp (zp_encode 2) = Inr 2"
    using zp_2_neq_0 by (simp_all add: DecodeElement_def length_zp_encode Zp_def zp_decode_encode)
  then have "ciphertextFromHex Zp (hex_encode (zp_encode 1 @ zp_encode 2)) = Inr (enc Zp (smul Zp (peval [1] 0) (gen Zp)) 1 (of_nat 1))"
    by (simp add: ciphertextFromHex_def CiphertextFromBytes_def length_zp_encode enc_def) (simp add: Zp_def)
  then show ?thesis
    by (simp add: election_board_def encrypted_vote_def example_subs_def one_db_def one_ballot_def zp_te_def vote_bit_def serialize_def no_blanks_def)
qed

text \<open>A ceremony over the example's board, with five trustees whose requests decrypt its tally.\<close>

lemma example_ceremony:
  "\<exists>resp sv1 pss decode bodies.
    handleStart zp_te (\<lambda>_. Some \<lparr>sr_ActiveSet = [''x''], sr_ActiveSetSignature = ''''\<rparr>) False (\<lambda>_. False) 7 (Inr True) [] fresh_service = (Success 202 resp, sv1)
    \<and> CeremonyID resp = ''ceremony-7''
    \<and> (\<forall>cs tr contexts. ceremony (runTally_compute zp_te False (runTally_fetch zp_te False (Inr (map (serialize no_blanks) (ballots one_db))) sv1)) = Some cs \<longrightarrow>
      tallyResult cs = Some tr \<longrightarrow> slotContexts zp_te cs = Inr contexts \<longrightarrow> honest_quorum zp_te [1] tr contexts [1, 2, 3, 4, 5] pss decode bodies)"
proof -
  from zp_started obtain jf where started: "handleStart zp_te (\<lambda>_. Some \<lparr>sr_ActiveSet = [''x''], sr_ActiveSetSignature = ''''\<rparr>) False (\<lambda>_. False) 7 (Inr True) [] fresh_service
    = (Success 202 \<lparr>CeremonyID = ''ceremony-7'', Status = PhaseFetching\<rparr>, \<lparr>ceremony = Some zp_start, journal = Some jf, job = Fetching\<rparr>)" ..
  let ?sv1 = "\<lparr>ceremony = Some zp_start, journal = Some jf, job = Fetching\<rparr>"
  let ?fetched = "map (serialize no_blanks) (ballots one_db)"
  have bs: "filter_active zp_start ?fetched = ?fetched" "?fetched \<noteq> []" "int (length ?fetched) \<le> MaxDecrypt"
    by (simp_all add: filter_active_def zp_start_def one_db_def one_ballot_def serialize_def no_blanks_def MaxDecrypt_def)
  have votes: "\<forall>b \<in> set ?fetched. encrypted_vote zp_te (smul (te_prims zp_te) (peval [1] 0) (gen (te_prims zp_te))) 1 (\<lambda>_. 0) (\<lambda>_ _. 1) b"
    using example_board by (simp add: election_board_def)
  from tally_of_fetched [OF zp_te_codec, of ?sv1 zp_start ?fetched ?fetched "[1]" 1 "\<lambda>_. 0" "\<lambda>_ _. 1" False False] bs votes
  obtain cs tr contexts jf' ms where
    run: "runTally_compute zp_te False (runTally_fetch zp_te False (Inr ?fetched) ?sv1) = \<lparr>ceremony = Some cs, journal = jf', job = Idle\<rparr>"
    and a: "awaiting zp_te [1] ms cs tr contexts"
    by (auto simp: zp_start_def one_db_def)
  from quorum_exists [OF a _ zp_keys] obtain pss decode bodies where
    q: "honest_quorum zp_te [1] tr contexts [1, 2, 3, 4, 5] pss decode bodies" by auto
  have "honest_quorum zp_te [1] tr' contexts' [1, 2, 3, 4, 5] pss decode bodies"
    if "ceremony (runTally_compute zp_te False (runTally_fetch zp_te False (Inr ?fetched) ?sv1)) = Some cs'"
      "tallyResult cs' = Some tr'" "slotContexts zp_te cs' = Inr contexts'" for cs' tr' contexts'
    using that q run a by (simp add: awaiting_def)
  with started show ?thesis
    by (intro exI [of _ "\<lparr>CeremonyID = ''ceremony-7'', Status = PhaseFetching\<rparr>"] exI [of _ ?sv1] exI [of _ pss] exI [of _ decode] exI [of _ bodies] conjI) auto
qed

lemma zp_te_example: "te_electionID zp_te = ''e''" "int 1 \<le> MaxDecrypt"
  by (simp_all add: zp_te_def MaxDecrypt_def)

theorem election_end_to_end_witness:
  "\<exists>r (sv :: (scalar, scalar) Service). handleResults ''ceremony-7'' sv = Success StatusOK r \<and> rr_Results r = [1] \<and> rr_BallotCount r = 1 \<and> rr_ElectionID r = ''e''"
proof -
  obtain st where st: "record_all (pg_put (\<lambda>_ _. 0) test_ps) example_subs \<lparr>voters = [], voter_ballot_history = []\<rparr> = Inr st"
    using pg_record_all [of example_subs "\<lambda>_ _. 0" test_ps] by (auto simp: example_subs_def text_ok_def)
  have "mset (pg_ActiveSet (\<lambda>x. x) test_ps st) = {#''x''#}"
    using pg.record_all_reports(4) [OF pg_inv_empty st] by (simp add: example_subs_def last_ballot_def submissions_of_def)
  then have act: "sr_ActiveSet \<lparr>sr_ActiveSet = [''x''], sr_ActiveSetSignature = ''''\<rparr> = pg_ActiveSet (\<lambda>x. x) test_ps st" by simp
  obtain resp sv1 pss decode bodies where
    started: "handleStart zp_te (\<lambda>_. Some \<lparr>sr_ActiveSet = [''x''], sr_ActiveSetSignature = ''''\<rparr>) False (\<lambda>_. False) 7 (Inr True) [] fresh_service = (Success 202 resp, sv1)"
    and ident: "CeremonyID resp = ''ceremony-7''"
    and quorum: "\<And>cs tr contexts. ceremony (runTally_compute zp_te False (runTally_fetch zp_te False (Inr (map (serialize no_blanks) (ballots one_db))) sv1)) = Some cs \<Longrightarrow>
      tallyResult cs = Some tr \<Longrightarrow> slotContexts zp_te cs = Inr contexts \<Longrightarrow> honest_quorum zp_te [1] tr contexts [1, 2, 3, 4, 5] pss decode bodies"
    using example_ceremony by blast
  have config: "te_electionID zp_te \<noteq> ''''" "int (card (fst ` set example_subs)) \<le> MaxDecrypt" "example_subs \<noteq> []"
    by (simp_all add: zp_te_example example_subs_def MaxDecrypt_def)
  have "\<exists>r. handleResults (CeremonyID resp) (submit_all zp_te decode 9 (CeremonyID resp) bodies
          (runTally_compute zp_te False (runTally_fetch zp_te False (Inr (map (serialize no_blanks) (ballots one_db))) sv1))) = Success StatusOK r
      \<and> rr_Results r = map (\<lambda>j. int (votes_for (\<lambda>_. 0) example_subs j)) [0..<1] \<and> rr_BallotCount r = int (card (fst ` set example_subs))
      \<and> rr_ElectionID r = te_electionID zp_te"
    by (rule election_end_to_end [OF st config(3) example_dbs(2) example_board example_fetch refl started refl act zp_te_codec config(1,2)])
      (rule quorum)
  then show ?thesis
    by (auto simp: ident votes_for_def example_subs_def zp_te_example)
qed

text \<open>
  C1.  An election from the requests to the result.  Voters send ballots, some more than once, to the
  collection service, which records them in the PostgreSQL voter map and posts them to the board
  through its router; each gets a 201.  Each request carries an encryption of its vote under the
  election key, in the JSON that the board stores and its pages give back.  Then the ceremony is started with the voter map's
  active set, the tally service reads the whole board from its handler page by page, adds up the
  active ballots, and five honest trustees send their partial decryptions.  The results endpoint
  reports, for every party, the number of voters whose last request was a vote for it, and as the
  number of ballots the number of voters.
\<close>

theorem election_from_requests:
  assumes day: "\<forall>e \<in> set es. event_ok sha vd e" "Board_New sha db_fails empty_board_db = Inr b0"
      "voting_run vd es (empty_db, b0, empty_board_db) = (resps, st, b, db)" "\<forall>resp \<in> set resps. created resp" "submitted vd es \<noteq> []"
    and votes: "\<And>e row. e \<in> set es \<Longrightarrow> row_of vd e row \<Longrightarrow>
      encrypted_vote te (smul (te_prims te) (peval F 0) (gen (te_prims te))) n vote rand (serialize wire row)"
    and rand: "\<And>j. j < n \<Longrightarrow> (\<Sum>v\<in>fst ` set (submitted vd es). rand (last_vote (submitted vd es) v) j) \<noteq> 0"
    and pages: "length (ballots db) < 2 ^ 63" "url_ok (baseURL c @ ''/api/v1/board'')" "0 < pageLimit c" "pageLimit c \<le> 1000"
      "\<And>k. k \<le> length (ballots db) \<Longrightarrow> decode_page (take maxResponseBytes (encode (page_after (b, db) (pageLimit c) k)))
        = Some (map (serialize wire) (page_records (page_after (b, db) (pageLimit c) k)), page_cursor (page_after (b, db) (pageLimit c) k))"
    and start: "handleStart te decode_start mkdir_fails disk_fails now (Inr True) body sv0 = (Success status resp, sv1)"
      "decode_start (take maxStartBodyBytes body) = Some req" "sr_ActiveSet req = pg_ActiveSet scan (vd_store vd) st"
    and config: "codec_ok te" "te_electionID te \<noteq> ''''" "int (card (fst ` set (submitted vd es))) \<le> MaxDecrypt"
    and quorum: "\<And>fetched cs tr contexts. FetchAllBallots url_ok (board_server encode (b, db)) decode_page c = Some (Inr fetched) \<Longrightarrow>
      ceremony (runTally_compute te f2 (runTally_fetch te f1 (Inr fetched) sv1)) = Some cs \<Longrightarrow>
      tallyResult cs = Some tr \<Longrightarrow> slotContexts te cs = Inr contexts \<Longrightarrow> honest_quorum te F tr contexts idxs pss decode_sub bodies"
  shows "\<exists>fetched r. FetchAllBallots url_ok (board_server encode (b, db)) decode_page c = Some (Inr fetched)
    \<and> handleResults (CeremonyID resp) (submit_all te decode_sub now' (CeremonyID resp) bodies
        (runTally_compute te f2 (runTally_fetch te f1 (Inr fetched) sv1))) = Success StatusOK r
    \<and> rr_Results r = map (\<lambda>j. int (votes_for vote (submitted vd es) j)) [0..<n]
    \<and> rr_BallotCount r = int (card (fst ` set (submitted vd es))) \<and> rr_ElectionID r = te_electionID te"
proof -
  let ?subs = "submitted vd es"
  from voting_run_result [OF day(1) Board_New_for [OF example_dbs(1) day(2)] day(3)] obtain subs rs where
    d: "day_result sha vd es resps empty_db st empty_board_db (b, db) subs rs" by blast
  have s: "subs = ?subs" "map BallotRecord.BallotID rs = map ballot_of ?subs"
    using day_result_all [OF d day(4) voting_run_length [OF day(3)]] by auto
  have rows: "ballots db = rs" using d by (simp add: day_result_def empty_board_db_def)
  obtain lv where "board_inv sha lv (b, db)" using d by (auto simp: day_result_def)
  then have inv: "db_inv db" by (simp add: board_inv_def)
  have store: "record_all (pg_put (vd_hmac vd) (vd_store vd)) ?subs empty_db = Inr st" using d s(1) by (simp add: day_result_def)
  have fetched: "FetchAllBallots url_ok (board_server encode (b, db)) decode_page c = Some (Inr (map (serialize wire) (ballots db)))"
    using inv pages by (rule FetchAllBallots_board)
  have ids: "map (\<lambda>x. fst (snd x)) ?subs = map BallotRecord.BallotID (ballots db)"
    using s(2) by (simp add: rows ballot_of_def [abs_def])
  have "election_board wire te F n vote rand ?subs (ballots db)"
    unfolding election_board_def
  proof (intro conjI ballI allI impI)
    show "distinct (map (\<lambda>x. fst (snd x)) ?subs)" using inv by (simp only: ids db_inv_def)
    show "fst (snd x) \<in> BallotRecord.BallotID ` set (ballots db)" if "x \<in> set ?subs" for x
      using that arg_cong [OF ids, of set] by auto
    show "encrypted_vote te (smul (te_prims te) (peval F 0) (gen (te_prims te))) n vote rand (serialize wire row)" if "row \<in> set (ballots db)" for row
      using that votes d by (auto simp: day_result_def rows)
  qed (rule rand)
  then show ?thesis
    using election_end_to_end [OF store day(5) inv _ fetched refl start config] quorum fetched by blast
qed

lemma ex_row: "row_of ex_day (ex_event egn now) row \<Longrightarrow> serialize no_blanks row = serialize no_blanks one_ballot"
  by (auto simp: row_of_def ex_lib_of_def serialize_def no_blanks_def one_ballot_def)

theorem election_from_requests_witness:
  "\<exists>r (sv :: (scalar, scalar) Service). handleResults ''ceremony-7'' sv = Success StatusOK r \<and> rr_Results r = [1] \<and> rr_BallotCount r = 1 \<and> rr_ElectionID r = ''e''"
proof -
  let ?es = "[ex_event ''1234567890'' 1]" and ?x = "(HashEGN (\<lambda>_ _. 0) ''1234567890'' [], ''x'', ChannelOnline, 1)"
  have valid: "isValidEGN ''1234567890''" by (simp add: isValidEGN_def)
  obtain st where store: "record_all (pg_put (\<lambda>_ _. 0) test_ps) [?x] empty_db = Inr st"
    using pg_record_all [of "[?x]" "\<lambda>_ _. 0" test_ps] by (auto simp: text_ok_HashEGN text_ok_x)
  then obtain p where put: "pg_put (\<lambda>_ _. 0) test_ps empty_db (HashEGN (\<lambda>_ _. 0) ''1234567890'' []) ''x'' ChannelOnline 1 = Inr (p, st)"
    by (auto simp: record_all_def)
  from ex_steps(2) [OF valid put] obtain rc where
    run: "voting_run ex_day ?es (empty_db, board_of empty_board_db, empty_board_db) = ([Success 201 rc], st, board_of one_db, one_db)" by auto
  have subs: "submitted ex_day ?es = [?x]" by (simp add: ev_submission_def ex_voter valid)
  from pg.record_all_reports(4) [OF pg_inv_empty store] have "mset (pg_ActiveSet (\<lambda>x. x) test_ps st) = {#''x''#}"
    by (simp add: last_ballot_def submissions_of_def)
  then have act: "sr_ActiveSet \<lparr>sr_ActiveSet = [''x''], sr_ActiveSetSignature = ''''\<rparr> = pg_ActiveSet (\<lambda>x. x) (vd_store ex_day) st" by simp
  obtain resp sv1 pss decode bodies where
    started: "handleStart zp_te (\<lambda>_. Some \<lparr>sr_ActiveSet = [''x''], sr_ActiveSetSignature = ''''\<rparr>) False (\<lambda>_. False) 7 (Inr True) [] fresh_service = (Success 202 resp, sv1)"
    and ident: "CeremonyID resp = ''ceremony-7''"
    and quorum: "\<And>cs tr contexts. ceremony (runTally_compute zp_te False (runTally_fetch zp_te False (Inr (map (serialize no_blanks) (ballots one_db))) sv1)) = Some cs \<Longrightarrow>
      tallyResult cs = Some tr \<Longrightarrow> slotContexts zp_te cs = Inr contexts \<Longrightarrow> honest_quorum zp_te [1] tr contexts [1, 2, 3, 4, 5] pss decode bodies"
    using example_ceremony by blast
  let ?client = "NewBBClient ''http://b''" and ?encode = "\<lambda>p :: page. if page_records p = [] then [] else [1 :: byte]"
    and ?decode = "\<lambda>bs :: bytes. Some (if bs = [] then [] else [serialize no_blanks one_ballot], '''')"
  have "\<exists>fetched r. FetchAllBallots (\<lambda>_. True) (board_server ?encode (board_of one_db, one_db)) ?decode ?client = Some (Inr fetched)
    \<and> handleResults (CeremonyID resp) (submit_all zp_te decode 9 (CeremonyID resp) bodies
        (runTally_compute zp_te False (runTally_fetch zp_te False (Inr fetched) sv1))) = Success StatusOK r
    \<and> rr_Results r = map (\<lambda>j. int (votes_for (\<lambda>_. 0) (submitted ex_day ?es) j)) [0..<1]
    \<and> rr_BallotCount r = int (card (fst ` set (submitted ex_day ?es))) \<and> rr_ElectionID r = te_electionID zp_te"
  proof (rule election_from_requests [OF _ example_boards(1) run _ _ _ _ _ _ _ _ _ started refl act zp_te_codec])
    show "encrypted_vote zp_te (smul (te_prims zp_te) (peval [1] 0) (gen (te_prims zp_te))) 1 (\<lambda>_. 0) (\<lambda>_ _. 1) (serialize no_blanks row)"
      if "e \<in> set ?es" "row_of ex_day e row" for e row
      using that example_board by (simp add: ex_row election_board_def one_db_def)
    show "honest_quorum zp_te [1] tr contexts [1, 2, 3, 4, 5] pss decode bodies"
      if "FetchAllBallots (\<lambda>_. True) (board_server ?encode (board_of one_db, one_db)) ?decode ?client = Some (Inr fetched)"
        "ceremony (runTally_compute zp_te False (runTally_fetch zp_te False (Inr fetched) sv1)) = Some cs"
        "tallyResult cs = Some tr" "slotContexts zp_te cs = Inr contexts" for fetched cs tr contexts
      using that example_fetch quorum by simp
  qed (simp_all add: ev_submission_def ex_voter valid ex_event_ok zp_te_example NewBBClient_def defaultPageLimit_def maxResponseBytes_def MaxDecrypt_def example_pages
      one_db_def [THEN arg_cong [of _ _ ballots]])
  then show ?thesis unfolding subs by (auto simp: ident zp_te_example votes_for_def)
qed

end
